(* ===== verification/Mil_Prelude.thy ===== *)
theory Mil_Prelude
  imports Main "HOL-Library.AList" "HOL-Library.Multiset" "HOL-Library.Log_Nat"
begin

text \<open>
  What the component theories share: the exceptions of the Python code as values, sequencing of
  fallible steps, Python dictionaries as association lists in insertion order, Python slices, and
  the facts about them that carry the component proofs.

  An exception is a value \<^term>\<open>Inl e\<close>, a normal return \<^term>\<open>Inr v\<close>. The state is returned only by a
  normal return: none of the modelled callers catches one of these exceptions and goes on.
  \<open>NoReturn\<close> is not an exception: it is the value of a loop whose fuel ran out, so a theorem
  that a call does not give it says that the loop ends.
\<close>

section \<open>Exceptions\<close>

datatype py_error =
    ValueError string
  | AssertionError
  | KeyError
  | IndexError
  | ZeroDivisionError
  | RuntimeError string
  | TypeError
  | AttributeError
  | NotImplementedError
  | NoReturn

type_synonym 'a result = "py_error + 'a"

named_theorems py_simps \<open>unfolding rules of the Python primitives\<close>

definition ebind :: "'a result \<Rightarrow> ('a \<Rightarrow> 'b result) \<Rightarrow> 'b result" where
  "ebind m f = (case m of Inl e \<Rightarrow> Inl e | Inr v \<Rightarrow> f v)"

definition py_assert :: "bool \<Rightarrow> unit result" where
  "py_assert b = (if b then Inr () else Inl AssertionError)"

lemma ebind_simps [simp, code]:
  "ebind (Inl e) f = Inl e"
  "ebind (Inr v) f = f v"
  by (simp_all add: ebind_def)

lemma ebind_eq_Inr [simp]: "ebind m f = Inr r \<longleftrightarrow> (\<exists>v. m = Inr v \<and> f v = Inr r)"
  by (cases m) auto

lemma ebind_eq_Inl: "ebind m f = Inl e \<longleftrightarrow> m = Inl e \<or> (\<exists>v. m = Inr v \<and> f v = Inl e)"
  by (cases m) auto

lemma ebind_cong [fundef_cong]:
  "m = n \<Longrightarrow> (\<And>v. n = Inr v \<Longrightarrow> f v = g v) \<Longrightarrow> ebind m f = ebind n g"
  by (cases n) simp_all

lemma ebind_assoc: "ebind (ebind m f) g = ebind m (\<lambda>v. ebind (f v) g)"
  by (cases m) auto

lemma py_assert_eq_Inr [simp]: "py_assert b = Inr u \<longleftrightarrow> b"
  by (simp add: py_assert_def)

lemma py_assert_simps [simp]: "py_assert True = Inr ()" "py_assert False = Inl AssertionError"
  by (simp_all add: py_assert_def)

text \<open>A loop \<^verbatim>\<open>for x in xs\<close> whose body may raise.\<close>

fun efold :: "('a \<Rightarrow> 's \<Rightarrow> 's result) \<Rightarrow> 'a list \<Rightarrow> 's \<Rightarrow> 's result" where
  "efold f [] s = Inr s"
| "efold f (x # xs) s = ebind (f x s) (efold f xs)"

lemma efold_append: "efold f (xs @ ys) s = ebind (efold f xs s) (efold f ys)"
proof (induction xs arbitrary: s)
  case (Cons x xs)
  then show ?case by (cases "f x s") simp_all
qed simp

lemma efold_invariant:
  assumes "efold f xs s = Inr t" and "P s"
    and "\<And>x s t. x \<in> set xs \<Longrightarrow> P s \<Longrightarrow> f x s = Inr t \<Longrightarrow> P t"
  shows "P t"
  using assms
proof (induction xs arbitrary: s)
  case Nil
  then show ?case by simp
next
  case (Cons x xs)
  from Cons.prems(1) obtain u where u: "f x s = Inr u" and rest: "efold f xs u = Inr t"
    by auto
  have "P u" using Cons.prems(2,3) u by auto
  then show ?case using Cons.IH [OF rest] Cons.prems(3) by auto
qed

text \<open>What one turn of a loop establishes and the others keep holds at its end.\<close>

lemma efold_establish:
  assumes "efold f xs s = Inr t" and "x \<in> set xs" and "\<And>s t. f x s = Inr t \<Longrightarrow> P t"
    and "\<And>y s t. f y s = Inr t \<Longrightarrow> P s \<Longrightarrow> P t"
  shows "P t"
proof -
  obtain ys zs where xs: "xs = ys @ x # zs" using assms(2) by (meson split_list)
  obtain u v where u: "f x u = Inr v" and rest: "efold f zs v = Inr t"
    using assms(1) by (auto simp: xs efold_append)
  show ?thesis by (rule efold_invariant [OF rest, where P = P]) (use assms(3) [OF u] assms(4) in blast)+
qed

lemma efold_cong [fundef_cong]:
  assumes "xs = ys" and "s = t" and "\<And>x u. x \<in> set ys \<Longrightarrow> f x u = g x u"
  shows "efold f xs s = efold g ys t"
proof -
  have "efold f ys t = efold g ys t"
    using assms(3)
  proof (induction ys arbitrary: t)
    case Nil
    then show ?case by simp
  next
    case (Cons y ys)
    have "efold f ys u = efold g ys u" for u
      by (rule Cons.IH) (simp add: Cons.prems)
    then have "efold f ys = efold g ys" by (rule ext)
    moreover have "f y t = g y t" by (simp add: Cons.prems)
    ultimately show ?case by simp
  qed
  with assms(1,2) show ?thesis by simp
qed

text \<open>A loop whose body cannot fail from a state that satisfies an invariant does not fail.\<close>

lemma efold_total:
  assumes "P s" and "\<And>x s. x \<in> set xs \<Longrightarrow> P s \<Longrightarrow> \<exists>t. f x s = Inr t \<and> P t"
  shows "\<exists>t. efold f xs s = Inr t \<and> P t"
  using assms
proof (induction xs arbitrary: s)
  case Nil
  then show ?case by simp
next
  case (Cons x xs)
  obtain u where "f x s = Inr u" "P u"
    using Cons.prems(2) [of x s] Cons.prems(1) by auto
  moreover have "\<exists>t. efold f xs u = Inr t \<and> P t"
    by (rule Cons.IH) (use \<open>P u\<close> Cons.prems(2) in auto)
  ultimately show ?case by auto
qed

text \<open>The loop that appends one result per element.\<close>

lemma efold_collect:
  assumes "\<And>x. x \<in> set xs \<Longrightarrow> \<exists>r. f x = Inr r"
  shows "\<exists>rs. efold (\<lambda>x acc. ebind (f x) (\<lambda>r. Inr (acc @ [r]))) xs acc = Inr (acc @ rs) \<and> list_all2 (\<lambda>x r. f x = Inr r) xs rs"
  using assms
proof (induction xs arbitrary: acc)
  case Nil
  then show ?case by simp
next
  case (Cons x xs)
  obtain r where r: "f x = Inr r" using Cons.prems by auto
  have "\<exists>rs. efold (\<lambda>x acc. ebind (f x) (\<lambda>r. Inr (acc @ [r]))) xs (acc @ [r]) = Inr ((acc @ [r]) @ rs) \<and>
    list_all2 (\<lambda>x r. f x = Inr r) xs rs"
    by (rule Cons.IH) (use Cons.prems in auto)
  then obtain rs where rs: "efold (\<lambda>x acc. ebind (f x) (\<lambda>r. Inr (acc @ [r]))) xs (acc @ [r]) = Inr ((acc @ [r]) @ rs)"
    "list_all2 (\<lambda>x r. f x = Inr r) xs rs" by blast
  show ?case by (rule exI [of _ "r # rs"]) (use r rs in simp)
qed

section \<open>Dictionaries\<close>

text \<open>
  A dictionary is the list of its items in insertion order: assignment to an existing key keeps
  its place, a new key goes to the end, deletion closes the gap.
\<close>

type_synonym ('k, 'v) dict = "('k \<times> 'v) list"

abbreviation dict_set :: "'k \<Rightarrow> 'v \<Rightarrow> ('k, 'v) dict \<Rightarrow> ('k, 'v) dict" where
  "dict_set \<equiv> AList.update"

abbreviation dict_del :: "'k \<Rightarrow> ('k, 'v) dict \<Rightarrow> ('k, 'v) dict" where
  "dict_del \<equiv> AList.delete"

abbreviation dict_keys :: "('k, 'v) dict \<Rightarrow> 'k list" where
  "dict_keys d \<equiv> map fst d"

abbreviation dict_values :: "('k, 'v) dict \<Rightarrow> 'v list" where
  "dict_values d \<equiv> map snd d"

abbreviation dict_ok :: "('k, 'v) dict \<Rightarrow> bool" where
  "dict_ok d \<equiv> distinct (dict_keys d)"

definition dict_get :: "('k, 'v) dict \<Rightarrow> 'k \<Rightarrow> 'v result" where
  "dict_get d k = (case map_of d k of None \<Rightarrow> Inl KeyError | Some v \<Rightarrow> Inr v)"

definition dict_update :: "('k, 'v) dict \<Rightarrow> ('k, 'v) dict \<Rightarrow> ('k, 'v) dict" where
  "dict_update d e = fold (\<lambda>(k, v). dict_set k v) e d"

lemma dict_get_eq_Inr [simp]: "dict_get d k = Inr v \<longleftrightarrow> map_of d k = Some v"
  by (simp add: dict_get_def split: option.splits)

lemma dict_get_eq_Inl: "dict_get d k = Inl e \<longleftrightarrow> map_of d k = None \<and> e = KeyError"
  by (auto simp: dict_get_def split: option.splits)

lemma dict_ok_set [simp]: "dict_ok (dict_set k v d) \<longleftrightarrow> dict_ok d"
proof
  show "dict_ok d \<Longrightarrow> dict_ok (dict_set k v d)" by (rule distinct_update)
  show "dict_ok (dict_set k v d) \<Longrightarrow> dict_ok d"
    by (induction d) (auto split: if_splits simp: dom_update)
qed

lemma dict_ok_del [simp]: "dict_ok d \<Longrightarrow> dict_ok (dict_del k d)"
  by (rule distinct_delete)

lemma set_dict_keys_set [simp]: "fst ` set (dict_set k v d) = insert k (fst ` set d)"
  by (simp add: dom_update)

text \<open>Sums over the values of a dictionary, before and after an assignment or a deletion.\<close>

lemma sum_list_dict_set:
  fixes f :: "'v \<Rightarrow> 'a :: comm_monoid_add"
  assumes "dict_ok d"
  shows "sum_list (map f (dict_values (dict_set k v d))) + (case map_of d k of None \<Rightarrow> 0 | Some w \<Rightarrow> f w)
    = sum_list (map f (dict_values d)) + f v"
  using assms
proof (induction d)
  case Nil
  then show ?case by simp
next
  case (Cons a d)
  obtain x y where a: "a = (x, y)" by force
  show ?case
  proof (cases "x = k")
    case True
    with Cons.prems a have "map_of d k = None" by (auto simp: map_of_eq_None_iff)
    with True a show ?thesis by (simp add: ac_simps)
  next
    case False
    with Cons a show ?thesis by (simp add: add.assoc)
  qed
qed

lemma sum_list_dict_del:
  fixes f :: "'v \<Rightarrow> 'a :: comm_monoid_add"
  assumes "dict_ok d"
  shows "sum_list (map f (dict_values (dict_del k d))) + (case map_of d k of None \<Rightarrow> 0 | Some w \<Rightarrow> f w)
    = sum_list (map f (dict_values d))"
  using assms
proof (induction d)
  case Nil
  then show ?case by simp
next
  case (Cons a d)
  obtain x y where a: "a = (x, y)" by force
  show ?case
  proof (cases "x = k")
    case True
    with Cons.prems a have "k \<notin> fst ` set d" by auto
    then have "dict_del k d = d" by (simp add: delete_id)
    with True a show ?thesis by (simp add: add.commute)
  next
    case False
    with Cons a show ?thesis by (simp add: add.assoc)
  qed
qed

section \<open>Slices and list indices\<close>

definition py_index :: "'a list \<Rightarrow> int \<Rightarrow> 'a result" where
  "py_index xs i =
     (if 0 \<le> i then (if nat i < length xs then Inr (xs ! nat i) else Inl IndexError)
      else if nat (- i) \<le> length xs then Inr (xs ! (length xs - nat (- i)))
      else Inl IndexError)"

definition py_last :: "'a list \<Rightarrow> 'a result" where
  "py_last xs = (if xs = [] then Inl IndexError else Inr (last xs))"

definition py_pop :: "'a list \<Rightarrow> ('a \<times> 'a list) result" where
  "py_pop xs = (if xs = [] then Inl IndexError else Inr (last xs, butlast xs))"

lemma py_last_eq_Inr [simp]: "py_last xs = Inr x \<longleftrightarrow> xs \<noteq> [] \<and> x = last xs"
  by (auto simp: py_last_def)

lemma py_index_Cons_0 [simp]: "py_index (x # xs) 0 = Inr x"
  by (simp add: py_index_def)

lemma py_index_of_nat: "py_index xs (int i) = (if i < length xs then Inr (xs ! i) else Inl IndexError)"
  by (simp add: py_index_def)

text \<open>The slice \<^verbatim>\<open>xs[start::step]\<close> with \<^verbatim>\<open>start >= 0\<close> and \<^verbatim>\<open>step > 0\<close>; Python raises on step 0.\<close>

fun stride :: "nat \<Rightarrow> nat \<Rightarrow> 'a list \<Rightarrow> 'a list" where
  "stride i step [] = []"
| "stride 0 step (x # xs) = x # stride (step - 1) step xs"
| "stride (Suc i) step (x # xs) = stride i step xs"

lemma set_stride_subset: "set (stride i step xs) \<subseteq> set xs"
  by (induction i step xs rule: stride.induct) auto

lemma count_list_map_of_less:
  "map_of d k = Some t \<Longrightarrow> f t \<le> (sum_list (map f (dict_values d)) :: nat)"
  by (induction d) (auto split: if_splits simp: trans_le_add2)

end
