(* ===== verification/Token_Blocks.thy ===== *)
theory Token_Blocks
  imports Mil_Prelude
begin

text \<open>
  \<^verbatim>\<open>vllm/block.py\<close> and \<^verbatim>\<open>vllm/utils.py\<close> (\<open>Device\<close>, \<open>Counter\<close>): logical token blocks, the identity of
  physical blocks, and the loop of \<^verbatim>\<open>vllm/sequence.py\<close> that spreads the tokens of a sequence over
  its logical blocks. The lemmas show that a list of logical blocks represents the token list it
  was built from: all blocks but the last are full, the tokens read back in order, and the number
  of blocks is the length divided by the block size, rounded up.
\<close>

section \<open>Devices and physical blocks\<close>

datatype device = GPU | CPU

text \<open>
  A \<open>PhysicalTokenBlock\<close> is a shared mutable object; its identity is its device and its number.
  Its \<open>ref_count\<close> lives in a heap from identities to counts (a count is never negative: \<open>free\<close>
  raises at 0), its \<open>block_size\<close> is its allocator's.
\<close>

type_synonym block_id = "device \<times> nat"
type_synonym block_table = "block_id list"
type_synonym block_heap = "block_id \<Rightarrow> nat"

abbreviation blk_device :: "block_id \<Rightarrow> device" where "blk_device \<equiv> fst"
abbreviation blk_number :: "block_id \<Rightarrow> nat" where "blk_number \<equiv> snd"

text \<open>\<open>Counter\<close>: \<^verbatim>\<open>next(counter)\<close> returns the value and increments it.\<close>

type_synonym counter = int

definition counter_next :: "counter \<Rightarrow> int \<times> counter" where
  "counter_next c = (c, c + 1)"

definition counter_reset :: "counter \<Rightarrow> counter" where
  "counter_reset c = 0"

section \<open>Logical blocks\<close>

definition blank_token_id :: int where
  "blank_token_id = -1"

record logical_token_block =
  lb_block_number :: nat
  lb_block_size :: nat
  lb_token_ids :: "int list"
  lb_num_tokens :: nat

definition new_logical_block :: "nat \<Rightarrow> nat \<Rightarrow> logical_token_block" where
  "new_logical_block number bs =
     \<lparr>lb_block_number = number, lb_block_size = bs,
      lb_token_ids = replicate bs blank_token_id, lb_num_tokens = 0\<rparr>"

definition lb_is_empty :: "logical_token_block \<Rightarrow> bool" where
  "lb_is_empty b \<longleftrightarrow> lb_num_tokens b = 0"

definition get_num_empty_slots :: "logical_token_block \<Rightarrow> int" where
  "get_num_empty_slots b = int (lb_block_size b) - int (lb_num_tokens b)"

definition lb_is_full :: "logical_token_block \<Rightarrow> bool" where
  "lb_is_full b \<longleftrightarrow> lb_num_tokens b = lb_block_size b"

definition lb_append_tokens :: "int list \<Rightarrow> logical_token_block \<Rightarrow> logical_token_block result" where
  "lb_append_tokens ts b =
     ebind (py_assert (int (length ts) \<le> get_num_empty_slots b)) (\<lambda>_.
       let curr_idx = lb_num_tokens b in
       Inr (b\<lparr>lb_token_ids := take curr_idx (lb_token_ids b) @ ts @ drop (curr_idx + length ts) (lb_token_ids b),
              lb_num_tokens := lb_num_tokens b + length ts\<rparr>))"

definition lb_get_token_ids :: "logical_token_block \<Rightarrow> int list" where
  "lb_get_token_ids b = take (lb_num_tokens b) (lb_token_ids b)"

definition lb_get_last_token_id :: "logical_token_block \<Rightarrow> int result" where
  "lb_get_last_token_id b =
     ebind (py_assert (lb_num_tokens b > 0)) (\<lambda>_.
       py_index (lb_token_ids b) (int (lb_num_tokens b) - 1))"

text \<open>A block of a sequence with block size \<open>bs\<close>.\<close>

definition lb_ok :: "nat \<Rightarrow> logical_token_block \<Rightarrow> bool" where
  "lb_ok bs b \<longleftrightarrow> lb_block_size b = bs \<and> length (lb_token_ids b) = bs \<and> lb_num_tokens b \<le> bs"

lemma lb_ok_new [simp]: "lb_ok bs (new_logical_block n bs)"
  by (simp add: lb_ok_def new_logical_block_def)

lemma get_token_ids_new [simp]: "lb_get_token_ids (new_logical_block n bs) = []"
  by (simp add: lb_get_token_ids_def new_logical_block_def)

lemma block_number_new [simp]: "lb_block_number (new_logical_block n bs) = n"
  by (simp add: new_logical_block_def)

lemma length_get_token_ids: "lb_ok bs b \<Longrightarrow> length (lb_get_token_ids b) = lb_num_tokens b"
  by (simp add: lb_ok_def lb_get_token_ids_def)

lemma lb_append_tokens_ok:
  assumes "lb_ok bs b" and "lb_num_tokens b + length ts \<le> bs"
  obtains b' where "lb_append_tokens ts b = Inr b'" "lb_ok bs b'"
    "lb_get_token_ids b' = lb_get_token_ids b @ ts" "lb_num_tokens b' = lb_num_tokens b + length ts"
    "lb_block_number b' = lb_block_number b"
proof
  let ?b = "b\<lparr>lb_token_ids := take (lb_num_tokens b) (lb_token_ids b) @ ts
                 @ drop (lb_num_tokens b + length ts) (lb_token_ids b),
              lb_num_tokens := lb_num_tokens b + length ts\<rparr>"
  show "lb_append_tokens ts b = Inr ?b"
    using assms by (simp add: lb_append_tokens_def get_num_empty_slots_def lb_ok_def Let_def)
  show "lb_ok bs ?b" and "lb_get_token_ids ?b = lb_get_token_ids b @ ts"
    and "lb_num_tokens ?b = lb_num_tokens b + length ts"
    and "lb_block_number ?b = lb_block_number b"
    using assms by (auto simp: lb_ok_def lb_get_token_ids_def)
qed

lemma lb_append_tokens_full: "int (length ts) > get_num_empty_slots b \<Longrightarrow> lb_append_tokens ts b = Inl AssertionError"
  by (simp add: lb_append_tokens_def py_assert_def)

section \<open>Spreading tokens over blocks\<close>

text \<open>\<open>Sequence._append_logical_block\<close> and \<open>Sequence._append_tokens_to_blocks\<close>.\<close>

definition append_logical_block :: "nat \<Rightarrow> logical_token_block list \<Rightarrow> logical_token_block list" where
  "append_logical_block bs blocks = blocks @ [new_logical_block (length blocks) bs]"

text \<open>
  The loop over \<open>cursor\<close>. Its fuel is the number of tokens plus one: with a positive block size
  every turn stores at least one token (\<open>append_tokens_rep\<close> below). With block size 0 no turn
  does, and no fuel is enough (\<open>append_tokens_block_size_0\<close>).
\<close>

fun append_tokens_loop :: "nat \<Rightarrow> nat \<Rightarrow> int list \<Rightarrow> nat \<Rightarrow> logical_token_block list \<Rightarrow> logical_token_block list result" where
  "append_tokens_loop 0 bs ts cursor blocks = Inl NoReturn"
| "append_tokens_loop (Suc fuel) bs ts cursor blocks =
     (if cursor < length ts then
        let blocks1 = (if blocks = [] then append_logical_block bs blocks else blocks);
            blocks2 = (if lb_is_full (last blocks1) then append_logical_block bs blocks1 else blocks1);
            num_empty_slots = nat (get_num_empty_slots (last blocks2))
        in ebind (lb_append_tokens (take num_empty_slots (drop cursor ts)) (last blocks2)) (\<lambda>b.
             append_tokens_loop fuel bs ts (cursor + num_empty_slots) (butlast blocks2 @ [b]))
      else Inr blocks)"

definition append_tokens_to_blocks :: "nat \<Rightarrow> int list \<Rightarrow> logical_token_block list \<Rightarrow> logical_token_block list result" where
  "append_tokens_to_blocks bs ts blocks = append_tokens_loop (Suc (length ts)) bs ts 0 blocks"

text \<open>\<open>blocks_rep bs blocks ts\<close>: the blocks store exactly the tokens \<open>ts\<close>.\<close>

definition blocks_rep :: "nat \<Rightarrow> logical_token_block list \<Rightarrow> int list \<Rightarrow> bool" where
  "blocks_rep bs blocks ts \<longleftrightarrow>
     (\<forall>b \<in> set blocks. lb_ok bs b) \<and>
     (\<forall>b \<in> set (butlast blocks). lb_is_full b) \<and>
     (blocks \<noteq> [] \<longrightarrow> \<not> lb_is_empty (last blocks)) \<and>
     map lb_block_number blocks = [0..<length blocks] \<and>
     concat (map lb_get_token_ids blocks) = ts"

lemma blocks_rep_Nil [simp]: "blocks_rep bs [] ts \<longleftrightarrow> ts = []"
  by (auto simp: blocks_rep_def)

text \<open>One turn: the last block that is not full (a fresh one if there is none) takes as many
  tokens as fit.\<close>

lemma append_tokens_fill:
  assumes "0 < bs" and "cursor < length ts"
    and "\<forall>b \<in> set (butlast bl @ [l]). lb_ok bs b" "\<forall>b \<in> set (butlast bl). lb_is_full b"
    and "bl \<noteq> []" "last bl = l" "\<not> lb_is_full l" "map lb_block_number bl = [0..<length bl]"
    and "concat (map lb_get_token_ids bl) = us"
  obtains b' where
    "lb_append_tokens (take (nat (get_num_empty_slots l)) (drop cursor ts)) l = Inr b'"
    "blocks_rep bs (butlast bl @ [b']) (us @ take (nat (get_num_empty_slots l)) (drop cursor ts))"
    "nat (get_num_empty_slots l) > 0"
proof -
  let ?k = "nat (get_num_empty_slots l)" and ?new = "take (nat (get_num_empty_slots l)) (drop cursor ts)"
  have l: "lb_ok bs l" and k: "?k = bs - lb_num_tokens l" and kpos: "?k > 0"
    using assms(3,7) by (auto simp: lb_ok_def get_num_empty_slots_def lb_is_full_def)
  have len: "lb_num_tokens l + length ?new \<le> bs"
    using l k by (auto simp: lb_ok_def)
  obtain b' where b': "lb_append_tokens ?new l = Inr b'" "lb_ok bs b'"
    "lb_get_token_ids b' = lb_get_token_ids l @ ?new" "lb_num_tokens b' = lb_num_tokens l + length ?new"
    "lb_block_number b' = lb_block_number l"
    using lb_append_tokens_ok [OF l len] .
  have bl: "bl = butlast bl @ [l]" using append_butlast_last_id [OF assms(5)] assms(6) by metis
  have us: "us = concat (map lb_get_token_ids (butlast bl)) @ lb_get_token_ids l"
    using assms(9) by (subst (asm) bl) simp
  have nums: "map lb_block_number (butlast bl @ [b']) = [0..<length (butlast bl @ [b'])]"
  proof -
    have "map lb_block_number (butlast bl @ [b']) = map lb_block_number (butlast bl @ [l])"
      using b'(5) by simp
    then show ?thesis using assms(8) bl by (metis length_append length_Cons list.size(3))
  qed
  have "length ?new > 0" using kpos assms(2) by simp
  then have ne: "\<not> lb_is_empty b'" using b'(4) by (simp add: lb_is_empty_def)
  have rep: "blocks_rep bs (butlast bl @ [b']) (us @ ?new)"
    unfolding blocks_rep_def using assms(3,4) b'(2,3) ne nums us
    by (auto simp: butlast_append)
  with b'(1) rep kpos show ?thesis using that by blast
qed

text \<open>The whole loop: from blocks that store \<open>us\<close> it ends in blocks that store \<open>us\<close> and the
  tokens from \<open>cursor\<close> on.\<close>

lemma append_tokens_loop_rep:
  assumes "0 < bs" and "blocks_rep bs blocks us" and "length ts - cursor < fuel"
  shows "\<exists>bl. append_tokens_loop fuel bs ts cursor blocks = Inr bl \<and> blocks_rep bs bl (us @ drop cursor ts)"
  using assms(2,3)
proof (induction fuel arbitrary: cursor blocks us)
  case 0
  then show ?case by simp
next
  case (Suc fuel)
  show ?case
  proof (cases "cursor < length ts")
    case False
    then show ?thesis using Suc.prems by simp
  next
    case True
    define bl1 where "bl1 = (if blocks = [] then append_logical_block bs blocks else blocks)"
    define bl2 where "bl2 = (if lb_is_full (last bl1) then append_logical_block bs bl1 else bl1)"
    let ?l = "last bl2" and ?k = "nat (get_num_empty_slots (last bl2))"
    have bl1: "bl1 \<noteq> []" "\<forall>b \<in> set bl1. lb_ok bs b" "\<forall>b \<in> set (butlast bl1). lb_is_full b"
      "map lb_block_number bl1 = [0..<length bl1]" "concat (map lb_get_token_ids bl1) = us"
      using Suc.prems(1)
      by (auto simp: bl1_def append_logical_block_def blocks_rep_def)
    have new: "\<not> lb_is_full (new_logical_block n bs)" for n
      using assms(1) by (simp add: lb_is_full_def new_logical_block_def)
    have bl2: "bl2 \<noteq> []" "\<forall>b \<in> set bl2. lb_ok bs b" "\<forall>b \<in> set (butlast bl2). lb_is_full b"
      "map lb_block_number bl2 = [0..<length bl2]" "concat (map lb_get_token_ids bl2) = us" "\<not> lb_is_full ?l"
      using bl1 new append_butlast_last_id [OF bl1(1)]
      by (auto simp: bl2_def append_logical_block_def) (metis Un_iff append_butlast_last_id empty_iff insertE list.set set_append)
    have ok: "\<forall>b \<in> set (butlast bl2 @ [?l]). lb_ok bs b"
      using bl2(1,2) by simp
    obtain b' where b': "lb_append_tokens (take ?k (drop cursor ts)) ?l = Inr b'"
      "blocks_rep bs (butlast bl2 @ [b']) (us @ take ?k (drop cursor ts))" "?k > 0"
      using append_tokens_fill [OF assms(1) True ok bl2(3,1) refl bl2(6,4,5)] by blast
    have "length ts - (cursor + ?k) < fuel" using True b'(3) Suc.prems(2) by linarith
    from Suc.IH [OF b'(2) this] obtain bl where
      bl: "append_tokens_loop fuel bs ts (cursor + ?k) (butlast bl2 @ [b']) = Inr bl"
      "blocks_rep bs bl ((us @ take ?k (drop cursor ts)) @ drop (cursor + ?k) ts)" by blast
    have "append_tokens_loop (Suc fuel) bs ts cursor blocks = Inr bl"
      using True b'(1) bl(1) by (simp add: Let_def flip: bl1_def bl2_def)
    moreover have "(us @ take ?k (drop cursor ts)) @ drop (cursor + ?k) ts = us @ drop cursor ts"
      using append_take_drop_id [of ?k "drop cursor ts"] by (simp add: add.commute)
    ultimately show ?thesis using bl(2) by auto
  qed
qed

lemma append_tokens_rep:
  assumes "0 < bs" and "blocks_rep bs blocks us"
  shows "\<exists>bl. append_tokens_to_blocks bs ts blocks = Inr bl \<and> blocks_rep bs bl (us @ ts)"
  using append_tokens_loop_rep [OF assms, of ts 0 "Suc (length ts)"]
  by (simp add: append_tokens_to_blocks_def)

text \<open>With block size 0 the cursor never moves: the loop of the source does not end.\<close>

lemma append_tokens_block_size_0:
  assumes "cursor < length ts" and "\<forall>b \<in> set blocks. lb_block_size b = 0 \<and> lb_num_tokens b = 0"
  shows "append_tokens_loop fuel 0 ts cursor blocks = Inl NoReturn"
  using assms
proof (induction fuel arbitrary: blocks)
  case 0
  then show ?case by simp
next
  case (Suc fuel)
  define bl1 where "bl1 = (if blocks = [] then append_logical_block 0 blocks else blocks)"
  define bl2 where "bl2 = (if lb_is_full (last bl1) then append_logical_block 0 bl1 else bl1)"
  have bl1: "bl1 \<noteq> []" "\<forall>b \<in> set bl1. lb_block_size b = 0 \<and> lb_num_tokens b = 0"
    using Suc.prems(2) by (auto simp: bl1_def append_logical_block_def new_logical_block_def)
  have bl2: "bl2 \<noteq> []" "\<forall>b \<in> set bl2. lb_block_size b = 0 \<and> lb_num_tokens b = 0"
    using bl1 by (auto simp: bl2_def append_logical_block_def new_logical_block_def)
  have l: "lb_block_size (last bl2) = 0" "lb_num_tokens (last bl2) = 0"
    using bl2 by auto
  define b where "b = (last bl2)\<lparr>lb_token_ids := drop 0 (lb_token_ids (last bl2))\<rparr>"
  have app: "lb_append_tokens [] (last bl2) = Inr b"
    using l by (simp add: lb_append_tokens_def get_num_empty_slots_def b_def)
  have "\<forall>x \<in> set (butlast bl2 @ [b]). lb_block_size x = 0 \<and> lb_num_tokens x = 0"
    using bl2 l by (auto simp: b_def dest: in_set_butlastD)
  from Suc.IH [OF Suc.prems(1) this] show ?case
    using Suc.prems(1) app l by (simp add: Let_def get_num_empty_slots_def flip: bl1_def bl2_def)
qed

text \<open>The number of blocks is the number of tokens divided by the block size, rounded up.\<close>

lemma blocks_rep_length:
  assumes "0 < bs" and "blocks_rep bs blocks ts"
  shows "length blocks = (length ts + bs - 1) div bs"
proof (cases "blocks = []")
  case True
  then show ?thesis using assms by (simp add: div_eq_0_iff)
next
  case False
  define l where "l = last blocks"
  have bl: "blocks = butlast blocks @ [l]" using False by (simp add: l_def)
  have ok: "\<forall>b \<in> set blocks. lb_ok bs b" and full: "\<forall>b \<in> set (butlast blocks). lb_is_full b"
    and ne: "\<not> lb_is_empty l" and ts: "ts = concat (map lb_get_token_ids blocks)"
    using assms(2) False by (auto simp: blocks_rep_def l_def)
  have l: "lb_ok bs l" using ok False by (simp add: l_def)
  have "length (concat (map lb_get_token_ids bs')) = bs * length bs'"
    if "\<forall>b \<in> set bs'. lb_ok bs b \<and> lb_is_full b" for bs'
    using that
  proof (induction bs')
    case (Cons a bs')
    have "length (lb_get_token_ids a) = bs"
      using length_get_token_ids [of bs a] Cons.prems by (simp add: lb_is_full_def lb_ok_def)
    with Cons show ?case by simp
  qed simp
  then have "length (concat (map lb_get_token_ids (butlast blocks))) = bs * length (butlast blocks)"
    using ok full by (meson in_set_butlastD)
  then have len: "length ts = bs * length (butlast blocks) + lb_num_tokens l"
    using l length_get_token_ids [OF l] by (subst ts, subst bl) simp
  have "0 < lb_num_tokens l" "lb_num_tokens l \<le> bs"
    using ne l by (auto simp: lb_is_empty_def lb_ok_def)
  then have "length ts + bs - 1 = bs * Suc (length (butlast blocks)) + (lb_num_tokens l - 1)"
    using len by simp
  also have "\<dots> div bs = Suc (length (butlast blocks)) + (lb_num_tokens l - 1) div bs"
    using assms(1) by (simp only: div_mult_self4 neq0_conv)
  also have "(lb_num_tokens l - 1) div bs = 0"
    using \<open>lb_num_tokens l \<le> bs\<close> \<open>0 < lb_num_tokens l\<close> by simp
  finally show ?thesis using False by simp
qed

end
