(* ===== verification/Prefix_Pool.thy ===== *)
theory Prefix_Pool
  imports Token_Blocks
begin

text \<open>
  \<^verbatim>\<open>vllm/prefix.py\<close>: prefixes of prompts that several sequence groups share, and the pool that
  finds the prefix object of a token sequence. A \<open>Prefix\<close> is a shared mutable object: the heap is
  the list of prefixes created so far, a reference is a position in it. The pool is keyed by
  Python's \<^verbatim>\<open>hash((prefix, lora_int_id))\<close>, a parameter \<open>py_hash\<close> of the model; what depends on
  two prefixes not colliding has the hypothesis that they do not.
\<close>

record prefix =
  pf_token_ids :: "int list"
  pf_block_size :: nat
  pf_length :: nat
  pf_block_table :: "block_table option"
  pf_computed :: bool

type_synonym prefix_ref = nat
type_synonym prefix_heap = "prefix list"

definition new_prefix :: "int list \<Rightarrow> nat \<Rightarrow> prefix result" where
  "new_prefix ts bs =
     (if bs = 0 then Inl ZeroDivisionError
      else ebind (py_assert (length ts mod bs = 0)) (\<lambda>_.
        Inr \<lparr>pf_token_ids = ts, pf_block_size = bs, pf_length = length ts,
             pf_block_table = None, pf_computed = False\<rparr>))"

definition prefix_allocated :: "prefix \<Rightarrow> bool" where
  "prefix_allocated p \<longleftrightarrow> pf_block_table p \<noteq> None"

definition prefix_get_num_blocks :: "prefix \<Rightarrow> nat" where
  "prefix_get_num_blocks p = pf_length p div pf_block_size p"

definition prefix_get_block_numbers :: "prefix \<Rightarrow> nat list result" where
  "prefix_get_block_numbers p =
     (case pf_block_table p of None \<Rightarrow> Inl TypeError | Some t \<Rightarrow> Inr (map blk_number t))"

definition prefix_set_block_table :: "block_table \<Rightarrow> prefix \<Rightarrow> prefix" where
  "prefix_set_block_table t p = p\<lparr>pf_block_table := Some t\<rparr>"

record prefix_pool =
  pool_prefixes :: "(int, prefix_ref) dict"
  pool_block_size :: nat

definition new_prefix_pool :: "nat \<Rightarrow> prefix_pool" where
  "new_prefix_pool bs = \<lparr>pool_prefixes = [], pool_block_size = bs\<rparr>"

definition truncate_token_ids :: "prefix_pool \<Rightarrow> int list \<Rightarrow> int list result" where
  "truncate_token_ids pool ts =
     (if pool_block_size pool = 0 then Inl ZeroDivisionError
      else Inr (take (length ts div pool_block_size pool * pool_block_size pool) ts))"

definition add_or_get_prefix ::
    "(int list \<times> int \<Rightarrow> int) \<Rightarrow> int list \<Rightarrow> int \<Rightarrow> prefix_pool \<Rightarrow> prefix_heap
     \<Rightarrow> (prefix_ref option \<times> prefix_pool \<times> prefix_heap) result" where
  "add_or_get_prefix py_hash token_ids lora_int_id pool heap =
     ebind (truncate_token_ids pool token_ids) (\<lambda>ts.
       if length ts = 0 then Inr (None, pool, heap)
       else ebind (new_prefix ts (pool_block_size pool)) (\<lambda>p.
         let prefix_hash = py_hash (ts, lora_int_id) in
         case map_of (pool_prefixes pool) prefix_hash of
           Some r \<Rightarrow> Inr (Some r, pool, heap)
         | None \<Rightarrow> Inr (Some (length heap),
                        pool\<lparr>pool_prefixes := dict_set prefix_hash (length heap) (pool_prefixes pool)\<rparr>,
                        heap @ [p])))"

section \<open>The pool finds the prefix of a token sequence\<close>

text \<open>Every entry refers to a prefix whose tokens, with some LoRA id, have the entry's hash.\<close>

definition pool_ok :: "(int list \<times> int \<Rightarrow> int) \<Rightarrow> prefix_pool \<Rightarrow> prefix_heap \<Rightarrow> bool" where
  "pool_ok py_hash pool heap \<longleftrightarrow>
     0 < pool_block_size pool \<and>
     (\<forall>h r. map_of (pool_prefixes pool) h = Some r \<longrightarrow>
        r < length heap \<and> (\<exists>l. h = py_hash (pf_token_ids (heap ! r), l)) \<and>
        pf_length (heap ! r) = length (pf_token_ids (heap ! r)) \<and>
        pf_block_size (heap ! r) = pool_block_size pool)"

lemma pool_ok_new: "0 < bs \<Longrightarrow> pool_ok h (new_prefix_pool bs) []"
  by (simp add: pool_ok_def new_prefix_pool_def)

lemma truncate_token_ids_length:
  assumes "truncate_token_ids pool ts = Inr us"
  shows "length us mod pool_block_size pool = 0" "us = take (length ts div pool_block_size pool * pool_block_size pool) ts"
proof -
  show us: "us = take (length ts div pool_block_size pool * pool_block_size pool) ts"
    using assms by (simp add: truncate_token_ids_def split: if_splits)
  have "length us = length ts div pool_block_size pool * pool_block_size pool"
    by (simp add: us min.absorb2 div_times_less_eq_dividend)
  then show "length us mod pool_block_size pool = 0" by simp
qed

lemma new_prefix_truncated:
  assumes "truncate_token_ids pool ts = Inr us"
  shows "new_prefix us (pool_block_size pool) =
    Inr \<lparr>pf_token_ids = us, pf_block_size = pool_block_size pool, pf_length = length us,
         pf_block_table = None, pf_computed = False\<rparr>"
  using truncate_token_ids_length(1) [OF assms] assms
  by (simp add: new_prefix_def truncate_token_ids_def split: if_splits)

lemma add_or_get_prefix_ok:
  assumes "pool_ok h pool heap"
    and "add_or_get_prefix h ts l pool heap = Inr (r, pool', heap')"
  shows "pool_ok h pool' heap'"
proof -
  define us where "us = take (length ts div pool_block_size pool * pool_block_size pool) ts"
  have tr: "truncate_token_ids pool ts = Inr us"
    using assms(1) by (simp add: truncate_token_ids_def us_def pool_ok_def)
  show ?thesis
    using assms new_prefix_truncated [OF tr]
    by (auto simp: add_or_get_prefix_def tr Let_def pool_ok_def nth_append update_conv'
             split: if_splits option.splits) (metis less_SucI)
qed

lemma add_or_get_prefix_entry:
  assumes "add_or_get_prefix h ts l pool heap = Inr (Some r, pool', heap')" and "truncate_token_ids pool ts = Inr us"
  shows "us \<noteq> []" "pool_block_size pool' = pool_block_size pool" "map_of (pool_prefixes pool') (h (us, l)) = Some r"
    "map_of (pool_prefixes pool) (h (us, l)) = Some r \<and> heap' = heap \<or>
     r = length heap \<and> (\<exists>p. heap' = heap @ [p] \<and> pf_token_ids p = us)"
  using assms(1) new_prefix_truncated [OF assms(2)]
  by (auto simp: add_or_get_prefix_def assms(2) Let_def update_conv' split: if_splits option.splits)

text \<open>The pool gives a request the prefix object of exactly its whole blocks of tokens, when no
  stored prefix with other tokens has the same hash.\<close>

theorem add_or_get_prefix_finds:
  assumes "pool_ok h pool heap" and "truncate_token_ids pool ts = Inr us"
    and "\<And>p l'. p \<in> set heap \<Longrightarrow> h (pf_token_ids p, l') = h (us, l) \<Longrightarrow> pf_token_ids p = us"
    and "add_or_get_prefix h ts l pool heap = Inr (Some r, pool', heap')"
  shows "pool_ok h pool' heap' \<and> r < length heap' \<and> pf_token_ids (heap' ! r) = us"
proof -
  have "r < length heap' \<and> pf_token_ids (heap' ! r) = us"
  proof (cases "map_of (pool_prefixes pool) (h (us, l)) = Some r \<and> heap' = heap")
    case True
    then obtain l' where "r < length heap" "h (us, l) = h (pf_token_ids (heap ! r), l')"
      using assms(1) unfolding pool_ok_def by blast
    then show ?thesis using assms(3) [of "heap ! r" l'] True by simp
  next
    case False
    then show ?thesis using add_or_get_prefix_entry(4) [OF assms(4,2)] by auto
  qed
  then show ?thesis using add_or_get_prefix_ok [OF assms(1,4)] by blast
qed

text \<open>Asking the pool twice for the same whole blocks of tokens with the same LoRA adapter gives the
  same prefix object, and the second call changes nothing.\<close>

lemma add_or_get_prefix_again:
  assumes "pool_ok h pool heap"
    and "add_or_get_prefix h ts l pool heap = Inr (Some r, pool', heap')"
    and "truncate_token_ids pool us = truncate_token_ids pool ts"
  shows "add_or_get_prefix h us l pool' heap' = Inr (Some r, pool', heap')"
proof -
  define vs where "vs = take (length ts div pool_block_size pool * pool_block_size pool) ts"
  have tr: "truncate_token_ids pool ts = Inr vs"
    using assms(1) by (simp add: truncate_token_ids_def vs_def pool_ok_def)
  note e = add_or_get_prefix_entry [OF assms(2) tr]
  have tr': "truncate_token_ids pool' us = Inr vs"
    using assms(3) tr e(2) by (auto simp: truncate_token_ids_def split: if_splits)
  show ?thesis
    using new_prefix_truncated [OF tr'] e(1,3) by (simp add: add_or_get_prefix_def tr' Let_def)
qed

end
