(* ===== verification/Float64.thy ===== *)
theory Float64
  imports Complex_Main "HOL-Library.Log_Nat" Mil_Prelude
begin

text \<open>
  Python floats. A float is the rational number it stands for; every arithmetic operation is the
  exact rational operation followed by rounding to the nearest number with a 53-bit significand,
  ties to even (IEEE 754 binary64). Overflow to infinity, subnormal numbers and NaN are left out:
  the modelled code works with times, token counts and log probabilities, far from both ends.
  The lemmas show what the components rely on: rounding is monotone and leaves integers up to
  2^53 alone, and the float \<open>0.01 * m\<close> of the cache watermark compares with an integer as \<open>m / 100\<close> does.
\<close>

type_synonym float64 = rat

definition pow2 :: "int \<Rightarrow> rat" where
  "pow2 k = (if 0 \<le> k then 2 ^ nat k else 1 / 2 ^ nat (- k))"

definition floor_log2 :: "rat \<Rightarrow> int" where
  "floor_log2 x =
     (case quotient_of x of (p, q) \<Rightarrow>
        let k = bitlen p - bitlen q in if pow2 k \<le> x then k else k - 1)"

definition round_half_even :: "rat \<Rightarrow> int" where
  "round_half_even x =
     (let n = \<lfloor>x\<rfloor>; r = x - of_int n
      in if r < 1 / 2 then n else if 1 / 2 < r then n + 1 else if even n then n else n + 1)"

definition round_f64 :: "rat \<Rightarrow> float64" where
  "round_f64 x =
     (if x = 0 then 0
      else let a = \<bar>x\<bar>; e = floor_log2 a - 52
           in sgn x * (of_int (round_half_even (a / pow2 e)) * pow2 e))"

definition f64_add :: "float64 \<Rightarrow> float64 \<Rightarrow> float64" where
  "f64_add x y = round_f64 (x + y)"

definition f64_sub :: "float64 \<Rightarrow> float64 \<Rightarrow> float64" where
  "f64_sub x y = round_f64 (x - y)"

definition f64_mul :: "float64 \<Rightarrow> float64 \<Rightarrow> float64" where
  "f64_mul x y = round_f64 (x * y)"

definition f64_div :: "float64 \<Rightarrow> float64 \<Rightarrow> float64 result" where
  "f64_div x y = (if y = 0 then Inl ZeroDivisionError else Inr (round_f64 (x / y)))"

text \<open>The float of the literal \<^verbatim>\<open>0.01\<close>.\<close>

definition f64_hundredth :: float64 where
  "f64_hundredth = 5764607523034235 / 576460752303423488"

section \<open>Rounding\<close>

lemma pow2_pos [simp]: "0 < pow2 k"
  by (simp add: pow2_def)

lemma pow2_nonzero [simp]: "pow2 k \<noteq> 0"
  using pow2_pos [of k] by linarith

lemma pow2_Suc: "pow2 (k + 1) = 2 * pow2 k"
proof (cases "0 \<le> k")
  case True
  then show ?thesis by (simp add: pow2_def nat_add_distrib)
next
  case False
  show ?thesis
  proof (cases "k = -1")
    case True
    then show ?thesis by (simp add: pow2_def)
  next
    case neq: False
    define m where "m = nat (- (k + 1))"
    have "nat (- k) = Suc m" using False by (simp add: m_def)
    moreover have "\<not> 0 \<le> k + 1" using False neq by linarith
    ultimately show ?thesis using False by (simp add: pow2_def m_def)
  qed
qed

lemma pow2_add_nat: "pow2 (k + int n) = pow2 k * 2 ^ n"
proof (induction n)
  case 0
  then show ?case by simp
next
  case (Suc n)
  have "pow2 (k + int (Suc n)) = pow2 ((k + int n) + 1)" by (simp add: algebra_simps)
  then show ?case using Suc by (simp only: pow2_Suc) simp
qed

lemma pow2_add: "pow2 (j + k) = pow2 j * pow2 k"
proof (cases "0 \<le> k")
  case True
  then show ?thesis using pow2_add_nat [of j "nat k"] by (simp add: pow2_def [of k])
next
  case False
  have "pow2 (j + k) * 2 ^ nat (- k) = pow2 j"
    using pow2_add_nat [of "j + k" "nat (- k)"] False by simp
  then show ?thesis using False by (simp add: pow2_def [of k] field_simps)
qed

lemma pow2_le_mono:
  assumes "j \<le> k"
  shows "pow2 j \<le> pow2 k"
proof -
  have "pow2 j * 1 \<le> pow2 j * 2 ^ nat (k - j)"
    by (rule mult_left_mono) (auto intro: less_imp_le)
  then show ?thesis using pow2_add_nat [of j "nat (k - j)"] assms by simp
qed

lemma pow2_less_imp: "pow2 j < pow2 k \<Longrightarrow> j < k"
  using pow2_le_mono [of k j] by (meson not_le)

lemma floor_log2_bounds:
  assumes "0 < x"
  shows "pow2 (floor_log2 x) \<le> x \<and> x < pow2 (floor_log2 x + 1)"
proof -
  obtain p q where pq: "quotient_of x = (p, q)" by force
  have q: "0 < q" and x: "x = of_int p / of_int q"
    using quotient_of_denom_pos [OF pq] quotient_of_div [OF pq] by auto
  with assms have p: "0 < p" by (simp add: zero_less_divide_iff)
  define a where "a = bitlen p"
  define b where "b = bitlen q"
  have ab: "0 < a" "0 < b" using p q bitlen_nonneg [of p] bitlen_nonneg [of q] bitlen_eq_zero_iff [of p] bitlen_eq_zero_iff [of q]
    by (auto simp: a_def b_def simp del: bitlen_eq_zero_iff)
  have bp: "2 ^ nat (a - 1) \<le> p \<and> p < 2 ^ nat a" and bq: "2 ^ nat (b - 1) \<le> q \<and> q < 2 ^ nat b"
    using bitlen_bounds [OF p] bitlen_bounds [OF q] by (auto simp: a_def b_def)
  have pw: "pow2 k = of_int (2 ^ nat k)" if "0 \<le> k" for k
    using that by (simp add: pow2_def)
  have bp': "pow2 (a - 1) \<le> of_int p" "of_int p < pow2 a"
    and bq': "pow2 (b - 1) \<le> of_int q" "of_int q < pow2 b"
    using bp bq ab by (simp_all only: pw of_int_le_iff of_int_less_iff)
  have xq: "x * of_int q = of_int p" using q x by simp
  have q0: "(0::rat) < of_int q" using q by simp
  have lo: "pow2 (a - b - 1) \<le> x"
  proof (rule ccontr)
    assume "\<not> pow2 (a - b - 1) \<le> x"
    then have "x * of_int q < pow2 (a - b - 1) * pow2 b"
      using q0 bq'(2) assms by (intro mult_strict_mono) auto
    also have "\<dots> = pow2 (a - 1)" by (simp flip: pow2_add)
    finally show False using bp'(1) xq by simp
  qed
  have hi: "x < pow2 (a - b + 1)"
  proof (rule ccontr)
    assume "\<not> x < pow2 (a - b + 1)"
    then have "pow2 (a - b + 1) * pow2 (b - 1) \<le> x * of_int q"
      using q0 bq'(1) assms by (intro mult_mono) (auto intro: less_imp_le)
    moreover have "pow2 (a - b + 1) * pow2 (b - 1) = pow2 a" by (simp flip: pow2_add)
    ultimately show False using bp'(2) xq by simp
  qed
  have fl: "floor_log2 x = (if pow2 (a - b) \<le> x then a - b else a - b - 1)"
    by (simp add: floor_log2_def pq a_def b_def Let_def)
  show ?thesis
  proof (cases "pow2 (a - b) \<le> x")
    case True
    then show ?thesis using fl hi by simp
  next
    case False
    then show ?thesis using fl lo by simp
  qed
qed

lemma floor_log2_eqI: "0 < x \<Longrightarrow> pow2 k \<le> x \<Longrightarrow> x < pow2 (k + 1) \<Longrightarrow> floor_log2 x = k"
  using floor_log2_bounds [of x] pow2_less_imp [of "floor_log2 x" "k + 1"] pow2_less_imp [of k "floor_log2 x + 1"]
  by (meson dual_order.strict_trans1 nle_le not_le zle_add1_eq_le)

lemma floor_log2_mono: "0 < x \<Longrightarrow> x \<le> y \<Longrightarrow> floor_log2 x \<le> floor_log2 y"
  using floor_log2_bounds [of x] floor_log2_bounds [of y] pow2_less_imp [of "floor_log2 x" "floor_log2 y + 1"]
  by fastforce

lemma round_half_even_mono:
  assumes "x \<le> y"
  shows "round_half_even x \<le> round_half_even y"
proof (cases "\<lfloor>x\<rfloor> = \<lfloor>y\<rfloor>")
  case True
  then show ?thesis using assms by (auto simp: round_half_even_def Let_def)
next
  case False
  then have "\<lfloor>x\<rfloor> + 1 \<le> \<lfloor>y\<rfloor>" using floor_mono [OF assms] by linarith
  moreover have "round_half_even x \<le> \<lfloor>x\<rfloor> + 1" "\<lfloor>y\<rfloor> \<le> round_half_even y"
    by (auto simp: round_half_even_def Let_def)
  ultimately show ?thesis by linarith
qed

lemma round_half_even_int [simp]: "round_half_even (of_int n) = n"
  by (simp add: round_half_even_def)

lemma round_half_even_near: "\<bar>x - of_int n\<bar> < 1 / 2 \<Longrightarrow> round_half_even x = n"
proof -
  assume *: "\<bar>x - of_int n\<bar> < 1 / 2"
  show ?thesis
  proof (cases "of_int n \<le> x")
    case True
    then have "\<lfloor>x\<rfloor> = n" using * by (simp add: floor_eq_iff)
    then show ?thesis using * True by (simp add: round_half_even_def)
  next
    case False
    then have "\<lfloor>x\<rfloor> = n - 1" using * by (simp add: floor_eq_iff)
    then show ?thesis using * False by (simp add: round_half_even_def)
  qed
qed

section \<open>Rounding to 53 bits\<close>

lemma round_f64_pos:
  "0 < x \<Longrightarrow> round_f64 x = of_int (round_half_even (x / pow2 (floor_log2 x - 52))) * pow2 (floor_log2 x - 52)"
  by (simp add: round_f64_def Let_def)

lemma round_f64_0 [simp]: "round_f64 0 = 0"
  by (simp add: round_f64_def)

lemma round_f64_minus: "round_f64 (- x) = - round_f64 x"
  by (simp add: round_f64_def Let_def sgn_minus)

lemma round_f64_binade:
  assumes "0 < x"
  shows "pow2 (floor_log2 x) \<le> round_f64 x \<and> round_f64 x \<le> pow2 (floor_log2 x + 1)"
proof -
  define e where "e = floor_log2 x - 52"
  have e: "floor_log2 x = e + int 52" "floor_log2 x + 1 = e + int 53" by (simp_all add: e_def)
  have k1: "pow2 (floor_log2 x) = of_int (2 ^ 52) * pow2 e"
    using pow2_add_nat [of e 52] by (simp add: e(1))
  have k2: "pow2 (floor_log2 x + 1) = of_int (2 ^ 53) * pow2 e"
    unfolding e(2) pow2_add_nat by simp
  note k = k1 k2
  have "of_int (2 ^ 52) \<le> x / pow2 e" "x / pow2 e \<le> of_int (2 ^ 53)"
    using floor_log2_bounds [OF assms] by (simp_all only: k pos_le_divide_eq pos_divide_le_eq pow2_pos less_imp_le)
  from this [THEN round_half_even_mono] have "2 ^ 52 \<le> round_half_even (x / pow2 e)"
    "round_half_even (x / pow2 e) \<le> 2 ^ 53"
    by (simp_all only: round_half_even_int)
  then have "of_int (2 ^ 52) * pow2 e \<le> of_int (round_half_even (x / pow2 e)) * pow2 e"
    "of_int (round_half_even (x / pow2 e)) * pow2 e \<le> of_int (2 ^ 53) * pow2 e"
    by (simp_all only: mult_le_cancel_right_pos pow2_pos of_int_le_iff)
  then show ?thesis by (simp only: round_f64_pos [OF assms] k flip: e_def)
qed

lemma round_f64_mono_pos:
  assumes "0 < x" and "x \<le> y"
  shows "round_f64 x \<le> round_f64 y"
proof (cases "floor_log2 x = floor_log2 y")
  case True
  have "x / pow2 (floor_log2 y - 52) \<le> y / pow2 (floor_log2 y - 52)"
    using assms(2) by (simp add: divide_right_mono less_imp_le)
  from round_half_even_mono [OF this] True show ?thesis
    using assms by (simp add: round_f64_pos)
next
  case False
  then have "floor_log2 x + 1 \<le> floor_log2 y" using floor_log2_mono [OF assms] by linarith
  then have "pow2 (floor_log2 x + 1) \<le> pow2 (floor_log2 y)" by (rule pow2_le_mono)
  moreover have "0 < y" using assms by linarith
  ultimately show ?thesis
    using round_f64_binade [OF assms(1)] round_f64_binade [of y] by linarith
qed

lemma round_f64_nonneg: "0 \<le> x \<Longrightarrow> 0 \<le> round_f64 x"
proof (cases "x = 0")
  case False
  moreover assume "0 \<le> x"
  ultimately have "pow2 (floor_log2 x) \<le> round_f64 x" using round_f64_binade [of x] by simp
  then show ?thesis using pow2_pos [of "floor_log2 x"] by linarith
qed simp

theorem round_f64_mono:
  assumes "x \<le> y"
  shows "round_f64 x \<le> round_f64 y"
proof -
  consider "0 < x" | "x \<le> 0" "0 \<le> y" | "y < 0" by linarith
  then show ?thesis
  proof cases
    case 1
    then show ?thesis using assms by (rule round_f64_mono_pos)
  next
    case 2
    then show ?thesis
      using round_f64_nonneg [of "- x"] round_f64_nonneg [of y] by (simp add: round_f64_minus)
  next
    case 3
    then show ?thesis
      using round_f64_mono_pos [of "- y" "- x"] assms by (simp add: round_f64_minus)
  qed
qed

text \<open>Numbers with a significand below 2^53 are exact.\<close>

lemma round_f64_exact:
  assumes "0 < n" and "n < 2 ^ 53"
  shows "round_f64 (of_int n * pow2 j) = of_int n * pow2 j"
proof -
  define x where "x = of_int n * pow2 j"
  define k where "k = floor_log2 x"
  have x: "0 < x" using assms(1) by (simp add: x_def)
  have "x < of_int (2 ^ 53) * pow2 j"
    using assms(2) by (simp only: x_def mult_less_cancel_right_pos pow2_pos of_int_less_iff)
  then have "pow2 k < pow2 (j + int 53)"
    using floor_log2_bounds [OF x] pow2_add_nat [of j 53] by (simp add: k_def mult.commute)
  then have "k < j + 53" using pow2_less_imp [of k "j + int 53"] by simp
  then have "0 \<le> j - (k - 52)" by linarith
  then obtain i where "j - (k - 52) = int i" by (rule nonneg_int_cases)
  then have i: "j = (k - 52) + int i" by linarith
  have "x / pow2 (k - 52) = of_int (n * 2 ^ i)"
    by (simp add: x_def i pow2_add_nat)
  then have "round_f64 x = of_int (n * 2 ^ i) * pow2 (k - 52)"
    by (simp only: round_f64_pos [OF x] round_half_even_int flip: k_def)
  also have "\<dots> = x" by (simp add: x_def i pow2_add_nat)
  finally show ?thesis by (simp only: x_def)
qed

lemma round_f64_of_int:
  assumes "\<bar>n\<bar> < 2 ^ 53"
  shows "round_f64 (of_int n) = of_int n"
proof -
  have pos: "round_f64 (of_int m) = of_int m" if "0 < m" "m < 2 ^ 53" for m
    using round_f64_exact [OF that, of 0] by (simp add: pow2_def)
  consider "0 < n" | "n = 0" | "0 < - n" by linarith
  then show ?thesis
  proof cases
    case 3
    then have "round_f64 (of_int (- n)) = of_int (- n)" using assms by (intro pos) auto
    then show ?thesis by (simp add: round_f64_minus)
  qed (use assms pos in auto)
qed

section \<open>The watermark\<close>

lemma small_error: "y < 2 ^ 53 \<Longrightarrow> 0 < y \<Longrightarrow> \<bar>12 * y / 576460752303423488\<bar> < (1 / 2 :: rat)"
  by (simp add: abs_mult)

text \<open>\<open>0.01 * 100 n\<close> rounds to \<open>n\<close>.\<close>

lemma f64_hundredth_100:
  assumes "0 \<le> n" and "n < 2 ^ 53"
  shows "f64_mul f64_hundredth (of_int (100 * n)) = of_int n"
proof (cases "n = 0")
  case True
  then show ?thesis by (simp add: f64_mul_def)
next
  case False
  define x :: rat where "x = of_int n"
  define k where "k = floor_log2 x"
  define z where "z = f64_hundredth * of_int (100 * n)"
  have n: "0 < n" and x: "0 < x" using False assms by (auto simp: x_def)
  have z: "z = x + 12 * x / 576460752303423488"
    by (simp add: z_def x_def f64_hundredth_def)
  have kb: "pow2 k \<le> x" "x < pow2 (k + 1)" using floor_log2_bounds [OF x] by (auto simp: k_def)
  have k0: "0 \<le> k"
  proof (rule ccontr)
    assume "\<not> 0 \<le> k"
    then have "pow2 (k + 1) \<le> pow2 0" by (intro pow2_le_mono) simp
    then show False using kb(2) n by (simp add: pow2_def x_def)
  qed
  have x53: "x < of_int (2 ^ 53)" using assms(2) by (simp only: x_def of_int_less_iff)
  have k52: "k - 52 \<le> 0"
  proof (rule ccontr)
    assume "\<not> k - 52 \<le> 0"
    then have "pow2 53 \<le> pow2 k" by (intro pow2_le_mono) simp
    moreover have "x < pow2 53" using x53 by (simp add: pow2_def)
    ultimately show False using kb(1) by linarith
  qed
  have pk: "pow2 (k + 1) = of_int (2 ^ nat (k + 1))" using k0 by (simp add: pow2_def)
  have "n + 1 \<le> 2 ^ nat (k + 1)"
    using kb(2) by (simp only: pk x_def of_int_less_iff)
  then have "x + 1 \<le> pow2 (k + 1)"
    unfolding pk x_def of_int_1 [symmetric, where 'a = rat] of_int_add [symmetric] of_int_le_iff .
  moreover have "12 * x / 576460752303423488 < 1"
    using x53 by simp
  ultimately have "floor_log2 z = k"
    using kb x z by (intro floor_log2_eqI) auto
  define i where "i = nat (52 - k)"
  have pi: "1 / pow2 (k - 52) = 2 ^ i"
    using k52 by (auto simp: pow2_def i_def)
  have xi: "x / pow2 (k - 52) = of_int (n * 2 ^ i)"
  proof -
    have "x / pow2 (k - 52) = x * (1 / pow2 (k - 52))" by simp
    then show ?thesis by (simp only: pi x_def of_int_mult of_int_power of_int_numeral)
  qed
  have "pow2 (k + 1) = pow2 (k - 52) * 2 ^ 53" using pow2_add_nat [of "k - 52" 53] by (simp add: add.commute)
  then have "x / pow2 (k - 52) < 2 ^ 53"
    using kb(2) by (simp add: pos_divide_less_eq mult.commute)
  moreover have "z / pow2 (k - 52) - x / pow2 (k - 52) = 12 * (x / pow2 (k - 52)) / 576460752303423488"
    by (simp add: z add_divide_distrib)
  moreover have "0 < x / pow2 (k - 52)" using x by simp
  ultimately have "\<bar>z / pow2 (k - 52) - x / pow2 (k - 52)\<bar> < 1 / 2" by (simp only: small_error)
  then have "\<bar>z / pow2 (k - 52) - of_int (n * 2 ^ i)\<bar> < 1 / 2" by (simp only: xi)
  then have "round_half_even (z / pow2 (k - 52)) = n * 2 ^ i" by (rule round_half_even_near)
  moreover have "0 < z" using x z by simp
  ultimately have "round_f64 z = of_int (n * 2 ^ i) * pow2 (k - 52)"
    by (simp only: round_f64_pos \<open>floor_log2 z = k\<close>)
  also have "\<dots> = x" unfolding xi [symmetric] by simp
  finally show ?thesis by (simp add: f64_mul_def z_def x_def)
qed

text \<open>Comparing an integer with the float \<open>0.01 * m\<close> is comparing it with \<open>m / 100\<close>.\<close>

theorem f64_hundredth_le:
  assumes "m < 2 ^ 46" and "0 \<le> n" and "n < 2 ^ 46"
  shows "f64_mul f64_hundredth (of_nat m) \<le> of_int n \<longleftrightarrow> int m \<le> 100 * n"
proof
  assume le: "int m \<le> 100 * n"
  have "f64_mul f64_hundredth (of_nat m) \<le> f64_mul f64_hundredth (of_int (100 * n))"
    unfolding f64_mul_def
  proof (rule round_f64_mono, rule mult_left_mono)
    show "of_nat m \<le> (of_int (100 * n) :: rat)"
      using le by (metis of_int_le_iff of_int_of_nat_eq)
  qed (simp add: f64_hundredth_def)
  then show "f64_mul f64_hundredth (of_nat m) \<le> of_int n"
    using f64_hundredth_100 [of n] assms by simp
next
  assume le: "f64_mul f64_hundredth (of_nat m) \<le> of_int n"
  show "int m \<le> 100 * n"
  proof (rule ccontr)
    assume "\<not> int m \<le> 100 * n"
    then have "of_int (100 * n + 1) \<le> (of_nat m :: rat)"
      by (metis not_le of_int_le_iff of_int_of_nat_eq zless_imp_add1_zle)
    then have "of_int (128 * n + 1) * pow2 (- 7) \<le> f64_hundredth * of_nat m"
      using assms(2) by (simp add: f64_hundredth_def pow2_def)
    then have "round_f64 (of_int (128 * n + 1) * pow2 (- 7)) \<le> f64_mul f64_hundredth (of_nat m)"
      unfolding f64_mul_def by (rule round_f64_mono)
    moreover have "round_f64 (of_int (128 * n + 1) * pow2 (- 7)) = of_int (128 * n + 1) * pow2 (- 7)"
      using assms(2,3) by (intro round_f64_exact) auto
    ultimately have "of_int (128 * n + 1) * pow2 (- 7) \<le> (of_int n :: rat)" using le by linarith
    then show False by (simp add: pow2_def)
  qed
qed

end
