(* ===== verification/Sequences.thy ===== *)
theory Sequences
  imports Token_Blocks Prefix_Pool Sampling_Params "HOL-Library.Char_ord" "HOL-Library.List_Lexorder"
begin

text \<open>
  \<^verbatim>\<open>vllm/sequence.py\<close>: the status of a sequence, its data and logical blocks, and sequence groups.
  A sequence is owned by one group and a group by one queue, so both are values here; what the code
  shares between groups (physical blocks, prefixes) is held by reference. The lemmas say how the
  operations act on the token list a sequence stands for and on the dictionary of a group.
\<close>

section \<open>Status\<close>

datatype sequence_status =
    WAITING
  | RUNNING
  | SWAPPED
  | FINISHED_STOPPED
  | FINISHED_LENGTH_CAPPED
  | FINISHED_ABORTED
  | FINISHED_IGNORED

definition status_is_finished :: "sequence_status \<Rightarrow> bool" where
  "status_is_finished s \<longleftrightarrow>
     s \<in> set [FINISHED_STOPPED, FINISHED_LENGTH_CAPPED, FINISHED_ABORTED, FINISHED_IGNORED]"

definition get_finished_reason :: "sequence_status \<Rightarrow> string option" where
  "get_finished_reason s =
     (if s = FINISHED_STOPPED then Some ''stop''
      else if s = FINISHED_LENGTH_CAPPED then Some ''length''
      else if s = FINISHED_ABORTED then Some ''abort''
      else if s = FINISHED_IGNORED then Some ''length''
      else None)"

lemma status_is_finished_simps [simp]:
  "\<not> status_is_finished WAITING" "\<not> status_is_finished RUNNING" "\<not> status_is_finished SWAPPED"
  "status_is_finished FINISHED_STOPPED" "status_is_finished FINISHED_LENGTH_CAPPED"
  "status_is_finished FINISHED_ABORTED" "status_is_finished FINISHED_IGNORED"
  by (simp_all add: status_is_finished_def)

lemma get_finished_reason_iff: "get_finished_reason s = None \<longleftrightarrow> \<not> status_is_finished s"
  by (cases s) (simp_all add: get_finished_reason_def)

section \<open>Sequence data\<close>

record sequence_data =
  prompt_token_ids :: "int list"
  output_token_ids :: "int list"
  cumulative_logprob :: float64

definition new_sequence_data :: "int list \<Rightarrow> sequence_data" where
  "new_sequence_data ts = \<lparr>prompt_token_ids = ts, output_token_ids = [], cumulative_logprob = 0\<rparr>"

definition data_append_token_id :: "int \<Rightarrow> float64 \<Rightarrow> sequence_data \<Rightarrow> sequence_data" where
  "data_append_token_id t lp d =
     d\<lparr>output_token_ids := output_token_ids d @ [t],
       cumulative_logprob := f64_add (cumulative_logprob d) lp\<rparr>"

definition data_get_len :: "sequence_data \<Rightarrow> nat" where
  "data_get_len d = length (output_token_ids d) + length (prompt_token_ids d)"

definition data_get_token_ids :: "sequence_data \<Rightarrow> int list" where
  "data_get_token_ids d = prompt_token_ids d @ output_token_ids d"

definition data_get_last_token_id :: "sequence_data \<Rightarrow> int result" where
  "data_get_last_token_id d =
     (if output_token_ids d = [] then py_last (prompt_token_ids d) else py_last (output_token_ids d))"

lemma data_get_last_token_id_eq: "data_get_last_token_id d = py_last (data_get_token_ids d)"
  by (simp add: data_get_last_token_id_def data_get_token_ids_def py_last_def)

lemma data_get_len_eq: "data_get_len d = length (data_get_token_ids d)"
  by (simp add: data_get_len_def data_get_token_ids_def)

lemma data_get_token_ids_append [simp]:
  "data_get_token_ids (data_append_token_id t lp d) = data_get_token_ids d @ [t]"
  by (simp add: data_get_token_ids_def data_append_token_id_def)

section \<open>Sequences\<close>

text \<open>\<^verbatim>\<open>vllm/lora/request.py\<close>.\<close>

record lora_request =
  lora_name :: string
  lr_lora_int_id :: int
  lora_local_path :: string

type_synonym logprob_dict = "(int, float64) dict"

record sequence =
  seq_id :: int
  seq_prompt :: "string option"
  seq_block_size :: nat
  seq_lora_request :: "lora_request option"
  seq_data :: sequence_data
  output_logprobs :: "logprob_dict list"
  output_text :: string
  logical_token_blocks :: "logical_token_block list"
  status :: sequence_status
  prefix_offset :: nat
  read_offset :: nat
  seq_tokens :: "string list option"

definition new_sequence :: "int \<Rightarrow> string option \<Rightarrow> int list \<Rightarrow> nat \<Rightarrow> lora_request option \<Rightarrow> sequence result" where
  "new_sequence sid prompt ts bs lora =
     ebind (append_tokens_to_blocks bs ts []) (\<lambda>blocks.
       Inr \<lparr>seq_id = sid, seq_prompt = prompt, seq_block_size = bs, seq_lora_request = lora,
            seq_data = new_sequence_data ts, output_logprobs = [], output_text = '''',
            logical_token_blocks = blocks, status = WAITING,
            prefix_offset = 0, read_offset = 0, seq_tokens = None\<rparr>)"

definition seq_lora_int_id :: "sequence \<Rightarrow> int" where
  "seq_lora_int_id s = (case seq_lora_request s of None \<Rightarrow> 0 | Some r \<Rightarrow> lr_lora_int_id r)"

definition seq_append_token_id :: "int \<Rightarrow> logprob_dict \<Rightarrow> sequence \<Rightarrow> sequence result" where
  "seq_append_token_id t lps s =
     ebind (py_assert (t \<in> set (dict_keys lps))) (\<lambda>_.
     ebind (append_tokens_to_blocks (seq_block_size s) [t] (logical_token_blocks s)) (\<lambda>blocks.
     ebind (dict_get lps t) (\<lambda>lp.
       Inr (s\<lparr>logical_token_blocks := blocks,
              output_logprobs := output_logprobs s @ [lps],
              seq_data := data_append_token_id t lp (seq_data s)\<rparr>))))"

definition seq_get_len :: "sequence \<Rightarrow> nat" where
  "seq_get_len s = data_get_len (seq_data s)"

definition seq_get_prompt_len :: "sequence \<Rightarrow> nat" where
  "seq_get_prompt_len s = length (prompt_token_ids (seq_data s))"

definition seq_get_output_len :: "sequence \<Rightarrow> nat" where
  "seq_get_output_len s = length (output_token_ids (seq_data s))"

definition seq_get_token_ids :: "sequence \<Rightarrow> int list" where
  "seq_get_token_ids s = data_get_token_ids (seq_data s)"

definition seq_get_last_token_id :: "sequence \<Rightarrow> int result" where
  "seq_get_last_token_id s = data_get_last_token_id (seq_data s)"

text \<open>
  The score divides the log probability by a float power; \<open>f64_pow\<close>, the interpreter's \<^verbatim>\<open>**\<close> on
  an integer and a float, is a parameter (a power of 0 to a positive exponent is 0, and then the division raises).
\<close>

definition get_beam_search_score ::
    "(int \<Rightarrow> float64 \<Rightarrow> float64) \<Rightarrow> float64 \<Rightarrow> int option \<Rightarrow> int option \<Rightarrow> sequence \<Rightarrow> float64 result" where
  "get_beam_search_score f64_pow lp seq_len eos_token_id s =
     ebind (case seq_len of
         Some l \<Rightarrow> Inr l
       | None \<Rightarrow>
           (case eos_token_id of
              None \<Rightarrow> Inr (int (seq_get_len s))
            | Some eos \<Rightarrow> ebind (seq_get_last_token_id s) (\<lambda>t.
                Inr (if t = eos then int (seq_get_len s) - 1 else int (seq_get_len s))))) (\<lambda>l.
       f64_div (cumulative_logprob (seq_data s)) (f64_pow l lp))"

definition seq_is_finished :: "sequence \<Rightarrow> bool" where
  "seq_is_finished s \<longleftrightarrow> status_is_finished (status s)"

definition seq_fork :: "int \<Rightarrow> sequence \<Rightarrow> sequence" where
  "seq_fork new_id s = s\<lparr>seq_id := new_id\<rparr>"

text \<open>\<open>seq_ok s\<close>: the logical blocks of a sequence store its tokens.\<close>

definition seq_ok :: "sequence \<Rightarrow> bool" where
  "seq_ok s \<longleftrightarrow> 0 < seq_block_size s \<and>
     blocks_rep (seq_block_size s) (logical_token_blocks s) (seq_get_token_ids s)"

lemma new_sequence_ok:
  assumes "0 < bs"
  shows "\<exists>s. new_sequence sid prompt ts bs lora = Inr s \<and> seq_ok s \<and> seq_get_token_ids s = ts \<and>
    status s = WAITING \<and> seq_id s = sid \<and> seq_block_size s = bs"
  using append_tokens_rep [OF assms, of "[]" "[]" ts] assms
  by (auto simp: new_sequence_def seq_ok_def seq_get_token_ids_def data_get_token_ids_def new_sequence_data_def)

lemma seq_append_token_id_ok:
  assumes "seq_ok s" and "t \<in> set (dict_keys lps)"
  shows "\<exists>s'. seq_append_token_id t lps s = Inr s' \<and> seq_ok s' \<and>
    seq_get_token_ids s' = seq_get_token_ids s @ [t] \<and> status s' = status s \<and> seq_id s' = seq_id s"
proof -
  obtain blocks where b: "append_tokens_to_blocks (seq_block_size s) [t] (logical_token_blocks s) = Inr blocks"
    "blocks_rep (seq_block_size s) blocks (seq_get_token_ids s @ [t])"
    using append_tokens_rep [of "seq_block_size s" "logical_token_blocks s" "seq_get_token_ids s" "[t]"] assms(1)
    by (auto simp: seq_ok_def)
  obtain lp where lp: "map_of lps t = Some lp"
    using assms(2) by (metis map_of_eq_None_iff not_None_eq set_map)
  show ?thesis
    using assms b lp
    by (simp add: seq_append_token_id_def seq_ok_def seq_get_token_ids_def dict_get_def ebind_def py_assert_def
             split: sum.splits)
qed

lemma seq_ok_length:
  "seq_ok s \<Longrightarrow> length (logical_token_blocks s) = (seq_get_len s + seq_block_size s - 1) div seq_block_size s"
  using blocks_rep_length [of "seq_block_size s" "logical_token_blocks s" "seq_get_token_ids s"]
  by (simp add: seq_ok_def seq_get_len_def data_get_len_eq seq_get_token_ids_def)

lemma seq_append_token_id_missing: "t \<notin> set (dict_keys lps) \<Longrightarrow> seq_append_token_id t lps s = Inl AssertionError"
  by (simp add: seq_append_token_id_def py_assert_def)

lemma seq_ok_fork [simp]: "seq_ok (seq_fork k s) = seq_ok s"
  by (simp add: seq_ok_def seq_fork_def seq_get_token_ids_def)

section \<open>Sequence groups\<close>

text \<open>
  The id of a request: a string from \<^verbatim>\<open>LLM.generate\<close>, an integer from the communicator between
  models. The scheduler sorts by it; Python compares two ids of the same type only.
\<close>

datatype req_id = IntId int | StrId string

definition is_int_id :: "req_id \<Rightarrow> bool" where
  "is_int_id r = (case r of IntId _ \<Rightarrow> True | StrId _ \<Rightarrow> False)"

instantiation req_id :: linorder
begin

definition less_eq_req_id :: "req_id \<Rightarrow> req_id \<Rightarrow> bool" where
  "less_eq_req_id r r' = (case (r, r') of (IntId i, IntId j) \<Rightarrow> i \<le> j | (IntId _, StrId _) \<Rightarrow> True
     | (StrId _, IntId _) \<Rightarrow> False | (StrId s, StrId t) \<Rightarrow> s \<le> t)"

definition less_req_id :: "req_id \<Rightarrow> req_id \<Rightarrow> bool" where
  "less_req_id r r' \<longleftrightarrow> r \<le> r' \<and> \<not> r' \<le> r"

instance
  by standard (auto simp: less_req_id_def less_eq_req_id_def split: req_id.splits)

end

record sequence_group =
  request_id :: req_id
  seqs_dict :: "(int, sequence) dict"
  sg_sampling_params :: sampling_params
  arrival_time :: float64
  last_token_time :: float64
  sg_lora_request :: "lora_request option"
  sg_prefix :: "prefix_ref option"
  sg_prompt_logprobs :: "logprob_dict option list option"

definition new_sequence_group ::
    "req_id \<Rightarrow> sequence list \<Rightarrow> sampling_params \<Rightarrow> float64 \<Rightarrow> lora_request option \<Rightarrow> prefix_ref option \<Rightarrow> sequence_group" where
  "new_sequence_group rid seqs sp arrival lora prefix =
     \<lparr>request_id = rid, seqs_dict = fold (\<lambda>s. dict_set (seq_id s) s) seqs [], sg_sampling_params = sp,
      arrival_time = arrival, last_token_time = arrival, sg_lora_request = lora, sg_prefix = prefix,
      sg_prompt_logprobs = None\<rparr>"

definition sg_prompt :: "sequence_group \<Rightarrow> string option result" where
  "sg_prompt g = ebind (py_index (dict_values (seqs_dict g)) 0) (\<lambda>s. Inr (seq_prompt s))"

definition sg_prompt_token_ids :: "sequence_group \<Rightarrow> int list result" where
  "sg_prompt_token_ids g =
     ebind (py_index (dict_values (seqs_dict g)) 0) (\<lambda>s. Inr (prompt_token_ids (seq_data s)))"

definition sg_lora_int_id :: "sequence_group \<Rightarrow> int" where
  "sg_lora_int_id g = (case sg_lora_request g of None \<Rightarrow> 0 | Some r \<Rightarrow> lr_lora_int_id r)"

definition get_last_latency :: "float64 \<Rightarrow> sequence_group \<Rightarrow> float64 \<times> sequence_group" where
  "get_last_latency now g = (f64_sub now (last_token_time g), g\<lparr>last_token_time := now\<rparr>)"

definition get_seqs :: "sequence_status option \<Rightarrow> sequence_group \<Rightarrow> sequence list" where
  "get_seqs st g =
     (case st of None \<Rightarrow> dict_values (seqs_dict g)
      | Some x \<Rightarrow> filter (\<lambda>s. status s = x) (dict_values (seqs_dict g)))"

definition get_unfinished_seqs :: "sequence_group \<Rightarrow> sequence list" where
  "get_unfinished_seqs g = filter (\<lambda>s. \<not> seq_is_finished s) (dict_values (seqs_dict g))"

definition get_finished_seqs :: "sequence_group \<Rightarrow> sequence list" where
  "get_finished_seqs g = filter seq_is_finished (dict_values (seqs_dict g))"

definition num_seqs :: "sequence_status option \<Rightarrow> sequence_group \<Rightarrow> nat" where
  "num_seqs st g = length (get_seqs st g)"

definition num_unfinished_seqs :: "sequence_group \<Rightarrow> nat" where
  "num_unfinished_seqs g = length (get_unfinished_seqs g)"

definition num_finished_seqs :: "sequence_group \<Rightarrow> nat" where
  "num_finished_seqs g = length (get_finished_seqs g)"

definition get_max_num_running_seqs :: "sequence_group \<Rightarrow> int" where
  "get_max_num_running_seqs g =
     (if use_beam_search (sg_sampling_params g) then best_of (sg_sampling_params g)
      else if best_of (sg_sampling_params g) > int (num_seqs None g) then best_of (sg_sampling_params g)
      else int (num_unfinished_seqs g))"

definition sg_find :: "int \<Rightarrow> sequence_group \<Rightarrow> sequence result" where
  "sg_find sid g =
     (case map_of (seqs_dict g) sid of None \<Rightarrow> Inl (ValueError ''not found'') | Some s \<Rightarrow> Inr s)"

definition sg_add :: "sequence \<Rightarrow> sequence_group \<Rightarrow> sequence_group result" where
  "sg_add s g =
     (if seq_id s \<in> set (dict_keys (seqs_dict g)) then Inl (ValueError ''already exists'')
      else Inr (g\<lparr>seqs_dict := dict_set (seq_id s) s (seqs_dict g)\<rparr>))"

definition sg_remove :: "int \<Rightarrow> sequence_group \<Rightarrow> sequence_group result" where
  "sg_remove sid g =
     (if sid \<notin> set (dict_keys (seqs_dict g)) then Inl (ValueError ''not found'')
      else Inr (g\<lparr>seqs_dict := dict_del sid (seqs_dict g)\<rparr>))"

definition sg_is_finished :: "sequence_group \<Rightarrow> bool" where
  "sg_is_finished g \<longleftrightarrow> (\<forall>s \<in> set (get_seqs None g). seq_is_finished s)"

text \<open>The callers' loop \<^verbatim>\<open>for seq in group.get_seqs(status=old): seq.status = new\<close>.\<close>

definition set_seqs_status :: "sequence_status \<Rightarrow> sequence_status \<Rightarrow> sequence_group \<Rightarrow> sequence_group" where
  "set_seqs_status old new g =
     g\<lparr>seqs_dict := map (\<lambda>(k, s). (k, if status s = old then s\<lparr>status := new\<rparr> else s)) (seqs_dict g)\<rparr>"

text \<open>\<open>sg_ok g\<close>: a dictionary keyed by the ids of its sequences.\<close>

definition sg_ok :: "sequence_group \<Rightarrow> bool" where
  "sg_ok g \<longleftrightarrow> dict_ok (seqs_dict g) \<and> (\<forall>(k, s) \<in> set (seqs_dict g). k = seq_id s)"

lemma get_seqs_None [simp]: "get_seqs None g = dict_values (seqs_dict g)"
  by (simp add: get_seqs_def)

lemma get_seqs_Some: "get_seqs (Some x) g = filter (\<lambda>s. status s = x) (dict_values (seqs_dict g))"
  by (simp add: get_seqs_def)

lemma num_finished_plus_unfinished: "num_finished_seqs g + num_unfinished_seqs g = num_seqs None g"
  using sum_length_filter_compl [of seq_is_finished "dict_values (seqs_dict g)"]
  unfolding num_finished_seqs_def num_unfinished_seqs_def num_seqs_def get_finished_seqs_def
    get_unfinished_seqs_def get_seqs_None .

lemma sg_is_finished_iff: "sg_is_finished g \<longleftrightarrow> num_unfinished_seqs g = 0"
  by (auto simp: sg_is_finished_def num_unfinished_seqs_def get_unfinished_seqs_def filter_empty_conv)

lemma set_seqs_status_fields [simp]:
  "request_id (set_seqs_status a b g) = request_id g"
  "sg_prefix (set_seqs_status a b g) = sg_prefix g"
  "arrival_time (set_seqs_status a b g) = arrival_time g"
  "sg_sampling_params (set_seqs_status a b g) = sg_sampling_params g"
  "sg_lora_request (set_seqs_status a b g) = sg_lora_request g"
  "dict_keys (seqs_dict (set_seqs_status a b g)) = dict_keys (seqs_dict g)"
  by (simp_all add: set_seqs_status_def split_beta comp_def)

lemma dict_values_set_seqs_status:
  "dict_values (seqs_dict (set_seqs_status a b g)) =
     map (\<lambda>s. if status s = a then s\<lparr>status := b\<rparr> else s) (dict_values (seqs_dict g))"
  by (simp add: set_seqs_status_def split_beta comp_def)

lemma filter_set_status_new:
  "\<forall>s \<in> set xs. status s \<noteq> b \<Longrightarrow>
   filter (\<lambda>s. status s = b) (map (\<lambda>s. if status s = a then s\<lparr>status := b\<rparr> else s) xs) =
   map (\<lambda>s. s\<lparr>status := b\<rparr>) (filter (\<lambda>s. status s = a) xs)"
  by (induction xs) auto

lemma get_seqs_set_status_new:
  assumes "get_seqs (Some b) g = []"
  shows "get_seqs (Some b) (set_seqs_status a b g) = map (\<lambda>s. s\<lparr>status := b\<rparr>) (get_seqs (Some a) g)"
  unfolding get_seqs_Some dict_values_set_seqs_status
  by (rule filter_set_status_new) (use assms in \<open>simp add: get_seqs_Some filter_empty_conv\<close>)

lemma get_seqs_set_status_old: "a \<noteq> b \<Longrightarrow> get_seqs (Some a) (set_seqs_status a b g) = []"
  by (auto simp: get_seqs_Some dict_values_set_seqs_status filter_empty_conv)

lemma sg_ok_set_seqs_status [simp]: "sg_ok (set_seqs_status a b g) = sg_ok g"
proof -
  have "(case (case x of (k, s) \<Rightarrow> (k, if status s = a then s\<lparr>status := b\<rparr> else s)) of (k, s) \<Rightarrow> k = seq_id s)
      = (case x of (k, s) \<Rightarrow> k = seq_id s)" for x :: "int \<times> sequence"
    by (auto split: prod.split)
  moreover have "seqs_dict (set_seqs_status a b g) =
      map (\<lambda>(k, s). (k, if status s = a then s\<lparr>status := b\<rparr> else s)) (seqs_dict g)"
    by (simp add: set_seqs_status_def)
  ultimately have "(\<forall>x \<in> set (seqs_dict (set_seqs_status a b g)). case x of (k, s) \<Rightarrow> k = seq_id s)
      = (\<forall>x \<in> set (seqs_dict g). case x of (k, s) \<Rightarrow> k = seq_id s)"
    by (simp only: set_map ball_simps)
  then show ?thesis by (simp add: sg_ok_def)
qed

lemma num_seqs_set_seqs_status [simp]: "num_seqs None (set_seqs_status a b g) = num_seqs None g"
  by (simp add: num_seqs_def set_seqs_status_def)

lemma sg_ok_new_sequence_group: "distinct (map seq_id seqs) \<Longrightarrow> sg_ok (new_sequence_group r seqs p a l x)"
proof -
  have "dict_ok (fold (\<lambda>s. dict_set (seq_id s) s) seqs d) \<and>
        (\<forall>(k, s) \<in> set (fold (\<lambda>s. dict_set (seq_id s) s) seqs d). k = seq_id s)"
    if "dict_ok d" "\<forall>(k, s) \<in> set d. k = seq_id s" for d
    using that
  proof (induction seqs arbitrary: d)
    case Nil
    then show ?case by simp
  next
    case (Cons s seqs)
    have "set (dict_set (seq_id s) s d) \<subseteq> insert (seq_id s, s) (set d)"
      by (induction d) auto
    with Cons.prems show ?case by (auto intro!: Cons.IH)
  qed
  from this [of "[]"] show ?thesis by (simp add: sg_ok_def new_sequence_group_def)
qed

lemma sg_add_remove:
  assumes "seq_id s \<notin> set (dict_keys (seqs_dict g))"
  shows "ebind (sg_add s g) (sg_remove (seq_id s)) = Inr g"
proof -
  have "dict_set k v d = d @ [(k, v)]" if "k \<notin> fst ` set d" for k v and d :: "(int, sequence) dict"
    using that by (induction d) auto
  moreover have "filter (\<lambda>(k', _). seq_id s \<noteq> k') (seqs_dict g) = seqs_dict g"
    using assms by (force intro: filter_True)
  ultimately show ?thesis
    using assms by (simp add: sg_add_def sg_remove_def AList.delete_eq)
qed

end
