(* ===== verification/Sched_Policy.thy ===== *)
theory Sched_Policy
  imports Sequences Float64 "HOL-Library.Product_Lexorder"
begin

text \<open>
  \<^verbatim>\<open>vllm/core/policy.py\<close>: the order in which queues are served. The interface of the class \<open>Policy\<close>
  is a locale: \<open>sort_by_priority\<close> is a stable sort by decreasing priority, whatever the priority is.
  \<open>FCFS\<close>, the only policy of the registry, interprets it. Python's \<^verbatim>\<open>sorted(reverse=True)\<close> keeps the
  order of equal elements, as \<^term>\<open>sort_key\<close> by the negated key does.
\<close>

definition fcfs_get_priority :: "float64 \<Rightarrow> sequence_group \<Rightarrow> float64" where
  "fcfs_get_priority now g = f64_sub now (arrival_time g)"

definition sort_by_priority :: "float64 \<Rightarrow> sequence_group list \<Rightarrow> sequence_group list" where
  "sort_by_priority now gs = sort_key (\<lambda>g. - fcfs_get_priority now g) gs"

locale priority_policy =
  fixes get_priority :: "float64 \<Rightarrow> 'g \<Rightarrow> float64"
    and sort_by :: "float64 \<Rightarrow> 'g list \<Rightarrow> 'g list"
  assumes sort_by_sorted: "sorted_wrt (\<lambda>g h. get_priority now h \<le> get_priority now g) (sort_by now gs)"
    and sort_by_stable: "filter (\<lambda>g. get_priority now g = p) (sort_by now gs) = filter (\<lambda>g. get_priority now g = p) gs"
    and sort_by_mset: "mset (sort_by now gs) = mset gs"
begin

lemma sort_by_set [simp]: "set (sort_by now gs) = set gs"
  using sort_by_mset by (metis set_mset_mset)

lemma sort_by_length [simp]: "length (sort_by now gs) = length gs"
  using sort_by_mset by (metis size_mset)

text \<open>No group is served before one that has a higher priority.\<close>

lemma sort_by_first:
  assumes "i < j" and "j < length gs"
  shows "get_priority now (sort_by now gs ! j) \<le> get_priority now (sort_by now gs ! i)"
  using assms sort_by_sorted [of now gs] by (simp add: sorted_wrt_iff_nth_less)

lemma sort_by_same: "(\<And>g. g \<in> set gs \<Longrightarrow> get_priority now g = p) \<Longrightarrow> sort_by now gs = gs"
proof -
  assume p: "\<And>g. g \<in> set gs \<Longrightarrow> get_priority now g = p"
  have "filter (\<lambda>g. get_priority now g = p) (sort_by now gs) = sort_by now gs"
    "filter (\<lambda>g. get_priority now g = p) gs = gs"
    by (simp_all add: filter_id_conv p)
  then show "sort_by now gs = gs" using sort_by_stable [of now p gs] by simp
qed

end

interpretation fcfs: priority_policy fcfs_get_priority sort_by_priority
proof
  fix now :: float64 and gs :: "sequence_group list" and p
  have "sorted (map (\<lambda>g. - fcfs_get_priority now g) (sort_by_priority now gs))"
    by (simp add: sort_by_priority_def)
  then show "sorted_wrt (\<lambda>g h. fcfs_get_priority now h \<le> fcfs_get_priority now g) (sort_by_priority now gs)"
    by (simp add: sorted_map)
  have "filter (\<lambda>g. - fcfs_get_priority now g = - p) (sort_by_priority now gs) =
      filter (\<lambda>g. - fcfs_get_priority now g = - p) gs"
    unfolding sort_by_priority_def by (rule sort_key_stable)
  then show "filter (\<lambda>g. fcfs_get_priority now g = p) (sort_by_priority now gs) = filter (\<lambda>g. fcfs_get_priority now g = p) gs"
    by simp
  show "mset (sort_by_priority now gs) = mset gs" by (simp add: sort_by_priority_def)
qed

text \<open>First come, first served: the rounding of the difference is monotone, so an earlier arrival never comes later.\<close>

lemma fcfs_earlier:
  assumes "arrival_time g \<le> arrival_time h"
  shows "fcfs_get_priority now h \<le> fcfs_get_priority now g"
  unfolding fcfs_get_priority_def f64_sub_def using assms by (intro round_f64_mono) simp

end
