(* ===== verification/Block_Pool.thy ===== *)
theory Block_Pool
  imports Prefix_Pool Float64
begin

text \<open>
  The allocator of \<^verbatim>\<open>vllm/core/block_manager.py\<close> (class \<open>BlockAllocator\<close>), the state of its
  \<open>BlockSpaceManager\<close>, and the interface between them. The state holds the two allocators, the
  block tables by sequence id, and the heap: the reference count of every physical block and the
  prefixes. The interface is a locale: a store of counted references to blocks, in which the counts
  are at every moment those of a multiset of references, and a pool that also hands out free blocks.
  The GPU and the CPU allocator are two interpretations, and freeing a block on its own device a third.
\<close>

section \<open>BlockAllocator\<close>

record block_allocator =
  ba_device :: device
  ba_block_size :: nat
  ba_num_blocks :: nat
  free_blocks :: block_table

definition new_block_allocator :: "device \<Rightarrow> nat \<Rightarrow> nat \<Rightarrow> block_allocator" where
  "new_block_allocator d bs nb =
     \<lparr>ba_device = d, ba_block_size = bs, ba_num_blocks = nb,
      free_blocks = map (\<lambda>i. (d, i)) (rev [0..<nb])\<rparr>"

definition alloc_block :: "block_heap \<Rightarrow> block_allocator \<Rightarrow> (block_id \<times> block_heap \<times> block_allocator) result" where
  "alloc_block h a =
     (if free_blocks a = [] then Inl (ValueError ''Out of memory'')
      else let b = last (free_blocks a)
           in Inr (b, h(b := 1), a\<lparr>free_blocks := butlast (free_blocks a)\<rparr>))"

definition free_block :: "block_id \<Rightarrow> block_heap \<Rightarrow> block_allocator \<Rightarrow> (block_heap \<times> block_allocator) result" where
  "free_block b h a =
     (if h b = 0 then Inl (ValueError ''Double free'')
      else let h' = h(b := h b - 1)
           in Inr (h', if h' b = 0 then a\<lparr>free_blocks := free_blocks a @ [b]\<rparr> else a))"

definition get_num_free_blocks :: "block_allocator \<Rightarrow> nat" where
  "get_num_free_blocks a = length (free_blocks a)"

text \<open>The loop over \<^verbatim>\<open>enumerate(self.free_blocks)\<close>, from index \<open>i\<close> on.\<close>

fun take_idxs :: "nat set \<Rightarrow> nat \<Rightarrow> block_table \<Rightarrow> block_table \<times> block_table" where
  "take_idxs idxs i [] = ([], [])"
| "take_idxs idxs i (b # bs) =
     (case take_idxs idxs (Suc i) bs of (taken, left) \<Rightarrow>
        if i \<in> idxs then (b # taken, left) else (taken, b # left))"

definition allocate_given_blk_idxs_in_free_list ::
    "nat list \<Rightarrow> block_heap \<Rightarrow> block_allocator \<Rightarrow> block_table \<times> block_heap \<times> block_allocator" where
  "allocate_given_blk_idxs_in_free_list blk_idxs h a =
     (case take_idxs (set blk_idxs) 0 (free_blocks a) of (blocks, new_free_blocks) \<Rightarrow>
        (blocks, fold (\<lambda>b h. if h b = 0 then h(b := 1) else h) blocks h,
         a\<lparr>free_blocks := new_free_blocks\<rparr>))"

text \<open>The allocator agrees with the heap: its free list holds, once each, its blocks with count 0.\<close>

definition alloc_ok :: "device \<Rightarrow> block_allocator \<Rightarrow> block_heap \<Rightarrow> bool" where
  "alloc_ok d a h \<longleftrightarrow> ba_device a = d \<and> distinct (free_blocks a) \<and>
     set (free_blocks a) = {b. fst b = d \<and> snd b < ba_num_blocks a \<and> h b = 0} \<and>
     (\<forall>b. fst b = d \<and> 0 < h b \<longrightarrow> snd b < ba_num_blocks a)"

lemma alloc_ok_new: "alloc_ok d (new_block_allocator d bs nb) (\<lambda>_. 0)"
  by (auto simp: alloc_ok_def new_block_allocator_def distinct_map inj_on_def)

lemma alloc_ok_other: "alloc_ok d a h \<Longrightarrow> (\<And>b. fst b = d \<Longrightarrow> h' b = h b) \<Longrightarrow> alloc_ok d a h'"
  unfolding alloc_ok_def by auto

lemma alloc_block_ok:
  assumes "alloc_ok d a h" and "free_blocks a \<noteq> []"
  obtains b a' where "alloc_block h a = Inr (b, h(b := 1), a')" "alloc_ok d a' (h(b := 1))"
    "h b = 0" "fst b = d" "length (free_blocks a') = length (free_blocks a) - 1"
proof
  let ?b = "last (free_blocks a)" and ?a = "a\<lparr>free_blocks := butlast (free_blocks a)\<rparr>"
  have fb: "free_blocks a = butlast (free_blocks a) @ [?b]" using assms(2) by simp
  have "?b \<in> set (free_blocks a)" using assms(2) by simp
  then have b: "fst ?b = d" "snd ?b < ba_num_blocks a" "h ?b = 0"
    using assms(1) by (simp_all add: alloc_ok_def)
  have "distinct (butlast (free_blocks a) @ [?b])" using assms(1) fb by (simp add: alloc_ok_def)
  then have dist: "distinct (butlast (free_blocks a))" "?b \<notin> set (butlast (free_blocks a))" by simp_all
  have "set (free_blocks a) = insert ?b (set (butlast (free_blocks a)))"
    by (subst fb) simp
  then have "set (butlast (free_blocks a)) = {x. fst x = d \<and> snd x < ba_num_blocks a \<and> h x = 0} - {?b}"
    using dist(2) assms(1) unfolding alloc_ok_def by auto
  moreover have "\<forall>x. fst x = d \<and> 0 < (h(?b := 1)) x \<longrightarrow> snd x < ba_num_blocks a"
    using assms(1) b(2) unfolding alloc_ok_def by (metis fun_upd_apply)
  ultimately show "alloc_ok d ?a (h(?b := 1))"
    using assms(1) dist(1) by (auto simp: alloc_ok_def)
  show "alloc_block h a = Inr (?b, h(?b := 1), ?a)" using assms(2) by (simp add: alloc_block_def Let_def)
  show "h ?b = 0" "fst ?b = d" by fact+
  show "length (free_blocks ?a) = length (free_blocks a) - 1" by simp
qed

lemma alloc_block_empty: "free_blocks a = [] \<longleftrightarrow> (\<exists>e. alloc_block h a = Inl e)"
  by (simp add: alloc_block_def Let_def)

lemma free_block_ok:
  assumes "alloc_ok d a h" and "fst b = d" and "0 < h b"
  obtains a' where "free_block b h a = Inr (h(b := h b - 1), a')" "alloc_ok d a' (h(b := h b - 1))"
    "length (free_blocks a') = length (free_blocks a) + (if h b = 1 then 1 else 0)"
proof
  let ?a = "if h b = 1 then a\<lparr>free_blocks := free_blocks a @ [b]\<rparr> else a"
  show "free_block b h a = Inr (h(b := h b - 1), ?a)"
    using assms(3) by (auto simp: free_block_def Let_def)
  show "alloc_ok d ?a (h(b := h b - 1))"
    using assms unfolding alloc_ok_def by auto
  show "length (free_blocks ?a) = length (free_blocks a) + (if h b = 1 then 1 else 0)" by simp
qed

lemma free_block_double: "h b = 0 \<Longrightarrow> free_block b h a = Inl (ValueError ''Double free'')"
  by (simp add: free_block_def)

section \<open>The state of the block space manager\<close>

record block_manager =
  bm_block_size :: nat
  num_total_gpu_blocks :: nat
  num_total_cpu_blocks :: nat
  block_sliding_window :: "nat option"
  watermark :: float64
  watermark_blocks :: int
  gpu_allocator :: block_allocator
  cpu_allocator :: block_allocator
  block_tables :: "(int, block_table) dict"
  actual_gpu_blk_rng_end :: int
  ref_count :: block_heap
  prefix_heap :: prefix_heap

text \<open>The allocators on that state.\<close>

definition gpu_alloc :: "block_manager \<Rightarrow> (block_id \<times> block_manager) result" where
  "gpu_alloc s = ebind (alloc_block (ref_count s) (gpu_allocator s)) (\<lambda>(b, h, a).
     Inr (b, s\<lparr>ref_count := h, gpu_allocator := a\<rparr>))"

definition gpu_free :: "block_id \<Rightarrow> block_manager \<Rightarrow> block_manager result" where
  "gpu_free b s = ebind (free_block b (ref_count s) (gpu_allocator s)) (\<lambda>(h, a).
     Inr (s\<lparr>ref_count := h, gpu_allocator := a\<rparr>))"

definition cpu_alloc :: "block_manager \<Rightarrow> (block_id \<times> block_manager) result" where
  "cpu_alloc s = ebind (alloc_block (ref_count s) (cpu_allocator s)) (\<lambda>(b, h, a).
     Inr (b, s\<lparr>ref_count := h, cpu_allocator := a\<rparr>))"

definition cpu_free :: "block_id \<Rightarrow> block_manager \<Rightarrow> block_manager result" where
  "cpu_free b s = ebind (free_block b (ref_count s) (cpu_allocator s)) (\<lambda>(h, a).
     Inr (s\<lparr>ref_count := h, cpu_allocator := a\<rparr>))"

definition dev_free :: "block_id \<Rightarrow> block_manager \<Rightarrow> block_manager result" where
  "dev_free b s = (if blk_device b = GPU then gpu_free b s else cpu_free b s)"

definition incr_refs :: "nat \<Rightarrow> block_table \<Rightarrow> block_manager \<Rightarrow> block_manager" where
  "incr_refs k t s = s\<lparr>ref_count := fold (\<lambda>b h. h(b := h b + k)) t (ref_count s)\<rparr>"

text \<open>
  \<open>refs_ok M s\<close>: the counts are those of the multiset \<open>M\<close> of references, and both allocators agree
  with them. \<open>bm_frame s t\<close>: the step from \<open>s\<close> to \<open>t\<close> touched the counts and free lists only.
\<close>

definition refs_ok :: "block_id multiset \<Rightarrow> block_manager \<Rightarrow> bool" where
  "refs_ok M s \<longleftrightarrow> alloc_ok GPU (gpu_allocator s) (ref_count s) \<and>
     alloc_ok CPU (cpu_allocator s) (ref_count s) \<and> ref_count s = count M"

definition bm_frame :: "block_manager \<Rightarrow> block_manager \<Rightarrow> bool" where
  "bm_frame s t \<longleftrightarrow>
     t = s\<lparr>ref_count := ref_count t, gpu_allocator := gpu_allocator t, cpu_allocator := cpu_allocator t\<rparr> \<and>
     ba_num_blocks (gpu_allocator t) = ba_num_blocks (gpu_allocator s) \<and>
     ba_num_blocks (cpu_allocator t) = ba_num_blocks (cpu_allocator s)"

lemma bm_frame_refl [simp]: "bm_frame s s"
  by (simp add: bm_frame_def)

lemma bm_frame_trans [trans]: "bm_frame s t \<Longrightarrow> bm_frame t u \<Longrightarrow> bm_frame s u"
  by (cases s; cases t; cases u) (auto simp: bm_frame_def)

lemma bm_frame_fields:
  assumes "bm_frame s t"
  shows "bm_block_size t = bm_block_size s" "num_total_gpu_blocks t = num_total_gpu_blocks s"
    "num_total_cpu_blocks t = num_total_cpu_blocks s" "block_sliding_window t = block_sliding_window s"
    "watermark_blocks t = watermark_blocks s" "block_tables t = block_tables s"
    "actual_gpu_blk_rng_end t = actual_gpu_blk_rng_end s" "prefix_heap t = prefix_heap s"
proof -
  have t: "t = s\<lparr>ref_count := ref_count t, gpu_allocator := gpu_allocator t, cpu_allocator := cpu_allocator t\<rparr>"
    using assms by (simp add: bm_frame_def)
  show "bm_block_size t = bm_block_size s" "num_total_gpu_blocks t = num_total_gpu_blocks s"
    "num_total_cpu_blocks t = num_total_cpu_blocks s" "block_sliding_window t = block_sliding_window s"
    "watermark_blocks t = watermark_blocks s" "block_tables t = block_tables s"
    "actual_gpu_blk_rng_end t = actual_gpu_blk_rng_end s" "prefix_heap t = prefix_heap s"
    by (subst t, simp)+
qed

section \<open>The interface: counted references\<close>

locale ref_store =
  fixes release :: "block_id \<Rightarrow> 's \<Rightarrow> 's result"
    and refs :: "block_id multiset \<Rightarrow> 's \<Rightarrow> bool"
    and frame :: "'s \<Rightarrow> 's \<Rightarrow> bool"
    and owns :: "block_id \<Rightarrow> bool"
  assumes frame_refl: "frame s s"
    and frame_trans: "frame s t \<Longrightarrow> frame t u \<Longrightarrow> frame s u"
    and release_ok: "refs M s \<Longrightarrow> b \<in># M \<Longrightarrow> owns b \<Longrightarrow>
      \<exists>t. release b s = Inr t \<and> refs (M - {#b#}) t \<and> frame s t"
    and release_double: "refs M s \<Longrightarrow> b \<notin># M \<Longrightarrow> \<exists>e. release b s = Inl e"
begin

lemma release_all:
  assumes "refs M s" and "mset bs \<subseteq># M" and "\<forall>b \<in> set bs. owns b"
  shows "\<exists>t. efold release bs s = Inr t \<and> refs (M - mset bs) t \<and> frame s t"
  using assms
proof (induction bs arbitrary: M s)
  case Nil
  then show ?case by (simp add: frame_refl)
next
  case (Cons b bs)
  have b: "b \<in># M" using Cons.prems(2) by (meson list.set_intros(1) mset_subset_eqD set_mset_mset in_multiset_in_set)
  obtain u where u: "release b s = Inr u" "refs (M - {#b#}) u" "frame s u"
    using release_ok [OF Cons.prems(1) b] Cons.prems(3) by auto
  have "mset bs \<subseteq># M - {#b#}"
    using Cons.prems(2) by (simp add: insert_subset_eq_iff)
  then obtain t where t: "efold release bs u = Inr t" "refs (M - {#b#} - mset bs) t" "frame u t"
    using Cons.IH [OF u(2)] Cons.prems(3) by auto
  then show ?case using u frame_trans by (auto simp: diff_diff_add_mset add_mset_commute)
qed

text \<open>Releasing more references than are held raises: a double free is always caught.\<close>

lemma release_too_many:
  assumes "refs M s" and "\<not> mset bs \<subseteq># M" and "\<forall>b \<in> set bs. owns b"
  shows "\<exists>e. efold release bs s = Inl e"
  using assms
proof (induction bs arbitrary: M s)
  case Nil
  then show ?case by simp
next
  case (Cons b bs)
  show ?case
  proof (cases "b \<in># M")
    case False
    then obtain e where "release b s = Inl e" using release_double [OF Cons.prems(1)] by blast
    then show ?thesis by simp
  next
    case True
    obtain u where u: "release b s = Inr u" "refs (M - {#b#}) u"
      using release_ok [OF Cons.prems(1) True] Cons.prems(3) by auto
    have "\<not> mset bs \<subseteq># M - {#b#}"
      using Cons.prems(2) True by (simp add: insert_subset_eq_iff)
    then show ?thesis using Cons.IH [OF u(2)] Cons.prems(3) u(1) by auto
  qed
qed

end

locale ref_pool = ref_store release refs frame owns
  for release :: "block_id \<Rightarrow> 's \<Rightarrow> 's result"
    and refs :: "block_id multiset \<Rightarrow> 's \<Rightarrow> bool"
    and frame :: "'s \<Rightarrow> 's \<Rightarrow> bool"
    and owns :: "block_id \<Rightarrow> bool" +
  fixes acquire :: "'s \<Rightarrow> (block_id \<times> 's) result"
    and avail :: "'s \<Rightarrow> nat"
  assumes acquire_ok: "refs M s \<Longrightarrow> 0 < avail s \<Longrightarrow>
      \<exists>b t. acquire s = Inr (b, t) \<and> refs (add_mset b M) t \<and> b \<notin># M \<and> owns b \<and>
            avail t = avail s - 1 \<and> frame s t"
    and acquire_empty: "avail s = 0 \<Longrightarrow> \<exists>e. acquire s = Inl e"
    and release_avail: "refs M s \<Longrightarrow> b \<in># M \<Longrightarrow> owns b \<Longrightarrow> release b s = Inr t \<Longrightarrow>
      avail t = avail s + (if count M b = 1 then 1 else 0)"
begin

text \<open>An acquired block released at once leaves the references and the number of free blocks as they were.\<close>

lemma acquire_release:
  assumes "refs M s" and "acquire s = Inr (b, t)"
  shows "\<exists>u. release b t = Inr u \<and> refs M u \<and> avail u = avail s \<and> frame s u"
proof -
  have "0 < avail s" using acquire_empty [of s] assms(2) by fastforce
  from acquire_ok [OF assms(1) this] assms(2)
  have t: "refs (add_mset b M) t" "b \<notin># M" "owns b" "avail t = avail s - 1" "frame s t" by auto
  obtain u where u: "release b t = Inr u" "refs M u" "frame t u"
    using release_ok [OF t(1), of b] t(3) by auto
  have "count (add_mset b M) b = 1" using t(2) by (simp add: not_in_iff)
  then have "avail u = avail t + 1" using release_avail [OF t(1) _ t(3) u(1)] by simp
  with t(4) \<open>0 < avail s\<close> u t(5) frame_trans show ?thesis by auto
qed

end

section \<open>The allocators provide it\<close>

lemma alloc_ok_upd_other: "alloc_ok d a h \<Longrightarrow> fst b \<noteq> d \<Longrightarrow> alloc_ok d a (h(b := v))"
  by (erule alloc_ok_other) auto

lemma alloc_block_num: "alloc_block h a = Inr (b, h', a') \<Longrightarrow> ba_num_blocks a' = ba_num_blocks a"
  by (auto simp: alloc_block_def Let_def split: if_splits)

lemma free_block_num: "free_block b h a = Inr (h', a') \<Longrightarrow> ba_num_blocks a' = ba_num_blocks a"
  by (auto simp: free_block_def Let_def split: if_splits)

lemma count_minus_single: "b \<in># M \<Longrightarrow> (count M)(b := count M b - 1) = count (M - {#b#})"
  by (auto simp: fun_eq_iff)

lemma count_add_single: "(count M)(b := Suc (count M b)) = count (add_mset b M)"
  by (auto simp: fun_eq_iff)

lemma gpu_free_refs:
  assumes "refs_ok M s" and "b \<in># M" and "blk_device b = GPU"
  shows "\<exists>t. gpu_free b s = Inr t \<and> refs_ok (M - {#b#}) t \<and> bm_frame s t \<and>
    length (free_blocks (gpu_allocator t)) = length (free_blocks (gpu_allocator s)) + (if count M b = 1 then 1 else 0)"
proof -
  have h: "ref_count s = count M" and ok: "alloc_ok GPU (gpu_allocator s) (count M)"
    and cpu: "alloc_ok CPU (cpu_allocator s) (count M)" using assms(1) by (auto simp: refs_ok_def)
  have pos: "0 < count M b" using assms(2) by simp
  obtain a where a: "free_block b (count M) (gpu_allocator s) = Inr ((count M)(b := count M b - 1), a)"
    "alloc_ok GPU a ((count M)(b := count M b - 1))"
    "length (free_blocks a) = length (free_blocks (gpu_allocator s)) + (if count M b = 1 then 1 else 0)"
    using free_block_ok [OF ok assms(3) pos] .
  show ?thesis
    using a h alloc_ok_upd_other [OF cpu, of b "count M b - 1"] assms(3) count_minus_single [OF assms(2)]
      free_block_num [OF a(1)]
    by (simp add: gpu_free_def refs_ok_def bm_frame_def)
qed

lemma cpu_free_refs:
  assumes "refs_ok M s" and "b \<in># M" and "blk_device b = CPU"
  shows "\<exists>t. cpu_free b s = Inr t \<and> refs_ok (M - {#b#}) t \<and> bm_frame s t \<and>
    length (free_blocks (cpu_allocator t)) = length (free_blocks (cpu_allocator s)) + (if count M b = 1 then 1 else 0)"
proof -
  have h: "ref_count s = count M" and ok: "alloc_ok CPU (cpu_allocator s) (count M)"
    and gpu: "alloc_ok GPU (gpu_allocator s) (count M)" using assms(1) by (auto simp: refs_ok_def)
  have pos: "0 < count M b" using assms(2) by simp
  obtain a where a: "free_block b (count M) (cpu_allocator s) = Inr ((count M)(b := count M b - 1), a)"
    "alloc_ok CPU a ((count M)(b := count M b - 1))"
    "length (free_blocks a) = length (free_blocks (cpu_allocator s)) + (if count M b = 1 then 1 else 0)"
    using free_block_ok [OF ok assms(3) pos] .
  show ?thesis
    using a h alloc_ok_upd_other [OF gpu, of b "count M b - 1"] assms(3) count_minus_single [OF assms(2)]
      free_block_num [OF a(1)]
    by (simp add: cpu_free_def refs_ok_def bm_frame_def)
qed

lemma gpu_alloc_refs:
  assumes "refs_ok M s" and "free_blocks (gpu_allocator s) \<noteq> []"
  shows "\<exists>b t. gpu_alloc s = Inr (b, t) \<and> refs_ok (add_mset b M) t \<and> b \<notin># M \<and> blk_device b = GPU \<and>
    length (free_blocks (gpu_allocator t)) = length (free_blocks (gpu_allocator s)) - 1 \<and> bm_frame s t"
proof -
  have h: "ref_count s = count M" and ok: "alloc_ok GPU (gpu_allocator s) (count M)"
    and cpu: "alloc_ok CPU (cpu_allocator s) (count M)" using assms(1) by (auto simp: refs_ok_def)
  obtain b a where a: "alloc_block (count M) (gpu_allocator s) = Inr (b, (count M)(b := 1), a)"
    "alloc_ok GPU a ((count M)(b := 1))" "count M b = 0" "fst b = GPU"
    "length (free_blocks a) = length (free_blocks (gpu_allocator s)) - 1"
    using alloc_block_ok [OF ok assms(2)] .
  show ?thesis
    using a h alloc_ok_upd_other [OF cpu, of b 1] count_add_single [of M b] alloc_block_num [OF a(1)]
    by (simp add: gpu_alloc_def refs_ok_def bm_frame_def not_in_iff)
qed

lemma cpu_alloc_refs:
  assumes "refs_ok M s" and "free_blocks (cpu_allocator s) \<noteq> []"
  shows "\<exists>b t. cpu_alloc s = Inr (b, t) \<and> refs_ok (add_mset b M) t \<and> b \<notin># M \<and> blk_device b = CPU \<and>
    length (free_blocks (cpu_allocator t)) = length (free_blocks (cpu_allocator s)) - 1 \<and> bm_frame s t"
proof -
  have h: "ref_count s = count M" and ok: "alloc_ok CPU (cpu_allocator s) (count M)"
    and gpu: "alloc_ok GPU (gpu_allocator s) (count M)" using assms(1) by (auto simp: refs_ok_def)
  obtain b a where a: "alloc_block (count M) (cpu_allocator s) = Inr (b, (count M)(b := 1), a)"
    "alloc_ok CPU a ((count M)(b := 1))" "count M b = 0" "fst b = CPU"
    "length (free_blocks a) = length (free_blocks (cpu_allocator s)) - 1"
    using alloc_block_ok [OF ok assms(2)] .
  show ?thesis
    using a h alloc_ok_upd_other [OF gpu, of b 1] count_add_single [of M b] alloc_block_num [OF a(1)]
    by (simp add: cpu_alloc_def refs_ok_def bm_frame_def not_in_iff)
qed

lemma refs_ok_free_absent: "refs_ok M s \<Longrightarrow> b \<notin># M \<Longrightarrow> gpu_free b s = Inl (ValueError ''Double free'')"
  "refs_ok M s \<Longrightarrow> b \<notin># M \<Longrightarrow> cpu_free b s = Inl (ValueError ''Double free'')"
  by (simp_all add: refs_ok_def gpu_free_def cpu_free_def free_block_double not_in_iff)

interpretation gpu_pool: ref_pool gpu_free refs_ok bm_frame "\<lambda>b. blk_device b = GPU" gpu_alloc
    "\<lambda>s. length (free_blocks (gpu_allocator s))"
proof unfold_locales
  fix M s b
  assume "refs_ok M s" "b \<in># M" "blk_device b = GPU"
  from gpu_free_refs [OF this] show "\<exists>t. gpu_free b s = Inr t \<and> refs_ok (M - {#b#}) t \<and> bm_frame s t"
    by blast
next
  fix M s assume "refs_ok M s" "0 < length (free_blocks (gpu_allocator s))"
  then show "\<exists>b t. gpu_alloc s = Inr (b, t) \<and> refs_ok (add_mset b M) t \<and> b \<notin># M \<and> blk_device b = GPU \<and>
    length (free_blocks (gpu_allocator t)) = length (free_blocks (gpu_allocator s)) - 1 \<and> bm_frame s t"
    using gpu_alloc_refs by blast
next
  fix M s b t assume "refs_ok M s" "b \<in># M" "blk_device b = GPU" "gpu_free b s = Inr t"
  then show "length (free_blocks (gpu_allocator t)) =
      length (free_blocks (gpu_allocator s)) + (if count M b = 1 then 1 else 0)"
    using gpu_free_refs by fastforce
qed (auto intro: bm_frame_trans simp: refs_ok_free_absent gpu_alloc_def alloc_block_def)

interpretation cpu_pool: ref_pool cpu_free refs_ok bm_frame "\<lambda>b. blk_device b = CPU" cpu_alloc
    "\<lambda>s. length (free_blocks (cpu_allocator s))"
proof unfold_locales
  fix M s b
  assume "refs_ok M s" "b \<in># M" "blk_device b = CPU"
  from cpu_free_refs [OF this] show "\<exists>t. cpu_free b s = Inr t \<and> refs_ok (M - {#b#}) t \<and> bm_frame s t"
    by blast
next
  fix M s assume "refs_ok M s" "0 < length (free_blocks (cpu_allocator s))"
  then show "\<exists>b t. cpu_alloc s = Inr (b, t) \<and> refs_ok (add_mset b M) t \<and> b \<notin># M \<and> blk_device b = CPU \<and>
    length (free_blocks (cpu_allocator t)) = length (free_blocks (cpu_allocator s)) - 1 \<and> bm_frame s t"
    using cpu_alloc_refs by blast
next
  fix M s b t assume "refs_ok M s" "b \<in># M" "blk_device b = CPU" "cpu_free b s = Inr t"
  then show "length (free_blocks (cpu_allocator t)) =
      length (free_blocks (cpu_allocator s)) + (if count M b = 1 then 1 else 0)"
    using cpu_free_refs by fastforce
qed (auto intro: bm_frame_trans simp: refs_ok_free_absent cpu_alloc_def alloc_block_def)

interpretation dev_store: ref_store dev_free refs_ok bm_frame "\<lambda>b. True"
proof unfold_locales
  fix M s b
  assume "refs_ok M s" "b \<in># M"
  then show "\<exists>t. dev_free b s = Inr t \<and> refs_ok (M - {#b#}) t \<and> bm_frame s t"
    using gpu_free_refs [of M s b] cpu_free_refs [of M s b]
    by (cases "blk_device b") (auto simp: dev_free_def)
qed (auto intro: bm_frame_trans simp: refs_ok_free_absent dev_free_def)

end
