(* ===== verification/Block_Space.thy ===== *)
theory Block_Space
  imports Block_Pool Sequences
begin

text \<open>
  The operations of \<open>BlockSpaceManager\<close> (\<^verbatim>\<open>vllm/core/block_manager.py\<close>) on the state of
  \<open>Block_Pool\<close>, each as the code has it, with its exceptions. The two operations that move blocks
  for weight loading are in \<open>Block_Reorg\<close>, the invariant and its preservation in \<open>Block_Refs\<close>.
\<close>

datatype alloc_status = OK | LATER | NEVER

definition new_block_manager :: "nat \<Rightarrow> nat \<Rightarrow> nat \<Rightarrow> float64 \<Rightarrow> nat option \<Rightarrow> block_manager result" where
  "new_block_manager bs num_gpu num_cpu wm sliding_window =
     ebind (case sliding_window of
         None \<Rightarrow> Inr None
       | Some sw \<Rightarrow> if bs = 0 then Inl ZeroDivisionError
                    else ebind (py_assert (sw mod bs = 0)) (\<lambda>_. Inr (Some (sw div bs)))) (\<lambda>bsw.
     ebind (py_assert (0 \<le> wm)) (\<lambda>_.
       Inr \<lparr>bm_block_size = bs, num_total_gpu_blocks = num_gpu, num_total_cpu_blocks = num_cpu,
            block_sliding_window = bsw, watermark = wm,
            watermark_blocks = \<lfloor>f64_mul wm (of_nat num_gpu)\<rfloor>,
            gpu_allocator = new_block_allocator GPU bs num_gpu,
            cpu_allocator = new_block_allocator CPU bs num_cpu,
            block_tables = [], actual_gpu_blk_rng_end = int num_gpu,
            ref_count = (\<lambda>_. 0), prefix_heap = []\<rparr>))"

section \<open>Allocation\<close>

definition sg_prefix_obj :: "sequence_group \<Rightarrow> block_manager \<Rightarrow> prefix option" where
  "sg_prefix_obj g s = map_option (\<lambda>r. prefix_heap s ! r) (sg_prefix g)"

definition can_allocate :: "sequence_group \<Rightarrow> block_manager \<Rightarrow> alloc_status result" where
  "can_allocate g s =
     ebind (py_index (get_seqs (Some WAITING) g) 0) (\<lambda>seq.
       let num_required_blocks = int (length (logical_token_blocks seq));
           num_required_blocks =
             (case sg_prefix_obj g s of
                Some p \<Rightarrow> if prefix_allocated p then num_required_blocks - int (prefix_get_num_blocks p)
                          else num_required_blocks
              | None \<Rightarrow> num_required_blocks);
           num_required_blocks =
             (case block_sliding_window s of
                Some w \<Rightarrow> min num_required_blocks (int w)
              | None \<Rightarrow> num_required_blocks);
           num_free_gpu_blocks = int (get_num_free_blocks (gpu_allocator s))
       in Inr (if int (num_total_gpu_blocks s) - num_required_blocks < watermark_blocks s then NEVER
               else if num_free_gpu_blocks - num_required_blocks \<ge> watermark_blocks s then OK
               else LATER))"

text \<open>One turn of the loop over \<open>logical_idx\<close>: the block is set to \<open>k\<close> references, \<open>k\<close> the number of
  sequences of the group.\<close>

definition allocate_one :: "nat \<Rightarrow> nat \<Rightarrow> block_manager \<times> block_table \<Rightarrow> (block_manager \<times> block_table) result" where
  "allocate_one k logical_idx = (\<lambda>(s, block_table).
     ebind (case block_sliding_window s of
              Some w \<Rightarrow>
                if logical_idx \<ge> w then
                  (if w = 0 then Inl ZeroDivisionError
                   else ebind (py_index block_table (int (logical_idx mod w))) (\<lambda>b. Inr (b, s)))
                else gpu_alloc s
            | None \<Rightarrow> gpu_alloc s) (\<lambda>(block, s).
       Inr (s\<lparr>ref_count := (ref_count s)(block := k)\<rparr>, block_table @ [block])))"

definition bm_allocate :: "sequence_group \<Rightarrow> block_manager \<Rightarrow> block_manager result" where
  "bm_allocate g s =
     ebind (py_index (get_seqs (Some WAITING) g) 0) (\<lambda>seq.
       let num_prompt_blocks = int (length (logical_token_blocks seq));
           k = num_seqs None g;
           (num_prompt_blocks, block_table) =
             (case sg_prefix_obj g s of
                None \<Rightarrow> (num_prompt_blocks, [])
              | Some p \<Rightarrow>
                  (case pf_block_table p of
                     None \<Rightarrow> (num_prompt_blocks, [])
                   | Some t \<Rightarrow> (num_prompt_blocks - int (prefix_get_num_blocks p), t)));
           s1 = incr_refs k block_table s
       in ebind (efold (allocate_one k) [0..<nat num_prompt_blocks] (s1, block_table)) (\<lambda>(s2, block_table).
         let s3 =
           (case sg_prefix g of
              None \<Rightarrow> s2
            | Some r \<Rightarrow>
                if prefix_allocated (prefix_heap s2 ! r) then s2
                else let prefix_block_table = take (prefix_get_num_blocks (prefix_heap s2 ! r)) block_table
                     in (incr_refs 1 prefix_block_table s2)
                          \<lparr>prefix_heap := (prefix_heap s2)
                             [r := prefix_set_block_table prefix_block_table (prefix_heap s2 ! r)]\<rparr>)
         in Inr (s3\<lparr>block_tables :=
                    fold (\<lambda>q. dict_set (seq_id q) block_table) (get_seqs (Some WAITING) g) (block_tables s3)\<rparr>)))"

definition can_append_slot :: "sequence_group \<Rightarrow> block_manager \<Rightarrow> bool" where
  "can_append_slot g s \<longleftrightarrow> num_seqs (Some RUNNING) g \<le> get_num_free_blocks (gpu_allocator s)"

text \<open>
  \<open>append_slot\<close>: the block table is mutated in place, so the dictionary entry changes. With a sliding
  window the code appends a block of the window and goes on to the check of the last block.
\<close>

definition append_slot_last :: "int \<Rightarrow> block_table \<Rightarrow> block_manager \<Rightarrow> ((nat \<times> nat) option \<times> block_manager) result" where
  "append_slot_last sid block_table s =
     ebind (py_last block_table) (\<lambda>last_block.
     ebind (py_assert (blk_device last_block = GPU)) (\<lambda>_.
       if ref_count s last_block = 1
       then Inr (None, s\<lparr>block_tables := dict_set sid block_table (block_tables s)\<rparr>)
       else ebind (gpu_alloc s) (\<lambda>(new_block, s).
            ebind (gpu_free last_block s) (\<lambda>s.
              Inr (Some (blk_number last_block, blk_number new_block),
                   s\<lparr>block_tables := dict_set sid (butlast block_table @ [new_block]) (block_tables s)\<rparr>)))))"

definition append_slot :: "sequence \<Rightarrow> block_manager \<Rightarrow> ((nat \<times> nat) option \<times> block_manager) result" where
  "append_slot seq s =
     ebind (dict_get (block_tables s) (seq_id seq)) (\<lambda>block_table.
       if length block_table < length (logical_token_blocks seq) then
         (case block_sliding_window s of
            Some w \<Rightarrow>
              if w \<noteq> 0 \<and> length block_table \<ge> w
              then ebind (py_index block_table (int (length block_table mod w))) (\<lambda>b.
                     append_slot_last (seq_id seq) (block_table @ [b]) s)
              else ebind (gpu_alloc s) (\<lambda>(b, s).
                     Inr (None, s\<lparr>block_tables := dict_set (seq_id seq) (block_table @ [b]) (block_tables s)\<rparr>))
          | None \<Rightarrow> ebind (gpu_alloc s) (\<lambda>(b, s).
                     Inr (None, s\<lparr>block_tables := dict_set (seq_id seq) (block_table @ [b]) (block_tables s)\<rparr>)))
       else append_slot_last (seq_id seq) block_table s)"

definition bm_fork :: "sequence \<Rightarrow> sequence \<Rightarrow> block_manager \<Rightarrow> block_manager result" where
  "bm_fork parent_seq child_seq s =
     ebind (dict_get (block_tables s) (seq_id parent_seq)) (\<lambda>src_block_table.
       Inr ((incr_refs 1 src_block_table s)
              \<lparr>block_tables := dict_set (seq_id child_seq) src_block_table (block_tables s)\<rparr>))"

section \<open>Swapping\<close>

text \<open>\<open>_get_physical_blocks\<close>: the code makes a list of a set; callers use its length only.\<close>

definition get_physical_blocks :: "sequence_group \<Rightarrow> block_manager \<Rightarrow> block_table result" where
  "get_physical_blocks g s =
     ebind (efold (\<lambda>q blocks. ebind (dict_get (block_tables s) (seq_id q)) (\<lambda>t. Inr (blocks @ t)))
              (get_unfinished_seqs g) []) (\<lambda>blocks. Inr (remdups blocks))"

definition can_swap_in :: "sequence_group \<Rightarrow> block_manager \<Rightarrow> bool result" where
  "can_swap_in g s =
     ebind (get_physical_blocks g s) (\<lambda>blocks.
       let num_required_blocks = int (length blocks) + int (num_seqs (Some SWAPPED) g)
       in Inr (int (get_num_free_blocks (gpu_allocator s)) - num_required_blocks \<ge> watermark_blocks s))"

type_synonym block_mapping = "(block_id, block_id) dict"

text \<open>One CPU block of a table: the state is the manager, the mapping and the new table.\<close>

definition swap_in_block :: "block_id \<Rightarrow> block_manager \<times> block_mapping \<times> block_table
    \<Rightarrow> (block_manager \<times> block_mapping \<times> block_table) result" where
  "swap_in_block cpu_block = (\<lambda>(s, mapping, new_block_table).
     ebind (case map_of mapping cpu_block of
              Some gpu_block \<Rightarrow> Inr (gpu_block, incr_refs 1 [gpu_block] s, mapping)
            | None \<Rightarrow> ebind (gpu_alloc s) (\<lambda>(gpu_block, s).
                        Inr (gpu_block, s, dict_set cpu_block gpu_block mapping))) (\<lambda>(gpu_block, s, mapping).
     ebind (cpu_free cpu_block s) (\<lambda>s.
       Inr (s, mapping, new_block_table @ [gpu_block]))))"

definition swap_in_seq :: "prefix option \<Rightarrow> sequence \<Rightarrow> block_manager \<times> block_mapping
    \<Rightarrow> (block_manager \<times> block_mapping) result" where
  "swap_in_seq pfx seq = (\<lambda>(s, mapping).
     ebind (dict_get (block_tables s) (seq_id seq)) (\<lambda>block_table.
     ebind (case pfx of
              None \<Rightarrow> Inr []
            | Some p \<Rightarrow> (case pf_block_table p of None \<Rightarrow> Inl TypeError | Some t \<Rightarrow> Inr t)) (\<lambda>prefix_blocks.
     ebind (efold swap_in_block block_table (incr_refs 1 prefix_blocks s, mapping, prefix_blocks))
       (\<lambda>(s, mapping, new_block_table).
         Inr (s\<lparr>block_tables := dict_set (seq_id seq) new_block_table (block_tables s)\<rparr>, mapping)))))"

definition block_number_mapping :: "block_mapping \<Rightarrow> (nat, nat) dict" where
  "block_number_mapping mapping =
     fold (\<lambda>(x, y). dict_set (blk_number x) (blk_number y)) mapping []"

definition bm_swap_in :: "sequence_group \<Rightarrow> block_manager \<Rightarrow> ((nat, nat) dict \<times> block_manager) result" where
  "bm_swap_in g s =
     ebind (case sg_prefix_obj g s of
              None \<Rightarrow> Inr ()
            | Some p \<Rightarrow> py_assert (prefix_allocated p \<and> pf_computed p)) (\<lambda>_.
     ebind (efold (swap_in_seq (sg_prefix_obj g s)) (get_seqs (Some SWAPPED) g) (s, [])) (\<lambda>(s, mapping).
       Inr (block_number_mapping mapping, s)))"

definition can_swap_out :: "sequence_group \<Rightarrow> block_manager \<Rightarrow> bool result" where
  "can_swap_out g s =
     ebind (get_physical_blocks g s) (\<lambda>blocks.
       Inr (length blocks \<le> get_num_free_blocks (cpu_allocator s)))"

definition swap_out_block :: "prefix option \<Rightarrow> block_id \<Rightarrow> block_manager \<times> block_mapping \<times> block_table
    \<Rightarrow> (block_manager \<times> block_mapping \<times> block_table) result" where
  "swap_out_block pfx gpu_block = (\<lambda>(s, mapping, new_block_table).
     ebind (case pfx of
              None \<Rightarrow> Inr False
            | Some p \<Rightarrow> (case pf_block_table p of None \<Rightarrow> Inl TypeError | Some t \<Rightarrow> Inr (gpu_block \<in> set t))) (\<lambda>in_prefix.
     if in_prefix then ebind (gpu_free gpu_block s) (\<lambda>s. Inr (s, mapping, new_block_table))
     else
       ebind (case map_of mapping gpu_block of
                Some cpu_block \<Rightarrow> Inr (cpu_block, incr_refs 1 [cpu_block] s, mapping)
              | None \<Rightarrow> ebind (cpu_alloc s) (\<lambda>(cpu_block, s).
                          Inr (cpu_block, s, dict_set gpu_block cpu_block mapping))) (\<lambda>(cpu_block, s, mapping).
       ebind (gpu_free gpu_block s) (\<lambda>s.
         Inr (s, mapping, new_block_table @ [cpu_block])))))"

definition swap_out_seq :: "prefix option \<Rightarrow> sequence \<Rightarrow> block_manager \<times> block_mapping
    \<Rightarrow> (block_manager \<times> block_mapping) result" where
  "swap_out_seq pfx seq = (\<lambda>(s, mapping).
     ebind (dict_get (block_tables s) (seq_id seq)) (\<lambda>block_table.
     ebind (efold (swap_out_block pfx) block_table (s, mapping, [])) (\<lambda>(s, mapping, new_block_table).
       Inr (s\<lparr>block_tables := dict_set (seq_id seq) new_block_table (block_tables s)\<rparr>, mapping))))"

definition bm_swap_out :: "sequence_group \<Rightarrow> block_manager \<Rightarrow> ((nat, nat) dict \<times> block_manager) result" where
  "bm_swap_out g s =
     ebind (efold (swap_out_seq (sg_prefix_obj g s)) (get_seqs (Some RUNNING) g) (s, [])) (\<lambda>(s, mapping).
       Inr (block_number_mapping mapping, s))"

section \<open>Freeing and queries\<close>

definition free_block_table :: "block_table \<Rightarrow> block_manager \<Rightarrow> block_manager result" where
  "free_block_table t s = efold dev_free t s"

definition bm_free :: "sequence \<Rightarrow> block_manager \<Rightarrow> block_manager result" where
  "bm_free seq s =
     (case map_of (block_tables s) (seq_id seq) of
        None \<Rightarrow> Inr s
      | Some t \<Rightarrow> ebind (free_block_table t s) (\<lambda>s.
          Inr (s\<lparr>block_tables := dict_del (seq_id seq) (block_tables s)\<rparr>)))"

definition bm_reset :: "block_manager \<Rightarrow> block_manager result" where
  "bm_reset s =
     ebind (efold free_block_table (dict_values (block_tables s)) s) (\<lambda>s. Inr (s\<lparr>block_tables := []\<rparr>))"

definition get_block_table :: "sequence \<Rightarrow> block_manager \<Rightarrow> nat list result" where
  "get_block_table seq s =
     ebind (dict_get (block_tables s) (seq_id seq)) (\<lambda>t. Inr (map blk_number t))"

definition get_num_free_gpu_blocks :: "block_manager \<Rightarrow> nat" where
  "get_num_free_gpu_blocks s = get_num_free_blocks (gpu_allocator s)"

definition get_num_free_cpu_blocks :: "block_manager \<Rightarrow> nat" where
  "get_num_free_cpu_blocks s = get_num_free_blocks (cpu_allocator s)"

end
