(* ===== verification/Block_Refs.thy ===== *)
theory Block_Refs
  imports Block_Space
begin

text \<open>
  The invariant of the block space manager: the reference count of a physical block is the number of
  its occurrences in the block tables and in the tables of the prefixes, plus the references \<open>E\<close>
  held outside (none, or the blocks given up to layer weights). Each operation succeeds under the
  check its caller makes first (\<open>can_allocate\<close>, \<open>can_append_slot\<close>, \<open>can_swap_in\<close>,
  \<open>can_swap_out\<close>) and keeps the invariant. All of it is for a manager without a sliding window:
  with one, the invariant fails and \<open>free\<close> raises (\<open>Spec2Isabelle\<close>, finding on sliding windows).
\<close>

section \<open>References held by tables\<close>

definition table_refs :: "(int, block_table) dict \<Rightarrow> block_id multiset" where
  "table_refs d = sum_list (map mset (dict_values d))"

definition prefix_table_refs :: "prefix \<Rightarrow> block_id multiset" where
  "prefix_table_refs p = (case pf_block_table p of None \<Rightarrow> {#} | Some t \<Rightarrow> mset t)"

definition prefix_refs :: "prefix_heap \<Rightarrow> block_id multiset" where
  "prefix_refs ps = sum_list (map prefix_table_refs ps)"

definition held :: "block_manager \<Rightarrow> block_id multiset" where
  "held s = table_refs (block_tables s) + prefix_refs (prefix_heap s)"

definition prefix_ok :: "prefix \<Rightarrow> bool" where
  "prefix_ok p \<longleftrightarrow> (\<forall>t. pf_block_table p = Some t \<longrightarrow>
     length t = prefix_get_num_blocks p \<and> (\<forall>b \<in> set t. blk_device b = GPU))"

definition bm_inv :: "block_id multiset \<Rightarrow> block_manager \<Rightarrow> bool" where
  "bm_inv E s \<longleftrightarrow> dict_ok (block_tables s) \<and> refs_ok (E + held s) s \<and> (\<forall>p \<in> set (prefix_heap s). prefix_ok p)"

lemma bm_inv_new:
  assumes "new_block_manager bs ng nc wm sw = Inr s"
  shows "bm_inv {#} s"
  using assms
  by (auto simp: new_block_manager_def bm_inv_def refs_ok_def alloc_ok_new held_def table_refs_def
      prefix_refs_def fun_eq_iff)

lemma table_refs_set:
  "dict_ok d \<Longrightarrow> table_refs (dict_set k t d) + (case map_of d k of None \<Rightarrow> {#} | Some u \<Rightarrow> mset u)
     = table_refs d + mset t"
  unfolding table_refs_def by (rule sum_list_dict_set)

lemma table_refs_set_fresh: "dict_ok d \<Longrightarrow> map_of d k = None \<Longrightarrow> table_refs (dict_set k t d) = table_refs d + mset t"
  using table_refs_set [of d k t] by simp

lemma table_refs_replace:
  "dict_ok d \<Longrightarrow> map_of d k = Some u \<Longrightarrow> table_refs (dict_set k t d) + mset u = table_refs d + mset t"
  using table_refs_set [of d k t] by simp

lemma table_refs_del:
  "dict_ok d \<Longrightarrow> map_of d k = Some u \<Longrightarrow> table_refs (dict_del k d) + mset u = table_refs d"
  using sum_list_dict_del [of d mset k] by (simp add: table_refs_def)

lemma table_refs_lookup: "map_of d k = Some t \<Longrightarrow> mset t \<subseteq># table_refs d"
  by (induction d) (auto simp: table_refs_def intro: mset_subset_eq_add_right subset_mset.add_increasing split: if_splits)

lemma table_refs_lookup_mem: "map_of d k = Some t \<Longrightarrow> b \<in> set t \<Longrightarrow> b \<in># table_refs d"
  using table_refs_lookup mset_subset_eqD by (metis set_mset_mset)

lemma prefix_refs_nth: "r < length ps \<Longrightarrow> prefix_table_refs (ps ! r) \<subseteq># prefix_refs ps"
proof (induction ps arbitrary: r)
  case (Cons p ps)
  show ?case
  proof (cases r)
    case 0
    then show ?thesis by (simp add: prefix_refs_def)
  next
    case (Suc q)
    with Cons.prems Cons.IH [of q] have "prefix_table_refs (ps ! q) \<subseteq># prefix_refs ps" by simp
    with Suc show ?thesis by (simp add: prefix_refs_def subset_mset.add_increasing)
  qed
qed simp

lemma prefix_refs_update:
  "r < length ps \<Longrightarrow> prefix_refs (ps[r := p]) + prefix_table_refs (ps ! r) = prefix_refs ps + prefix_table_refs p"
proof (induction ps arbitrary: r)
  case (Cons q ps)
  then show ?case
    by (cases r) (simp_all add: prefix_refs_def add.assoc add.commute add.left_commute)
qed simp

section \<open>Counts\<close>

lemma alloc_ok_same_support:
  assumes "alloc_ok d a h" and "\<And>b. h' b = 0 \<longleftrightarrow> h b = 0"
  shows "alloc_ok d a h'"
proof -
  have "0 < h' b \<longleftrightarrow> 0 < h b" for b using assms(2) [of b] by auto
  then show ?thesis using assms by (simp add: alloc_ok_def)
qed

lemma refs_ok_new_counts:
  assumes "refs_ok M s" and "\<And>b. b \<in># N \<longleftrightarrow> b \<in># M"
  shows "refs_ok N (s\<lparr>ref_count := count N\<rparr>)"
proof -
  have "count N b = 0 \<longleftrightarrow> ref_count s b = 0" for b
    using assms by (simp add: refs_ok_def flip: not_in_iff)
  then show ?thesis using assms(1) alloc_ok_same_support by (auto simp: refs_ok_def)
qed

lemma fold_incr: "fold (\<lambda>b h. h(b := h b + k)) t h = (\<lambda>b. h b + k * count (mset t) b)"
  by (induction t arbitrary: h) (auto simp: fun_eq_iff)

lemma incr_refs_ok:
  assumes "refs_ok M s" and "set t \<subseteq> set_mset M"
  shows "refs_ok (M + repeat_mset k (mset t)) (incr_refs k t s) \<and> bm_frame s (incr_refs k t s)"
proof -
  let ?N = "M + repeat_mset k (mset t)"
  have "fold (\<lambda>b h. h(b := h b + k)) t (ref_count s) = count ?N"
    using assms(1) by (auto simp: fold_incr refs_ok_def fun_eq_iff)
  then have incr: "incr_refs k t s = s\<lparr>ref_count := count ?N\<rparr>" by (simp add: incr_refs_def)
  have "x \<in> set t" if "x \<in># repeat_mset k (mset t)" for x
  proof -
    from that have "0 < count (repeat_mset k (mset t)) x" by (simp only: count_greater_zero_iff)
    then have "0 < count (mset t) x" by simp
    then show ?thesis by (simp only: count_greater_zero_iff set_mset_mset)
  qed
  then have "b \<in># ?N \<longleftrightarrow> b \<in># M" for b using assms(2) by (meson subsetD union_iff)
  then show ?thesis using refs_ok_new_counts [OF assms(1)] incr by (simp add: bm_frame_def)
qed

lemma set_count_ok:
  assumes "refs_ok (add_mset b M) s" and "b \<notin># M" and "0 < k"
  shows "refs_ok (M + replicate_mset k b) (s\<lparr>ref_count := (ref_count s)(b := k)\<rparr>)"
proof -
  let ?N = "M + replicate_mset k b"
  have "(ref_count s)(b := k) = count ?N"
    using assms by (auto simp: refs_ok_def fun_eq_iff not_in_iff)
  moreover have "x \<in># ?N \<longleftrightarrow> x \<in># add_mset b M" for x using assms(3) by auto
  ultimately show ?thesis using refs_ok_new_counts [OF assms(1)] by simp
qed

text \<open>The number of free GPU blocks, and what a change of the counts alone leaves.\<close>

abbreviation gpu_avail :: "block_manager \<Rightarrow> nat" where
  "gpu_avail s \<equiv> length (free_blocks (gpu_allocator s))"

abbreviation cpu_avail :: "block_manager \<Rightarrow> nat" where
  "cpu_avail s \<equiv> length (free_blocks (cpu_allocator s))"

lemma incr_refs_fields [simp]:
  "block_tables (incr_refs k t s) = block_tables s"
  "prefix_heap (incr_refs k t s) = prefix_heap s"
  "gpu_allocator (incr_refs k t s) = gpu_allocator s"
  "cpu_allocator (incr_refs k t s) = cpu_allocator s"
  "block_sliding_window (incr_refs k t s) = block_sliding_window s"
  by (simp_all add: incr_refs_def)

lemma refs_ok_tables [simp]: "refs_ok M (s\<lparr>block_tables := d\<rparr>) = refs_ok M s"
  "refs_ok M (s\<lparr>prefix_heap := ps\<rparr>) = refs_ok M s"
  by (simp_all add: refs_ok_def)

lemma held_frame: "bm_frame s t \<Longrightarrow> held t = held s"
  using bm_frame_fields by (simp add: held_def)

text \<open>Free blocks are in no table: the allocator's blocks split into the free ones and those with references.\<close>

lemma bm_inv_free_unused:
  assumes "bm_inv E s" and "b \<in> set (free_blocks (gpu_allocator s))"
  shows "b \<notin># E + held s" and "map_of (block_tables s) k = Some t \<Longrightarrow> b \<notin> set t"
proof -
  have "count (E + held s) b = 0"
    using assms by (auto simp: bm_inv_def refs_ok_def alloc_ok_def)
  then show nb: "b \<notin># E + held s" by (simp only: not_in_iff)
  show "b \<notin> set t" if "map_of (block_tables s) k = Some t"
    using nb table_refs_lookup_mem [OF that, of b] by (auto simp: held_def)
qed

section \<open>Freeing\<close>

lemma free_block_table_ok:
  assumes "refs_ok M s" and "mset t \<subseteq># M"
  shows "\<exists>u. free_block_table t s = Inr u \<and> refs_ok (M - mset t) u \<and> bm_frame s u"
  using dev_store.release_all [OF assms] by (simp add: free_block_table_def)

theorem bm_free_ok:
  assumes "bm_inv E s"
  shows "\<exists>u. bm_free seq s = Inr u \<and> bm_inv E u \<and> block_tables u = dict_del (seq_id seq) (block_tables s)
    \<and> prefix_heap u = prefix_heap s"
proof (cases "map_of (block_tables s) (seq_id seq)")
  case None
  then have "seq_id seq \<notin> fst ` set (block_tables s)" by (simp add: map_of_eq_None_iff)
  with None assms show ?thesis by (simp add: bm_free_def delete_id)
next
  case (Some t)
  have d: "dict_ok (block_tables s)" and r: "refs_ok (E + held s) s" using assms by (auto simp: bm_inv_def)
  have sub: "mset t \<subseteq># E + held s"
    using table_refs_lookup [OF Some] by (simp add: held_def subset_mset.add_increasing subset_mset.add_increasing2)
  obtain u where u: "free_block_table t s = Inr u" "refs_ok (E + held s - mset t) u" "bm_frame s u"
    using free_block_table_ok [OF r sub] by blast
  let ?v = "u\<lparr>block_tables := dict_del (seq_id seq) (block_tables u)\<rparr>"
  have "held s = held ?v + mset t"
    using table_refs_del [OF d Some] bm_frame_fields [OF u(3)] by (simp add: held_def union_ac)
  then have "E + held s - mset t = E + held ?v" by (simp only: add.assoc [symmetric] add_diff_cancel_right')
  then have "bm_inv E ?v"
    using u(2) d assms bm_frame_fields [OF u(3)] by (simp add: bm_inv_def)
  then show ?thesis using u(1) Some bm_frame_fields [OF u(3)] by (simp add: bm_free_def)
qed

text \<open>\<open>reset\<close> frees every table; without outside references and prefixes all blocks are free again.\<close>

lemma free_tables_ok:
  assumes "refs_ok M s" and "sum_list (map mset ts) \<subseteq># M"
  shows "\<exists>u. efold free_block_table ts s = Inr u \<and> refs_ok (M - sum_list (map mset ts)) u \<and> bm_frame s u"
  using assms
proof (induction ts arbitrary: M s)
  case Nil
  then show ?case by simp
next
  case (Cons t ts)
  have "mset t \<subseteq># M" using Cons.prems(2) by (simp add: subset_mset.add_le_same_cancel1) (metis mset_subset_eq_add_left subset_mset.trans)
  from free_block_table_ok [OF Cons.prems(1) this] obtain u where
    u: "free_block_table t s = Inr u" "refs_ok (M - mset t) u" "bm_frame s u" by blast
  have "sum_list (map mset ts) \<subseteq># M - mset t"
    using Cons.prems(2) by (simp add: subset_mset.le_diff_conv2 \<open>mset t \<subseteq># M\<close> add.commute)
  from Cons.IH [OF u(2) this] show ?case
    using u bm_frame_trans by (auto simp: diff_diff_add_mset)
qed

text \<open>\<open>reset\<close> frees every table and never raises under the invariant.\<close>

lemma bm_reset_ok:
  assumes "bm_inv E s"
  shows "\<exists>u. bm_reset s = Inr u \<and> bm_inv E u \<and> block_tables u = [] \<and> prefix_heap u = prefix_heap s \<and>
    ba_num_blocks (gpu_allocator u) = ba_num_blocks (gpu_allocator s)"
proof -
  have r: "refs_ok (E + held s) s" using assms by (simp add: bm_inv_def)
  have "sum_list (map mset (dict_values (block_tables s))) \<subseteq># E + held s"
    by (simp add: held_def table_refs_def subset_mset.add_increasing subset_mset.add_increasing2)
  from free_tables_ok [OF r this] obtain u where
    u: "efold free_block_table (dict_values (block_tables s)) s = Inr u"
      "refs_ok (E + held s - table_refs (block_tables s)) u" "bm_frame s u"
    by (auto simp: table_refs_def)
  have "E + held s - table_refs (block_tables s) = E + held (u\<lparr>block_tables := []\<rparr>)"
    using bm_frame_fields [OF u(3)] by (simp add: held_def table_refs_def)
  then show ?thesis
    using u assms bm_frame_fields [OF u(3)]
    by (simp add: bm_reset_def bm_inv_def bm_frame_def)
qed

section \<open>Forking\<close>

text \<open>\<open>fork\<close> gives the child the blocks of the parent, allocates nothing and keeps the invariant.\<close>

theorem bm_fork_ok:
  assumes "bm_inv E s" and "map_of (block_tables s) (seq_id parent) = Some t"
    and "map_of (block_tables s) (seq_id child) = None"
  shows "\<exists>u. bm_fork parent child s = Inr u \<and> bm_inv E u \<and>
    map_of (block_tables u) (seq_id child) = Some t \<and> gpu_allocator u = gpu_allocator s"
proof -
  have d: "dict_ok (block_tables s)" and r: "refs_ok (E + held s) s" using assms(1) by (auto simp: bm_inv_def)
  have "set t \<subseteq> set_mset (E + held s)"
    using table_refs_lookup_mem [OF assms(2)] by (auto simp: held_def)
  from incr_refs_ok [OF r this, of 1] have u: "refs_ok (E + held s + mset t) (incr_refs 1 t s)" by simp
  let ?u = "(incr_refs 1 t s)\<lparr>block_tables := dict_set (seq_id child) t (block_tables s)\<rparr>"
  have "E + held ?u = E + held s + mset t"
    using table_refs_set_fresh [OF d assms(3), of t] by (simp add: held_def union_ac)
  then have "refs_ok (E + held ?u) ?u" using u by (simp add: add.assoc)
  then have "bm_inv E ?u" using d assms(1) by (simp add: bm_inv_def)
  then show ?thesis using assms(2) by (simp add: bm_fork_def dict_get_def update_conv')
qed

end
