(* ===== verification/Block_Alloc.thy ===== *)
theory Block_Alloc
  imports Block_Refs
begin

text \<open>
  \<open>allocate\<close> and \<open>append_slot\<close> of the block space manager keep its invariant and succeed under the
  check the scheduler makes first (\<open>can_allocate\<close> returns \<open>OK\<close>; a free GPU block is left).
\<close>

section \<open>The allocation loop\<close>

lemma gpu_alloc_ok:
  assumes "refs_ok M s" and "0 < gpu_avail s"
  obtains b t where "gpu_alloc s = Inr (b, t)" "refs_ok (add_mset b M) t" "b \<notin># M" "blk_device b = GPU"
    "gpu_avail t = gpu_avail s - 1" "bm_frame s t"
  using gpu_pool.acquire_ok [OF assms] by blast

lemma bm_frame_ref_count: "bm_frame s t \<Longrightarrow> bm_frame s (t\<lparr>ref_count := h\<rparr>)"
  by (cases s; cases t) (auto simp: bm_frame_def)

lemma allocate_one_ok:
  assumes "refs_ok M s" and "0 < gpu_avail s" and "0 < k" and "block_sliding_window s = None"
  obtains b u where "allocate_one k i (s, tab) = Inr (u, tab @ [b])" "refs_ok (M + replicate_mset k b) u"
    "b \<notin># M" "blk_device b = GPU" "gpu_avail u = gpu_avail s - 1" "bm_frame s u"
proof -
  obtain b t where t: "gpu_alloc s = Inr (b, t)" "refs_ok (add_mset b M) t" "b \<notin># M" "blk_device b = GPU"
    "gpu_avail t = gpu_avail s - 1" "bm_frame s t"
    using gpu_alloc_ok [OF assms(1,2)] .
  let ?u = "t\<lparr>ref_count := (ref_count t)(b := k)\<rparr>"
  have "allocate_one k i (s, tab) = Inr (?u, tab @ [b])"
    using assms(4) t(1) by (simp add: allocate_one_def)
  moreover have "refs_ok (M + replicate_mset k b) ?u" by (rule set_count_ok [OF t(2,3) assms(3)])
  ultimately show thesis using that t bm_frame_ref_count by simp
qed

lemma allocate_loop_ok:
  assumes "refs_ok M s" and "length xs \<le> gpu_avail s" and "0 < k" and "block_sliding_window s = None"
  shows "\<exists>fresh u. efold (allocate_one k) xs (s, tab) = Inr (u, tab @ fresh) \<and>
    refs_ok (M + repeat_mset k (mset fresh)) u \<and> bm_frame s u \<and> length fresh = length xs \<and> distinct fresh \<and>
    (\<forall>b \<in> set fresh. b \<notin># M \<and> blk_device b = GPU) \<and> gpu_avail u = gpu_avail s - length xs"
  using assms(1,2,4)
proof (induction xs arbitrary: M s tab)
  case Nil
  then show ?case by simp
next
  case (Cons x xs)
  have pos: "0 < gpu_avail s" using Cons.prems(2) by auto
  obtain b u where u: "allocate_one k x (s, tab) = Inr (u, tab @ [b])" "refs_ok (M + replicate_mset k b) u"
    "b \<notin># M" "blk_device b = GPU" "gpu_avail u = gpu_avail s - 1" "bm_frame s u"
    using allocate_one_ok [OF Cons.prems(1) pos assms(3) Cons.prems(3)] .
  have "length xs \<le> gpu_avail u" "block_sliding_window u = None"
    using u(5,6) Cons.prems(2,3) bm_frame_fields by auto
  from Cons.IH [OF u(2) this, of "tab @ [b]"] obtain fresh v where
    v: "efold (allocate_one k) xs (u, tab @ [b]) = Inr (v, (tab @ [b]) @ fresh)"
      "refs_ok (M + replicate_mset k b + repeat_mset k (mset fresh)) v" "bm_frame u v" "length fresh = length xs"
      "distinct fresh" "\<forall>c \<in> set fresh. c \<notin># M + replicate_mset k b \<and> blk_device c = GPU"
      "gpu_avail v = gpu_avail u - length xs" by blast
  have "M + replicate_mset k b + repeat_mset k (mset fresh) = M + repeat_mset k (mset (b # fresh))"
    by (simp add: multiset_eq_iff)
  with v(2) have "refs_ok (M + repeat_mset k (mset (b # fresh))) v" by (simp only:)
  moreover have "efold (allocate_one k) (x # xs) (s, tab) = Inr (v, tab @ b # fresh)"
    using u(1) v(1) by simp
  moreover have "b \<notin> set fresh" using v(6) assms(3) by auto
  ultimately show ?case
    using u v bm_frame_trans [OF u(6) v(3)] assms(3) by (intro exI [of _ "b # fresh"] exI [of _ v]) auto
qed

text \<open>Every waiting sequence of the group gets the same table.\<close>

lemma fold_dict_set_tables:
  assumes "dict_ok d" and "distinct (map seq_id qs)" and "\<And>q. q \<in> set qs \<Longrightarrow> map_of d (seq_id q) = None"
  shows "dict_ok (fold (\<lambda>q. dict_set (seq_id q) tab) qs d) \<and>
    table_refs (fold (\<lambda>q. dict_set (seq_id q) tab) qs d) = table_refs d + repeat_mset (length qs) (mset tab)"
  using assms
proof (induction qs arbitrary: d)
  case Nil
  then show ?case by simp
next
  case (Cons q qs)
  have "dict_ok (fold (\<lambda>q. dict_set (seq_id q) tab) qs (dict_set (seq_id q) tab d)) \<and>
      table_refs (fold (\<lambda>q. dict_set (seq_id q) tab) qs (dict_set (seq_id q) tab d)) =
        table_refs (dict_set (seq_id q) tab d) + repeat_mset (length qs) (mset tab)"
  proof (rule Cons.IH)
    show "map_of (dict_set (seq_id q) tab d) (seq_id r) = None" if "r \<in> set qs" for r
      using Cons.prems(2) Cons.prems(3) [of r] that by (auto simp: update_conv' image_iff)
  qed (use Cons.prems in auto)
  then show ?case
    using table_refs_set_fresh [OF Cons.prems(1) Cons.prems(3) [of q], of tab] by (simp add: ac_simps)
qed

lemma map_of_fold_dict_set:
  "map_of (fold (\<lambda>q. dict_set (seq_id q) tab) qs d) k = (if k \<in> seq_id ` set qs then Some tab else map_of d k)"
  by (induction qs arbitrary: d) (auto simp: update_conv')

section \<open>\<open>allocate\<close>\<close>

text \<open>
  What \<open>_schedule\<close> has when it calls \<open>allocate\<close>: all sequences of the group wait and have no table
  yet, and the prefix, if any, is one of the pool and no longer than the prompt.
\<close>

definition group_fresh :: "sequence_group \<Rightarrow> block_manager \<Rightarrow> bool" where
  "group_fresh g s \<longleftrightarrow>
     get_seqs (Some WAITING) g = get_seqs None g \<and> get_seqs None g \<noteq> [] \<and>
     distinct (map seq_id (get_seqs None g)) \<and>
     (\<forall>q \<in> set (get_seqs None g). map_of (block_tables s) (seq_id q) = None) \<and>
     (\<forall>r. sg_prefix g = Some r \<longrightarrow> r < length (prefix_heap s) \<and>
        prefix_get_num_blocks (prefix_heap s ! r) \<le> length (logical_token_blocks (hd (get_seqs None g))))"

text \<open>The blocks the group shares before the loop: those of an allocated prefix.\<close>

definition shared_prefix_table :: "sequence_group \<Rightarrow> block_manager \<Rightarrow> block_table" where
  "shared_prefix_table g s =
     (case sg_prefix g of None \<Rightarrow> []
      | Some r \<Rightarrow> (case pf_block_table (prefix_heap s ! r) of None \<Rightarrow> [] | Some t \<Rightarrow> t))"

definition needed_blocks :: "sequence_group \<Rightarrow> block_manager \<Rightarrow> nat" where
  "needed_blocks g s = length (logical_token_blocks (hd (get_seqs None g))) - length (shared_prefix_table g s)"

lemma py_index_hd: "xs \<noteq> [] \<Longrightarrow> py_index xs 0 = Inr (hd xs)"
  by (cases xs) auto

lemma shared_prefix_table_props:
  assumes "bm_inv E s" and "group_fresh g s"
  shows "length (shared_prefix_table g s) \<le> length (logical_token_blocks (hd (get_seqs None g)))"
    and "set (shared_prefix_table g s) \<subseteq> set_mset (E + held s)"
    and "\<forall>b \<in> set (shared_prefix_table g s). blk_device b = GPU"
proof -
  have *: "length t \<le> length (logical_token_blocks (hd (get_seqs None g))) \<and> set t \<subseteq> set_mset (E + held s) \<and>
      (\<forall>b \<in> set t. blk_device b = GPU)"
    if r: "sg_prefix g = Some r" "pf_block_table (prefix_heap s ! r) = Some t" for r t
  proof -
    have len: "r < length (prefix_heap s)"
      "prefix_get_num_blocks (prefix_heap s ! r) \<le> length (logical_token_blocks (hd (get_seqs None g)))"
      using assms(2) r by (auto simp: group_fresh_def)
    have ok: "prefix_ok (prefix_heap s ! r)" using assms(1) len(1) by (auto simp: bm_inv_def)
    have "mset t \<subseteq># prefix_refs (prefix_heap s)"
      using prefix_refs_nth [OF len(1)] r(2) by (simp add: prefix_table_refs_def)
    then have "set_mset (mset t) \<subseteq> set_mset (prefix_refs (prefix_heap s))" by (rule set_mset_mono)
    then have "set t \<subseteq> set_mset (E + held s)" by (auto simp: held_def)
    then show ?thesis using ok r(2) len(2) by (simp add: prefix_ok_def)
  qed
  have cases: "length (shared_prefix_table g s) \<le> length (logical_token_blocks (hd (get_seqs None g))) \<and>
      set (shared_prefix_table g s) \<subseteq> set_mset (E + held s) \<and> (\<forall>b \<in> set (shared_prefix_table g s). blk_device b = GPU)"
  proof (cases "shared_prefix_table g s = []")
    case False
    then obtain r t where "sg_prefix g = Some r" "pf_block_table (prefix_heap s ! r) = Some t"
      "shared_prefix_table g s = t"
      by (auto simp: shared_prefix_table_def split: option.splits)
    with * show ?thesis by metis
  qed simp
  show "length (shared_prefix_table g s) \<le> length (logical_token_blocks (hd (get_seqs None g)))"
    "set (shared_prefix_table g s) \<subseteq> set_mset (E + held s)"
    "\<forall>b \<in> set (shared_prefix_table g s). blk_device b = GPU"
    using cases by auto
qed

text \<open>A prefix that has no blocks yet takes the first blocks of the new table and one reference to each.\<close>

definition share_prefix :: "prefix_ref option \<Rightarrow> block_table \<Rightarrow> block_manager \<Rightarrow> block_manager" where
  "share_prefix r tab s =
     (case r of None \<Rightarrow> s
      | Some r \<Rightarrow>
          if prefix_allocated (prefix_heap s ! r) then s
          else let t = take (prefix_get_num_blocks (prefix_heap s ! r)) tab
               in (incr_refs 1 t s)\<lparr>prefix_heap := (prefix_heap s)[r := prefix_set_block_table t (prefix_heap s ! r)]\<rparr>)"

lemma share_prefix_ok:
  assumes "refs_ok (E + held s + repeat_mset k (mset tab)) s" and "0 < k"
    and "\<forall>p \<in> set (prefix_heap s). prefix_ok p" and "\<forall>b \<in> set tab. blk_device b = GPU"
    and "\<And>r'. r = Some r' \<Longrightarrow> r' < length (prefix_heap s) \<and> prefix_get_num_blocks (prefix_heap s ! r') \<le> length tab"
  shows "refs_ok (E + held (share_prefix r tab s) + repeat_mset k (mset tab)) (share_prefix r tab s) \<and>
    (\<forall>p \<in> set (prefix_heap (share_prefix r tab s)). prefix_ok p) \<and>
    block_tables (share_prefix r tab s) = block_tables s \<and> gpu_allocator (share_prefix r tab s) = gpu_allocator s"
proof (cases r)
  case None
  then show ?thesis using assms by (simp add: share_prefix_def)
next
  case (Some r')
  let ?p = "prefix_heap s ! r'"
  show ?thesis
  proof (cases "prefix_allocated ?p")
    case True
    then show ?thesis using Some assms by (simp add: share_prefix_def)
  next
    case False
    have r': "r' < length (prefix_heap s)" "prefix_get_num_blocks ?p \<le> length tab" using assms(5) Some by auto
    let ?t = "take (prefix_get_num_blocks ?p) tab" and ?M = "E + held s + repeat_mset k (mset tab)"
    let ?q = "prefix_set_block_table ?t ?p"
    let ?u = "(incr_refs 1 ?t s)\<lparr>prefix_heap := (prefix_heap s)[r' := ?q]\<rparr>"
    have "set ?t \<subseteq> set_mset ?M"
    proof
      fix b assume "b \<in> set ?t"
      then have "b \<in> set tab" by (rule in_set_takeD)
      then have "0 < k * count (mset tab) b" using assms(2) by simp
      then have "0 < count ?M b" by simp
      then show "b \<in># ?M" by (simp only: count_greater_zero_iff)
    qed
    from incr_refs_ok [OF assms(1) this, of 1] have u: "refs_ok (?M + mset ?t) ?u" by simp
    have "prefix_refs ((prefix_heap s)[r' := ?q]) + prefix_table_refs ?p = prefix_refs (prefix_heap s) + mset ?t"
      using prefix_refs_update [OF r'(1), of ?q] by (simp add: prefix_table_refs_def prefix_set_block_table_def)
    moreover have "prefix_table_refs ?p = {#}"
      using False by (simp add: prefix_allocated_def prefix_table_refs_def)
    ultimately have "held ?u = held s + mset ?t" by (simp add: held_def ac_simps)
    then have "E + held ?u + repeat_mset k (mset tab) = ?M + mset ?t" by (simp add: ac_simps)
    then have "refs_ok (E + held ?u + repeat_mset k (mset tab)) ?u" using u by (simp only:)
    moreover have "prefix_ok ?q"
      using r'(2) assms(4) by (auto simp: prefix_ok_def prefix_set_block_table_def prefix_get_num_blocks_def dest: in_set_takeD)
    moreover have "share_prefix r tab s = ?u" using Some False by (simp add: share_prefix_def Let_def)
    ultimately show ?thesis
      using assms(3) by (auto simp del: union_assoc dest: set_update_subset_insert [THEN subsetD])
  qed
qed

lemma bm_allocate_unfold:
  assumes "bm_inv E s" and "group_fresh g s"
  shows "bm_allocate g s =
    ebind (efold (allocate_one (num_seqs None g)) [0..<needed_blocks g s]
        (incr_refs (num_seqs None g) (shared_prefix_table g s) s, shared_prefix_table g s)) (\<lambda>(u, tab).
      let v = share_prefix (sg_prefix g) tab u
      in Inr (v\<lparr>block_tables := fold (\<lambda>q. dict_set (seq_id q) tab) (get_seqs None g) (block_tables v)\<rparr>))"
proof -
  let ?seqs = "get_seqs None g"
  let ?n = "int (length (logical_token_blocks (hd ?seqs)))"
  have seqs: "get_seqs (Some WAITING) g = ?seqs" "?seqs \<noteq> []" using assms(2) by (auto simp: group_fresh_def)
  have "(case sg_prefix_obj g s of None \<Rightarrow> (?n, [])
      | Some p \<Rightarrow> (case pf_block_table p of None \<Rightarrow> (?n, []) | Some t \<Rightarrow> (?n - int (prefix_get_num_blocks p), t)))
    = (?n - int (length (shared_prefix_table g s)), shared_prefix_table g s)"
  proof (cases "sg_prefix g")
    case None
    then show ?thesis by (simp add: sg_prefix_obj_def shared_prefix_table_def)
  next
    case (Some r)
    then have "r < length (prefix_heap s)" using assms(2) by (simp add: group_fresh_def)
    then have "prefix_ok (prefix_heap s ! r)" using assms(1) by (simp add: bm_inv_def)
    then show ?thesis
      using Some by (auto simp: sg_prefix_obj_def shared_prefix_table_def prefix_ok_def split: option.splits)
  qed
  moreover have "nat (?n - int (length (shared_prefix_table g s))) = needed_blocks g s"
    by (simp add: needed_blocks_def nat_diff_distrib)
  ultimately show ?thesis
    unfolding bm_allocate_def share_prefix_def seqs(1)
    by (simp only: py_index_hd [OF seqs(2)] ebind_simps Let_def split_conv)
qed

lemma can_allocate_needed:
  assumes "bm_inv E s" and "group_fresh g s" and "block_sliding_window s = None" and "can_allocate g s = Inr OK"
  shows "int (needed_blocks g s) + watermark_blocks s \<le> int (gpu_avail s)"
proof -
  have seqs: "get_seqs (Some WAITING) g = get_seqs None g" "get_seqs None g \<noteq> []"
    using assms(2) by (auto simp: group_fresh_def)
  have len: "length (shared_prefix_table g s) \<le> length (logical_token_blocks (hd (get_seqs None g)))"
    by (rule shared_prefix_table_props(1) [OF assms(1,2)])
  show ?thesis
  proof (cases "sg_prefix g")
    case None
    then show ?thesis
      using assms(3,4) seqs py_index_hd [OF seqs(2)] len
      by (auto simp: can_allocate_def needed_blocks_def shared_prefix_table_def sg_prefix_obj_def
          get_num_free_blocks_def Let_def split: if_splits)
  next
    case (Some r)
    then have "r < length (prefix_heap s)" using assms(2) by (simp add: group_fresh_def)
    then have "prefix_ok (prefix_heap s ! r)" using assms(1) by (simp add: bm_inv_def)
    then show ?thesis
      using Some assms(3,4) seqs py_index_hd [OF seqs(2)] len
      by (auto simp: can_allocate_def needed_blocks_def shared_prefix_table_def sg_prefix_obj_def
          get_num_free_blocks_def Let_def prefix_allocated_def prefix_ok_def split: if_splits option.splits)
  qed
qed

theorem bm_allocate_ok:
  assumes "bm_inv E s" and "group_fresh g s" and "block_sliding_window s = None"
    and "needed_blocks g s \<le> gpu_avail s"
  shows "\<exists>u tab. bm_allocate g s = Inr u \<and> bm_inv E u \<and>
    (\<forall>q \<in> set (get_seqs None g). map_of (block_tables u) (seq_id q) = Some tab) \<and>
    (\<forall>k. k \<notin> seq_id ` set (get_seqs None g) \<longrightarrow> map_of (block_tables u) k = map_of (block_tables s) k) \<and>
    length tab = length (logical_token_blocks (hd (get_seqs None g))) \<and> (\<forall>b \<in> set tab. blk_device b = GPU) \<and>
    gpu_avail u = gpu_avail s - needed_blocks g s"
proof -
  let ?seqs = "get_seqs None g" and ?sh = "shared_prefix_table g s"
  let ?k = "num_seqs None g"
  let ?s1 = "incr_refs ?k ?sh s" and ?M = "E + held s"
  note sh = shared_prefix_table_props [OF assms(1,2)]
  have d: "dict_ok (block_tables s)" and r: "refs_ok ?M s" using assms(1) by (auto simp: bm_inv_def)
  have k: "?k = length ?seqs" "0 < ?k" using assms(2) by (auto simp: group_fresh_def num_seqs_def)
  have s1: "refs_ok (?M + repeat_mset ?k (mset ?sh)) ?s1" "bm_frame s ?s1"
    using incr_refs_ok [OF r sh(2)] by auto
  have len: "length [0..<needed_blocks g s] \<le> gpu_avail ?s1" using assms(4) by simp
  obtain fresh u where u:
    "efold (allocate_one ?k) [0..<needed_blocks g s] (?s1, ?sh) = Inr (u, ?sh @ fresh)"
    "refs_ok (?M + repeat_mset ?k (mset ?sh) + repeat_mset ?k (mset fresh)) u" "bm_frame ?s1 u"
    "length fresh = needed_blocks g s" "\<forall>b \<in> set fresh. blk_device b = GPU"
    "gpu_avail u = gpu_avail s - needed_blocks g s"
    using allocate_loop_ok [OF s1(1) len k(2), of ?sh] assms(3) by auto
  define tab where "tab = ?sh @ fresh"
  have frame: "bm_frame s u" using bm_frame_trans [OF s1(2) u(3)] .
  have "?M + repeat_mset ?k (mset ?sh) + repeat_mset ?k (mset fresh) = E + held u + repeat_mset ?k (mset tab)"
    using held_frame [OF frame] by (simp add: tab_def ac_simps)
  then have ru: "refs_ok (E + held u + repeat_mset ?k (mset tab)) u" using u(2) by (simp only:)
  have len_tab: "length tab = length (logical_token_blocks (hd ?seqs))"
    using sh(1) u(4) by (simp add: tab_def needed_blocks_def)
  have gpu_tab: "\<forall>b \<in> set tab. blk_device b = GPU" using sh(3) u(5) by (auto simp: tab_def)
  define v where "v = share_prefix (sg_prefix g) tab u"
  have v: "refs_ok (E + held v + repeat_mset ?k (mset tab)) v" "\<forall>p \<in> set (prefix_heap v). prefix_ok p"
    "block_tables v = block_tables s" "gpu_allocator v = gpu_allocator u"
  proof -
    have "\<forall>p \<in> set (prefix_heap u). prefix_ok p"
      using assms(1) bm_frame_fields(8) [OF frame] by (simp add: bm_inv_def)
    moreover have "r' < length (prefix_heap u) \<and> prefix_get_num_blocks (prefix_heap u ! r') \<le> length tab"
      if "sg_prefix g = Some r'" for r'
      using assms(2) that bm_frame_fields(8) [OF frame] len_tab by (simp add: group_fresh_def)
    ultimately show "refs_ok (E + held v + repeat_mset ?k (mset tab)) v" "\<forall>p \<in> set (prefix_heap v). prefix_ok p"
      "block_tables v = block_tables s" "gpu_allocator v = gpu_allocator u"
      using share_prefix_ok [OF ru k(2) _ gpu_tab] bm_frame_fields(6) [OF frame] by (auto simp: v_def)
  qed
  let ?w = "v\<lparr>block_tables := fold (\<lambda>q. dict_set (seq_id q) tab) ?seqs (block_tables v)\<rparr>"
  have run: "bm_allocate g s = Inr ?w"
    using bm_allocate_unfold [OF assms(1,2)] u(1) by (simp add: v_def tab_def Let_def)
  have fresh_ids: "distinct (map seq_id ?seqs)" "\<And>q. q \<in> set ?seqs \<Longrightarrow> map_of (block_tables s) (seq_id q) = None"
    using assms(2) by (auto simp: group_fresh_def)
  note tabs = fold_dict_set_tables [OF d fresh_ids, of tab]
  have "E + held ?w = E + held v + repeat_mset ?k (mset tab)"
    using tabs v(3) k(1) by (simp add: held_def ac_simps)
  then have "refs_ok (E + held ?w) ?w" using v(1) by (simp add: add.assoc)
  then have "bm_inv E ?w" using tabs v(2,3) by (simp add: bm_inv_def)
  then show ?thesis
    using run len_tab gpu_tab u(6) v(3,4) by (intro exI [of _ ?w] exI [of _ tab]) (simp add: map_of_fold_dict_set)
qed

section \<open>\<open>append_slot\<close>\<close>

text \<open>
  A block is writable for a sequence when it is in the sequence's table and nowhere else. After
  \<open>append_slot\<close> the last block of the table is: a fresh one, the old one if it was not shared, or
  a fresh copy of it (copy on write).
\<close>

definition owned :: "block_id multiset \<Rightarrow> block_manager \<Rightarrow> block_id \<Rightarrow> bool" where
  "owned E s b \<longleftrightarrow> count (E + held s) b = 1"

definition table_set :: "int \<Rightarrow> block_table \<Rightarrow> block_manager \<Rightarrow> block_manager" where
  "table_set k t s = s\<lparr>block_tables := dict_set k t (block_tables s)\<rparr>"

lemma held_table_set:
  assumes "dict_ok (block_tables s)" and "map_of (block_tables s) k = Some t"
  shows "held (table_set k t' s) + mset t = held s + mset t'"
  using table_refs_replace [OF assms, of t'] by (simp add: table_set_def held_def ac_simps)

text \<open>A table replaced by \<open>t'\<close> when the references of \<open>t'\<close> are held in place of those of \<open>t\<close>.\<close>

lemma bm_inv_table_set:
  assumes "bm_inv E s" and "map_of (block_tables s) k = Some t" and "bm_frame s u"
    and "refs_ok N u" and "N + mset t = E + held s + mset t'"
  shows "bm_inv E (table_set k t' u) \<and> E + held (table_set k t' u) = N"
proof -
  note f = bm_frame_fields [OF assms(3)]
  have d: "dict_ok (block_tables u)" "map_of (block_tables u) k = Some t"
    using assms(1,2) f by (simp_all add: bm_inv_def)
  have "E + held (table_set k t' u) + mset t = N + mset t"
    using held_table_set [OF d, of t'] held_frame [OF assms(3)] assms(5) by (simp add: add.assoc)
  then have eq: "E + held (table_set k t' u) = N" by (simp only: add_right_cancel)
  have "refs_ok N (table_set k t' u)" using assms(4) by (simp add: table_set_def)
  then have "bm_inv E (table_set k t' u)"
    using assms(1) f d(1) eq by (simp add: bm_inv_def table_set_def)
  with eq show ?thesis by blast
qed

lemma bm_frame_table_set:
  assumes "bm_frame s u"
  shows "bm_frame s ((table_set k t u)\<lparr>block_tables := block_tables s\<rparr>)"
proof -
  have "(table_set k t u)\<lparr>block_tables := block_tables s\<rparr> = u"
    using bm_frame_fields(6) [OF assms] by (cases u) (simp add: table_set_def)
  with assms show ?thesis by simp
qed

lemma table_set_fields [simp]:
  "block_tables (table_set k t s) = dict_set k t (block_tables s)"
  "gpu_allocator (table_set k t s) = gpu_allocator s"
  "cpu_allocator (table_set k t s) = cpu_allocator s"
  "prefix_heap (table_set k t s) = prefix_heap s"
  by (simp_all add: table_set_def)

theorem append_slot_ok:
  assumes "bm_inv E s" and "map_of (block_tables s) (seq_id q) = Some t" and "block_sliding_window s = None"
    and "0 < gpu_avail s" and "t \<noteq> []" and "blk_device (last t) = GPU"
  shows "\<exists>cow u t'. append_slot q s = Inr (cow, u) \<and> bm_inv E u \<and>
    block_tables u = dict_set (seq_id q) t' (block_tables s) \<and> bm_frame s (u\<lparr>block_tables := block_tables s\<rparr>) \<and>
    t' \<noteq> [] \<and> blk_device (last t') = GPU \<and> owned E u (last t') \<and> gpu_avail s - 1 \<le> gpu_avail u \<and>
    (\<forall>b. b \<notin> set t \<and> owned E s b \<longrightarrow> owned E u b) \<and>
    (if length t < length (logical_token_blocks q) then cow = None \<and> butlast t' = t
     else butlast t' = butlast t \<and>
       (if owned E s (last t) then cow = None \<and> t' = t
        else cow = Some (blk_number (last t), blk_number (last t')) \<and> last t' \<notin># E + held s))"
proof -
  let ?M = "E + held s" and ?l = "last t"
  have r: "refs_ok ?M s" and d: "dict_ok (block_tables s)" using assms(1) by (auto simp: bm_inv_def)
  obtain b u where u: "gpu_alloc s = Inr (b, u)" "refs_ok (add_mset b ?M) u" "b \<notin># ?M" "blk_device b = GPU"
    "gpu_avail u = gpu_avail s - 1" "bm_frame s u"
    using gpu_alloc_ok [OF r assms(4)] .
  note f = bm_frame_fields [OF u(6)]
  have cb: "count (add_mset b ?M) b = 1" using u(3) by (simp only: not_in_iff count_add_mset) simp
  show ?thesis
  proof (cases "length t < length (logical_token_blocks q)")
    case True
    have inv: "bm_inv E (table_set (seq_id q) (t @ [b]) u)"
      "E + held (table_set (seq_id q) (t @ [b]) u) = add_mset b ?M"
      using bm_inv_table_set [OF assms(1,2) u(6,2), of "t @ [b]"] by (simp_all add: ac_simps)
    have "append_slot q s = Inr (None, table_set (seq_id q) (t @ [b]) u)"
      using True assms(2,3) u(1) by (simp add: append_slot_def dict_get_def table_set_def)
    moreover have "owned E (table_set (seq_id q) (t @ [b]) u) c" if "owned E s c" for c
    proof -
      have "c \<in># ?M" using that unfolding owned_def by (metis count_greater_zero_iff zero_less_one)
      then have "c \<noteq> b" using u(3) by blast
      then show ?thesis using that inv(2) by (simp add: owned_def del: count_union)
    qed
    ultimately show ?thesis
      using True inv u(4,5) f(6) cb bm_frame_table_set [OF u(6)]
      by (intro exI [of _ None] exI [of _ "table_set (seq_id q) (t @ [b]) u"] exI [of _ "t @ [b]"])
        (simp add: owned_def)
  next
    case False
    have lt: "t = butlast t @ [?l]" using assms(5) by simp
    have l_in: "?l \<in># ?M"
      using table_refs_lookup_mem [OF assms(2), of ?l] assms(5) by (simp add: held_def)
    have app: "append_slot q s = append_slot_last (seq_id q) t s"
      using False assms(2) by (simp add: append_slot_def dict_get_def)
    have own: "owned E s ?l \<longleftrightarrow> ref_count s ?l = 1" using r by (simp add: owned_def refs_ok_def)
    show ?thesis
    proof (cases "owned E s ?l")
      case True
      have same: "s\<lparr>block_tables := dict_set (seq_id q) t (block_tables s)\<rparr> = s"
        using update_triv [OF assms(2)] by (cases s) simp
      have "append_slot q s = Inr (None, s)"
        using app own True assms(5,6) same by (simp add: append_slot_last_def)
      then show ?thesis
        using False True assms(1,5,6) update_triv [OF assms(2)]
        by (intro exI [of _ None] exI [of _ s] exI [of _ t]) simp
    next
      case shared: False
      obtain v where v: "gpu_free ?l u = Inr v" "refs_ok (add_mset b ?M - {#?l#}) v" "bm_frame u v"
        using gpu_pool.release_ok [OF u(2), of ?l] l_in assms(6) by auto
      have "gpu_avail u \<le> gpu_avail v"
        using gpu_pool.release_avail [OF u(2) _ assms(6) v(1)] l_in by simp
      moreover have fr: "bm_frame s v" using bm_frame_trans [OF u(6) v(3)] .
      let ?t = "butlast t @ [b]" and ?w = "table_set (seq_id q) (butlast t @ [b]) v"
      have "mset t = add_mset ?l (mset (butlast t))" by (subst lt) simp
      then have "add_mset b ?M - {#?l#} + mset t = ?M + mset ?t"
        using l_in by (simp add: add.assoc [symmetric] del: union_assoc)
      from bm_inv_table_set [OF assms(1,2) fr v(2) this]
      have inv: "bm_inv E ?w" "E + held ?w = add_mset b ?M - {#?l#}" by auto
      have "?l \<noteq> b" using l_in u(3) by blast
      then have own': "owned E ?w b" using inv(2) cb by (simp add: owned_def)
      have kept: "owned E ?w c" if "c \<notin> set t" "owned E s c" for c
      proof -
        have "c \<noteq> ?l" using that(1) assms(5) by auto
        moreover have "c \<in># ?M" using that(2) unfolding owned_def by (metis count_greater_zero_iff zero_less_one)
        moreover from this have "c \<noteq> b" using u(3) by blast
        ultimately show ?thesis using that(2) inv(2) by (simp add: owned_def del: count_union)
      qed
      have "append_slot q s = Inr (Some (blk_number ?l, blk_number b), ?w)"
        using app own shared assms(5,6) u(1) v(1) by (simp add: append_slot_last_def table_set_def)
      ultimately show ?thesis
        using False shared inv(1) own' kept u(3,4,5) bm_frame_fields(6) [OF fr] bm_frame_table_set [OF fr]
        by (intro exI [of _ "Some (blk_number ?l, blk_number b)"] exI [of _ ?w] exI [of _ ?t]) simp
    qed
  qed
qed

section \<open>What the other operations keep\<close>

text \<open>Freeing a table takes away its references and no others.\<close>

lemma bm_free_held:
  assumes "bm_inv E s" and "bm_free q s = Inr u" and "map_of (block_tables s) (seq_id q) = Some t"
  shows "E + held u + mset t = E + held s"
proof -
  have d: "dict_ok (block_tables s)" using assms(1) by (simp add: bm_inv_def)
  have "block_tables u = dict_del (seq_id q) (block_tables s) \<and> prefix_heap u = prefix_heap s"
    using bm_free_ok [OF assms(1), of q] assms(2) by auto
  then have "held u + mset t = held s"
    using table_refs_del [OF d assms(3)] by (simp add: held_def ac_simps)
  then show ?thesis by (simp add: add.assoc)
qed

lemma bm_free_owned:
  assumes "bm_inv E s" and "bm_free q s = Inr u" and "map_of (block_tables s) (seq_id q) = Some t"
    and "owned E s b" and "b \<notin> set t"
  shows "owned E u b"
proof -
  have "count (E + held u) b + count (mset t) b = count (E + held s) b"
    using bm_free_held [OF assms(1-3)] by (metis count_union)
  moreover have "count (mset t) b = 0" using assms(5) by simp
  ultimately show ?thesis using assms(4) by (simp add: owned_def del: count_union)
qed

text \<open>Two tables hold their references together; a block owned by one is not in the other.\<close>

lemma table_refs_two:
  assumes "map_of d k = Some t" and "map_of d k' = Some t'" and "k \<noteq> k'"
  shows "mset t + mset t' \<subseteq># table_refs d"
  using assms
proof (induction d)
  case Nil
  then show ?case by simp
next
  case (Cons a d)
  obtain x y where a: "a = (x, y)" by force
  have refs: "table_refs (a # d) = mset y + table_refs d" by (simp add: table_refs_def a)
  show ?case
  proof (cases "x = k \<or> x = k'")
    case True
    then show ?thesis
      using Cons.prems a refs table_refs_lookup [of d k' t'] table_refs_lookup [of d k t]
      by (auto split: if_splits intro: subset_mset.add_mono simp: add.commute)
  next
    case False
    then have "mset t + mset t' \<subseteq># table_refs d" using Cons a by simp
    then show ?thesis unfolding refs by (rule subset_mset.add_increasing [OF subset_mset.zero_le])
  qed
qed

lemma owned_not_shared:
  assumes "owned E s b" and "map_of (block_tables s) k = Some t" and "b \<in> set t"
    and "map_of (block_tables s) k' = Some t'" and "k \<noteq> k'"
  shows "b \<notin> set t'"
proof
  assume "b \<in> set t'"
  then have "2 \<le> count (mset t + mset t') b"
    using assms(3) by (simp add: Suc_le_eq [symmetric] numeral_2_eq_2) (metis add_mono count_greater_eq_one_iff set_mset_mset One_nat_def plus_1_eq_Suc)
  also have "\<dots> \<le> count (E + held s) b"
  proof -
    have "mset t + mset t' \<subseteq># E + held s"
      using table_refs_two [OF assms(2,4,5)] by (simp add: held_def subset_mset.add_increasing subset_mset.add_increasing2)
    then show ?thesis by (rule mset_subset_eq_count)
  qed
  finally show False using assms(1) by (simp add: owned_def del: count_union)
qed

text \<open>The configuration and the lengths of the prefixes never change.\<close>

definition bm_shape :: "block_manager \<Rightarrow> nat \<times> nat \<times> nat option \<times> int \<times> nat list" where
  "bm_shape s = (bm_block_size s, num_total_gpu_blocks s, block_sliding_window s, watermark_blocks s,
                 map prefix_get_num_blocks (prefix_heap s))"

lemma bm_shape_frame: "bm_frame s t \<Longrightarrow> bm_shape t = bm_shape s"
  using bm_frame_fields by (simp add: bm_shape_def)

lemma bm_shape_simps [simp]:
  "bm_shape (s\<lparr>block_tables := d\<rparr>) = bm_shape s"
  "bm_shape (s\<lparr>ref_count := h\<rparr>) = bm_shape s"
  "bm_shape (incr_refs k t s) = bm_shape s"
  by (simp_all add: bm_shape_def incr_refs_def)

lemma bm_shape_dev_free: "dev_free b s = Inr t \<Longrightarrow> bm_shape t = bm_shape s"
  by (auto simp: dev_free_def gpu_free_def cpu_free_def bm_shape_def split: if_splits)

lemma bm_shape_gpu_alloc: "gpu_alloc s = Inr (b, t) \<Longrightarrow> bm_shape t = bm_shape s"
  by (auto simp: gpu_alloc_def bm_shape_def)

lemma bm_shape_free:
  assumes "bm_free q s = Inr u"
  shows "bm_shape u = bm_shape s"
proof (cases "map_of (block_tables s) (seq_id q)")
  case None
  with assms show ?thesis by (simp add: bm_free_def)
next
  case (Some t)
  then obtain v where v: "efold dev_free t s = Inr v" "bm_shape u = bm_shape v"
    using assms by (auto simp: bm_free_def free_block_table_def)
  have "bm_shape v = bm_shape s"
    by (rule efold_invariant [OF v(1), of "\<lambda>x. bm_shape x = bm_shape s"]) (auto dest: bm_shape_dev_free)
  with v(2) show ?thesis by simp
qed

lemma bm_shape_allocate_one:
  "allocate_one k i (s, tab) = Inr (u, tab') \<Longrightarrow> bm_shape u = bm_shape s"
  by (auto simp: allocate_one_def split: option.splits if_splits dest: bm_shape_gpu_alloc)

lemma bm_shape_share_prefix: "bm_shape (share_prefix r tab s) = bm_shape s"
proof -
  have "map prefix_get_num_blocks ((prefix_heap s)[r' := prefix_set_block_table t (prefix_heap s ! r')]) =
      map prefix_get_num_blocks (prefix_heap s)" for r' t
  proof (rule nth_equalityI)
    fix i assume "i < length (map prefix_get_num_blocks ((prefix_heap s)[r' := prefix_set_block_table t (prefix_heap s ! r')]))"
    then show "map prefix_get_num_blocks ((prefix_heap s)[r' := prefix_set_block_table t (prefix_heap s ! r')]) ! i =
        map prefix_get_num_blocks (prefix_heap s) ! i"
      by (cases "i = r'") (simp_all add: prefix_get_num_blocks_def prefix_set_block_table_def)
  qed simp
  then show ?thesis by (auto simp: share_prefix_def Let_def bm_shape_def incr_refs_def split: option.split)
qed

lemma bm_shape_allocate:
  assumes "bm_inv E s" and "group_fresh g s" and "bm_allocate g s = Inr u"
  shows "bm_shape u = bm_shape s"
proof -
  obtain v tab where v: "efold (allocate_one (num_seqs None g)) [0..<needed_blocks g s]
        (incr_refs (num_seqs None g) (shared_prefix_table g s) s, shared_prefix_table g s) = Inr (v, tab)"
    "bm_shape u = bm_shape (share_prefix (sg_prefix g) tab v)"
    using assms(3) unfolding bm_allocate_unfold [OF assms(1,2)] by (auto simp: Let_def)
  have "bm_shape (fst (v, tab)) = bm_shape s"
    by (rule efold_invariant [OF v(1), of "\<lambda>x. bm_shape (fst x) = bm_shape s"]) (auto dest: bm_shape_allocate_one)
  with v(2) show ?thesis by (simp add: bm_shape_share_prefix)
qed

end
