(* ===== verification/Block_Swap.thy ===== *)
theory Block_Swap
  imports Block_Alloc
begin

text \<open>
  Swapping. Both directions move the blocks of a table from one device to the other through a
  mapping that is shared by the tables of a group: the first occurrence of a block acquires a block
  of the other device, a later one adds a reference to it. The locale states this once, over two
  pools with common references; \<open>swap_in_block\<close> and \<open>swap_out_block\<close> interpret it.
\<close>

lemma dict_set_new: "k \<notin> fst ` set d \<Longrightarrow> dict_set k v d = d @ [(k, v)]"
  by (induction d) auto

lemma mset_exchange: "A \<subseteq># M \<Longrightarrow> M - A + X + A = M + (X :: 'a multiset)"
  by (metis add.assoc add.commute subset_mset.diff_add)

lemma mset_regroup: "B \<subseteq># A \<Longrightarrow> A + X - B + Y = A - B + (X + (Y :: 'a multiset))"
  by (metis add.assoc subset_mset.add_diff_assoc2)

locale migration = ref_store release refs frame owns
  for release :: "block_id \<Rightarrow> 's \<Rightarrow> 's result"
    and refs :: "block_id multiset \<Rightarrow> 's \<Rightarrow> bool"
    and frame :: "'s \<Rightarrow> 's \<Rightarrow> bool"
    and owns :: "block_id \<Rightarrow> bool" +
  fixes acquire :: "'s \<Rightarrow> (block_id \<times> 's) result"
    and avail :: "'s \<Rightarrow> nat"
    and share :: "block_id \<Rightarrow> 's \<Rightarrow> 's"
    and skip :: "block_id \<Rightarrow> bool"
    and move :: "block_id \<Rightarrow> 's \<times> block_mapping \<times> block_table \<Rightarrow> ('s \<times> block_mapping \<times> block_table) result"
  assumes acquire_ok: "refs M s \<Longrightarrow> 0 < avail s \<Longrightarrow>
      \<exists>b t. acquire s = Inr (b, t) \<and> refs (add_mset b M) t \<and> b \<notin># M \<and> \<not> owns b \<and>
            avail t = avail s - 1 \<and> frame s t"
    and share_ok: "refs M s \<Longrightarrow> b \<in># M \<Longrightarrow>
      refs (add_mset b M) (share b s) \<and> frame s (share b s) \<and> avail (share b s) = avail s"
    and release_keeps: "release b s = Inr t \<Longrightarrow> avail t = avail s"
    and move_skip: "skip b \<Longrightarrow> move b (s, m, tab) = ebind (release b s) (\<lambda>s. Inr (s, m, tab))"
    and move_move: "\<not> skip b \<Longrightarrow> move b (s, m, tab) =
      ebind (case map_of m b of Some c \<Rightarrow> Inr (c, share c s, m)
             | None \<Rightarrow> ebind (acquire s) (\<lambda>(c, s). Inr (c, s, dict_set b c m))) (\<lambda>(c, s, m).
      ebind (release b s) (\<lambda>s. Inr (s, m, tab @ [c])))"
begin

text \<open>
  The mapping during a migration out of blocks \<open>B\<close>: it is injective, maps blocks of \<open>B\<close> to blocks
  of the other device that hold references, and the pool has as many free blocks as \<open>B\<close> still needs.
\<close>

definition map_inv :: "block_id set \<Rightarrow> nat \<Rightarrow> block_id multiset \<Rightarrow> 's \<Rightarrow> block_mapping \<Rightarrow> bool" where
  "map_inv B n M s m \<longleftrightarrow> finite B \<and> dict_ok m \<and> fst ` set m \<subseteq> B \<and> inj_on (\<lambda>b. the (map_of m b)) (fst ` set m) \<and>
     (\<forall>c \<in> snd ` set m. c \<in># M \<and> \<not> owns c) \<and> avail s + length m = n \<and> card B \<le> n"

lemma move_one:
  assumes "refs M s" and "b \<in># M" and "owns b" and "b \<in> B" and "map_inv B n M s m"
  shows "\<exists>s' m'. move b (s, m, tab) = Inr (s', m', tab @ (if skip b then [] else [the (map_of m' b)])) \<and>
    refs (M - {#b#} + mset (if skip b then [] else [the (map_of m' b)])) s' \<and> frame s s' \<and>
    map_inv B n (M - {#b#} + mset (if skip b then [] else [the (map_of m' b)])) s' m' \<and>
    map_of m \<subseteq>\<^sub>m map_of m' \<and> (\<not> skip b \<longrightarrow> b \<in> dom (map_of m'))"
proof (cases "skip b")
  case True
  obtain u where u: "release b s = Inr u" "refs (M - {#b#}) u" "frame s u"
    using release_ok [OF assms(1-3)] by blast
  have "map_inv B n (M - {#b#}) u m"
    using assms(3,5) release_keeps [OF u(1)] by (auto simp: map_inv_def in_diff_count)
  with True u show ?thesis by (simp add: move_skip)
next
  case False
  show ?thesis
  proof (cases "map_of m b")
    case (Some c)
    have c: "c \<in># M" "\<not> owns c"
      using assms(5) Some by (force simp: map_inv_def dest: map_of_SomeD)+
    note sh = share_ok [OF assms(1) c(1)]
    obtain u where u: "release b (share c s) = Inr u" "refs (add_mset c M - {#b#}) u" "frame (share c s) u"
      using release_ok [of "add_mset c M" "share c s" b] sh assms(2,3) by auto
    have M: "add_mset c M - {#b#} = add_mset c (M - {#b#})" using assms(2) by simp
    have "\<forall>x \<in> snd ` set m. x \<in># add_mset c (M - {#b#}) \<and> \<not> owns x"
      using assms(3,5) by (auto simp: map_inv_def in_diff_count)
    then have "map_inv B n (add_mset c (M - {#b#})) u m"
      using assms(5) release_keeps [OF u(1)] sh by (simp add: map_inv_def)
    then show ?thesis
      using False Some u sh M frame_trans by (intro exI [of _ u] exI [of _ m]) (auto simp: move_move)
  next
    case None
    have nb: "b \<notin> fst ` set m" using None by (simp add: map_of_eq_None_iff)
    have "length m < card B"
    proof -
      have "card (fst ` set m) = length m"
        using assms(5) distinct_card [of "dict_keys m"] by (simp add: map_inv_def)
      moreover have "fst ` set m \<subset> B" using assms(4,5) nb by (auto simp: map_inv_def)
      ultimately show ?thesis using assms(5) psubset_card_mono by (metis map_inv_def)
    qed
    then have "0 < avail s" using assms(5) by (simp add: map_inv_def)
    then obtain c v where v: "acquire s = Inr (c, v)" "refs (add_mset c M) v" "c \<notin># M" "\<not> owns c"
      "avail v = avail s - 1" "frame s v"
      using acquire_ok [OF assms(1)] by blast
    obtain u where u: "release b v = Inr u" "refs (add_mset c M - {#b#}) u" "frame v u"
      using release_ok [OF v(2), of b] assms(2,3) by auto
    let ?m = "dict_set b c m"
    have M: "add_mset c M - {#b#} = add_mset c (M - {#b#})" using assms(2) by simp
    have keys: "fst ` set ?m = insert b (fst ` set m)" by simp
    have m: "?m = m @ [(b, c)]" using nb by (rule dict_set_new)
    have "inj_on (\<lambda>x. the (map_of ?m x)) (insert b (fst ` set m))"
    proof -
      have img: "the (map_of m x) \<in> snd ` set m" if "x \<in> fst ` set m" for x
        using that by (metis domD dom_map_of_conv_image_fst image_eqI map_of_SomeD option.sel snd_conv)
      have "c \<notin> snd ` set m" using assms(5) v(3) by (auto simp: map_inv_def)
      then have "the (map_of m x) \<noteq> c" if "x \<in> fst ` set m" for x using img [OF that] by metis
      moreover have "inj_on (\<lambda>x. the (map_of ?m x)) (fst ` set m)"
        using assms(5) nb by (auto simp: map_inv_def inj_on_def update_conv')
      ultimately show ?thesis
        using nb by (simp add: inj_on_insert update_conv' image_iff) (metis fst_conv)
    qed
    moreover have "\<forall>x \<in> snd ` set ?m. x \<in># add_mset c (M - {#b#}) \<and> \<not> owns x"
      using assms(3,5) v(4) by (auto simp: m map_inv_def in_diff_count)
    moreover have "length ?m = Suc (length m)" by (simp add: m)
    ultimately have "map_inv B n (add_mset c (M - {#b#})) u ?m"
      using assms(4,5) release_keeps [OF u(1)] v(5) \<open>0 < avail s\<close> by (simp add: map_inv_def)
    then show ?thesis
      using False None u v M frame_trans
      by (intro exI [of _ u] exI [of _ ?m]) (auto simp: move_move update_conv' map_le_def)
  qed
qed

text \<open>A whole table: the new table is the image of the old one under the final mapping.\<close>

lemma move_table:
  assumes "refs M s" and "mset bs \<subseteq># M" and "\<forall>b \<in> set bs. owns b" and "set bs \<subseteq> B" and "map_inv B n M s m"
  shows "\<exists>s' m'. let nt = map (\<lambda>b. the (map_of m' b)) (filter (\<lambda>b. \<not> skip b) bs) in
    efold move bs (s, m, tab) = Inr (s', m', tab @ nt) \<and>
    refs (M - mset bs + mset nt) s' \<and> frame s s' \<and> map_inv B n (M - mset bs + mset nt) s' m' \<and>
    map_of m \<subseteq>\<^sub>m map_of m' \<and> (\<forall>b \<in> set bs. \<not> skip b \<longrightarrow> b \<in> dom (map_of m'))"
  using assms
proof (induction bs arbitrary: M s m tab)
  case Nil
  then show ?case by (simp add: frame_refl)
next
  case (Cons b bs)
  have b: "b \<in># M" "mset bs \<subseteq># M - {#b#}"
    using Cons.prems(2) by (auto simp: insert_subset_eq_iff)
  obtain s1 m1 where one: "move b (s, m, tab) = Inr (s1, m1, tab @ (if skip b then [] else [the (map_of m1 b)]))"
    "refs (M - {#b#} + mset (if skip b then [] else [the (map_of m1 b)])) s1" "frame s s1"
    "map_inv B n (M - {#b#} + mset (if skip b then [] else [the (map_of m1 b)])) s1 m1"
    "map_of m \<subseteq>\<^sub>m map_of m1" "\<not> skip b \<longrightarrow> b \<in> dom (map_of m1)"
    using move_one [OF Cons.prems(1) b(1) _ _ Cons.prems(5), of tab] Cons.prems(3,4)
    unfolding list.set by (meson insert_iff insert_subset)
  let ?h1 = "if skip b then [] else [the (map_of m1 b)]"
  have sub: "mset bs \<subseteq># M - {#b#} + mset ?h1" using b(2) by (rule subset_mset.add_increasing2 [OF subset_mset.zero_le])
  obtain s2 m2 where two: "efold move bs (s1, m1, tab @ ?h1) =
      Inr (s2, m2, (tab @ ?h1) @ map (\<lambda>b. the (map_of m2 b)) (filter (\<lambda>b. \<not> skip b) bs))"
    "refs (M - {#b#} + mset ?h1 - mset bs + mset (map (\<lambda>b. the (map_of m2 b)) (filter (\<lambda>b. \<not> skip b) bs))) s2"
    "frame s1 s2"
    "map_inv B n (M - {#b#} + mset ?h1 - mset bs + mset (map (\<lambda>b. the (map_of m2 b)) (filter (\<lambda>b. \<not> skip b) bs))) s2 m2"
    "map_of m1 \<subseteq>\<^sub>m map_of m2" "\<forall>b \<in> set bs. \<not> skip b \<longrightarrow> b \<in> dom (map_of m2)"
    using Cons.IH [OF one(2) sub _ _ one(4), of "tab @ ?h1"] Cons.prems(3,4) by (auto simp: Let_def)
  have h1: "?h1 = (if skip b then [] else [the (map_of m2 b)])"
    using one(6) two(5) by (simp add: map_le_def)
  let ?nt = "map (\<lambda>b. the (map_of m2 b)) (filter (\<lambda>b. \<not> skip b) bs)"
  have M: "M - {#b#} + mset ?h1 - mset bs + mset ?nt = M - mset (b # bs) + mset (?h1 @ ?nt)"
    using mset_regroup [OF b(2)] by (simp add: diff_diff_add_mset del: union_assoc)
  have nt: "?h1 @ ?nt = map (\<lambda>b. the (map_of m2 b)) (filter (\<lambda>b. \<not> skip b) (b # bs))"
    by (subst h1) simp
  have run: "efold move (b # bs) (s, m, tab) = Inr (s2, m2, tab @ ?h1 @ ?nt)"
    using one(1) two(1) by simp
  have dom: "b \<in> dom (map_of m2)" if "\<not> skip b"
    using one(6) map_le_implies_dom_le [OF two(5)] that by blast
  have "map_of m \<subseteq>\<^sub>m map_of m2" using one(5) two(5) by (rule map_le_trans)
  then show ?case
    using run two(2,4,6) frame_trans [OF one(3) two(3)] dom
    unfolding M nt Let_def by (intro exI [of _ s2] exI [of _ m2]) simp
qed

lemma map_inv_mono: "map_inv B n M s m \<Longrightarrow> M \<subseteq># N \<Longrightarrow> avail t = avail s \<Longrightarrow> map_inv B n N t m"
  by (auto simp: map_inv_def dest: mset_subset_eqD)

end

text \<open>
  The loop over the sequences of a group. \<open>pre\<close> are blocks of a prefix that the new tables start
  with; the tables of other sequences are left alone.
\<close>

locale table_migration = migration release refs_ok bm_frame owns acquire avail share skip move
  for release :: "block_id \<Rightarrow> block_manager \<Rightarrow> block_manager result"
    and owns :: "block_id \<Rightarrow> bool"
    and acquire :: "block_manager \<Rightarrow> (block_id \<times> block_manager) result"
    and avail :: "block_manager \<Rightarrow> nat"
    and share :: "block_id \<Rightarrow> block_manager \<Rightarrow> block_manager"
    and skip :: "block_id \<Rightarrow> bool"
    and move :: "block_id \<Rightarrow> block_manager \<times> block_mapping \<times> block_table
                 \<Rightarrow> (block_manager \<times> block_mapping \<times> block_table) result" +
  fixes pre :: block_table
    and move_seq :: "sequence \<Rightarrow> block_manager \<times> block_mapping \<Rightarrow> (block_manager \<times> block_mapping) result"
  assumes move_seq_eq: "move_seq q (s, m) =
      ebind (dict_get (block_tables s) (seq_id q)) (\<lambda>tab.
      ebind (efold move tab (incr_refs 1 pre s, m, pre)) (\<lambda>(s, m, tab).
        Inr (table_set (seq_id q) tab s, m)))"
    and avail_incr: "avail (incr_refs k tab s) = avail s"
    and avail_set: "avail (table_set i tab s) = avail s"
begin

definition moved :: "block_mapping \<Rightarrow> block_table \<Rightarrow> block_table" where
  "moved m tab = pre @ map (\<lambda>b. the (map_of m b)) (filter (\<lambda>b. \<not> skip b) tab)"

lemma move_seq_ok:
  assumes "bm_inv E s" and "map_inv B n (E + held s) s m" and "map_of (block_tables s) (seq_id q) = Some tab"
    and "set tab \<subseteq> B" and "\<forall>b \<in> set tab. owns b" and "set pre \<subseteq> set_mset (E + prefix_refs (prefix_heap s))"
  shows "\<exists>u m'. move_seq q (s, m) = Inr (u, m') \<and> bm_inv E u \<and> map_inv B n (E + held u) u m' \<and>
    map_of m \<subseteq>\<^sub>m map_of m' \<and> prefix_heap u = prefix_heap s \<and>
    block_tables u = dict_set (seq_id q) (moved m' tab) (block_tables s) \<and>
    (\<forall>b \<in> set tab. \<not> skip b \<longrightarrow> b \<in> dom (map_of m'))"
proof -
  let ?M = "E + held s" and ?s1 = "incr_refs 1 pre s"
  have r: "refs_ok ?M s" using assms(1) by (simp add: bm_inv_def)
  have "set pre \<subseteq> set_mset ?M" using assms(6) by (auto simp: held_def)
  from incr_refs_ok [OF r this, of 1] have s1: "refs_ok (?M + mset pre) ?s1" "bm_frame s ?s1" by auto
  have m1: "map_inv B n (?M + mset pre) ?s1 m"
    by (rule map_inv_mono [OF assms(2)]) (simp_all add: avail_incr)
  have sub: "mset tab \<subseteq># ?M + mset pre"
    using table_refs_lookup [OF assms(3)]
    by (simp add: held_def subset_mset.add_increasing subset_mset.add_increasing2)
  obtain u m' where u: "efold move tab (?s1, m, pre) = Inr (u, m', moved m' tab)"
    "refs_ok (?M + mset pre - mset tab + mset (map (\<lambda>b. the (map_of m' b)) (filter (\<lambda>b. \<not> skip b) tab))) u"
    "bm_frame ?s1 u"
    "map_inv B n (?M + mset pre - mset tab + mset (map (\<lambda>b. the (map_of m' b)) (filter (\<lambda>b. \<not> skip b) tab))) u m'"
    "map_of m \<subseteq>\<^sub>m map_of m'" "\<forall>b \<in> set tab. \<not> skip b \<longrightarrow> b \<in> dom (map_of m')"
    using move_table [OF s1(1) sub assms(5,4) m1, of pre] by (auto simp: Let_def moved_def)
  let ?N = "?M + mset pre - mset tab + mset (map (\<lambda>b. the (map_of m' b)) (filter (\<lambda>b. \<not> skip b) tab))"
  have fr: "bm_frame s u" using bm_frame_trans [OF s1(2) u(3)] .
  have "?N + mset tab = ?M + mset (moved m' tab)"
    using mset_exchange [OF sub] by (simp add: moved_def add.assoc)
  from bm_inv_table_set [OF assms(1,3) fr u(2) this]
  have inv: "bm_inv E (table_set (seq_id q) (moved m' tab) u)"
    "E + held (table_set (seq_id q) (moved m' tab) u) = ?N" by auto
  have "map_inv B n ?N (table_set (seq_id q) (moved m' tab) u) m'"
    by (rule map_inv_mono [OF u(4)]) (simp_all add: avail_set)
  then show ?thesis
    using u(1,5,6) inv assms(3) bm_frame_fields(6,8) [OF fr] by (simp add: move_seq_eq dict_get_def)
qed

lemma moved_stable:
  "map_of m \<subseteq>\<^sub>m map_of m' \<Longrightarrow> \<forall>b \<in> set tab. \<not> skip b \<longrightarrow> b \<in> dom (map_of m) \<Longrightarrow> moved m' tab = moved m tab"
  by (auto simp: moved_def map_le_def)

lemma move_group_ok:
  assumes "bm_inv E s" and "map_inv B n (E + held s) s m" and "distinct (map seq_id qs)"
    and "\<And>q. q \<in> set qs \<Longrightarrow> \<exists>tab. map_of (block_tables s) (seq_id q) = Some tab \<and> set tab \<subseteq> B \<and> (\<forall>b \<in> set tab. owns b)"
    and "set pre \<subseteq> set_mset (E + prefix_refs (prefix_heap s))"
  shows "\<exists>u m'. efold move_seq qs (s, m) = Inr (u, m') \<and> bm_inv E u \<and> map_inv B n (E + held u) u m' \<and>
    map_of m \<subseteq>\<^sub>m map_of m' \<and> prefix_heap u = prefix_heap s \<and>
    (\<forall>k. map_of (block_tables u) k =
       (if k \<in> seq_id ` set qs then map_option (moved m') (map_of (block_tables s) k) else map_of (block_tables s) k))"
  using assms
proof (induction qs arbitrary: s m)
  case Nil
  then show ?case by simp
next
  case (Cons q qs)
  obtain tab where tab: "map_of (block_tables s) (seq_id q) = Some tab" "set tab \<subseteq> B" "\<forall>b \<in> set tab. owns b"
    using Cons.prems(4) [of q] by auto
  obtain u m1 where u: "move_seq q (s, m) = Inr (u, m1)" "bm_inv E u" "map_inv B n (E + held u) u m1"
    "map_of m \<subseteq>\<^sub>m map_of m1" "prefix_heap u = prefix_heap s"
    "block_tables u = dict_set (seq_id q) (moved m1 tab) (block_tables s)"
    "\<forall>b \<in> set tab. \<not> skip b \<longrightarrow> b \<in> dom (map_of m1)"
    using move_seq_ok [OF Cons.prems(1,2) tab Cons.prems(5)] by blast
  have q: "seq_id q \<notin> seq_id ` set qs" using Cons.prems(3) by simp
  have "\<exists>tab. map_of (block_tables u) (seq_id r) = Some tab \<and> set tab \<subseteq> B \<and> (\<forall>b \<in> set tab. owns b)" if "r \<in> set qs" for r
    using Cons.prems(4) [of r] that q by (auto simp: u(6) update_conv' image_iff)
  moreover have "distinct (map seq_id qs)" "set pre \<subseteq> set_mset (E + prefix_refs (prefix_heap u))"
    using Cons.prems(3,5) u(5) by simp_all
  ultimately obtain v m2 where v: "efold move_seq qs (u, m1) = Inr (v, m2)" "bm_inv E v" "map_inv B n (E + held v) v m2"
    "map_of m1 \<subseteq>\<^sub>m map_of m2" "prefix_heap v = prefix_heap u"
    "\<And>k. map_of (block_tables v) k =
       (if k \<in> seq_id ` set qs then map_option (moved m2) (map_of (block_tables u) k) else map_of (block_tables u) k)"
    using Cons.IH [OF u(2,3)] by blast
  have "moved m2 tab = moved m1 tab" using moved_stable [OF v(4) u(7)] .
  then have "map_of (block_tables v) k =
      (if k \<in> seq_id ` set (q # qs) then map_option (moved m2) (map_of (block_tables s) k) else map_of (block_tables s) k)" for k
    using q tab(1) by (auto simp: v(6) u(6) update_conv')
  then show ?case
    using u(1,5) v(1,2,3,5) map_le_trans [OF u(4) v(4)] by auto
qed

end

section \<open>Both directions interpret it\<close>

lemma gpu_free_cpu_avail: "gpu_free b s = Inr t \<Longrightarrow> cpu_avail t = cpu_avail s"
  by (auto simp: gpu_free_def)

lemma cpu_free_gpu_avail: "cpu_free b s = Inr t \<Longrightarrow> gpu_avail t = gpu_avail s"
  by (auto simp: cpu_free_def)

lemma incr_one_ok:
  "refs_ok M s \<Longrightarrow> b \<in># M \<Longrightarrow> refs_ok (add_mset b M) (incr_refs 1 [b] s) \<and> bm_frame s (incr_refs 1 [b] s) \<and>
     gpu_avail (incr_refs 1 [b] s) = gpu_avail s"
  "refs_ok M s \<Longrightarrow> b \<in># M \<Longrightarrow> refs_ok (add_mset b M) (incr_refs 1 [b] s) \<and> bm_frame s (incr_refs 1 [b] s) \<and>
     cpu_avail (incr_refs 1 [b] s) = cpu_avail s"
  using incr_refs_ok [of M s "[b]" 1] by simp_all

lemma cpu_alloc_acquire:
  "refs_ok M s \<Longrightarrow> 0 < cpu_avail s \<Longrightarrow> \<exists>b t. cpu_alloc s = Inr (b, t) \<and> refs_ok (add_mset b M) t \<and> b \<notin># M \<and>
     blk_device b \<noteq> GPU \<and> cpu_avail t = cpu_avail s - 1 \<and> bm_frame s t"
  using cpu_pool.acquire_ok [of M s] by force

lemma gpu_alloc_acquire:
  "refs_ok M s \<Longrightarrow> 0 < gpu_avail s \<Longrightarrow> \<exists>b t. gpu_alloc s = Inr (b, t) \<and> refs_ok (add_mset b M) t \<and> b \<notin># M \<and>
     blk_device b \<noteq> CPU \<and> gpu_avail t = gpu_avail s - 1 \<and> bm_frame s t"
  using gpu_pool.acquire_ok [of M s] by force

lemmas migration_laws = gpu_free_cpu_avail cpu_free_gpu_avail incr_one_ok cpu_alloc_acquire gpu_alloc_acquire

lemma incr_refs_Nil [simp]: "incr_refs k [] s = s"
  by (simp add: incr_refs_def)

interpretation swap_out_plain: table_migration gpu_free "\<lambda>b. blk_device b = GPU" cpu_alloc
    "\<lambda>s. length (free_blocks (cpu_allocator s))" "\<lambda>b. incr_refs 1 [b]" "\<lambda>_. False"
    "swap_out_block None" "[]" "swap_out_seq None"
  by (unfold_locales; (rule migration_laws; assumption)?; simp add: swap_out_block_def swap_out_seq_def table_set_def)

interpretation swap_out_shared: table_migration gpu_free "\<lambda>b. blk_device b = GPU" cpu_alloc
    "\<lambda>s. length (free_blocks (cpu_allocator s))" "\<lambda>b. incr_refs 1 [b]" "\<lambda>b. b \<in> set t"
    "swap_out_block (Some (p\<lparr>pf_block_table := Some t\<rparr>))" "[]"
    "swap_out_seq (Some (p\<lparr>pf_block_table := Some t\<rparr>))" for p t
  by (unfold_locales; (rule migration_laws; assumption)?; simp add: swap_out_block_def swap_out_seq_def table_set_def)

interpretation swap_in_plain: table_migration cpu_free "\<lambda>b. blk_device b = CPU" gpu_alloc
    "\<lambda>s. length (free_blocks (gpu_allocator s))" "\<lambda>b. incr_refs 1 [b]" "\<lambda>_. False"
    swap_in_block "[]" "swap_in_seq None"
  by (unfold_locales; (rule migration_laws; assumption)?; simp add: swap_in_block_def swap_in_seq_def table_set_def)

interpretation swap_in_shared: table_migration cpu_free "\<lambda>b. blk_device b = CPU" gpu_alloc
    "\<lambda>s. length (free_blocks (gpu_allocator s))" "\<lambda>b. incr_refs 1 [b]" "\<lambda>_. False"
    swap_in_block t "swap_in_seq (Some (p\<lparr>pf_block_table := Some t\<rparr>))" for p t
  by (unfold_locales; (rule migration_laws; assumption)?; simp add: swap_in_block_def swap_in_seq_def table_set_def)

section \<open>\<open>swap_out\<close> and \<open>swap_in\<close>\<close>

lemma get_physical_blocks_tables:
  assumes "get_physical_blocks g s = Inr bl"
  shows "distinct bl"
    and "q \<in> set (get_unfinished_seqs g) \<Longrightarrow> \<exists>t. map_of (block_tables s) (seq_id q) = Some t \<and> set t \<subseteq> set bl"
proof -
  have loop: "set bs0 \<subseteq> set bs1 \<and>
      (\<forall>q \<in> set qs. \<exists>t. map_of (block_tables s) (seq_id q) = Some t \<and> set t \<subseteq> set bs1)"
    if "efold (\<lambda>q blocks. ebind (dict_get (block_tables s) (seq_id q)) (\<lambda>t. Inr (blocks @ t))) qs bs0 = Inr bs1"
    for qs bs0 bs1
    using that
  proof (induction qs arbitrary: bs0)
    case (Cons q qs)
    then obtain t where t: "map_of (block_tables s) (seq_id q) = Some t"
      "efold (\<lambda>q blocks. ebind (dict_get (block_tables s) (seq_id q)) (\<lambda>t. Inr (blocks @ t))) qs (bs0 @ t) = Inr bs1"
      by auto
    from Cons.IH [OF t(2)] t(1) show ?case by auto
  qed simp
  from assms obtain bs1 where bs1:
    "efold (\<lambda>q blocks. ebind (dict_get (block_tables s) (seq_id q)) (\<lambda>t. Inr (blocks @ t))) (get_unfinished_seqs g) [] = Inr bs1"
    "bl = remdups bs1" by (auto simp: get_physical_blocks_def)
  show "distinct bl" using bs1(2) by simp
  show "q \<in> set (get_unfinished_seqs g) \<Longrightarrow> \<exists>t. map_of (block_tables s) (seq_id q) = Some t \<and> set t \<subseteq> set bl"
    using loop [OF bs1(1)] bs1(2) by simp
qed

text \<open>The sequences of the group have distinct ids, and those with status \<open>st\<close> tables on one device.\<close>

definition group_on :: "device \<Rightarrow> sequence_status \<Rightarrow> sequence_group \<Rightarrow> block_manager \<Rightarrow> bool" where
  "group_on d st g s \<longleftrightarrow> distinct (map seq_id (get_seqs None g)) \<and>
     (\<forall>q \<in> set (get_seqs (Some st) g). \<forall>t. map_of (block_tables s) (seq_id q) = Some t \<longrightarrow> (\<forall>b \<in> set t. blk_device b = d))"

lemma distinct_get_seqs: "distinct (map seq_id (get_seqs None g)) \<Longrightarrow> distinct (map seq_id (get_seqs (Some st) g))"
  by (simp add: get_seqs_def distinct_map_filter)

lemma group_on_tables:
  assumes "group_on d st g s" and "get_physical_blocks g s = Inr bl" and "\<not> status_is_finished st"
    and "q \<in> set (get_seqs (Some st) g)"
  shows "\<exists>t. map_of (block_tables s) (seq_id q) = Some t \<and> set t \<subseteq> set bl \<and> (\<forall>b \<in> set t. blk_device b = d)"
proof -
  have "q \<in> set (get_unfinished_seqs g)"
    using assms(3,4) by (auto simp: get_seqs_def get_unfinished_seqs_def seq_is_finished_def)
  from get_physical_blocks_tables(2) [OF assms(2) this] assms(1,4) show ?thesis
    by (auto simp: group_on_def)
qed

text \<open>A prefix is ready when it has blocks.\<close>

definition prefix_ready :: "sequence_group \<Rightarrow> block_manager \<Rightarrow> bool" where
  "prefix_ready g s \<longleftrightarrow> (\<forall>r. sg_prefix g = Some r \<longrightarrow> r < length (prefix_heap s) \<and> prefix_allocated (prefix_heap s ! r))"

lemma prefix_cases:
  assumes "prefix_ready g s"
  obtains "sg_prefix_obj g s = None" "shared_prefix_table g s = []"
  | p where "sg_prefix_obj g s = Some (p\<lparr>pf_block_table := Some (shared_prefix_table g s)\<rparr>)"
proof (cases "sg_prefix g")
  case None
  then show thesis using that(1) by (simp add: sg_prefix_obj_def shared_prefix_table_def)
next
  case (Some r)
  then obtain t where t: "pf_block_table (prefix_heap s ! r) = Some t"
    using assms by (auto simp: prefix_ready_def prefix_allocated_def)
  then have "(prefix_heap s ! r)\<lparr>pf_block_table := Some t\<rparr> = prefix_heap s ! r"
    by (cases "prefix_heap s ! r") simp
  with Some t that(2) [of "prefix_heap s ! r"] show thesis
    by (simp add: sg_prefix_obj_def shared_prefix_table_def)
qed

text \<open>
  \<open>swap_out\<close> succeeds under \<open>can_swap_out\<close>. It replaces each running table by its image under an
  injective mapping to CPU blocks, the prefix's blocks left out: blocks that were shared stay
  shared, and no two get the same copy.
\<close>

text \<open>C27: \<open>swap_out\<close> moves the blocks of a group to the CPU by an injective mapping of block ids, leaves out
  the blocks of a shared prefix, keeps the invariant and leaves every other table as it was.\<close>

theorem bm_swap_out_ok:
  assumes "bm_inv E s" and "group_on GPU RUNNING g s" and "prefix_ready g s" and "can_swap_out g s = Inr True"
  shows "\<exists>u m. bm_swap_out g s = Inr (block_number_mapping m, u) \<and> bm_inv E u \<and>
    dict_ok m \<and> inj_on (\<lambda>b. the (map_of m b)) (fst ` set m) \<and> (\<forall>c \<in> snd ` set m. blk_device c = CPU) \<and>
    prefix_heap u = prefix_heap s \<and>
    (\<forall>k. map_of (block_tables u) k =
      (if k \<in> seq_id ` set (get_seqs (Some RUNNING) g)
       then map_option (\<lambda>t. map (\<lambda>b. the (map_of m b)) (filter (\<lambda>b. b \<notin> set (shared_prefix_table g s)) t)) (map_of (block_tables s) k)
       else map_of (block_tables s) k))"
proof -
  let ?qs = "get_seqs (Some RUNNING) g"
  obtain bl where bl: "get_physical_blocks g s = Inr bl" "length bl \<le> cpu_avail s"
    using assms(4) by (auto simp: can_swap_out_def get_num_free_blocks_def)
  have card: "card (set bl) \<le> cpu_avail s" using bl(2) card_length le_trans by blast
  have dist: "distinct (map seq_id ?qs)" using assms(2) distinct_get_seqs by (auto simp: group_on_def)
  note tabs = group_on_tables [OF assms(2) bl(1) status_is_finished_simps(2)]
  have start: "swap_out_plain.map_inv (set bl) (cpu_avail s) (E + held s) s []"
    using card by (simp add: swap_out_plain.map_inv_def)
  show ?thesis
    using assms(3)
  proof (cases rule: prefix_cases)
    case 1
    from swap_out_plain.move_group_ok [OF assms(1) start dist tabs] obtain u m where
      u: "efold (swap_out_seq None) ?qs (s, []) = Inr (u, m)" "bm_inv E u"
        "swap_out_plain.map_inv (set bl) (cpu_avail s) (E + held u) u m" "prefix_heap u = prefix_heap s"
        "\<forall>k. map_of (block_tables u) k =
          (if k \<in> seq_id ` set ?qs then map_option (swap_out_plain.moved m) (map_of (block_tables s) k)
           else map_of (block_tables s) k)"
      by auto
    have "blk_device c = CPU" if "c \<in> snd ` set m" for c
      using u(3) that by (cases "blk_device c") (auto simp: swap_out_plain.map_inv_def)
    then show ?thesis
      using u 1 by (intro exI [of _ u] exI [of _ m])
        (simp add: bm_swap_out_def swap_out_plain.map_inv_def swap_out_plain.moved_def [abs_def])
  next
    case (2 p)
    let ?t = "shared_prefix_table g s"
    from swap_out_shared.move_group_ok [OF assms(1) start dist tabs, of ?t p] obtain u m where
      u: "efold (swap_out_seq (Some (p\<lparr>pf_block_table := Some ?t\<rparr>))) ?qs (s, []) = Inr (u, m)" "bm_inv E u"
        "swap_out_plain.map_inv (set bl) (cpu_avail s) (E + held u) u m" "prefix_heap u = prefix_heap s"
        "\<forall>k. map_of (block_tables u) k =
          (if k \<in> seq_id ` set ?qs then map_option (swap_out_shared.moved ?t m) (map_of (block_tables s) k)
           else map_of (block_tables s) k)"
      by auto
    have "blk_device c = CPU" if "c \<in> snd ` set m" for c
      using u(3) that by (cases "blk_device c") (auto simp: swap_out_plain.map_inv_def)
    then show ?thesis
      using u 2 by (intro exI [of _ u] exI [of _ m])
        (simp add: bm_swap_out_def swap_out_plain.map_inv_def swap_out_shared.moved_def [abs_def])
  qed
qed

lemma shared_prefix_held:
  assumes "prefix_ready g s"
  shows "set (shared_prefix_table g s) \<subseteq> set_mset (E + prefix_refs (prefix_heap s))"
proof (cases "sg_prefix g")
  case None
  then show ?thesis by (simp add: shared_prefix_table_def)
next
  case (Some r)
  then obtain t where t: "r < length (prefix_heap s)" "pf_block_table (prefix_heap s ! r) = Some t"
    using assms by (auto simp: prefix_ready_def prefix_allocated_def)
  then have "mset t \<subseteq># prefix_refs (prefix_heap s)"
    using prefix_refs_nth [OF t(1)] by (simp add: prefix_table_refs_def)
  then have "set_mset (mset t) \<subseteq> set_mset (prefix_refs (prefix_heap s))" by (rule set_mset_mono)
  with Some t(2) show ?thesis by (auto simp: shared_prefix_table_def)
qed

text \<open>\<open>swap_in\<close> is the same in the other direction; the new tables start with the blocks of the prefix.\<close>

text \<open>C28: \<open>swap_in\<close> moves the blocks back to the GPU by an injective mapping, puts the blocks of a computed
  prefix in front, keeps the invariant and leaves every other table as it was.\<close>

theorem bm_swap_in_ok:
  assumes "bm_inv E s" and "group_on CPU SWAPPED g s" and "prefix_ready g s"
    and "\<And>p. sg_prefix_obj g s = Some p \<Longrightarrow> pf_computed p"
    and "can_swap_in g s = Inr True" and "0 \<le> watermark_blocks s"
  shows "\<exists>u m. bm_swap_in g s = Inr (block_number_mapping m, u) \<and> bm_inv E u \<and>
    dict_ok m \<and> inj_on (\<lambda>b. the (map_of m b)) (fst ` set m) \<and> (\<forall>c \<in> snd ` set m. blk_device c = GPU) \<and>
    prefix_heap u = prefix_heap s \<and>
    (\<forall>k. map_of (block_tables u) k =
      (if k \<in> seq_id ` set (get_seqs (Some SWAPPED) g)
       then map_option (\<lambda>t. shared_prefix_table g s @ map (\<lambda>b. the (map_of m b)) t) (map_of (block_tables s) k)
       else map_of (block_tables s) k))"
proof -
  let ?qs = "get_seqs (Some SWAPPED) g"
  obtain bl where bl: "get_physical_blocks g s = Inr bl" "length bl \<le> gpu_avail s"
    using assms(5,6) by (auto simp: can_swap_in_def get_num_free_blocks_def)
  have card: "card (set bl) \<le> gpu_avail s" using bl(2) card_length le_trans by blast
  have dist: "distinct (map seq_id ?qs)" using assms(2) distinct_get_seqs by (auto simp: group_on_def)
  note tabs = group_on_tables [OF assms(2) bl(1) status_is_finished_simps(3)]
  have start: "swap_in_plain.map_inv (set bl) (gpu_avail s) (E + held s) s []"
    using card by (simp add: swap_in_plain.map_inv_def)
  show ?thesis
    using assms(3)
  proof (cases rule: prefix_cases)
    case 1
    from swap_in_plain.move_group_ok [OF assms(1) start dist tabs] obtain u m where
      u: "efold (swap_in_seq None) ?qs (s, []) = Inr (u, m)" "bm_inv E u"
        "swap_in_plain.map_inv (set bl) (gpu_avail s) (E + held u) u m" "prefix_heap u = prefix_heap s"
        "\<forall>k. map_of (block_tables u) k =
          (if k \<in> seq_id ` set ?qs then map_option (swap_in_plain.moved m) (map_of (block_tables s) k)
           else map_of (block_tables s) k)"
      by auto
    have "blk_device c = GPU" if "c \<in> snd ` set m" for c
      using u(3) that by (cases "blk_device c") (auto simp: swap_in_plain.map_inv_def)
    then show ?thesis
      using u 1 by (intro exI [of _ u] exI [of _ m])
        (simp add: bm_swap_in_def swap_in_plain.map_inv_def swap_in_plain.moved_def [abs_def])
  next
    case (2 p)
    let ?t = "shared_prefix_table g s"
    from swap_in_shared.move_group_ok [OF assms(1) start dist tabs, of ?t p] shared_prefix_held [OF assms(3)]
    obtain u m where
      u: "efold (swap_in_seq (Some (p\<lparr>pf_block_table := Some ?t\<rparr>))) ?qs (s, []) = Inr (u, m)" "bm_inv E u"
        "swap_in_plain.map_inv (set bl) (gpu_avail s) (E + held u) u m" "prefix_heap u = prefix_heap s"
        "\<forall>k. map_of (block_tables u) k =
          (if k \<in> seq_id ` set ?qs then map_option (swap_in_shared.moved ?t m) (map_of (block_tables s) k)
           else map_of (block_tables s) k)"
      by auto
    have "blk_device c = GPU" if "c \<in> snd ` set m" for c
      using u(3) that by (cases "blk_device c") (auto simp: swap_in_plain.map_inv_def)
    moreover have "pf_computed p" using assms(4) 2 by fastforce
    ultimately show ?thesis
      using u 2 by (intro exI [of _ u] exI [of _ m])
        (simp add: bm_swap_in_def swap_in_plain.map_inv_def swap_in_shared.moved_def [abs_def] prefix_allocated_def)
  qed
qed

end
