(* ===== verification/Block_Reorg.thy ===== *)
theory Block_Reorg
  imports Block_Swap
begin

text \<open>
  Giving GPU blocks up to layer weights (\<^verbatim>\<open>vllm/core/block_manager.py\<close>): \<open>reorganize_gpu_blocks\<close>
  empties the top of the GPU block range by moving its used blocks to free blocks below,
  \<open>get_dependent_blk_moving_chains\<close> orders the copies of all layers, and \<open>KVBlkPerLayerWeight\<close> holds
  the global numbers both use. Block numbers are \<open>int\<close> here: a start of the range below 0 would
  index Python lists from their end.
\<close>

section \<open>KVBlkPerLayerWeight\<close>

record kv_per_layer_weight =
  blk_num_per_layer :: int
  kv_block_size :: int
  layer_weight_size :: int
  cached_layer_num :: int
  load_more_layer_on_card_num :: int
  layer_num :: int
  tot_gpu_mem :: int

definition kv_reset :: kv_per_layer_weight where
  "kv_reset = \<lparr>blk_num_per_layer = -1, kv_block_size = -1, layer_weight_size = -1, cached_layer_num = -1,
     load_more_layer_on_card_num = 0, layer_num = -1, tot_gpu_mem = -1\<rparr>"

section \<open>\<open>reorganize_gpu_blocks\<close>\<close>

text \<open>The list \<open>blk_is_free\<close> after the loop over the free list.\<close>

definition free_flags :: "nat \<Rightarrow> block_table \<Rightarrow> bool list" where
  "free_flags n fl = map (\<lambda>i. i \<in> blk_number ` set fl) [0..<n]"

text \<open>The block numbers of a range that are not free, by \<^verbatim>\<open>blk_is_free[blk_i] == False\<close>.\<close>

definition used_in_range :: "bool list \<Rightarrow> int \<Rightarrow> int \<Rightarrow> int list result" where
  "used_in_range flags lo hi =
     efold (\<lambda>i acc. ebind (py_index flags i) (\<lambda>b. Inr (if b then acc else acc @ [i]))) [lo..hi - 1] []"

text \<open>One block of a table: the counts and the new table.\<close>

definition reorg_block :: "(int, block_id) dict \<Rightarrow> block_id \<Rightarrow> block_heap \<times> block_table \<Rightarrow> block_heap \<times> block_table" where
  "reorg_block remove_mapping from_blk = (\<lambda>(h, tab).
     case map_of remove_mapping (int (blk_number from_blk)) of
       None \<Rightarrow> (h, tab @ [from_blk])
     | Some to_blk \<Rightarrow> ((h(to_blk := h from_blk))(from_blk := 1), tab @ [to_blk]))"

definition reorg_tables :: "(int, block_id) dict \<Rightarrow> (int, block_table) dict \<Rightarrow> block_heap
    \<Rightarrow> block_heap \<times> (int, block_table) dict" where
  "reorg_tables remove_mapping d h =
     fold (\<lambda>(k, tab) (h, d). let (h, tab) = fold (reorg_block remove_mapping) tab (h, []) in (h, d @ [(k, tab)])) d (h, [])"

definition reorganize_gpu_blocks :: "int \<Rightarrow> kv_per_layer_weight \<Rightarrow> block_manager
    \<Rightarrow> ((int, int) dict \<times> kv_per_layer_weight \<times> block_manager) result" where
  "reorganize_gpu_blocks num_layer_to_load kv s =
     (let kv = kv\<lparr>cached_layer_num := cached_layer_num kv - num_layer_to_load,
                  load_more_layer_on_card_num := num_layer_to_load\<rparr>;
          tot_blk_num = blk_num_per_layer kv * num_layer_to_load;
          release_rng_start = actual_gpu_blk_rng_end s - tot_blk_num;
          release_rng_end = actual_gpu_blk_rng_end s;
          free = free_blocks (gpu_allocator s);
          blks_to_move_to = filter (\<lambda>(i, b). int (blk_number b) < release_rng_start) (enumerate 0 free);
          blk_to_allocate_index_in_freelist =
            map fst (filter (\<lambda>(i, b). \<not> int (blk_number b) < release_rng_start) (enumerate 0 free));
          blk_is_free = free_flags (num_total_gpu_blocks s) free
      in ebind (used_in_range blk_is_free 0 release_rng_start) (\<lambda>same_pos.
         ebind (used_in_range blk_is_free release_rng_start release_rng_end) (\<lambda>to_remove.
         ebind (py_assert (length blks_to_move_to \<ge> length to_remove)) (\<lambda>_.
           let blks_to_move_to = take (length to_remove) blks_to_move_to;
               remove_mapping = zip to_remove (map snd blks_to_move_to);
               (h, tables) = reorg_tables remove_mapping (block_tables s) (ref_count s);
               (_, h, a) = allocate_given_blk_idxs_in_free_list
                             (blk_to_allocate_index_in_freelist @ map fst blks_to_move_to) h (gpu_allocator s);
               ret = zip to_remove (map (int \<circ> blk_number \<circ> snd) blks_to_move_to)
           in Inr (dict_update ret (map (\<lambda>i. (i, i)) same_pos), kv,
                   s\<lparr>actual_gpu_blk_rng_end := release_rng_start, block_tables := tables,
                     ref_count := h, gpu_allocator := a\<rparr>)))))"

section \<open>\<open>get_dependent_blk_moving_chains\<close>\<close>

definition layer_mapping :: "int \<Rightarrow> int \<Rightarrow> int \<Rightarrow> (int, int) dict \<Rightarrow> (int, int) dict" where
  "layer_mapping layers ori cur d =
     fold (\<lambda>i m. dict_update m (map (\<lambda>(k, v). (k + ori * i, v + cur * i)) d)) [1..2 * layers - 1] d"

text \<open>
  The inner \<^verbatim>\<open>while src_gid in mapping_dict\<close>: the result grows by the keys reached. The fuel is one
  more than the number of keys: along a chain the numbers decrease strictly (\<open>chain_walk_ends\<close>).
\<close>

fun chain_walk :: "nat \<Rightarrow> (int, int) dict \<Rightarrow> int \<Rightarrow> int set \<Rightarrow> int list \<Rightarrow> (int set \<times> int list) result" where
  "chain_walk 0 m src visited cs = Inl NoReturn"
| "chain_walk (Suc fuel) m src visited cs =
     (case map_of m src of
        None \<Rightarrow> Inr (visited, cs)
      | Some dst \<Rightarrow> chain_walk fuel m dst (insert src visited) (cs @ [dst]))"

definition chain_step :: "(int, int) dict \<Rightarrow> int \<Rightarrow> int set \<times> int list \<times> int list \<Rightarrow> (int set \<times> int list \<times> int list) result" where
  "chain_step m src = (\<lambda>(visited, cs, chain_lens).
     if src \<in> visited then Inr (visited, cs, chain_lens)
     else if map_of m src = Some src then Inr (insert src visited, cs, chain_lens)
     else ebind (chain_walk (Suc (length m)) m src visited (cs @ [src])) (\<lambda>(visited, cs).
            Inr (visited, cs, chain_lens @ [int (length cs)])))"

definition get_dependent_blk_moving_chains ::
    "(int, int) dict \<Rightarrow> kv_per_layer_weight \<Rightarrow> block_manager \<Rightarrow> (int list \<times> int list) result" where
  "get_dependent_blk_moving_chains d kv s =
     (let cur = actual_gpu_blk_rng_end s;
          ori = cur + load_more_layer_on_card_num kv * blk_num_per_layer kv;
          m = layer_mapping (layer_num kv) ori cur d
      in ebind (efold (chain_step m) (rev (sort (dict_keys m))) ({}, [], [0])) (\<lambda>(_, cs, chain_lens).
           Inr (cs, chain_lens)))"

section \<open>Taking blocks out of the free list\<close>

lemma take_idxs_eq:
  "take_idxs I i xs = (map snd (filter (\<lambda>p. fst p \<in> I) (enumerate i xs)), map snd (filter (\<lambda>p. fst p \<notin> I) (enumerate i xs)))"
  by (induction xs arbitrary: i) auto

lemma map_snd_filter_enumerate:
  assumes "distinct xs" and "set ps \<subseteq> set (enumerate 0 xs)"
  shows "set (map snd (filter (\<lambda>p. fst p \<in> fst ` set ps) (enumerate 0 xs))) = snd ` set ps"
    and "distinct (map snd (filter (\<lambda>p. fst p \<notin> fst ` set ps) (enumerate 0 xs)))"
    and "set (map snd (filter (\<lambda>p. fst p \<notin> fst ` set ps) (enumerate 0 xs))) = set xs - snd ` set ps"
proof -
  have pair: "snd p = xs ! fst p" "fst p < length xs" if "p \<in> set (enumerate 0 xs)" for p
    using that by (simp_all add: in_set_enumerate_eq)
  have eq: "p \<in> set ps" if "p \<in> set (enumerate 0 xs)" "fst p \<in> fst ` set ps" for p
  proof -
    from that(2) obtain r where r: "r \<in> set ps" "fst r = fst p" by auto
    then have "r \<in> set (enumerate 0 xs)" using assms(2) by blast
    then have "r = p" using pair(1) [OF that(1)] pair(1) [of r] r(2) by (simp add: prod_eq_iff)
    with r show ?thesis by simp
  qed
  show "set (map snd (filter (\<lambda>p. fst p \<in> fst ` set ps) (enumerate 0 xs))) = snd ` set ps"
    using eq assms(2) by auto
  have "distinct (map snd (enumerate 0 xs))" using assms(1) by simp
  then show "distinct (map snd (filter (\<lambda>p. fst p \<notin> fst ` set ps) (enumerate 0 xs)))"
    by (rule distinct_map_filter)
  show "set (map snd (filter (\<lambda>p. fst p \<notin> fst ` set ps) (enumerate 0 xs))) = set xs - snd ` set ps"
  proof (rule set_eqI)
    fix b
    have "b \<in> snd ` set ps" if "(j, b) \<in> set (enumerate 0 xs)" "j \<in> fst ` set ps" for j
      using eq [OF that(1)] that(2) by force
    moreover have "j \<in> fst ` set ps" if "(j, b) \<in> set (enumerate 0 xs)" "b \<in> snd ` set ps" for j
    proof -
      from that(2) obtain r where r: "r \<in> set ps" "snd r = b" by auto
      then have "r \<in> set (enumerate 0 xs)" using assms(2) by auto
      from pair [OF this] pair [OF that(1)] r(2) assms(1) have "fst r = j"
        by (metis fst_conv nth_eq_iff_index_eq snd_conv)
      with r(1) show ?thesis by force
    qed
    moreover have "b \<in> set xs \<longleftrightarrow> (\<exists>j. (j, b) \<in> set (enumerate 0 xs))"
    proof -
      have "set xs = snd ` set (enumerate 0 xs)" by (simp flip: set_map)
      then show ?thesis by force
    qed
    moreover have "b \<in> set (map snd (filter (\<lambda>p. fst p \<notin> fst ` set ps) (enumerate 0 xs))) \<longleftrightarrow>
        (\<exists>j. (j, b) \<in> set (enumerate 0 xs) \<and> j \<notin> fst ` set ps)"
      by force
    ultimately show "b \<in> set (map snd (filter (\<lambda>p. fst p \<notin> fst ` set ps) (enumerate 0 xs))) \<longleftrightarrow> b \<in> set xs - snd ` set ps"
      by blast
  qed
qed

lemma fold_set_if_0: "fold (\<lambda>b h. if h b = 0 then h(b := 1) else h) bs h = (\<lambda>x. if x \<in> set bs \<and> h x = 0 then 1 else h x)"
  by (induction bs arbitrary: h) (auto simp: fun_eq_iff)

lemma allocate_given_ok:
  assumes "alloc_ok d a h" and "set ps \<subseteq> set (enumerate 0 (free_blocks a))" and "T \<subseteq> snd ` set ps"
  shows "\<exists>bs a'. allocate_given_blk_idxs_in_free_list (map fst ps) (\<lambda>x. if x \<in> T then 1 else h x) a =
      (bs, (\<lambda>x. if x \<in> snd ` set ps then 1 else h x), a') \<and>
    alloc_ok d a' (\<lambda>x. if x \<in> snd ` set ps then 1 else h x) \<and>
    set (free_blocks a') = set (free_blocks a) - snd ` set ps \<and> ba_num_blocks a' = ba_num_blocks a"
proof -
  let ?fl = "free_blocks a"
  let ?bs = "map snd (filter (\<lambda>p. fst p \<in> fst ` set ps) (enumerate 0 ?fl))"
  let ?left = "map snd (filter (\<lambda>p. fst p \<notin> fst ` set ps) (enumerate 0 ?fl))"
  have "distinct ?fl" using assms(1) by (simp add: alloc_ok_def)
  note sel = map_snd_filter_enumerate [OF this assms(2)]
  have "snd ` set ps \<subseteq> snd ` set (enumerate 0 ?fl)" using assms(2) by (rule image_mono)
  also have "\<dots> = set ?fl" by (simp flip: set_map)
  finally have "snd ` set ps \<subseteq> set ?fl" .
  then have sub: "\<forall>b \<in> snd ` set ps. b \<in> set ?fl" by blast
  have zero: "h b = 0" "fst b = d" "snd b < ba_num_blocks a" if "b \<in> snd ` set ps" for b
    using sub that assms(1) by (auto simp: alloc_ok_def)
  have "(\<lambda>x. if x \<in> set ?bs \<and> (if x \<in> T then 1 else h x) = 0 then 1 else (if x \<in> T then 1 else h x)) =
      (\<lambda>x. if x \<in> snd ` set ps then 1 else h x)"
    using assms(3) zero(1) unfolding sel(1) by (auto simp: fun_eq_iff)
  then have "allocate_given_blk_idxs_in_free_list (map fst ps) (\<lambda>x. if x \<in> T then 1 else h x) a =
      (?bs, (\<lambda>x. if x \<in> snd ` set ps then 1 else h x), a\<lparr>free_blocks := ?left\<rparr>)"
    by (simp add: allocate_given_blk_idxs_in_free_list_def take_idxs_eq fold_set_if_0 del: map_map)
  moreover have "alloc_ok d (a\<lparr>free_blocks := ?left\<rparr>) (\<lambda>x. if x \<in> snd ` set ps then 1 else h x)"
  proof -
    have "set ?left = {b. fst b = d \<and> snd b < ba_num_blocks a \<and> (if b \<in> snd ` set ps then 1 else h b) = 0}"
      using assms(1) unfolding sel(3) alloc_ok_def by auto
    moreover have "snd b < ba_num_blocks a" if "fst b = d" "0 < (if b \<in> snd ` set ps then 1 else h b)" for b
      using assms(1) zero(3) [of b] that by (auto simp: alloc_ok_def split: if_splits)
    ultimately show ?thesis using assms(1) sel(2) by (simp add: alloc_ok_def)
  qed
  ultimately show ?thesis using sel(3) by simp
qed

section \<open>Moving the tables\<close>

definition moved_block :: "(int, block_id) dict \<Rightarrow> block_id \<Rightarrow> block_id" where
  "moved_block rm b = (case map_of rm (int (blk_number b)) of None \<Rightarrow> b | Some t \<Rightarrow> t)"

lemma fold_reorg_block:
  "fold (reorg_block rm) tab (h, acc) =
     (fold (\<lambda>b h. if map_of rm (int (blk_number b)) = None then h else (h(moved_block rm b := h b))(b := 1)) tab h,
      acc @ map (moved_block rm) tab)"
  by (induction tab arbitrary: h acc) (auto simp: reorg_block_def moved_block_def split: option.splits)

lemma reorg_tables_eq:
  "reorg_tables rm d h =
     (fold (\<lambda>b h. if map_of rm (int (blk_number b)) = None then h else (h(moved_block rm b := h b))(b := 1))
        (concat (dict_values d)) h,
      map (\<lambda>(k, tab). (k, map (moved_block rm) tab)) d)"
proof -
  have "fold (\<lambda>(k, tab) (h, d). let (h, tab) = fold (reorg_block rm) tab (h, []) in (h, d @ [(k, tab)])) d (h, acc) =
     (fold (\<lambda>b h. if map_of rm (int (blk_number b)) = None then h else (h(moved_block rm b := h b))(b := 1))
        (concat (dict_values d)) h,
      acc @ map (\<lambda>(k, tab). (k, map (moved_block rm) tab)) d)" for acc
    by (induction d arbitrary: h acc) (auto simp: fold_reorg_block Let_def)
  then show ?thesis by (simp add: reorg_tables_def)
qed

text \<open>The counts, when each moved block has one reference and no target is moved itself.\<close>

lemma fold_move_counts:
  assumes "\<And>b. b \<in> set bs \<Longrightarrow> map_of rm (int (blk_number b)) \<noteq> None \<Longrightarrow> h b = 1"
    and "\<And>b t. b \<in> set bs \<Longrightarrow> map_of rm (int (blk_number b)) = Some t \<Longrightarrow> map_of rm (int (blk_number t)) = None"
  shows "fold (\<lambda>b h. if map_of rm (int (blk_number b)) = None then h else (h(moved_block rm b := h b))(b := 1)) bs h =
    (\<lambda>x. if x \<in> moved_block rm ` {b \<in> set bs. map_of rm (int (blk_number b)) \<noteq> None} then 1 else h x)"
  using assms
proof (induction bs arbitrary: h)
  case Nil
  then show ?case by simp
next
  case (Cons b bs)
  let ?m = "\<lambda>b. map_of rm (int (blk_number b))"
  show ?case
  proof (cases "?m b")
    case None
    then have "{c \<in> set (b # bs). ?m c \<noteq> None} = {c \<in> set bs. ?m c \<noteq> None}" by auto
    moreover have "fold (\<lambda>b h. if ?m b = None then h else (h(moved_block rm b := h b))(b := 1)) bs h =
        (\<lambda>x. if x \<in> moved_block rm ` {b \<in> set bs. ?m b \<noteq> None} then 1 else h x)"
    proof (rule Cons.IH)
      show "h c = 1" if "c \<in> set bs" "?m c \<noteq> None" for c
        using Cons.prems(1) [of c] that by simp
      show "?m u = None" if "c \<in> set bs" "?m c = Some u" for c u
        using Cons.prems(2) [of c u] that by simp
    qed
    ultimately show ?thesis using None by simp
  next
    case (Some t)
    have t: "?m t = None" "moved_block rm b = t" using Cons.prems(2) [of b t] Some by (auto simp: moved_block_def)
    have hb: "h b = 1" using Cons.prems(1) [of b] Some by simp
    let ?h = "(h(t := 1))(b := 1)"
    have "fold (\<lambda>b h. if ?m b = None then h else (h(moved_block rm b := h b))(b := 1)) bs ?h =
        (\<lambda>x. if x \<in> moved_block rm ` {b \<in> set bs. ?m b \<noteq> None} then 1 else ?h x)"
    proof (rule Cons.IH)
      show "?h c = 1" if "c \<in> set bs" "?m c \<noteq> None" for c
        using Cons.prems(1) [of c] that by simp
      show "?m u = None" if "c \<in> set bs" "?m c = Some u" for c u
        using Cons.prems(2) [of c u] that by simp
    qed
    moreover have "{c \<in> set (b # bs). ?m c \<noteq> None} = insert b {c \<in> set bs. ?m c \<noteq> None}" using Some by auto
    ultimately show ?thesis using Some t hb by (auto simp: fun_eq_iff)
  qed
qed

section \<open>Block numbers in use\<close>

lemma used_in_range_eq:
  assumes "0 \<le> lo" and "hi \<le> int (length flags)"
  shows "used_in_range flags lo hi = Inr (filter (\<lambda>i. \<not> flags ! nat i) [lo..hi - 1])"
proof -
  have "efold (\<lambda>i acc. ebind (py_index flags i) (\<lambda>b. Inr (if b then acc else acc @ [i]))) is acc =
      Inr (acc @ filter (\<lambda>i. \<not> flags ! nat i) is)" if "\<forall>i \<in> set is. 0 \<le> i \<and> i < int (length flags)" for "is" acc
    using that by (induction "is" arbitrary: acc) (auto simp: py_index_def Let_def)
  from this [of "[lo..hi - 1]" "[]"] assms show ?thesis by (simp add: used_in_range_def)
qed

lemma free_flags_nth: "i < n \<Longrightarrow> free_flags n fl ! i \<longleftrightarrow> i \<in> blk_number ` set fl"
  by (simp add: free_flags_def)

section \<open>\<open>reorganize_gpu_blocks\<close> empties the released range\<close>

text \<open>
  \<open>reorg_ready E lo hi s\<close>: what it relies on. The blocks from \<open>hi\<close> on were released before (they are
  held by \<open>E\<close>), no prefix and no outside reference is in the range \<open>lo ..< hi\<close>, a table block with a
  number in the range is a GPU block with one reference, and there are enough free blocks below.
\<close>

definition in_range :: "int \<Rightarrow> int \<Rightarrow> block_id \<Rightarrow> bool" where
  "in_range lo hi b \<longleftrightarrow> lo \<le> int (blk_number b) \<and> int (blk_number b) < hi"

definition gpu_range :: "int \<Rightarrow> int \<Rightarrow> block_table" where
  "gpu_range lo hi = map (\<lambda>i. (GPU, nat i)) [lo..hi - 1]"

definition reorg_ready :: "block_id multiset \<Rightarrow> int \<Rightarrow> int \<Rightarrow> block_manager \<Rightarrow> bool" where
  "reorg_ready E lo hi s \<longleftrightarrow> 0 \<le> lo \<and> lo \<le> hi \<and> hi \<le> int (num_total_gpu_blocks s) \<and>
     num_total_gpu_blocks s = ba_num_blocks (gpu_allocator s) \<and>
     (\<forall>b \<in> set (free_blocks (gpu_allocator s)). int (blk_number b) < hi) \<and>
     (\<forall>b \<in># E + prefix_refs (prefix_heap s). \<not> in_range lo hi b) \<and>
     (\<forall>b \<in># table_refs (block_tables s). in_range lo hi b \<longrightarrow>
        blk_device b = GPU \<and> count (table_refs (block_tables s)) b = 1) \<and>
     length (filter (\<lambda>b. b \<notin> set (free_blocks (gpu_allocator s))) (gpu_range lo hi))
       \<le> length (filter (\<lambda>b. int (blk_number b) < lo) (free_blocks (gpu_allocator s)))"

lemma set_gpu_range: "0 \<le> lo \<Longrightarrow> set (gpu_range lo hi) = {b. blk_device b = GPU \<and> in_range lo hi b}"
proof -
  assume lo: "0 \<le> lo"
  have "(GPU, n) \<in> (\<lambda>i. (GPU, nat i)) ` {lo..hi - 1}" if "lo \<le> int n" "int n < hi" for n
    using that by (intro image_eqI [of _ _ "int n"]) auto
  then show ?thesis using lo by (force simp: gpu_range_def in_range_def)
qed

lemma distinct_gpu_range: "0 \<le> lo \<Longrightarrow> distinct (gpu_range lo hi)"
  by (auto simp: gpu_range_def distinct_map inj_on_def)

lemma table_refs_concat: "table_refs d = mset (concat (dict_values d))"
  by (simp add: table_refs_def mset_concat)

lemma filter_map_gpu_range:
  "0 \<le> lo \<Longrightarrow> filter P (gpu_range lo hi) = map (\<lambda>i. (GPU, nat i)) (filter (\<lambda>i. P (GPU, nat i)) [lo..hi - 1])"
  by (simp add: gpu_range_def filter_map o_def)

text \<open>The run of the code, with the used blocks of the range and their targets named.\<close>

definition reorg_targets :: "int \<Rightarrow> int \<Rightarrow> block_manager \<Rightarrow> block_table" where
  "reorg_targets lo hi s =
     take (length (filter (\<lambda>b. b \<notin> set (free_blocks (gpu_allocator s))) (gpu_range lo hi)))
       (filter (\<lambda>b. int (blk_number b) < lo) (free_blocks (gpu_allocator s)))"

definition reorg_sources :: "int \<Rightarrow> int \<Rightarrow> block_manager \<Rightarrow> block_table" where
  "reorg_sources lo hi s = filter (\<lambda>b. b \<notin> set (free_blocks (gpu_allocator s))) (gpu_range lo hi)"

definition reorg_mapping :: "int \<Rightarrow> int \<Rightarrow> block_manager \<Rightarrow> (int, block_id) dict" where
  "reorg_mapping lo hi s = zip (map (int \<circ> blk_number) (reorg_sources lo hi s)) (reorg_targets lo hi s)"

lemma reorg_lengths:
  "reorg_ready E lo hi s \<Longrightarrow> length (reorg_targets lo hi s) = length (reorg_sources lo hi s)"
  by (simp add: reorg_ready_def reorg_targets_def reorg_sources_def)

lemma free_gpu: "alloc_ok GPU a h \<Longrightarrow> b \<in> set (free_blocks a) \<Longrightarrow> blk_device b = GPU \<and> h b = 0"
  by (auto simp: alloc_ok_def)

lemma reorg_used:
  assumes "alloc_ok GPU (gpu_allocator s) h" and "0 \<le> lo" and "hi \<le> int (num_total_gpu_blocks s)"
  shows "used_in_range (free_flags (num_total_gpu_blocks s) (free_blocks (gpu_allocator s))) lo hi =
    Inr (map (int \<circ> blk_number) (filter (\<lambda>b. b \<notin> set (free_blocks (gpu_allocator s))) (gpu_range lo hi)))"
proof -
  let ?fl = "free_blocks (gpu_allocator s)" and ?n = "num_total_gpu_blocks s"
  have mem: "nat i \<in> blk_number ` set ?fl \<longleftrightarrow> (GPU, nat i) \<in> set ?fl" for i
    using free_gpu [OF assms(1)] by (force simp: image_iff)
  have "filter (\<lambda>i. \<not> free_flags ?n ?fl ! nat i) [lo..hi - 1] = filter (\<lambda>i. (GPU, nat i) \<notin> set ?fl) [lo..hi - 1]"
    by (rule filter_cong) (use assms(2,3) mem in \<open>auto simp: free_flags_nth\<close>)
  also have "\<dots> = map (int \<circ> blk_number) (filter (\<lambda>b. b \<notin> set ?fl) (gpu_range lo hi))"
    unfolding filter_map_gpu_range [OF assms(2)] map_map
    by (rule map_idI [symmetric]) (use assms(2) in auto)
  finally show ?thesis
    using used_in_range_eq [of lo hi "free_flags ?n ?fl"] assms(2,3) by (simp add: free_flags_def)
qed

lemma map_snd_filter_enum: "map snd (filter (\<lambda>(i, b). P b) (enumerate i xs)) = filter P xs"
  by (induction xs arbitrary: i) auto

lemma length_filter_enum: "length (filter (\<lambda>(i, b). P b) (enumerate i xs)) = length (filter P xs)"
  using map_snd_filter_enum [of P i xs] by (metis length_map)

lemma reorg_source_facts:
  assumes "bm_inv E s" and "reorg_ready E lo hi s" and "b \<in> set (reorg_sources lo hi s)"
  shows "blk_device b = GPU" "in_range lo hi b" "ref_count s b = 1"
    "count (table_refs (block_tables s)) b = 1"
proof -
  have lo: "0 \<le> lo" and hi: "hi \<le> int (ba_num_blocks (gpu_allocator s))"
    using assms(2) by (auto simp: reorg_ready_def)
  show b: "blk_device b = GPU" "in_range lo hi b"
    using assms(3) set_gpu_range [OF lo, of hi] by (auto simp: reorg_sources_def)
  have "b \<notin> set (free_blocks (gpu_allocator s))" using assms(3) by (simp add: reorg_sources_def)
  then have "ref_count s b \<noteq> 0"
    using assms(1) b hi by (auto simp: bm_inv_def refs_ok_def alloc_ok_def in_range_def)
  then have pos: "0 < count (E + held s) b"
    using assms(1) by (simp add: bm_inv_def refs_ok_def del: count_union)
  then have "b \<in># E + held s" by (simp only: count_greater_zero_iff)
  moreover have out: "b \<notin># E + prefix_refs (prefix_heap s)" using assms(2) b(2) by (auto simp: reorg_ready_def)
  ultimately have "b \<in># table_refs (block_tables s)" by (auto simp: held_def)
  then show c: "count (table_refs (block_tables s)) b = 1" using assms(2) b(2) by (auto simp: reorg_ready_def)
  have "count (E + prefix_refs (prefix_heap s)) b = 0" using out by (simp only: not_in_iff)
  then show "ref_count s b = 1"
    using assms(1) c by (simp add: bm_inv_def refs_ok_def held_def)
qed

lemma reorg_target_facts:
  assumes "bm_inv E s"
  shows "distinct (reorg_targets lo hi s)"
    and "t \<in> set (reorg_targets lo hi s) \<Longrightarrow>
      blk_device t = GPU \<and> int (blk_number t) < lo \<and> t \<in> set (free_blocks (gpu_allocator s))"
  using assms by (auto simp: bm_inv_def refs_ok_def alloc_ok_def reorg_targets_def dest!: in_set_takeD)

lemma distinct_source_numbers:
  assumes "0 \<le> lo" shows "distinct (map (int \<circ> blk_number) (reorg_sources lo hi s))"
proof -
  have "inj_on (int \<circ> blk_number) (set (gpu_range lo hi))"
    using set_gpu_range [OF assms] by (auto simp: inj_on_def)
  then show ?thesis
    using distinct_gpu_range [OF assms] by (simp add: reorg_sources_def distinct_map inj_on_def)
qed

lemma reorg_mapping_facts:
  assumes "bm_inv E s" and "reorg_ready E lo hi s"
  shows "map (moved_block (reorg_mapping lo hi s)) (reorg_sources lo hi s) = reorg_targets lo hi s"
    and "map_of (reorg_mapping lo hi s) (int (blk_number b)) = None \<longleftrightarrow>
           blk_number b \<notin> blk_number ` set (reorg_sources lo hi s)"
    and "b \<in># table_refs (block_tables s) \<Longrightarrow>
           blk_number b \<in> blk_number ` set (reorg_sources lo hi s) \<longleftrightarrow> b \<in> set (reorg_sources lo hi s)"
    and "map_of (reorg_mapping lo hi s) (int (blk_number b)) = Some t \<Longrightarrow> t \<in> set (reorg_targets lo hi s)"
proof -
  let ?S = "reorg_sources lo hi s" and ?T = "reorg_targets lo hi s" and ?rm = "reorg_mapping lo hi s"
  have lo: "0 \<le> lo" using assms(2) by (simp add: reorg_ready_def)
  have len: "length ?T = length ?S" using reorg_lengths [OF assms(2)] .
  note dist = distinct_source_numbers [OF lo, of hi s]
  have nth: "map_of ?rm (int (blk_number (?S ! i))) = Some (?T ! i)" if "i < length ?S" for i
    using map_of_zip_nth [of "map (int \<circ> blk_number) ?S" ?T i] dist len that by (simp add: reorg_mapping_def)
  show "map (moved_block ?rm) ?S = ?T"
    by (rule nth_equalityI) (simp_all add: len moved_block_def nth)
  have "map_of ?rm x = None \<longleftrightarrow> x \<notin> set (map (int \<circ> blk_number) ?S)" for x
    using map_of_zip_is_None [of "map (int \<circ> blk_number) ?S" ?T] len by (simp add: reorg_mapping_def)
  then show "map_of ?rm (int (blk_number b)) = None \<longleftrightarrow> blk_number b \<notin> blk_number ` set ?S"
    by (simp add: image_iff)
  show "t \<in> set ?T" if "map_of ?rm (int (blk_number b)) = Some t"
    using map_of_SomeD [OF that] by (auto simp: reorg_mapping_def dest: set_zip_rightD)
  show "blk_number b \<in> blk_number ` set ?S \<longleftrightarrow> b \<in> set ?S" if "b \<in># table_refs (block_tables s)"
  proof
    assume "blk_number b \<in> blk_number ` set ?S"
    then obtain c where c: "c \<in> set ?S" "blk_number c = blk_number b" by auto
    then have "in_range lo hi b" using reorg_source_facts(2) [OF assms c(1)] by (simp add: in_range_def)
    then have "blk_device b = GPU" using assms(2) that by (auto simp: reorg_ready_def)
    then have "b = c" using c reorg_source_facts(1) [OF assms c(1)] by (simp add: prod_eq_iff)
    with c show "b \<in> set ?S" by simp
  qed simp
qed

text \<open>The references afterwards: the released range is held by the caller, the targets replace the sources.\<close>

lemma reorg_image:
  assumes "bm_inv E s" and "reorg_ready E lo hi s"
  shows "image_mset (moved_block (reorg_mapping lo hi s)) (table_refs (block_tables s)) + mset (reorg_sources lo hi s)
    = table_refs (block_tables s) + mset (reorg_targets lo hi s)"
proof -
  let ?S = "reorg_sources lo hi s" and ?mv = "moved_block (reorg_mapping lo hi s)" and ?A = "table_refs (block_tables s)"
  have lo: "0 \<le> lo" using assms(2) by (simp add: reorg_ready_def)
  have "distinct ?S" using distinct_gpu_range [OF lo] by (simp add: reorg_sources_def)
  then have "filter_mset (\<lambda>b. b \<in> set ?S) ?A = mset ?S"
    using reorg_source_facts(4) [OF assms] by (auto simp: multiset_eq_iff distinct_count_atmost_1 count_mset_0_iff)
  moreover have "?A = filter_mset (\<lambda>b. b \<notin> set ?S) ?A + filter_mset (\<lambda>b. b \<in> set ?S) ?A"
    using multiset_partition [of ?A "\<lambda>b. b \<notin> set ?S"] by simp
  ultimately have A: "?A = filter_mset (\<lambda>b. b \<notin> set ?S) ?A + mset ?S" by simp
  have "image_mset ?mv (filter_mset (\<lambda>b. b \<notin> set ?S) ?A) = filter_mset (\<lambda>b. b \<notin> set ?S) ?A"
  proof -
    have "?mv b = b" if "b \<in># filter_mset (\<lambda>b. b \<notin> set ?S) ?A" for b
      using that reorg_mapping_facts(2,3) [OF assms, of b] by (auto simp: moved_block_def)
    then have "image_mset ?mv (filter_mset (\<lambda>b. b \<notin> set ?S) ?A) = image_mset (\<lambda>b. b) (filter_mset (\<lambda>b. b \<notin> set ?S) ?A)"
      by (rule image_mset_cong)
    then show ?thesis by simp
  qed
  moreover have "image_mset ?mv (mset ?S) = mset (reorg_targets lo hi s)"
    using reorg_mapping_facts(1) [OF assms] by (metis mset_map)
  ultimately have "image_mset ?mv (filter_mset (\<lambda>b. b \<notin> set ?S) ?A + mset ?S) =
      filter_mset (\<lambda>b. b \<notin> set ?S) ?A + mset (reorg_targets lo hi s)"
    by simp
  then have "image_mset ?mv ?A = filter_mset (\<lambda>b. b \<notin> set ?S) ?A + mset (reorg_targets lo hi s)"
    by (simp only: A [symmetric])
  then show ?thesis by (subst (2) A) (simp add: ac_simps)
qed

lemma reorg_run:
  assumes "alloc_ok GPU (gpu_allocator s) h0" and "reorg_ready E lo hi s"
    and "hi = actual_gpu_blk_rng_end s" and "lo = hi - blk_num_per_layer kv * n"
  shows "\<exists>ps same. reorganize_gpu_blocks n kv s =
     (let (h, tables) = reorg_tables (reorg_mapping lo hi s) (block_tables s) (ref_count s);
          (_, h, a) = allocate_given_blk_idxs_in_free_list (map fst ps) h (gpu_allocator s)
      in Inr (dict_update (zip (map (int \<circ> blk_number) (reorg_sources lo hi s)) (map (int \<circ> blk_number) (reorg_targets lo hi s))) same,
              kv\<lparr>cached_layer_num := cached_layer_num kv - n, load_more_layer_on_card_num := n\<rparr>,
              s\<lparr>actual_gpu_blk_rng_end := lo, block_tables := tables, ref_count := h, gpu_allocator := a\<rparr>)) \<and>
    set ps \<subseteq> set (enumerate 0 (free_blocks (gpu_allocator s))) \<and>
    snd ` set ps = {b \<in> set (free_blocks (gpu_allocator s)). in_range lo hi b} \<union> set (reorg_targets lo hi s) \<and>
    same = map ((\<lambda>i. (i, i)) \<circ> int \<circ> blk_number) (filter (\<lambda>b. b \<notin> set (free_blocks (gpu_allocator s))) (gpu_range 0 lo))"
proof -
  let ?fl = "free_blocks (gpu_allocator s)"
  let ?P = "\<lambda>b. int (blk_number b) < lo"
  let ?mv = "filter (\<lambda>(i, b). ?P b) (enumerate 0 ?fl)" and ?al = "filter (\<lambda>(i, b). \<not> ?P b) (enumerate 0 ?fl)"
  let ?n = "length (reorg_sources lo hi s)"
  let ?ps = "?al @ take ?n ?mv"
  have b: "0 \<le> lo" "lo \<le> int (num_total_gpu_blocks s)" "hi \<le> int (num_total_gpu_blocks s)"
    using assms(2) by (auto simp: reorg_ready_def)
  have used: "used_in_range (free_flags (num_total_gpu_blocks s) ?fl) lo hi = Inr (map (int \<circ> blk_number) (reorg_sources lo hi s))"
    "used_in_range (free_flags (num_total_gpu_blocks s) ?fl) 0 lo =
       Inr (map (int \<circ> blk_number) (filter (\<lambda>b. b \<notin> set ?fl) (gpu_range 0 lo)))"
    using reorg_used [OF assms(1) b(1,3)] reorg_used [OF assms(1) order_refl b(2)] by (simp_all add: reorg_sources_def)
  have enough: "?n \<le> length ?mv"
    using assms(2) by (simp add: reorg_ready_def reorg_sources_def length_filter_enum)
  have T: "map snd (take ?n ?mv) = reorg_targets lo hi s"
    by (simp add: take_map [symmetric] map_snd_filter_enum reorg_targets_def reorg_sources_def)
  have T': "map (int \<circ> blk_number \<circ> snd) (take ?n ?mv) = map (int \<circ> blk_number) (reorg_targets lo hi s)"
    unfolding T [symmetric] by simp
  have lo_eq: "actual_gpu_blk_rng_end s - blk_num_per_layer kv * n = lo" using assms(3,4) by simp
  have "reorganize_gpu_blocks n kv s =
     (let (h, tables) = reorg_tables (reorg_mapping lo hi s) (block_tables s) (ref_count s);
          (_, h, a) = allocate_given_blk_idxs_in_free_list (map fst ?ps) h (gpu_allocator s)
      in Inr (dict_update (zip (map (int \<circ> blk_number) (reorg_sources lo hi s)) (map (int \<circ> blk_number) (reorg_targets lo hi s)))
                (map ((\<lambda>i. (i, i)) \<circ> int \<circ> blk_number) (filter (\<lambda>b. b \<notin> set ?fl) (gpu_range 0 lo))),
              kv\<lparr>cached_layer_num := cached_layer_num kv - n, load_more_layer_on_card_num := n\<rparr>,
              s\<lparr>actual_gpu_blk_rng_end := lo, block_tables := tables, ref_count := h, gpu_allocator := a\<rparr>))"
    using used enough lo_eq
    by (simp add: reorganize_gpu_blocks_def Let_def T T' reorg_mapping_def assms(3) [symmetric] o_assoc)
  moreover have "set ?ps \<subseteq> set (enumerate 0 ?fl)" by (auto dest: in_set_takeD)
  moreover have "snd ` set ?ps = {b \<in> set ?fl. in_range lo hi b} \<union> set (reorg_targets lo hi s)"
  proof -
    have "snd ` set ?al = set (map snd ?al)" by simp
    also have "\<dots> = set (filter (\<lambda>b. \<not> ?P b) ?fl)" by (simp only: map_snd_filter_enum)
    also have "\<dots> = {b \<in> set ?fl. in_range lo hi b}"
      using assms(2) by (auto simp: reorg_ready_def in_range_def)
    moreover have "snd ` set (take ?n ?mv) = set (reorg_targets lo hi s)"
      by (simp only: T [symmetric] set_map)
    ultimately show ?thesis by (simp add: image_Un)
  qed
  ultimately show ?thesis by blast
qed

lemma map_of_dict_update_same:
  "map_of (dict_update d (map (\<lambda>i. (i, i)) is)) k = (if k \<in> set is then Some k else map_of d k)"
proof -
  have "map_of (fold (\<lambda>(k, v). dict_set k v) (map (\<lambda>i. (i, i)) is) d) k = (if k \<in> set is then Some k else map_of d k)"
    by (induction "is" arbitrary: d) (auto simp: update_conv')
  then show ?thesis by (simp add: dict_update_def)
qed

lemma reorg_final_refs:
  assumes "bm_inv E s" and "reorg_ready E lo hi s"
  defines "taken \<equiv> {b \<in> set (free_blocks (gpu_allocator s)). in_range lo hi b} \<union> set (reorg_targets lo hi s)"
  shows "count (E + mset (gpu_range lo hi) +
      (image_mset (moved_block (reorg_mapping lo hi s)) (table_refs (block_tables s)) + prefix_refs (prefix_heap s)))
    = (\<lambda>x. if x \<in> taken then 1 else ref_count s x)"
proof -
  let ?fl = "free_blocks (gpu_allocator s)" and ?R = "gpu_range lo hi"
  let ?fr = "filter (\<lambda>b. b \<in> set ?fl) ?R" and ?S = "reorg_sources lo hi s" and ?T = "reorg_targets lo hi s"
  let ?im = "image_mset (moved_block (reorg_mapping lo hi s)) (table_refs (block_tables s))"
  have lo: "0 \<le> lo" using assms(2) by (simp add: reorg_ready_def)
  have R: "mset ?R = mset ?fr + mset ?S"
    using multiset_partition [of "mset ?R" "\<lambda>b. b \<in> set ?fl"] by (simp add: reorg_sources_def)
  have "E + mset ?R + (?im + prefix_refs (prefix_heap s)) = E + mset ?fr + (?im + mset ?S) + prefix_refs (prefix_heap s)"
    unfolding R by (simp add: ac_simps)
  also have "\<dots> = E + held s + mset (?fr @ ?T)"
    unfolding reorg_image [OF assms(1,2)] by (simp add: held_def ac_simps)
  finally have eq: "E + mset ?R + (?im + prefix_refs (prefix_heap s)) = E + held s + mset (?fr @ ?T)" .
  have dist: "distinct (?fr @ ?T)"
  proof -
    have "x \<notin> set ?T" if "x \<in> set ?fr" for x
      using that reorg_target_facts(2) [OF assms(1), of x lo hi] set_gpu_range [OF lo, of hi]
      by (auto simp: in_range_def)
    then show ?thesis using distinct_gpu_range [OF lo] reorg_target_facts(1) [OF assms(1)] by auto
  qed
  have set_taken: "set (?fr @ ?T) = taken"
    using free_gpu [of "gpu_allocator s"] assms(1) set_gpu_range [OF lo, of hi]
    by (auto simp: taken_def bm_inv_def refs_ok_def)
  have zero: "ref_count s x = 0" if "x \<in> taken" for x
  proof -
    have "alloc_ok GPU (gpu_allocator s) (ref_count s)" using assms(1) unfolding bm_inv_def refs_ok_def by blast
    moreover have "x \<in> set ?fl" using that reorg_target_facts(2) [OF assms(1), of x lo hi] by (auto simp: taken_def)
    ultimately show ?thesis using free_gpu by blast
  qed
  have "count (mset (?fr @ ?T)) x = (if x \<in> taken then 1 else 0)" for x
    using dist unfolding distinct_count_atmost_1 set_taken by blast
  moreover have "count (E + held s) x = ref_count s x" for x
    using assms(1) by (simp only: bm_inv_def refs_ok_def)
  ultimately show ?thesis
    unfolding eq using zero by (auto simp only: count_union fun_eq_iff split: if_splits)
qed

text \<open>The mapping that is returned: blocks above \<open>cur\<close> go to blocks below it that nothing leaves, the others stay.\<close>

definition moves_down :: "int \<Rightarrow> int \<Rightarrow> (int, int) dict \<Rightarrow> bool" where
  "moves_down cur ori d \<longleftrightarrow> dict_ok d \<and> 0 \<le> cur \<and> cur \<le> ori \<and>
     (\<forall>k v. map_of d k = Some v \<longrightarrow> 0 \<le> k \<and> k < ori \<and> 0 \<le> v \<and> v < cur \<and>
        (v \<noteq> k \<longrightarrow> cur \<le> k \<and> map_of d v = None)) \<and>
     (\<forall>k k' v. map_of d k = Some v \<and> map_of d k' = Some v \<longrightarrow> k = k')"

lemma map_of_zip_inj:
  assumes "length xs = length ys" and "distinct ys" and "map_of (zip xs ys) a = Some v" and "map_of (zip xs ys) b = Some v"
  shows "a = b"
proof -
  obtain i j where "i < length xs" "xs ! i = a" "ys ! i = v" "j < length xs" "xs ! j = b" "ys ! j = v"
    using map_of_SomeD [OF assms(3)] map_of_SomeD [OF assms(4)] by (auto simp: in_set_zip)
  then show ?thesis using assms(1,2) nth_eq_iff_index_eq by fastforce
qed

lemma dict_ok_dict_update: "dict_ok (dict_update d e) \<longleftrightarrow> dict_ok d"
proof -
  have "dict_ok (fold (\<lambda>(k, v). dict_set k v) e d) \<longleftrightarrow> dict_ok d"
    by (induction e arbitrary: d) (simp_all add: split_beta)
  then show ?thesis by (simp add: dict_update_def)
qed

lemma reorg_ret_moves_down:
  assumes "bm_inv E s" and "reorg_ready E lo hi s"
  shows "moves_down lo hi
    (dict_update (zip (map (int \<circ> blk_number) (reorg_sources lo hi s)) (map (int \<circ> blk_number) (reorg_targets lo hi s)))
      (map ((\<lambda>i. (i, i)) \<circ> int \<circ> blk_number) (filter (\<lambda>b. b \<notin> set (free_blocks (gpu_allocator s))) (gpu_range 0 lo))))"
    (is "moves_down lo hi (dict_update (zip ?S ?T) ?same)")
proof -
  let ?fl = "free_blocks (gpu_allocator s)"
  let ?K = "map (int \<circ> blk_number) (filter (\<lambda>b. b \<notin> set ?fl) (gpu_range 0 lo))"
  have lo: "0 \<le> lo" "lo \<le> hi" using assms(2) by (auto simp: reorg_ready_def)
  have len: "length ?S = length ?T" using reorg_lengths [OF assms(2)] by simp
  have S: "lo \<le> k \<and> k < hi" if "k \<in> set ?S" for k
    using that reorg_source_facts(2) [OF assms] by (force simp: in_range_def)
  have T: "0 \<le> v \<and> v < lo \<and> v \<notin> set ?K" if "v \<in> set ?T" for v
  proof -
    from that obtain t where t: "t \<in> set (reorg_targets lo hi s)" "v = int (blk_number t)" by auto
    note f = reorg_target_facts(2) [OF assms(1) t(1)]
    have "v \<notin> set ?K"
    proof
      assume "v \<in> set ?K"
      then obtain b where b: "b \<in> set (gpu_range 0 lo)" "b \<notin> set ?fl" "blk_number b = blk_number t"
        using t(2) by auto
      then have "b = t" using set_gpu_range [of 0 lo] f by (auto simp: prod_eq_iff)
      with b(2) f show False by simp
    qed
    then show ?thesis using f t(2) by simp
  qed
  have K: "0 \<le> k \<and> k < lo" if "k \<in> set ?K" for k
    using that set_gpu_range [of 0 lo] by (force simp: in_range_def)
  have same: "?same = map (\<lambda>i. (i, i)) ?K" by simp
  have ret: "map_of (dict_update (zip ?S ?T) ?same) k = (if k \<in> set ?K then Some k else map_of (zip ?S ?T) k)" for k
    unfolding same by (rule map_of_dict_update_same)
  have zip: "k \<in> set ?S \<and> v \<in> set ?T" if "map_of (zip ?S ?T) k = Some v" for k v
    using map_of_SomeD [OF that] by (auto dest: set_zip_leftD set_zip_rightD simp del: set_map)
  have none: "map_of (zip ?S ?T) k = None" if "k < lo" for k
    using zip [of k] S [of k] that by fastforce
  have "dict_ok (zip ?S ?T)" using distinct_source_numbers [OF lo(1), of hi s] len by (simp only: map_fst_zip)
  moreover have "0 \<le> k \<and> k < hi \<and> 0 \<le> v \<and> v < lo \<and>
      (v \<noteq> k \<longrightarrow> lo \<le> k \<and> map_of (dict_update (zip ?S ?T) ?same) v = None)"
    if "map_of (dict_update (zip ?S ?T) ?same) k = Some v" for k v
  proof (cases "k \<in> set ?K")
    case True
    then show ?thesis using that K [OF True] lo unfolding ret by simp
  next
    case False
    then have "k \<in> set ?S \<and> v \<in> set ?T" using that zip unfolding ret by simp
    then show ?thesis using S [of k] T [of v] lo none [of v] unfolding ret by simp
  qed
  moreover have "k = k'" if "map_of (dict_update (zip ?S ?T) ?same) k = Some v" "map_of (dict_update (zip ?S ?T) ?same) k' = Some v" for k k' v
  proof -
    have zT: "v \<in> set ?T \<and> v \<notin> set ?K" if "k \<notin> set ?K" "map_of (dict_update (zip ?S ?T) ?same) k = Some v" for k
      using that zip [of k v] T [of v] unfolding ret by simp
    have inK: "v \<in> set ?K \<and> v = k" if "k \<in> set ?K" "map_of (dict_update (zip ?S ?T) ?same) k = Some v" for k
      using that unfolding ret by simp
    show ?thesis
    proof (cases "k \<in> set ?K \<or> k' \<in> set ?K")
      case True
      then have "k \<in> set ?K \<and> k' \<in> set ?K" using that zT [of k] zT [of k'] inK [of k] inK [of k'] by blast
      then show ?thesis using that inK [of k] inK [of k'] by simp
    next
      case False
      have "inj_on (int \<circ> blk_number) (set (reorg_targets lo hi s))"
        using reorg_target_facts(2) [OF assms(1), of _ lo hi] by (auto simp: inj_on_def prod_eq_iff)
      then have "distinct ?T" using reorg_target_facts(1) [OF assms(1)] by (simp only: distinct_map)
      then show ?thesis using map_of_zip_inj [OF len] that False unfolding ret by simp
    qed
  qed
  ultimately show ?thesis using lo unfolding moves_down_def dict_ok_dict_update by blast
qed

lemma refs_ok_update:
  "alloc_ok GPU a h \<Longrightarrow> alloc_ok CPU (cpu_allocator s) h \<Longrightarrow> count N = h \<Longrightarrow>
     refs_ok N (s\<lparr>actual_gpu_blk_rng_end := lo, block_tables := d, ref_count := h, gpu_allocator := a\<rparr>)"
  by (simp add: refs_ok_def)

text \<open>
  The top range \<open>lo ..< hi\<close> is empty afterwards: no table and no free block has a number in it, all
  its blocks are held by the caller (for the weights), and the tables are renamed injectively. The
  returned mapping has the new number of every GPU block of a table, moved or not.
\<close>

theorem reorganize_ok:
  assumes "bm_inv E s" and "reorg_ready E lo hi s"
    and "hi = actual_gpu_blk_rng_end s" and "lo = hi - blk_num_per_layer kv * n"
  shows "\<exists>ret u mv. reorganize_gpu_blocks n kv s =
      Inr (ret, kv\<lparr>cached_layer_num := cached_layer_num kv - n, load_more_layer_on_card_num := n\<rparr>, u) \<and>
    bm_inv (E + mset (gpu_range lo hi)) u \<and> actual_gpu_blk_rng_end u = lo \<and>
    block_tables u = map (\<lambda>(k, t). (k, map mv t)) (block_tables s) \<and>
    (\<forall>b \<in># table_refs (block_tables s). mv b \<noteq> b \<longleftrightarrow> in_range lo hi b) \<and>
    (\<forall>b \<in># table_refs (block_tables u). \<not> in_range lo hi b) \<and>
    inj_on mv (set_mset (table_refs (block_tables s))) \<and>
    (\<forall>b \<in> set (free_blocks (gpu_allocator u)). int (blk_number b) < lo) \<and>
    (\<forall>b \<in># table_refs (block_tables s). blk_device b = GPU \<and> int (blk_number b) < hi \<longrightarrow>
       map_of ret (int (blk_number b)) = Some (int (blk_number (mv b)))) \<and> moves_down lo hi ret \<and>
    (\<forall>b \<in># table_refs (block_tables s). blk_device (mv b) = blk_device b) \<and>
    bm_shape u = bm_shape s \<and> prefix_heap u = prefix_heap s \<and>
    ba_num_blocks (gpu_allocator u) = ba_num_blocks (gpu_allocator s)"
proof -
  let ?rm = "reorg_mapping lo hi s" and ?S = "reorg_sources lo hi s" and ?T = "reorg_targets lo hi s"
  let ?mv = "moved_block ?rm" and ?fl = "free_blocks (gpu_allocator s)" and ?A = "table_refs (block_tables s)"
  let ?taken = "{b \<in> set ?fl. in_range lo hi b} \<union> set ?T"
  have lo: "0 \<le> lo" using assms(2) by (simp add: reorg_ready_def)
  have ok: "alloc_ok GPU (gpu_allocator s) (ref_count s)" "alloc_ok CPU (cpu_allocator s) (ref_count s)"
    using assms(1) by (auto simp: bm_inv_def refs_ok_def)
  note S = reorg_source_facts [OF assms(1,2)] and T = reorg_target_facts(2) [OF assms(1), of _ lo hi]
    and rm = reorg_mapping_facts [OF assms(1,2)]
  have gpu_T: "blk_device t = GPU \<and> int (blk_number t) < lo \<and> ref_count s t = 0" if "t \<in> set ?T" for t
    using T [OF that] free_gpu [OF ok(1)] by auto
  have src_in: "b \<in># ?A" if "b \<in> set ?S" for b
    using S(4) [OF that] by (simp flip: count_greater_zero_iff)
  have mapped: "map_of ?rm (int (blk_number b)) \<noteq> None \<longleftrightarrow> b \<in> set ?S" if "b \<in># ?A" for b
    using rm(2) [of b] rm(3) [OF that] by simp
  have A: "set (concat (dict_values (block_tables s))) = set_mset ?A" by (simp add: table_refs_concat)
  have "{b \<in> set (concat (dict_values (block_tables s))). map_of ?rm (int (blk_number b)) \<noteq> None} = set ?S"
    using mapped src_in unfolding A by blast
  moreover have "?mv ` set ?S = set ?T" using rm(1) by (metis set_map)
  ultimately have counts: "fst (reorg_tables ?rm (block_tables s) (ref_count s)) = (\<lambda>x. if x \<in> set ?T then 1 else ref_count s x)"
    unfolding reorg_tables_eq fst_conv
  proof (subst fold_move_counts)
    show "ref_count s b = 1" if "b \<in> set (concat (dict_values (block_tables s)))"
      "map_of ?rm (int (blk_number b)) \<noteq> None" for b
      using that S(3) mapped unfolding A by blast
    show "map_of ?rm (int (blk_number t)) = None" if "map_of ?rm (int (blk_number b)) = Some t" for b t
    proof -
      have "int (blk_number t) < lo" using gpu_T rm(4) [OF that] by blast
      then have "blk_number t \<noteq> blk_number c" if "c \<in> set ?S" for c
        using S(2) [OF that] by (auto simp: in_range_def)
      then show ?thesis using rm(2) [of t] by auto
    qed
  qed simp
  obtain ps same where run: "reorganize_gpu_blocks n kv s =
     (let (h, tables) = reorg_tables ?rm (block_tables s) (ref_count s);
          (_, h, a) = allocate_given_blk_idxs_in_free_list (map fst ps) h (gpu_allocator s)
      in Inr (dict_update (zip (map (int \<circ> blk_number) ?S) (map (int \<circ> blk_number) ?T)) same,
              kv\<lparr>cached_layer_num := cached_layer_num kv - n, load_more_layer_on_card_num := n\<rparr>,
              s\<lparr>actual_gpu_blk_rng_end := lo, block_tables := tables, ref_count := h, gpu_allocator := a\<rparr>))"
    "set ps \<subseteq> set (enumerate 0 ?fl)" "snd ` set ps = ?taken"
    "same = map ((\<lambda>i. (i, i)) \<circ> int \<circ> blk_number) (filter (\<lambda>b. b \<notin> set ?fl) (gpu_range 0 lo))"
    using reorg_run [OF ok(1) assms(2-4)] by blast
  have sub: "set ?T \<subseteq> snd ` set ps" using run(3) by simp
  obtain bs a where a: "allocate_given_blk_idxs_in_free_list (map fst ps) (\<lambda>x. if x \<in> set ?T then 1 else ref_count s x) (gpu_allocator s) =
      (bs, (\<lambda>x. if x \<in> ?taken then 1 else ref_count s x), a)"
    "alloc_ok GPU a (\<lambda>x. if x \<in> ?taken then 1 else ref_count s x)" "set (free_blocks a) = set ?fl - ?taken"
    "ba_num_blocks a = ba_num_blocks (gpu_allocator s)"
    using allocate_given_ok [OF ok(1) run(2) sub] unfolding run(3) by blast
  define tabs where "tabs = map (\<lambda>(k, t). (k, map ?mv t)) (block_tables s)"
  define ret where "ret = dict_update (zip (map (int \<circ> blk_number) ?S) (map (int \<circ> blk_number) ?T)) same"
  let ?h = "\<lambda>x. if x \<in> ?taken then 1 else ref_count s x"
  let ?u = "s\<lparr>actual_gpu_blk_rng_end := lo, block_tables := tabs, ref_count := ?h, gpu_allocator := a\<rparr>"
  have tables: "reorg_tables ?rm (block_tables s) (ref_count s) = (\<lambda>x. if x \<in> set ?T then 1 else ref_count s x, tabs)"
    using counts by (simp add: reorg_tables_eq tabs_def)
  have result: "reorganize_gpu_blocks n kv s =
      Inr (ret, kv\<lparr>cached_layer_num := cached_layer_num kv - n, load_more_layer_on_card_num := n\<rparr>, ?u)"
    unfolding run(1) tables by (simp add: a(1) ret_def)
  have refs: "table_refs tabs = image_mset ?mv ?A"
    by (simp add: tabs_def table_refs_concat map_concat o_def case_prod_beta flip: mset_map)
  have nonfree: "b \<notin> set ?fl" if "b \<in># ?A" for b
    using bm_inv_free_unused(1) [OF assms(1), of b] that by (auto simp: held_def)
  have in_S: "b \<in> set ?S \<longleftrightarrow> in_range lo hi b" if "b \<in># ?A" for b
  proof
    assume "in_range lo hi b"
    moreover from this have "blk_device b = GPU" using assms(2) that by (auto simp: reorg_ready_def)
    ultimately show "b \<in> set ?S"
      using nonfree [OF that] set_gpu_range [OF lo, of hi] by (auto simp: reorg_sources_def)
  qed (rule S(2))
  have mv_S: "?mv b \<in> set ?T" if "b \<in> set ?S" for b using that rm(1) by (metis image_eqI set_map)
  have mv_id: "?mv b = b" if "b \<in># ?A" "b \<notin> set ?S" for b
    using mapped [OF that(1)] that(2) by (simp add: moved_block_def split: option.splits)
  have moved: "?mv b \<noteq> b \<longleftrightarrow> in_range lo hi b" if "b \<in># ?A" for b
    using in_S [OF that] mv_id [OF that] mv_S [of b] gpu_T [of "?mv b"] by (auto simp: in_range_def)
  have out: "\<not> in_range lo hi (?mv b)" if "b \<in># ?A" for b
  proof (cases "b \<in> set ?S")
    case True
    then show ?thesis using gpu_T [OF mv_S [of b]] by (simp add: in_range_def)
  next
    case False
    then show ?thesis using in_S [OF that] mv_id [OF that] by simp
  qed
  have inj: "inj_on ?mv (set_mset ?A)"
  proof (rule inj_onI)
    fix b c assume bc: "b \<in># ?A" "c \<in># ?A" "?mv b = ?mv c"
    have T_fl: "t \<in> set ?fl" if "t \<in> set ?T" for t using T [OF that] by blast
    have "distinct (map ?mv ?S)" using rm(1) reorg_target_facts(1) [OF assms(1)] by metis
    then have "inj_on ?mv (set ?S)" by (simp add: distinct_map)
    then show "b = c"
      using bc mv_id mv_S T_fl nonfree by (metis inj_onD)
  qed
  have free: "int (blk_number b) < lo" if "b \<in> set (free_blocks a)" for b
    using that assms(2) unfolding a(3) reorg_ready_def in_range_def by force
  have held_u: "held ?u = image_mset ?mv ?A + prefix_refs (prefix_heap s)" by (simp add: held_def refs)
  have "refs_ok (E + mset (gpu_range lo hi) + held ?u) ?u"
  proof -
    have "alloc_ok CPU (cpu_allocator s) ?h"
    proof (rule alloc_ok_other [OF ok(2)])
      show "?h b = ref_count s b" if "blk_device b = CPU" for b
        using that gpu_T [of b] free_gpu [OF ok(1), of b] by auto
    qed
    from refs_ok_update [OF a(2) this reorg_final_refs [OF assms(1,2)]] show ?thesis unfolding held_u .
  qed
  moreover have "dict_keys tabs = dict_keys (block_tables s)" by (simp add: tabs_def o_def case_prod_beta)
  ultimately have inv: "bm_inv (E + mset (gpu_range lo hi)) ?u" using assms(1) by (simp add: bm_inv_def)
  have ret: "map_of ret (int (blk_number b)) = Some (int (blk_number (?mv b)))"
    if "b \<in># ?A" "blk_device b = GPU" "int (blk_number b) < hi" for b
  proof (cases "in_range lo hi b")
    case True
    then have b: "b \<in> set ?S" using in_S [OF that(1)] by simp
    then have "map_of ?rm (int (blk_number b)) \<noteq> None" using mapped [OF that(1)] by blast
    then obtain t where t: "map_of ?rm (int (blk_number b)) = Some t" by blast
    then have mv_t: "?mv b = t" by (simp add: moved_block_def)
    have "zip (map (int \<circ> blk_number) ?S) (map (int \<circ> blk_number) ?T) = map (\<lambda>(k, v). (k, int (blk_number v))) ?rm"
      by (simp add: reorg_mapping_def zip_map2 o_def)
    then have "map_of (zip (map (int \<circ> blk_number) ?S) (map (int \<circ> blk_number) ?T)) (int (blk_number b)) = Some (int (blk_number t))"
      using t by (simp add: map_of_map)
    moreover have "int (blk_number b) \<notin> set (map (int \<circ> blk_number) (filter (\<lambda>b. b \<notin> set ?fl) (gpu_range 0 lo)))"
      using True set_gpu_range [of 0 lo] by (auto simp: in_range_def)
    ultimately show ?thesis
      using mv_t by (simp add: ret_def run(4) map_of_dict_update_same o_assoc del: set_map flip: map_map)
  next
    case False
    then have "b \<in> set (filter (\<lambda>b. b \<notin> set ?fl) (gpu_range 0 lo))"
      using that nonfree set_gpu_range [of 0 lo] by (auto simp: in_range_def)
    then have "int (blk_number b) \<in> set (map (int \<circ> blk_number) (filter (\<lambda>b. b \<notin> set ?fl) (gpu_range 0 lo)))"
      unfolding set_map by (rule image_eqI [rotated]) simp
    moreover have "?mv b = b" using moved [OF that(1)] False by blast
    ultimately show ?thesis
      by (simp add: ret_def run(4) map_of_dict_update_same o_assoc del: set_map flip: map_map)
  qed
  obtain u where u: "u = ?u" by blast
  have fields: "actual_gpu_blk_rng_end u = lo" "block_tables u = tabs" "gpu_allocator u = a" "prefix_heap u = prefix_heap s"
    "bm_shape u = bm_shape s" by (simp_all add: u bm_shape_def)
  have dev: "blk_device (?mv b) = blk_device b" if "b \<in># ?A" for b
  proof (cases "b \<in> set ?S")
    case True
    then show ?thesis using gpu_T [OF mv_S [of b]] S(1) [of b] by simp
  next
    case False
    then show ?thesis using mv_id [OF that] by simp
  qed
  have "reorganize_gpu_blocks n kv s =
      Inr (ret, kv\<lparr>cached_layer_num := cached_layer_num kv - n, load_more_layer_on_card_num := n\<rparr>, u)"
    "bm_inv (E + mset (gpu_range lo hi)) u"
    unfolding u by (rule result, rule inv)
  moreover have "\<forall>b \<in># table_refs tabs. \<not> in_range lo hi b" using out unfolding refs by auto
  ultimately show ?thesis
    using moved inj free ret fields dev a(4) reorg_ret_moves_down [OF assms(1,2)] run(4)
    by (intro exI [of _ ret] exI [of _ u] exI [of _ ?mv] conjI) (simp_all add: tabs_def ret_def)
qed

section \<open>The chains end and cover every copy\<close>

text \<open>A chain: each number is copied to the next one, and nothing has to leave the last.\<close>

fun chain_ok :: "(int, int) dict \<Rightarrow> int list \<Rightarrow> bool" where
  "chain_ok m [] \<longleftrightarrow> False"
| "chain_ok m [x] \<longleftrightarrow> map_of m x = None"
| "chain_ok m (x # y # xs) \<longleftrightarrow> map_of m x = Some y \<and> chain_ok m (y # xs)"

text \<open>Copies go down, and never onto a block that stays where it is.\<close>

definition descending :: "(int, int) dict \<Rightarrow> bool" where
  "descending m \<longleftrightarrow> (\<forall>k v. map_of m k = Some v \<and> v \<noteq> k \<longrightarrow> v < k \<and> map_of m v \<noteq> Some v)"

lemma chain_walk_ends:
  assumes "descending m" and "map_of m src \<noteq> Some src" and "card {k \<in> dom (map_of m). k \<le> src} < fuel"
  shows "\<exists>p. chain_walk fuel m src visited cs = Inr (visited \<union> (set (src # p) \<inter> dom (map_of m)), cs @ p) \<and> chain_ok m (src # p)"
  using assms(2,3)
proof (induction fuel arbitrary: src visited cs)
  case 0
  then show ?case by simp
next
  case (Suc fuel)
  show ?case
  proof (cases "map_of m src")
    case None
    then show ?thesis by (intro exI [of _ "[]"]) auto
  next
    case (Some dst)
    then have dst: "dst < src" "map_of m dst \<noteq> Some dst"
      using assms(1) Suc.prems(1) by (auto simp: descending_def)
    have "{k \<in> dom (map_of m). k \<le> dst} \<subseteq> {k \<in> dom (map_of m). k \<le> src}" using dst(1) by auto
    moreover have "src \<in> {k \<in> dom (map_of m). k \<le> src}" "src \<notin> {k \<in> dom (map_of m). k \<le> dst}"
      using dst(1) Some by auto
    ultimately have "{k \<in> dom (map_of m). k \<le> dst} \<subset> {k \<in> dom (map_of m). k \<le> src}" by blast
    moreover have "finite {k \<in> dom (map_of m). k \<le> src}" by (simp add: finite_dom_map_of)
    ultimately have "card {k \<in> dom (map_of m). k \<le> dst} < card {k \<in> dom (map_of m). k \<le> src}"
      by (rule psubset_card_mono [rotated])
    then have "card {k \<in> dom (map_of m). k \<le> dst} < fuel" using Suc.prems(2) by linarith
    from Suc.IH [OF dst(2) this, of "insert src visited" "cs @ [dst]"] obtain p where
      p: "chain_walk fuel m dst (insert src visited) (cs @ [dst]) =
          Inr (insert src visited \<union> (set (dst # p) \<inter> dom (map_of m)), (cs @ [dst]) @ p)" "chain_ok m (dst # p)"
      by blast
    have "insert src visited \<union> (set (dst # p) \<inter> dom (map_of m)) = visited \<union> (set (src # dst # p) \<inter> dom (map_of m))"
      using Some by auto
    then show ?thesis using p Some by (intro exI [of _ "dst # p"]) (simp add: Int_commute)
  qed
qed

text \<open>The offsets of the parts of a concatenation, from \<open>n\<close> on.\<close>

fun offsets :: "int \<Rightarrow> 'a list list \<Rightarrow> int list" where
  "offsets n [] = []"
| "offsets n (p # ps) = (n + int (length p)) # offsets (n + int (length p)) ps"

lemma offsets_append: "offsets n (ps @ [p]) = offsets n ps @ [n + int (length (concat ps @ p))]"
  by (induction ps arbitrary: n) auto

text \<open>
  Where no two numbers are copied to the same place, two chains never meet: a common number would be the
  start of the older chain, which is larger, or would have the same predecessor in both.
\<close>

definition one_origin :: "(int, int) dict \<Rightarrow> bool" where
  "one_origin m \<longleftrightarrow> (\<forall>k k' v. map_of m k = Some v \<and> map_of m k' = Some v \<longrightarrow> k = k')"

lemma chain_no_loop: "chain_ok m (x # xs) \<Longrightarrow> map_of m x \<noteq> Some x"
  by (induction xs arbitrary: x) auto

lemma chain_decreasing: "descending m \<Longrightarrow> chain_ok m p \<Longrightarrow> sorted_wrt (>) p"
proof (induction m p rule: chain_ok.induct)
  case (3 m x y xs)
  have "map_of m x = Some y" "x \<noteq> y" using 3(3) chain_no_loop [of m x "y # xs"] by auto
  then have "y < x" using 3(2) by (auto simp: descending_def)
  moreover have "sorted_wrt (>) (y # xs)" using 3 by simp
  ultimately show ?case by (auto intro: less_trans)
qed simp_all

lemma chain_pred: "chain_ok m p \<Longrightarrow> y \<in> set p \<Longrightarrow> y \<noteq> hd p \<Longrightarrow> \<exists>w \<in> set p. map_of m w = Some y"
proof (induction m p rule: chain_ok.induct)
  case (3 m x z xs)
  show ?case
  proof (cases "y = z")
    case True
    then show ?thesis using 3(2) by auto
  next
    case False
    then show ?thesis using 3 by auto
  qed
qed simp_all

lemma new_chain_apart:
  assumes "descending m" and "one_origin m" and "\<forall>p \<in> set ps. chain_ok m p" and "\<forall>p \<in> set ps. x < hd p"
    and "x \<notin> set (concat ps)" and "chain_ok m (x # xs)"
  shows "set (x # xs) \<inter> set (concat ps) = {}"
  using assms(4-6)
proof (induction xs arbitrary: x)
  case Nil
  then show ?case by simp
next
  case (Cons y ys)
  have xy: "map_of m x = Some y" "y < x" using Cons.prems(3) chain_decreasing [OF assms(1) Cons.prems(3)] by auto
  have "y \<notin> set (concat ps)"
  proof
    assume "y \<in> set (concat ps)"
    then obtain p where p: "p \<in> set ps" "y \<in> set p" by auto
    have "x < hd p" using Cons.prems(1) p(1) by blast
    then have "y \<noteq> hd p" using xy(2) by simp
    then obtain w where "w \<in> set p" "map_of m w = Some y" using chain_pred assms(3) p by blast
    then have "x \<in> set p" using assms(2) xy(1) by (auto simp: one_origin_def)
    then show False using Cons.prems(2) p(1) by auto
  qed
  moreover have "\<forall>p \<in> set ps. y < hd p" using Cons.prems(1) xy(2) by fastforce
  ultimately have "set (y # ys) \<inter> set (concat ps) = {}" using Cons.prems(3) by (intro Cons.IH) simp_all
  then show ?case using Cons.prems(2) by auto
qed

lemma chain_step_ok:
  assumes "descending m"
  obtains "src \<in> visited \<or> map_of m src = Some src"
    "chain_step m src (visited, concat ps, 0 # offsets 0 ps) = Inr (insert src visited, concat ps, 0 # offsets 0 ps)"
  | p where "src \<notin> visited" "map_of m src \<noteq> Some src" "chain_ok m (src # p)"
    "chain_step m src (visited, concat ps, 0 # offsets 0 ps) =
      Inr (visited \<union> (set (src # p) \<inter> dom (map_of m)), concat (ps @ [src # p]), 0 # offsets 0 (ps @ [src # p]))"
proof (cases "src \<in> visited \<or> map_of m src = Some src")
  case True
  then have "chain_step m src (visited, concat ps, 0 # offsets 0 ps) = Inr (insert src visited, concat ps, 0 # offsets 0 ps)"
    by (auto simp: chain_step_def insert_absorb)
  with True show ?thesis by (rule that(1))
next
  case False
  have "{k \<in> dom (map_of m). k \<le> src} \<subseteq> set (dict_keys m)" by (auto simp: dom_map_of_conv_image_fst)
  then have "card {k \<in> dom (map_of m). k \<le> src} \<le> card (set (dict_keys m))" by (rule card_mono [rotated]) simp
  also have "\<dots> \<le> length (dict_keys m)" by (rule card_length)
  finally have "card {k \<in> dom (map_of m). k \<le> src} < Suc (length m)" by simp
  from chain_walk_ends [OF assms _ this, of visited "concat ps @ [src]"] False obtain p where
    p: "chain_walk (Suc (length m)) m src visited (concat ps @ [src]) =
        Inr (visited \<union> (set (src # p) \<inter> dom (map_of m)), (concat ps @ [src]) @ p)" "chain_ok m (src # p)"
    by auto
  have "chain_step m src (visited, concat ps, 0 # offsets 0 ps) =
      Inr (visited \<union> (set (src # p) \<inter> dom (map_of m)), concat (ps @ [src # p]), 0 # offsets 0 (ps @ [src # p]))"
    using False p(1) by (simp add: chain_step_def offsets_append del: chain_walk.simps)
  then show ?thesis using False p(2) by (intro that(2)) simp_all
qed

text \<open>The chains so far: every visited number that moves is in one, and the numbers still to come are smaller.\<close>

definition chains_so_far :: "(int, int) dict \<Rightarrow> int list \<Rightarrow> int set \<Rightarrow> int list list \<Rightarrow> bool" where
  "chains_so_far m ks visited ps \<longleftrightarrow> (\<forall>p \<in> set ps. chain_ok m p \<and> (\<forall>k \<in> set ks. k < hd p)) \<and> distinct (concat ps) \<and>
     visited \<subseteq> set (concat ps) \<union> {k. map_of m k = Some k} \<and> set (concat ps) \<inter> dom (map_of m) \<subseteq> visited"

lemma chain_loop_ok:
  assumes "descending m" and "one_origin m" and "sorted_wrt (>) ks" and "set ks \<subseteq> dom (map_of m)" and "chains_so_far m ks visited ps"
  shows "\<exists>qs visited'. efold (chain_step m) ks (visited, concat ps, 0 # offsets 0 ps) =
      Inr (visited', concat qs, 0 # offsets 0 qs) \<and> (\<forall>q \<in> set qs. chain_ok m q) \<and> distinct (concat qs) \<and>
      set ps \<subseteq> set qs \<and> (\<forall>k \<in> set ks. map_of m k \<noteq> Some k \<longrightarrow> k \<in> set (concat qs))"
  using assms(3-5)
proof (induction ks arbitrary: visited ps)
  case Nil
  then show ?case by (auto simp: chains_so_far_def)
next
  case (Cons k ks)
  note far = Cons.prems(3)
  have ks: "sorted_wrt (>) ks" "set ks \<subseteq> dom (map_of m)" "\<forall>j \<in> set ks. j < k" "k \<in> dom (map_of m)" using Cons.prems(1,2) by auto
  show ?case
  proof (cases rule: chain_step_ok [OF assms(1), of k visited ps])
    case 1
    then have "chains_so_far m ks (insert k visited) ps" using far by (auto simp: chains_so_far_def)
    from Cons.IH [OF ks(1,2) this] obtain qs visited' where q: "efold (chain_step m) ks (insert k visited, concat ps, 0 # offsets 0 ps) =
        Inr (visited', concat qs, 0 # offsets 0 qs)" "\<forall>q \<in> set qs. chain_ok m q" "distinct (concat qs)" "set ps \<subseteq> set qs"
        "\<forall>k \<in> set ks. map_of m k \<noteq> Some k \<longrightarrow> k \<in> set (concat qs)" by blast
    have "k \<in> set (concat qs)" if "map_of m k \<noteq> Some k"
    proof -
      have "k \<in> set (concat ps)" using 1(1) that far by (auto simp: chains_so_far_def)
      then show ?thesis using q(4) by auto
    qed
    then show ?thesis using 1(2) q by (intro exI [of _ qs] exI [of _ visited']) simp
  next
    case (2 p)
    have "k \<notin> set (concat ps)" using 2(1) ks(4) far by (auto simp: chains_so_far_def)
    then have apart: "set (k # p) \<inter> set (concat ps) = {}"
      using new_chain_apart [OF assms(1,2), of ps k p] 2(3) far by (auto simp: chains_so_far_def)
    have "distinct (k # p)" using chain_decreasing [OF assms(1) 2(3)] by (metis strict_sorted_iff sorted_wrt_rev distinct_rev)
    then have "chains_so_far m ks (visited \<union> (set (k # p) \<inter> dom (map_of m))) (ps @ [k # p])"
      using far apart ks(3) 2(3) by (auto simp: chains_so_far_def simp del: chain_ok.simps)
    from Cons.IH [OF ks(1,2) this] obtain qs visited' where
      q: "efold (chain_step m) ks (visited \<union> (set (k # p) \<inter> dom (map_of m)), concat (ps @ [k # p]), 0 # offsets 0 (ps @ [k # p])) =
        Inr (visited', concat qs, 0 # offsets 0 qs)" "\<forall>q \<in> set qs. chain_ok m q" "distinct (concat qs)" "set (ps @ [k # p]) \<subseteq> set qs"
        "\<forall>k \<in> set ks. map_of m k \<noteq> Some k \<longrightarrow> k \<in> set (concat qs)" by blast
    have "k # p \<in> set qs" using q(4) by simp
    then have "k \<in> set (concat qs)" unfolding set_concat by (rule UN_I) simp
    then show ?thesis using 2(4) q by (intro exI [of _ qs] exI [of _ visited']) simp
  qed
qed

lemma dict_update_SomeD: "map_of (dict_update d e) x = Some y \<Longrightarrow> map_of d x = Some y \<or> (x, y) \<in> set e"
proof -
  have "map_of (fold (\<lambda>(k, v). dict_set k v) e d) x = Some y \<Longrightarrow> map_of d x = Some y \<or> (x, y) \<in> set e"
  proof (induction e arbitrary: d)
    case (Cons a e)
    obtain k v where a: "a = (k, v)" by force
    from Cons.prems a have "map_of (fold (\<lambda>(k, v). dict_set k v) e (dict_set k v d)) x = Some y" by simp
    from Cons.IH [OF this] a show ?case by (auto simp: update_conv' split: if_splits)
  qed simp
  then show "map_of (dict_update d e) x = Some y \<Longrightarrow> map_of d x = Some y \<or> (x, y) \<in> set e"
    by (simp add: dict_update_def)
qed

lemma layer_mapping_SomeD:
  assumes "dict_ok d" and "map_of (layer_mapping layers ori cur d) x = Some y"
  shows "\<exists>i k v. 0 \<le> i \<and> map_of d k = Some v \<and> x = k + ori * i \<and> y = v + cur * i"
proof -
  have loop: "map_of m x = Some y \<or> (\<exists>i k v. 0 \<le> i \<and> map_of d k = Some v \<and> x = k + ori * i \<and> y = v + cur * i)"
    if "map_of (fold (\<lambda>i m. dict_update m (map (\<lambda>(k, v). (k + ori * i, v + cur * i)) d)) is m) x = Some y"
      "\<forall>i \<in> set is. 0 \<le> i" for "is" m
    using that
  proof (induction "is" arbitrary: m)
    case (Cons i "is")
    have "map_of (dict_update m (map (\<lambda>(k, v). (k + ori * i, v + cur * i)) d)) x = Some y \<or>
        (\<exists>i k v. 0 \<le> i \<and> map_of d k = Some v \<and> x = k + ori * i \<and> y = v + cur * i)"
      by (rule Cons.IH) (use Cons.prems in auto)
    moreover have "\<exists>i k v. 0 \<le> i \<and> map_of d k = Some v \<and> x = k + ori * i \<and> y = v + cur * i"
      if "(x, y) \<in> set (map (\<lambda>(k, v). (k + ori * i, v + cur * i)) d)"
    proof -
      from that obtain k v where "(k, v) \<in> set d" "x = k + ori * i" "y = v + cur * i" by auto
      then show ?thesis using Cons.prems(2) assms(1) map_of_is_SomeI by fastforce
    qed
    ultimately show ?case
      using dict_update_SomeD [of m "map (\<lambda>(k, v). (k + ori * i, v + cur * i)) d" x y] by blast
  qed simp
  have "\<exists>i k v. 0 \<le> i \<and> map_of d k = Some v \<and> x = k + ori * i \<and> y = v + cur * i" if "map_of d x = Some y"
    using that by (intro exI [of _ 0] exI [of _ x] exI [of _ y]) simp
  then show ?thesis using loop [of "[1..2 * layers - 1]" d] assms(2) by (auto simp: layer_mapping_def)
qed

lemma div_unique_pair: "v + c * i = k + c * j \<Longrightarrow> 0 \<le> v \<Longrightarrow> v < c \<Longrightarrow> 0 \<le> k \<Longrightarrow> k < c \<Longrightarrow> v = k \<and> i = (j::int)"
proof -
  assume eq: "v + c * i = k + c * j" and b: "0 \<le> v" "v < c" "0 \<le> k" "k < c"
  have "v = (v + c * i) mod c" "k = (k + c * j) mod c" using b by simp_all
  then have "v = k" using eq by metis
  with eq b show "v = k \<and> i = j" by simp
qed

lemma layer_mapping_descending:
  assumes "moves_down cur ori d"
  shows "descending (layer_mapping layers ori cur d)"
proof -
  have d: "dict_ok d" "0 \<le> cur" "cur \<le> ori" using assms by (auto simp: moves_down_def)
  have bnd: "0 \<le> k \<and> k < ori \<and> 0 \<le> v \<and> v < cur \<and> (v \<noteq> k \<longrightarrow> cur \<le> k \<and> map_of d v = None)" if "map_of d k = Some v" for k v
    using assms that unfolding moves_down_def by blast
  have "y < x \<and> map_of (layer_mapping layers ori cur d) y \<noteq> Some y"
    if xy: "map_of (layer_mapping layers ori cur d) x = Some y" "y \<noteq> x" for x y
  proof -
    obtain i k v where i: "0 \<le> i" "map_of d k = Some v" "x = k + ori * i" "y = v + cur * i"
      using layer_mapping_SomeD [OF d(1) xy(1)] by blast
    note b = bnd [OF i(2)]
    have le: "cur * i \<le> ori * i" using d(3) i(1) by (rule mult_right_mono)
    have "v \<le> k" using b by auto
    then have "y < x" using le xy(2) i(3,4) by linarith
    moreover have "map_of (layer_mapping layers ori cur d) y \<noteq> Some y"
    proof
      assume "map_of (layer_mapping layers ori cur d) y = Some y"
      then obtain j k' v' where j: "0 \<le> j" "map_of d k' = Some v'" "y = k' + ori * j" "y = v' + cur * j"
        using layer_mapping_SomeD [OF d(1)] by blast
      note b' = bnd [OF j(2)]
      have lej: "cur * j \<le> ori * j" using d(3) j(1) by (rule mult_right_mono)
      have kv': "v' = k'" "cur * j = ori * j" using b' lej j(3,4) by (smt (verit))+
      have "k' < cur" using b' kv'(1) by simp
      then have "v = k' \<and> i = j"
        using div_unique_pair [of v cur i k' j] i(4) j(3) kv' b b' by simp
      then have "map_of d v = Some v" "cur * i = ori * i" using j(2) kv' by auto
      moreover have "v \<noteq> k" using xy(2) i(3,4) \<open>cur * i = ori * i\<close> by auto
      ultimately show False using b by simp
    qed
    ultimately show ?thesis by blast
  qed
  then show ?thesis unfolding descending_def by blast
qed

lemma layer_mapping_one_origin:
  assumes "moves_down cur ori d"
  shows "one_origin (layer_mapping layers ori cur d)"
proof -
  have d: "dict_ok d" "\<And>k v. map_of d k = Some v \<Longrightarrow> 0 \<le> v \<and> v < cur"
    "\<And>k k' v. map_of d k = Some v \<Longrightarrow> map_of d k' = Some v \<Longrightarrow> k = k'"
    using assms unfolding moves_down_def by blast+
  have "x = x'" if "map_of (layer_mapping layers ori cur d) x = Some y" "map_of (layer_mapping layers ori cur d) x' = Some y" for x x' y
  proof -
    note ex = layer_mapping_SomeD [OF d(1) that(1)] layer_mapping_SomeD [OF d(1) that(2)]
    obtain i k v j k' v' where e: "map_of d k = Some v" "x = k + ori * i" "y = v + cur * i"
      "map_of d k' = Some v'" "x' = k' + ori * j" "y = v' + cur * j"
      using ex by blast
    have "v = v' \<and> i = j" using div_unique_pair [of v cur i v' j] e d(2) by auto
    then show ?thesis using e d(3) by blast
  qed
  then show ?thesis by (auto simp: one_origin_def)
qed

lemma dict_ok_layer_mapping: "dict_ok d \<Longrightarrow> dict_ok (layer_mapping layers ori cur d)"
proof -
  have "dict_ok (fold (\<lambda>i m. dict_update m (map (\<lambda>(k, v). (k + ori * i, v + cur * i)) d)) is m) = dict_ok m" for "is" m
    by (induction "is" arbitrary: m) (simp_all add: dict_ok_dict_update)
  then show "dict_ok d \<Longrightarrow> dict_ok (layer_mapping layers ori cur d)" by (simp add: layer_mapping_def)
qed

theorem chains_ok:
  assumes "moves_down (actual_gpu_blk_rng_end s)
      (actual_gpu_blk_rng_end s + load_more_layer_on_card_num kv * blk_num_per_layer kv) d"
  shows "\<exists>qs m. get_dependent_blk_moving_chains d kv s = Inr (concat qs, 0 # offsets 0 qs) \<and>
    m = layer_mapping (layer_num kv) (actual_gpu_blk_rng_end s + load_more_layer_on_card_num kv * blk_num_per_layer kv)
          (actual_gpu_blk_rng_end s) d \<and>
    (\<forall>q \<in> set qs. chain_ok m q) \<and> distinct (concat qs) \<and> (\<forall>k v. map_of m k = Some v \<and> v \<noteq> k \<longrightarrow> k \<in> set (concat qs))"
proof -
  let ?m = "layer_mapping (layer_num kv) (actual_gpu_blk_rng_end s + load_more_layer_on_card_num kv * blk_num_per_layer kv)
          (actual_gpu_blk_rng_end s) d"
  let ?ks = "rev (sort (dict_keys ?m))"
  have "dict_ok d" using assms by (simp add: moves_down_def)
  then have "distinct (dict_keys ?m)" by (rule dict_ok_layer_mapping)
  then have "sorted_wrt (<) (sort (dict_keys ?m))" by (simp add: strict_sorted_iff)
  then have ks: "sorted_wrt (>) ?ks" "set ?ks \<subseteq> dom (map_of ?m)" by (auto simp: sorted_wrt_rev dom_map_of_conv_image_fst)
  have "chains_so_far ?m ?ks {} []" by (simp add: chains_so_far_def)
  from chain_loop_ok [OF layer_mapping_descending [OF assms] layer_mapping_one_origin [OF assms] ks this]
  obtain qs visited where q: "efold (chain_step ?m) ?ks ({}, [], [0]) =
      Inr (visited, concat qs, 0 # offsets 0 qs)" "\<forall>q \<in> set qs. chain_ok ?m q" "distinct (concat qs)"
      "\<forall>k \<in> set (dict_keys ?m). map_of ?m k \<noteq> Some k \<longrightarrow> k \<in> set (concat qs)"
    by auto
  have "k \<in> set (concat qs)" if "map_of ?m k = Some v" "v \<noteq> k" for k v
  proof -
    have "k \<in> set (dict_keys ?m)" using map_of_SomeD [OF that(1)] by force
    then show ?thesis using q(4) that by auto
  qed
  then show ?thesis
    using q(1-3) by (auto simp: get_dependent_blk_moving_chains_def Let_def)
qed

end
