(* ===== verification/Req_Scheduler.thy ===== *)
theory Req_Scheduler
  imports Sched_Policy Block_Reorg
begin

text \<open>
  \<^verbatim>\<open>vllm/core/scheduler.py\<close>: the queues of sequence groups, the iteration-level scheduler
  \<open>_schedule\<close>, preemption, aborting, and the decision to load more layer weights. The fields of the
  configuration objects are fields of the scheduler; the clock is an argument \<open>now\<close>. A group is in one
  queue at a time, so the queues hold groups by value; where \<open>_schedule\<close> puts a group both in a
  queue and in its outputs, nothing changes the group between the two.
\<close>

datatype preemption_mode = SWAP | RECOMPUTE

record scheduler =
  max_num_batched_tokens :: nat
  max_num_seqs :: int
  max_model_len :: nat
  max_paddings :: int
  max_loras :: "nat option"
  prompt_limit :: nat
  sch_bm :: block_manager
  sch_prefix_pool :: prefix_pool
  waiting :: "sequence_group list"
  running :: "sequence_group list"
  swapped :: "sequence_group list"
  tot_preempt :: nat
  dynamic_increase_oncard_weights :: bool

text \<open>The dictionaries of block numbers a step hands to the workers.\<close>

record swap_io =
  blocks_to_swap_in :: "(nat, nat) dict"
  blocks_to_swap_out :: "(nat, nat) dict"
  blocks_to_copy :: "(nat, nat list) dict"

record scheduler_outputs =
  scheduled_seq_groups :: "sequence_group list"
  prompt_run :: bool
  num_batched_tokens :: nat
  out_io :: swap_io
  ignored_seq_groups :: "sequence_group list"
  blocks_to_reorganize :: "(nat, int list) dict"
  num_loras :: nat

definition no_io :: swap_io where
  "no_io = \<lparr>blocks_to_swap_in = [], blocks_to_swap_out = [], blocks_to_copy = []\<rparr>"

text \<open>
  The constructor. \<open>lora_requests\<close> is a set that holds \<open>None\<close> for a group without LoRA, so \<open>num_loras\<close>
  is positive, and the groups are sorted by LoRA id and request id, whenever any group is scheduled.
  Sorting compares the request ids of groups with the same LoRA id, which raises when an integer meets a
  string.
\<close>

definition mixed_ids :: "sequence_group list \<Rightarrow> bool" where
  "mixed_ids gs \<longleftrightarrow> (\<exists>g \<in> set gs. \<exists>h \<in> set gs. sg_lora_int_id g = sg_lora_int_id h \<and>
     is_int_id (request_id g) \<noteq> is_int_id (request_id h))"

definition sort_by_lora_ids :: "sequence_group list \<Rightarrow> sequence_group list" where
  "sort_by_lora_ids gs = sort_key (\<lambda>g. (sg_lora_int_id g, request_id g)) gs"

definition new_scheduler_outputs ::
    "sequence_group list \<Rightarrow> bool \<Rightarrow> nat \<Rightarrow> swap_io \<Rightarrow> sequence_group list \<Rightarrow> scheduler_outputs result" where
  "new_scheduler_outputs scheduled prompt n io ignored =
     ebind (py_assert (\<not> (blocks_to_swap_in io \<noteq> [] \<and> blocks_to_swap_out io \<noteq> []))) (\<lambda>_.
       let k = length (remdups (map sg_lora_request scheduled)) in
       if k > 0 \<and> mixed_ids scheduled then Inl TypeError
       else Inr \<lparr>scheduled_seq_groups = (if k > 0 then sort_by_lora_ids scheduled else scheduled),
            prompt_run = prompt, num_batched_tokens = n, out_io = io, ignored_seq_groups = ignored,
            blocks_to_reorganize = [], num_loras = k\<rparr>)"

definition outputs_is_empty :: "scheduler_outputs \<Rightarrow> bool" where
  "outputs_is_empty out \<longleftrightarrow> scheduled_seq_groups out = [] \<and> blocks_to_swap_in (out_io out) = [] \<and>
     blocks_to_swap_out (out_io out) = [] \<and> blocks_to_copy (out_io out) = [] \<and> blocks_to_reorganize out = []"

definition new_scheduler ::
    "nat \<Rightarrow> int \<Rightarrow> nat \<Rightarrow> int \<Rightarrow> nat option \<Rightarrow> nat \<Rightarrow> nat \<Rightarrow> nat \<Rightarrow> nat option \<Rightarrow> bool \<Rightarrow> scheduler result" where
  "new_scheduler token_cap max_seqs model_len paddings loras bs num_gpu num_cpu sliding_window dynamic =
     ebind (new_block_manager bs num_gpu num_cpu f64_hundredth sliding_window) (\<lambda>bm.
       Inr \<lparr>max_num_batched_tokens = token_cap, max_num_seqs = max_seqs, max_model_len = model_len,
            max_paddings = paddings, max_loras = loras, prompt_limit = min model_len token_cap,
            sch_bm = bm, sch_prefix_pool = new_prefix_pool bs, waiting = [], running = [], swapped = [],
            tot_preempt = 0, dynamic_increase_oncard_weights = dynamic\<rparr>)"

definition add_seq_group :: "sequence_group \<Rightarrow> scheduler \<Rightarrow> scheduler" where
  "add_seq_group g s = s\<lparr>waiting := waiting s @ [g]\<rparr>"

definition sch_has_unfinished_seqs :: "scheduler \<Rightarrow> bool" where
  "sch_has_unfinished_seqs s \<longleftrightarrow> waiting s \<noteq> [] \<or> running s \<noteq> [] \<or> swapped s \<noteq> []"

definition get_num_unfinished_seq_groups :: "scheduler \<Rightarrow> nat" where
  "get_num_unfinished_seq_groups s = length (waiting s) + length (running s) + length (swapped s)"

definition free_finished_seq_groups :: "scheduler \<Rightarrow> scheduler" where
  "free_finished_seq_groups s = s\<lparr>running := filter (\<lambda>g. \<not> sg_is_finished g) (running s)\<rparr>"

definition sch_fork_seq :: "sequence \<Rightarrow> sequence \<Rightarrow> scheduler \<Rightarrow> scheduler result" where
  "sch_fork_seq parent child s = ebind (bm_fork parent child (sch_bm s)) (\<lambda>bm. Inr (s\<lparr>sch_bm := bm\<rparr>))"

definition sch_free_seq :: "sequence \<Rightarrow> scheduler \<Rightarrow> scheduler result" where
  "sch_free_seq q s = ebind (bm_free q (sch_bm s)) (\<lambda>bm. Inr (s\<lparr>sch_bm := bm\<rparr>))"

section \<open>Aborting\<close>

text \<open>The scan of one queue: the first group with each requested id, and the ids still to be found.\<close>

fun abort_scan :: "req_id list \<Rightarrow> sequence_group list \<Rightarrow> sequence_group list \<times> sequence_group list \<times> req_id list" where
  "abort_scan ids [] = ([], [], ids)"
| "abort_scan ids (g # gs) =
     (if ids = [] then ([], g # gs, [])
      else if request_id g \<in> set ids then
        (case abort_scan (removeAll (request_id g) ids) gs of (aborted, rest, ids') \<Rightarrow> (g # aborted, rest, ids'))
      else (case abort_scan ids gs of (aborted, rest, ids') \<Rightarrow> (aborted, g # rest, ids')))"

definition abort_free :: "sequence_group list \<Rightarrow> block_manager \<Rightarrow> block_manager result" where
  "abort_free aborted bm =
     efold (\<lambda>g bm. efold (\<lambda>q bm. if seq_is_finished q then Inr bm
                                 else bm_free (q\<lparr>status := FINISHED_ABORTED\<rparr>) bm) (get_seqs None g) bm) aborted bm"

definition abort_seq_group :: "req_id list \<Rightarrow> scheduler \<Rightarrow> scheduler result" where
  "abort_seq_group request_ids s =
     (case abort_scan (remdups request_ids) (waiting s) of (aw, w, ids) \<Rightarrow>
      ebind (abort_free aw (sch_bm s)) (\<lambda>bm.
      case abort_scan ids (running s) of (ar, r, ids) \<Rightarrow>
      ebind (abort_free ar bm) (\<lambda>bm.
      case abort_scan ids (swapped s) of (as, sw, ids) \<Rightarrow>
      ebind (abort_free as bm) (\<lambda>bm.
        Inr (s\<lparr>waiting := w, running := r, swapped := sw, sch_bm := bm\<rparr>)))))"

section \<open>Steps on a group\<close>

definition sch_allocate :: "sequence_group \<Rightarrow> block_manager \<Rightarrow> (sequence_group \<times> block_manager) result" where
  "sch_allocate g bm = ebind (bm_allocate g bm) (\<lambda>bm. Inr (set_seqs_status WAITING RUNNING g, bm))"

definition copy_add :: "(nat \<times> nat) option \<Rightarrow> (nat, nat list) dict \<Rightarrow> (nat, nat list) dict" where
  "copy_add ret copies =
     (case ret of
        None \<Rightarrow> copies
      | Some (src_block, dst_block) \<Rightarrow>
          (case map_of copies src_block of
             Some dsts \<Rightarrow> dict_set src_block (dsts @ [dst_block]) copies
           | None \<Rightarrow> dict_set src_block [dst_block] copies))"

definition sch_append_slot ::
    "sequence_group \<Rightarrow> block_manager \<times> (nat, nat list) dict \<Rightarrow> (block_manager \<times> (nat, nat list) dict) result" where
  "sch_append_slot g = efold (\<lambda>q (bm, copies). ebind (append_slot q bm) (\<lambda>(ret, bm). Inr (bm, copy_add ret copies)))
                         (get_seqs (Some RUNNING) g)"

definition sch_swap_in :: "sequence_group \<Rightarrow> block_manager \<times> swap_io \<Rightarrow> (sequence_group \<times> block_manager \<times> swap_io) result" where
  "sch_swap_in g = (\<lambda>(bm, io). ebind (bm_swap_in g bm) (\<lambda>(mapping, bm).
     Inr (set_seqs_status SWAPPED RUNNING g, bm, io\<lparr>blocks_to_swap_in := dict_update (blocks_to_swap_in io) mapping\<rparr>)))"

definition sch_swap_out :: "sequence_group \<Rightarrow> block_manager \<times> swap_io \<Rightarrow> (sequence_group \<times> block_manager \<times> swap_io) result" where
  "sch_swap_out g = (\<lambda>(bm, io). ebind (can_swap_out g bm) (\<lambda>ok.
     if \<not> ok then Inl (RuntimeError ''Aborted due to the lack of CPU swap space. Please increase the swap space to avoid this error.'')
     else ebind (bm_swap_out g bm) (\<lambda>(mapping, bm).
       Inr (set_seqs_status RUNNING SWAPPED g, bm, io\<lparr>blocks_to_swap_out := dict_update (blocks_to_swap_out io) mapping\<rparr>))))"

definition preempt_by_recompute :: "sequence_group \<Rightarrow> block_manager \<Rightarrow> (sequence_group \<times> block_manager) result" where
  "preempt_by_recompute g bm =
     (let seqs = get_seqs (Some RUNNING) g in
      ebind (py_assert (length seqs = 1)) (\<lambda>_.
      ebind (efold (\<lambda>q. bm_free (q\<lparr>status := WAITING\<rparr>)) seqs bm) (\<lambda>bm.
        Inr (set_seqs_status RUNNING WAITING g, bm))))"

text \<open>The state the decode phase changes: the queues to which preempted groups go, and the outputs.\<close>

record decode_state =
  ds_bm :: block_manager
  ds_io :: swap_io
  ds_waiting :: "sequence_group list"
  ds_swapped :: "sequence_group list"
  ds_running :: "sequence_group list"
  ds_preempted :: "sequence_group list"

definition preempt :: "preemption_mode option \<Rightarrow> sequence_group \<Rightarrow> decode_state \<Rightarrow> decode_state result" where
  "preempt mode g st =
     (case (case mode of Some m \<Rightarrow> m | None \<Rightarrow> if get_max_num_running_seqs g = 1 then RECOMPUTE else SWAP) of
        RECOMPUTE \<Rightarrow> ebind (preempt_by_recompute g (ds_bm st)) (\<lambda>(g, bm).
          Inr (st\<lparr>ds_bm := bm, ds_waiting := g # ds_waiting st, ds_preempted := ds_preempted st @ [g]\<rparr>))
      | SWAP \<Rightarrow> ebind (sch_swap_out g (ds_bm st, ds_io st)) (\<lambda>(g, bm, io).
          Inr (st\<lparr>ds_bm := bm, ds_io := io, ds_swapped := ds_swapped st @ [g], ds_preempted := ds_preempted st @ [g]\<rparr>)))"

section \<open>\<open>_schedule\<close>\<close>

text \<open>
  The prompt phase: one turn of \<^verbatim>\<open>while self.waiting\<close> per group, until one of the breaks. It returns
  the state and the groups that still wait.
\<close>

record prompt_state =
  ps_bm :: block_manager
  ps_num_curr_seqs :: int
  ps_curr_loras :: "int list option"
  ps_seq_lens :: "nat list"
  ps_leftover :: "sequence_group list"
  ps_scheduled :: "sequence_group list"
  ps_ignored :: "sequence_group list"

definition max_list :: "nat list \<Rightarrow> nat" where
  "max_list xs = foldr max xs 0"

definition lora_full :: "scheduler \<Rightarrow> int list option \<Rightarrow> sequence_group \<Rightarrow> bool" where
  "lora_full cfg loras g \<longleftrightarrow>
     (case (max_loras cfg, loras) of
        (Some m, Some cur) \<Rightarrow> sg_lora_int_id g > 0 \<and> sg_lora_int_id g \<notin> set cur \<and> length cur \<ge> m
      | _ \<Rightarrow> False)"

definition lora_add :: "scheduler \<Rightarrow> sequence_group \<Rightarrow> int list option \<Rightarrow> int list option" where
  "lora_add cfg g loras =
     (if max_loras cfg \<noteq> None \<and> sg_lora_int_id g > 0 then map_option (List.insert (sg_lora_int_id g)) loras else loras)"

fun admit_waiting :: "scheduler \<Rightarrow> sequence_group list \<Rightarrow> prompt_state \<Rightarrow> (prompt_state \<times> sequence_group list) result" where
  "admit_waiting cfg [] st = Inr (st, [])"
| "admit_waiting cfg (g # gs) st =
     (let waiting_seqs = get_seqs (Some WAITING) g in
      ebind (py_assert (length waiting_seqs = 1)) (\<lambda>_.
      let num_prompt_tokens = seq_get_len (hd waiting_seqs) in
      if num_prompt_tokens > prompt_limit cfg then
        admit_waiting cfg gs (st\<lparr>ps_ignored := ps_ignored st @ [set_seqs_status WAITING FINISHED_IGNORED g]\<rparr>)
      else ebind (can_allocate g (ps_bm st)) (\<lambda>status.
        case status of
          LATER \<Rightarrow> Inr (st, g # gs)
        | NEVER \<Rightarrow> admit_waiting cfg gs (st\<lparr>ps_ignored := ps_ignored st @ [set_seqs_status WAITING FINISHED_IGNORED g]\<rparr>)
        | OK \<Rightarrow>
            if lora_full cfg (ps_curr_loras st) g then admit_waiting cfg gs (st\<lparr>ps_leftover := g # ps_leftover st\<rparr>)
            else
              let new_seq_lens = ps_seq_lens st @ [num_prompt_tokens];
                  num_tokens = length new_seq_lens * max_list new_seq_lens;
                  num_new_seqs = get_max_num_running_seqs g;
                  num_paddings = int num_tokens - int (sum_list new_seq_lens)
              in if num_tokens > max_num_batched_tokens cfg then Inr (st, g # gs)
                 else if ps_num_curr_seqs st + num_new_seqs > max_num_seqs cfg then Inr (st, g # gs)
                 else if num_paddings > max_paddings cfg then Inr (st, g # gs)
                 else ebind (sch_allocate g (ps_bm st)) (\<lambda>(g', bm).
                   admit_waiting cfg gs
                     (st\<lparr>ps_bm := bm, ps_seq_lens := new_seq_lens,
                         ps_curr_loras := lora_add cfg g (ps_curr_loras st),
                         ps_num_curr_seqs := ps_num_curr_seqs st + num_new_seqs,
                         ps_scheduled := ps_scheduled st @ [g']\<rparr>)))))"

text \<open>
  The decode phase: \<^verbatim>\<open>while self.running\<close> takes the group with the highest priority; the inner loop
  preempts groups from the other end until a slot can be appended, at last the group itself.
\<close>

fun decode_loop :: "sequence_group list \<Rightarrow> decode_state \<Rightarrow> decode_state result" where
  "decode_loop [] st = Inr st"
| "decode_loop (g # gs) st =
     (if can_append_slot g (ds_bm st) then
        ebind (sch_append_slot g (ds_bm st, blocks_to_copy (ds_io st))) (\<lambda>(bm, copies).
          decode_loop gs (st\<lparr>ds_bm := bm, ds_io := (ds_io st)\<lparr>blocks_to_copy := copies\<rparr>, ds_running := ds_running st @ [g]\<rparr>))
      else if gs \<noteq> [] then
        ebind (preempt None (last gs) st) (\<lambda>st. decode_loop (g # butlast gs) st)
      else preempt None g st)"

text \<open>The swap-in phase: \<^verbatim>\<open>while self.swapped\<close>, with the groups left over for lack of LoRA slots.\<close>

record swap_in_state =
  ss_bm :: block_manager
  ss_io :: swap_io
  ss_num_curr_seqs :: int
  ss_curr_loras :: "int list option"
  ss_leftover :: "sequence_group list"
  ss_running :: "sequence_group list"

fun swap_in_loop :: "scheduler \<Rightarrow> sequence_group list \<Rightarrow> swap_in_state \<Rightarrow> (swap_in_state \<times> sequence_group list) result" where
  "swap_in_loop cfg [] st = Inr (st, [])"
| "swap_in_loop cfg (g # gs) st =
     (if lora_full cfg (ss_curr_loras st) g then swap_in_loop cfg gs (st\<lparr>ss_leftover := g # ss_leftover st\<rparr>)
      else ebind (can_swap_in g (ss_bm st)) (\<lambda>ok.
        let num_new_seqs = get_max_num_running_seqs g in
        if \<not> ok then Inr (st, g # gs)
        else if ss_num_curr_seqs st + num_new_seqs > max_num_seqs cfg then Inr (st, g # gs)
        else ebind (sch_swap_in g (ss_bm st, ss_io st)) (\<lambda>(g, bm, io).
             ebind (sch_append_slot g (bm, blocks_to_copy io)) (\<lambda>(bm, copies).
               swap_in_loop cfg gs
                 (st\<lparr>ss_bm := bm, ss_io := io\<lparr>blocks_to_copy := copies\<rparr>,
                     ss_curr_loras := lora_add cfg g (ss_curr_loras st),
                     ss_num_curr_seqs := ss_num_curr_seqs st + num_new_seqs,
                     ss_running := ss_running st @ [g]\<rparr>)))))"

definition running_seqs_bound :: "sequence_group list \<Rightarrow> int" where
  "running_seqs_bound gs = sum_list (map get_max_num_running_seqs gs)"

definition running_loras :: "scheduler \<Rightarrow> sequence_group list \<Rightarrow> int list option" where
  "running_loras cfg gs = (if max_loras cfg = None then None else Some (remdups (map sg_lora_int_id gs)))"

definition prompt_start :: "scheduler \<Rightarrow> prompt_state" where
  "prompt_start s =
     \<lparr>ps_bm = sch_bm s, ps_num_curr_seqs = running_seqs_bound (running s),
      ps_curr_loras = running_loras s (running s), ps_seq_lens = [], ps_leftover = [],
      ps_scheduled = [], ps_ignored = []\<rparr>"

definition schedule_prompts :: "scheduler \<Rightarrow> (scheduler_outputs option \<times> scheduler) result" where
  "schedule_prompts s =
     ebind (admit_waiting s (waiting s) (prompt_start s)) (\<lambda>(st, gs).
       let s' = s\<lparr>sch_bm := ps_bm st, waiting := rev (ps_leftover st) @ gs, running := running s @ ps_scheduled st\<rparr>
       in if ps_scheduled st \<noteq> [] \<or> ps_ignored st \<noteq> [] then
            ebind (new_scheduler_outputs (ps_scheduled st) True
                     (if ps_seq_lens st \<noteq> [] then length (ps_seq_lens st) * max_list (ps_seq_lens st) else 0)
                     no_io (ps_ignored st)) (\<lambda>out. Inr (Some out, s'))
          else Inr (None, s'))"

definition decode_start :: "scheduler \<Rightarrow> decode_state" where
  "decode_start s =
     \<lparr>ds_bm = sch_bm s, ds_io = no_io, ds_waiting = waiting s, ds_swapped = swapped s,
      ds_running = [], ds_preempted = []\<rparr>"

definition swap_in_start :: "scheduler \<Rightarrow> decode_state \<Rightarrow> swap_in_state" where
  "swap_in_start s st =
     \<lparr>ss_bm = ds_bm st, ss_io = ds_io st, ss_num_curr_seqs = running_seqs_bound (ds_running st),
      ss_curr_loras = running_loras s (ds_running st), ss_leftover = [], ss_running = ds_running st\<rparr>"

definition schedule_decode :: "float64 \<Rightarrow> scheduler \<Rightarrow> (scheduler_outputs \<times> scheduler) result" where
  "schedule_decode now s =
     ebind (decode_loop (sort_by_priority now (running s)) (decode_start s)) (\<lambda>st.
     let sw = sort_by_priority now (ds_swapped st) in
     ebind (if ds_preempted st = [] then swap_in_loop s sw (swap_in_start s st)
            else Inr (swap_in_start s st, sw)) (\<lambda>(ss, gs).
     ebind (new_scheduler_outputs (ss_running ss) False
              (sum_list (map (num_seqs (Some RUNNING)) (ss_running ss))) (ss_io ss) []) (\<lambda>out.
       Inr (out, s\<lparr>sch_bm := ss_bm ss, waiting := ds_waiting st, running := ss_running ss,
                   swapped := rev (ss_leftover ss) @ gs\<rparr>))))"

definition sch_schedule_iter :: "float64 \<Rightarrow> scheduler \<Rightarrow> (scheduler_outputs \<times> scheduler) result" where
  "sch_schedule_iter now s =
     ebind (if swapped s = [] then schedule_prompts s else Inr (None, s)) (\<lambda>(out, s).
       case out of
         Some out \<Rightarrow> Inr (out, s)
       | None \<Rightarrow> schedule_decode now s)"

section \<open>Loading more layer weights\<close>

text \<open>
  The loop of \<open>increase_layer_weight_on_comp_gpu\<close>. It ends: it goes on only while
  \<open>new_cached_layer_num > 2\<close>, and halves it.
\<close>

function layers_to_load_loop :: "int \<Rightarrow> int \<Rightarrow> int \<Rightarrow> int \<Rightarrow> int option \<Rightarrow> int option" where
  "layers_to_load_loop free blk_num cached new_cached last_layers =
     (let num_layers = cached + 2 - new_cached in
      if free \<ge> blk_num * num_layers then
        (if cached - num_layers \<le> 0 then Some num_layers
         else layers_to_load_loop free blk_num cached (new_cached div 2) (Some num_layers))
      else last_layers)"
  by pat_completeness auto
termination
  by (relation "measure (\<lambda>(_, _, _, new_cached, _). nat new_cached)") auto

definition layers_to_load :: "int \<Rightarrow> int \<Rightarrow> int \<Rightarrow> int option" where
  "layers_to_load free blk_num cached = layers_to_load_loop free blk_num cached ((cached + 2) div 2) None"

definition increase_layer_weight_on_comp_gpu ::
    "kv_per_layer_weight \<Rightarrow> scheduler \<Rightarrow> ((nat, int list) dict \<times> kv_per_layer_weight \<times> scheduler) result" where
  "increase_layer_weight_on_comp_gpu kv s =
     (if cached_layer_num kv = 0 then Inr ([], kv, s)
      else if length (waiting s) > 0 then Inr ([], kv, s)
      else case layers_to_load (int (get_num_free_blocks (gpu_allocator (sch_bm s)))) (blk_num_per_layer kv) (cached_layer_num kv) of
             None \<Rightarrow> Inr ([], kv, s)
           | Some n \<Rightarrow>
               ebind (reorganize_gpu_blocks n kv (sch_bm s)) (\<lambda>(d, kv, bm).
               ebind (get_dependent_blk_moving_chains d kv bm) (\<lambda>(cs, chain_lens).
                 Inr ([(0, cs), (1, chain_lens)], kv, s\<lparr>sch_bm := bm\<rparr>))))"

section \<open>\<open>schedule\<close>\<close>

record sequence_group_metadata =
  md_request_id :: req_id
  md_is_prompt :: bool
  md_seq_data :: "(int, sequence_data) dict"
  md_sampling_params :: sampling_params
  md_block_tables :: "(int, nat list) dict"
  md_lora_request :: "lora_request option"
  md_prefix :: "prefix_ref option"

definition metadata_of :: "bool \<Rightarrow> block_manager \<Rightarrow> sequence_group \<Rightarrow> sequence_group_metadata result" where
  "metadata_of prompt bm g =
     ebind (efold (\<lambda>q (data, tables). ebind (get_block_table q bm) (\<lambda>t.
              Inr (dict_set (seq_id q) (seq_data q) data, dict_set (seq_id q) t tables)))
            (get_seqs (Some RUNNING) g) ([], [])) (\<lambda>(data, tables).
       Inr \<lparr>md_request_id = request_id g, md_is_prompt = prompt, md_seq_data = data,
            md_sampling_params = sg_sampling_params g, md_block_tables = tables,
            md_lora_request = sg_lora_request g, md_prefix = sg_prefix g\<rparr>)"

definition sch_schedule :: "float64 \<Rightarrow> kv_per_layer_weight \<Rightarrow> scheduler
    \<Rightarrow> (sequence_group_metadata list \<times> scheduler_outputs \<times> kv_per_layer_weight \<times> scheduler) result" where
  "sch_schedule now kv s =
     ebind (if dynamic_increase_oncard_weights s then increase_layer_weight_on_comp_gpu kv s else Inr ([], kv, s))
       (\<lambda>(reorg, kv, s).
     ebind (sch_schedule_iter now s) (\<lambda>(out, s).
     let out = out\<lparr>blocks_to_reorganize := reorg\<rparr> in
     ebind (efold (\<lambda>g mds. ebind (metadata_of (prompt_run out) (sch_bm s) g) (\<lambda>m. Inr (mds @ [m])))
              (scheduled_seq_groups out) []) (\<lambda>mds.
       Inr (mds, out, kv, s))))"

text \<open>\<open>get_unfinished_seqs\<close> with \<open>move_all_unfinished_seqs_to_waiting\<close>: the groups stay in their queues, with changed status.\<close>

definition move_to_waiting :: "sequence_group list \<Rightarrow> sequence_group list result" where
  "move_to_waiting gs =
     efold (\<lambda>g acc. ebind (py_assert (num_seqs (Some RUNNING) g \<le> 1)) (\<lambda>_.
       Inr (acc @ [set_seqs_status RUNNING WAITING g]))) gs []"

definition sch_get_unfinished_seqs :: "scheduler \<Rightarrow> (sequence_group list \<times> scheduler) result" where
  "sch_get_unfinished_seqs s =
     ebind (move_to_waiting (running s)) (\<lambda>r.
     ebind (move_to_waiting (waiting s)) (\<lambda>w.
     ebind (move_to_waiting (swapped s)) (\<lambda>sw.
       Inr (r @ w @ sw, s\<lparr>running := r, waiting := w, swapped := sw\<rparr>))))"

end
