(* ===== verification/Sched_Props.thy ===== *)
theory Sched_Props
  imports Req_Scheduler
begin

text \<open>
  What a scheduling step does to the queues: no request is lost or duplicated, the batch of a prompt
  step keeps the configured limits, and swaps never go both ways.
\<close>

section \<open>Conservation of requests\<close>

abbreviation ids :: "sequence_group list \<Rightarrow> req_id multiset" where
  "ids gs \<equiv> mset (map request_id gs)"

definition queued :: "scheduler \<Rightarrow> req_id multiset" where
  "queued s = ids (waiting s) + ids (running s) + ids (swapped s)"

text \<open>What a turn of the prompt loop does: ignore the group, stop, leave it over, or admit it.\<close>

lemma admit_waiting_cases:
  assumes "admit_waiting cfg (g # gs) st = Inr r"
  obtains
    (Ignore) "admit_waiting cfg gs (st\<lparr>ps_ignored := ps_ignored st @ [set_seqs_status WAITING FINISHED_IGNORED g]\<rparr>) = Inr r"
      "length (get_seqs (Some WAITING) g) = 1"
  | (Stop) "r = (st, g # gs)"
  | (Leave) "admit_waiting cfg gs (st\<lparr>ps_leftover := g # ps_leftover st\<rparr>) = Inr r" "lora_full cfg (ps_curr_loras st) g"
  | (Admit) q bm where "get_seqs (Some WAITING) g = [q]" "seq_get_len q \<le> prompt_limit cfg" "can_allocate g (ps_bm st) = Inr OK"
      "bm_allocate g (ps_bm st) = Inr bm" "\<not> lora_full cfg (ps_curr_loras st) g"
      "Suc (length (ps_seq_lens st)) * max_list (ps_seq_lens st @ [seq_get_len q]) \<le> max_num_batched_tokens cfg"
      "ps_num_curr_seqs st + get_max_num_running_seqs g \<le> max_num_seqs cfg"
      "int (Suc (length (ps_seq_lens st)) * max_list (ps_seq_lens st @ [seq_get_len q]))
         - int (sum_list (ps_seq_lens st @ [seq_get_len q])) \<le> max_paddings cfg"
      "admit_waiting cfg gs
         (st\<lparr>ps_bm := bm, ps_seq_lens := ps_seq_lens st @ [seq_get_len q],
             ps_curr_loras := lora_add cfg g (ps_curr_loras st),
             ps_num_curr_seqs := ps_num_curr_seqs st + get_max_num_running_seqs g,
             ps_scheduled := ps_scheduled st @ [set_seqs_status WAITING RUNNING g]\<rparr>) = Inr r"
proof -
  let ?ign = "st\<lparr>ps_ignored := ps_ignored st @ [set_seqs_status WAITING FINISHED_IGNORED g]\<rparr>"
  have one: "length (get_seqs (Some WAITING) g) = 1" using assms by (auto simp: Let_def)
  then obtain q where q: "get_seqs (Some WAITING) g = [q]" by (metis One_nat_def length_0_conv length_Suc_conv)
  show thesis
  proof (cases "seq_get_len q > prompt_limit cfg")
    case True
    then show thesis using assms q Ignore by (simp add: Let_def)
  next
    case False
    then obtain status where status: "can_allocate g (ps_bm st) = Inr status" using assms q by (auto simp: Let_def)
    show thesis
    proof (cases status)
      case OK
      show thesis
      proof (cases "lora_full cfg (ps_curr_loras st) g")
        case True
        then show thesis using assms q status False OK Leave by (simp add: Let_def)
      next
        case nl: False
        show thesis
        proof (cases "Suc (length (ps_seq_lens st)) * max_list (ps_seq_lens st @ [seq_get_len q]) \<le> max_num_batched_tokens cfg \<and>
            ps_num_curr_seqs st + get_max_num_running_seqs g \<le> max_num_seqs cfg \<and>
            int (Suc (length (ps_seq_lens st)) * max_list (ps_seq_lens st @ [seq_get_len q]))
              - int (sum_list (ps_seq_lens st @ [seq_get_len q])) \<le> max_paddings cfg")
          case True
          then obtain bm where "bm_allocate g (ps_bm st) = Inr bm" "admit_waiting cfg gs
         (st\<lparr>ps_bm := bm, ps_seq_lens := ps_seq_lens st @ [seq_get_len q],
             ps_curr_loras := lora_add cfg g (ps_curr_loras st),
             ps_num_curr_seqs := ps_num_curr_seqs st + get_max_num_running_seqs g,
             ps_scheduled := ps_scheduled st @ [set_seqs_status WAITING RUNNING g]\<rparr>) = Inr r"
            using assms q status False OK nl by (auto simp: Let_def sch_allocate_def not_less)
          then show thesis using Admit [OF q _ _ _ nl] True False status OK by simp
        next
          case lim: False
          then have "r = (st, g # gs)"
            using assms q status False OK nl by (auto simp: Let_def not_less not_le split: if_splits)
          then show thesis by (rule Stop)
        qed
      qed
    next
      case LATER
      then show thesis using assms q status False Stop by (simp add: Let_def)
    next
      case NEVER
      then show thesis using assms q status False Ignore by (simp add: Let_def)
    qed
  qed
qed

lemma new_scheduler_outputs_fields:
  assumes "new_scheduler_outputs scheduled p n io ign = Inr out"
  shows "ignored_seq_groups out = ign" "prompt_run out = p" "num_batched_tokens out = n"
    "mset (scheduled_seq_groups out) = mset scheduled" "out_io out = io"
    "blocks_to_swap_in io = [] \<or> blocks_to_swap_out io = []"
  using assms by (auto simp: new_scheduler_outputs_def sort_by_lora_ids_def Let_def split: if_splits)

lemma schedule_prompts_cases:
  assumes "schedule_prompts s = Inr (out, s')"
  obtains st gs where "admit_waiting s (waiting s) (prompt_start s) = Inr (st, gs)"
    "s' = s\<lparr>sch_bm := ps_bm st, waiting := rev (ps_leftover st) @ gs, running := running s @ ps_scheduled st\<rparr>"
    "out = None \<Longrightarrow> ps_scheduled st = [] \<and> ps_ignored st = []"
    "\<And>out'. out = Some out' \<Longrightarrow> new_scheduler_outputs (ps_scheduled st) True
       (if ps_seq_lens st \<noteq> [] then length (ps_seq_lens st) * max_list (ps_seq_lens st) else 0) no_io (ps_ignored st) = Inr out'"
proof -
  obtain st gs where a: "admit_waiting s (waiting s) (prompt_start s) = Inr (st, gs)"
    using assms by (auto simp: schedule_prompts_def)
  let ?s = "s\<lparr>sch_bm := ps_bm st, waiting := rev (ps_leftover st) @ gs, running := running s @ ps_scheduled st\<rparr>"
  let ?new = "new_scheduler_outputs (ps_scheduled st) True
       (if ps_seq_lens st \<noteq> [] then length (ps_seq_lens st) * max_list (ps_seq_lens st) else 0) no_io (ps_ignored st)"
  have run: "(if ps_scheduled st \<noteq> [] \<or> ps_ignored st \<noteq> [] then ebind ?new (\<lambda>out. Inr (Some out, ?s)) else Inr (None, ?s)) = Inr (out, s')"
    using assms unfolding schedule_prompts_def a by (simp only: ebind_simps Let_def split_conv)
  show thesis
  proof (cases "ps_scheduled st \<noteq> [] \<or> ps_ignored st \<noteq> []")
    case True
    with run obtain o1 where o1: "?new = Inr o1" "out = Some o1" "s' = ?s" by (auto simp only: if_True ebind_eq_Inr)
    show thesis by (rule that [OF a o1(3)]) (use o1(1,2) in simp_all)
  next
    case False
    with run have o0: "out = None" "s' = ?s" by (simp_all only: if_False sum.inject prod.inject)
    show thesis by (rule that [OF a o0(2)]) (use False o0(1) in simp_all)
  qed
qed

lemma schedule_decode_cases:
  assumes "schedule_decode now s = Inr (out, s')"
  obtains st ss gs where "decode_loop (sort_by_priority now (running s)) (decode_start s) = Inr st"
    "ds_preempted st = [] \<Longrightarrow> swap_in_loop s (sort_by_priority now (ds_swapped st)) (swap_in_start s st) = Inr (ss, gs)"
    "ds_preempted st \<noteq> [] \<Longrightarrow> ss = swap_in_start s st \<and> gs = sort_by_priority now (ds_swapped st)"
    "new_scheduler_outputs (ss_running ss) False (sum_list (map (num_seqs (Some RUNNING)) (ss_running ss))) (ss_io ss) [] = Inr out"
    "s' = s\<lparr>sch_bm := ss_bm ss, waiting := ds_waiting st, running := ss_running ss, swapped := rev (ss_leftover ss) @ gs\<rparr>"
proof -
  obtain st where st: "decode_loop (sort_by_priority now (running s)) (decode_start s) = Inr st"
    using assms by (auto simp: schedule_decode_def)
  let ?sw = "sort_by_priority now (ds_swapped st)"
  obtain ss gs where ss: "(if ds_preempted st = [] then swap_in_loop s ?sw (swap_in_start s st) else Inr (swap_in_start s st, ?sw)) = Inr (ss, gs)"
    and run: "ebind (new_scheduler_outputs (ss_running ss) False (sum_list (map (num_seqs (Some RUNNING)) (ss_running ss))) (ss_io ss) [])
       (\<lambda>out. Inr (out, s\<lparr>sch_bm := ss_bm ss, waiting := ds_waiting st, running := ss_running ss,
                   swapped := rev (ss_leftover ss) @ gs\<rparr>)) = Inr (out, s')"
    using assms unfolding schedule_decode_def st ebind_simps Let_def by (auto simp only: ebind_eq_Inr split_conv)
  show thesis
    by (rule that [OF st, of ss gs]) (use ss run in \<open>simp_all split: if_splits\<close>)
qed

text \<open>
  \<open>_schedule\<close> conserves the groups: whatever is read off a group that does not depend on the status of
  its sequences, the queues and the ignored groups together have it as often as before.
\<close>

locale status_view =
  fixes view :: "sequence_group \<Rightarrow> 'v"
  assumes view_status [simp]: "view (set_seqs_status a b g) = view g"
begin

abbreviation bag :: "sequence_group list \<Rightarrow> 'v multiset" where
  "bag gs \<equiv> mset (map view gs)"

abbreviation all_bag :: "scheduler \<Rightarrow> 'v multiset" where
  "all_bag s \<equiv> bag (waiting s) + bag (running s) + bag (swapped s)"

lemma bag_sort_by_priority [simp]: "bag (sort_by_priority now gs) = bag gs"
  using fcfs.sort_by_mset [of now gs] by (metis mset_map)

lemma admit_waiting_bag:
  "admit_waiting cfg gs st = Inr (st', rest) \<Longrightarrow>
     bag (ps_leftover st') + bag (ps_scheduled st') + bag (ps_ignored st') + bag rest =
     bag (ps_leftover st) + bag (ps_scheduled st) + bag (ps_ignored st) + bag gs"
proof (induction gs arbitrary: st)
  case Nil
  then show ?case by simp
next
  case (Cons g gs)
  from Cons.prems show ?case
  proof (cases rule: admit_waiting_cases)
    case Ignore
    from Cons.IH [OF this(1)] show ?thesis by simp
  next
    case Stop
    then show ?thesis by simp
  next
    case Leave
    from Cons.IH [OF this(1)] show ?thesis by simp
  next
    case (Admit q bm)
    from Cons.IH [OF this(9)] show ?thesis by simp
  qed
qed

lemma preempt_bag:
  assumes "preempt mode g st = Inr st'"
  shows "bag (ds_waiting st') + bag (ds_swapped st') = add_mset (view g) (bag (ds_waiting st) + bag (ds_swapped st))"
    and "ds_running st' = ds_running st"
  using assms
  by (auto simp: preempt_def preempt_by_recompute_def sch_swap_out_def Let_def
      split: preemption_mode.splits option.splits if_splits)

lemma decode_loop_bag:
  "decode_loop gs st = Inr st' \<Longrightarrow>
     bag (ds_waiting st') + bag (ds_swapped st') + bag (ds_running st') =
     bag (ds_waiting st) + bag (ds_swapped st) + bag (ds_running st) + bag gs"
proof (induction gs st rule: decode_loop.induct)
  case (1 st)
  then show ?case by simp
next
  case (2 g gs st)
  show ?case
  proof (cases "can_append_slot g (ds_bm st)")
    case True
    then obtain bm copies where ap: "sch_append_slot g (ds_bm st, blocks_to_copy (ds_io st)) = Inr (bm, copies)"
      and rest: "decode_loop gs (st\<lparr>ds_bm := bm, ds_io := (ds_io st)\<lparr>blocks_to_copy := copies\<rparr>, ds_running := ds_running st @ [g]\<rparr>) = Inr st'"
      using "2.prems" by auto
    from "2.IH"(1) [OF True ap refl rest] show ?thesis by simp
  next
    case False
    show ?thesis
    proof (cases "gs = []")
      case True
      with False "2.prems" have "preempt None g st = Inr st'" by simp
      from preempt_bag [OF this] True show ?thesis by simp
    next
      case ne: False
      with False "2.prems" obtain u where u: "preempt None (last gs) st = Inr u" "decode_loop (g # butlast gs) u = Inr st'"
        by auto
      have "gs = butlast gs @ [last gs]" using ne by simp
      then have "bag gs = bag (butlast gs @ [last gs])" by simp
      also have "\<dots> = add_mset (view (last gs)) (bag (butlast gs))" by simp
      finally have "bag gs = add_mset (view (last gs)) (bag (butlast gs))" .
      with "2.IH"(2) [OF False ne u] preempt_bag [OF u(1)] show ?thesis by simp
    qed
  qed
qed

lemma swap_in_loop_bag:
  "swap_in_loop cfg gs st = Inr (st', rest) \<Longrightarrow>
     bag (ss_leftover st') + bag (ss_running st') + bag rest = bag (ss_leftover st) + bag (ss_running st) + bag gs"
proof (induction gs arbitrary: st)
  case Nil
  then show ?case by simp
next
  case (Cons g gs)
  show ?case
    using Cons.prems Cons.IH by (auto simp: Let_def sch_swap_in_def split: if_splits)
qed

lemma schedule_prompts_bag:
  assumes "schedule_prompts s = Inr (out, s')"
  shows "all_bag s' + (case out of None \<Rightarrow> {#} | Some out \<Rightarrow> bag (ignored_seq_groups out)) = all_bag s"
  using assms
proof (cases rule: schedule_prompts_cases)
  case (1 st gs)
  have "bag (ps_leftover st) + bag (ps_scheduled st) + bag (ps_ignored st) + bag gs = bag (waiting s)"
    using admit_waiting_bag [OF 1(1)] by (simp add: prompt_start_def)
  moreover have "(case out of None \<Rightarrow> {#} | Some out \<Rightarrow> bag (ignored_seq_groups out)) = bag (ps_ignored st)"
    using 1(3,4) new_scheduler_outputs_fields(1) by (cases out) auto
  ultimately show ?thesis by (simp add: 1(2) rev_map [symmetric]) (metis add.assoc add.commute)
qed

lemma schedule_decode_bag:
  assumes "schedule_decode now s = Inr (out, s')"
  shows "all_bag s' = all_bag s \<and> ignored_seq_groups out = []"
  using assms
proof (cases rule: schedule_decode_cases)
  case (1 st ss gs)
  have dec: "bag (ds_waiting st) + bag (ds_swapped st) + bag (ds_running st) = all_bag s"
    using decode_loop_bag [OF 1(1)] by (simp add: decode_start_def ac_simps del: mset_map)
  have sw: "bag (ss_leftover ss) + bag (ss_running ss) + bag gs = bag (ds_running st) + bag (ds_swapped st)"
  proof (cases "ds_preempted st = []")
    case True
    from swap_in_loop_bag [OF 1(2) [OF True]] show ?thesis by (simp add: swap_in_start_def del: mset_map)
  next
    case False
    with 1(3) show ?thesis by (simp add: swap_in_start_def del: mset_map)
  qed
  have "all_bag s' = bag (ds_waiting st) + (bag (ss_leftover ss) + bag (ss_running ss) + bag gs)"
    by (simp add: 1(5) rev_map [symmetric] ac_simps)
  also have "\<dots> = all_bag s" unfolding sw dec [symmetric] by (simp only: ac_simps)
  finally show ?thesis using new_scheduler_outputs_fields(1) [OF 1(4)] by simp
qed

lemma iter_bag:
  assumes "sch_schedule_iter now s = Inr (out, s')"
  shows "all_bag s' + bag (ignored_seq_groups out) = all_bag s"
proof -
  obtain out1 s1 where o1: "(if swapped s = [] then schedule_prompts s else Inr (None, s)) = Inr (out1, s1)"
    and o2: "(case out1 of Some out \<Rightarrow> Inr (out, s1) | None \<Rightarrow> schedule_decode now s1) = Inr (out, s')"
    using assms by (auto simp: sch_schedule_iter_def)
  have s1: "all_bag s1 + (case out1 of None \<Rightarrow> {#} | Some out \<Rightarrow> bag (ignored_seq_groups out)) = all_bag s"
    using o1 schedule_prompts_bag by (auto split: if_splits)
  show ?thesis
    using o2 s1 schedule_decode_bag by (cases out1) auto
qed

end

interpretation request_ids: status_view request_id
  by unfold_locales simp

lemma iter_ids:
  assumes "sch_schedule_iter now s = Inr (out, s')"
  shows "queued s' + ids (ignored_seq_groups out) = queued s"
  unfolding queued_def by (rule request_ids.iter_bag [OF assms])

text \<open>C23: \<open>_schedule\<close> loses and duplicates no request: the requests in the three queues afterwards, together
  with the ignored ones, are the requests that were queued before.\<close>

theorem schedule_iter_ids:
  assumes "sch_schedule_iter now s = Inr (out, s')"
  shows "queued s' + ids (ignored_seq_groups out) = queued s"
  by (rule iter_ids [OF assms])

section \<open>The limits of a prompt batch\<close>

lemma get_max_num_running_seqs_admit [simp]:
  "get_max_num_running_seqs (set_seqs_status WAITING RUNNING g) = get_max_num_running_seqs g"
proof -
  have "filter (\<lambda>s. \<not> seq_is_finished s) (map (\<lambda>s. if status s = WAITING then s\<lparr>status := RUNNING\<rparr> else s) xs) =
      map (\<lambda>s. if status s = WAITING then s\<lparr>status := RUNNING\<rparr> else s) (filter (\<lambda>s. \<not> seq_is_finished s) xs)" for xs
    by (induction xs) (auto simp: seq_is_finished_def)
  then have "num_unfinished_seqs (set_seqs_status WAITING RUNNING g) = num_unfinished_seqs g"
    unfolding num_unfinished_seqs_def get_unfinished_seqs_def dict_values_set_seqs_status by (simp only: length_map)
  then show ?thesis by (simp add: get_max_num_running_seqs_def)
qed

lemma get_seqs_admit:
  "get_seqs (Some WAITING) g = [q] \<Longrightarrow> \<exists>q' \<in> set (get_seqs (Some RUNNING) (set_seqs_status WAITING RUNNING g)). seq_get_len q' = seq_get_len q"
proof -
  assume "get_seqs (Some WAITING) g = [q]"
  then have "q \<in> set (get_seqs (Some WAITING) g)" by simp
  then have "q \<in> set (dict_values (seqs_dict g))" "status q = WAITING" by (auto simp: get_seqs_Some)
  then have "q\<lparr>status := RUNNING\<rparr> \<in> set (get_seqs (Some RUNNING) (set_seqs_status WAITING RUNNING g))"
    by (force simp: get_seqs_Some dict_values_set_seqs_status)
  moreover have "seq_get_len (q\<lparr>status := RUNNING\<rparr>) = seq_get_len q" by (simp add: seq_get_len_def)
  ultimately show ?thesis by blast
qed

definition prompt_lens :: "scheduler \<Rightarrow> sequence_group list \<Rightarrow> nat list \<Rightarrow> bool" where
  "prompt_lens cfg gs ls \<longleftrightarrow>
     list_all2 (\<lambda>g l. \<exists>q \<in> set (get_seqs (Some RUNNING) g). seq_get_len q = l \<and> l \<le> prompt_limit cfg) gs ls"

definition within_limits :: "scheduler \<Rightarrow> int \<Rightarrow> sequence_group list \<Rightarrow> nat list \<Rightarrow> bool" where
  "within_limits cfg bound gs ls \<longleftrightarrow> prompt_lens cfg gs ls \<and>
     (gs \<noteq> [] \<longrightarrow> length ls * max_list ls \<le> max_num_batched_tokens cfg \<and>
        bound + running_seqs_bound gs \<le> max_num_seqs cfg \<and>
        int (length ls * max_list ls) - int (sum_list ls) \<le> max_paddings cfg)"

lemma admit_waiting_limits:
  assumes "admit_waiting cfg gs st = Inr (st', rest)"
    and "within_limits cfg bound (ps_scheduled st) (ps_seq_lens st)"
    and "ps_num_curr_seqs st = bound + running_seqs_bound (ps_scheduled st)"
  shows "within_limits cfg bound (ps_scheduled st') (ps_seq_lens st')"
  using assms
proof (induction gs arbitrary: st)
  case Nil
  then show ?case by simp
next
  case (Cons g gs)
  from Cons.prems(1) show ?case
  proof (cases rule: admit_waiting_cases)
    case Ignore
    from Cons.IH [OF this(1)] Cons.prems show ?thesis by simp
  next
    case Stop
    with Cons.prems show ?thesis by simp
  next
    case Leave
    from Cons.IH [OF this(1)] Cons.prems show ?thesis by simp
  next
    case (Admit q bm)
    have lens: "prompt_lens cfg (ps_scheduled st @ [set_seqs_status WAITING RUNNING g]) (ps_seq_lens st @ [seq_get_len q])"
      using Cons.prems(2) get_seqs_admit [OF Admit(1)] Admit(2)
      unfolding prompt_lens_def within_limits_def by (intro list_all2_appendI) auto
    show ?thesis
      by (rule Cons.IH [OF Admit(9)])
        (use lens Admit(6-8) Cons.prems(3) in \<open>simp_all add: within_limits_def running_seqs_bound_def\<close>)
  qed
qed

text \<open>C24: A prompt batch respects every configured limit: the tokens after padding, the number of sequences
  that may run, the padding, and the length of each prompt; the batch is exactly what joined the running queue.\<close>

theorem schedule_limits:
  assumes "sch_schedule_iter now s = Inr (out, s')" and "prompt_run out"
  shows "\<exists>gs ls. running s' = running s @ gs \<and> mset (scheduled_seq_groups out) = mset gs \<and>
    within_limits s (running_seqs_bound (running s)) gs ls \<and> num_batched_tokens out = length ls * max_list ls"
proof -
  have sw: "swapped s = []" and p: "schedule_prompts s = Inr (Some out, s')"
  proof -
    obtain out1 s1 where o1: "(if swapped s = [] then schedule_prompts s else Inr (None, s)) = Inr (out1, s1)"
      and o2: "(case out1 of Some out \<Rightarrow> Inr (out, s1) | None \<Rightarrow> schedule_decode now s1) = Inr (out, s')"
      using assms(1) by (auto simp: sch_schedule_iter_def)
    have "out1 \<noteq> None"
    proof
      assume "out1 = None"
      with o2 have "schedule_decode now s1 = Inr (out, s')" by simp
      then show False
        using assms(2) by (cases rule: schedule_decode_cases) (auto dest: new_scheduler_outputs_fields(2))
    qed
    with o1 o2 show "swapped s = []" "schedule_prompts s = Inr (Some out, s')" by (auto split: if_splits)
  qed
  from p show ?thesis
  proof (cases rule: schedule_prompts_cases)
    case (1 st gs)
    have "within_limits s (running_seqs_bound (running s)) (ps_scheduled st) (ps_seq_lens st)"
      by (rule admit_waiting_limits [OF 1(1)])
        (simp_all add: prompt_start_def within_limits_def prompt_lens_def running_seqs_bound_def)
    moreover have "mset (scheduled_seq_groups out) = mset (ps_scheduled st)"
      "num_batched_tokens out = length (ps_seq_lens st) * max_list (ps_seq_lens st)"
      using new_scheduler_outputs_fields(3,4) [OF 1(4) [OF refl]] by auto
    ultimately show ?thesis using 1(2) by auto
  qed
qed

end
