(* ===== verification/Sched_Inv.thy ===== *)
theory Sched_Inv
  imports Sched_Props
begin

text \<open>
  The scheduler on single-sequence requests, which is what the multi-model drivers of the repository
  submit: every group has one sequence and runs at most one. Then \<open>_schedule\<close> never raises, keeps the
  invariant that links the queues to the block tables, and after a decode step every running
  sequence is the only owner of the block its next token goes to.
\<close>

section \<open>The invariant\<close>

definition single :: "sequence_status \<Rightarrow> sequence_group \<Rightarrow> sequence \<Rightarrow> bool" where
  "single st g q \<longleftrightarrow> get_seqs None g = [q] \<and> status q = st \<and> logical_token_blocks q \<noteq> [] \<and> get_max_num_running_seqs g = 1"

definition sid :: "sequence_group \<Rightarrow> int" where
  "sid g = seq_id (hd (get_seqs None g))"

definition prefix_fits :: "block_manager \<Rightarrow> sequence_group \<Rightarrow> sequence \<Rightarrow> bool" where
  "prefix_fits bm g q \<longleftrightarrow> (\<forall>r. sg_prefix g = Some r \<longrightarrow> r < length (prefix_heap bm) \<and>
     prefix_get_num_blocks (prefix_heap bm ! r) \<le> length (logical_token_blocks q))"

definition waits :: "block_manager \<Rightarrow> sequence_group \<Rightarrow> bool" where
  "waits bm g \<longleftrightarrow> (\<exists>q. single WAITING g q \<and> map_of (block_tables bm) (seq_id q) = None \<and> prefix_fits bm g q)"

text \<open>The table has a block for each logical block, but for the one that the last token may have opened.\<close>

definition table_fits :: "sequence \<Rightarrow> block_table \<Rightarrow> bool" where
  "table_fits q t \<longleftrightarrow> length t \<le> length (logical_token_blocks q) \<and> length (logical_token_blocks q) \<le> Suc (length t)"

definition runs :: "block_manager \<Rightarrow> sequence_group \<Rightarrow> bool" where
  "runs bm g \<longleftrightarrow> (\<exists>q t. single RUNNING g q \<and> map_of (block_tables bm) (seq_id q) = Some t \<and>
     t \<noteq> [] \<and> blk_device (last t) = GPU \<and> prefix_fits bm g q \<and> table_fits q t)"

text \<open>The request ids are all integers or all strings.\<close>

definition one_kind :: "sequence_group list \<Rightarrow> bool" where
  "one_kind gs \<longleftrightarrow> (\<forall>g \<in> set gs. is_int_id (request_id g)) \<or> (\<forall>g \<in> set gs. \<not> is_int_id (request_id g))"

definition queues_ok :: "block_id multiset \<Rightarrow> block_manager \<Rightarrow> sequence_group list \<Rightarrow> sequence_group list \<Rightarrow> bool" where
  "queues_ok E bm w r \<longleftrightarrow> bm_inv E bm \<and> block_sliding_window bm = None \<and> 0 \<le> watermark_blocks bm \<and>
     0 < num_total_gpu_blocks bm \<and>
     (\<forall>g \<in> set w. waits bm g) \<and> (\<forall>g \<in> set r. runs bm g) \<and> distinct (map sid (w @ r)) \<and>
     one_kind (w @ r)"

text \<open>Only running groups hold a block table.\<close>

definition no_stray :: "block_manager \<Rightarrow> sequence_group list \<Rightarrow> bool" where
  "no_stray bm r \<longleftrightarrow> fst ` set (block_tables bm) \<subseteq> sid ` set r"

definition sched_ok :: "block_id multiset \<Rightarrow> block_manager \<Rightarrow> sequence_group list \<Rightarrow> sequence_group list \<Rightarrow> bool" where
  "sched_ok E bm w r \<longleftrightarrow> queues_ok E bm w r \<and> no_stray bm r"

text \<open>The next token of the group goes to a block that is in no other table.\<close>

definition writable :: "block_id multiset \<Rightarrow> block_manager \<Rightarrow> sequence_group \<Rightarrow> bool" where
  "writable E bm g \<longleftrightarrow> (\<forall>t. map_of (block_tables bm) (sid g) = Some t \<longrightarrow> owned E bm (last t))"

text \<open>The group runs and its table has a block for each logical block: what the model needs of a scheduled group.\<close>

definition covered :: "block_manager \<Rightarrow> sequence_group \<Rightarrow> bool" where
  "covered bm g \<longleftrightarrow> (\<exists>q t. single RUNNING g q \<and> map_of (block_tables bm) (seq_id q) = Some t \<and>
     length t = length (logical_token_blocks q))"

lemma table_fits_full [simp]: "length t = length (logical_token_blocks q) \<Longrightarrow> table_fits q t"
  by (simp add: table_fits_def)

lemma table_fits_status [simp]: "table_fits (q\<lparr>status := st\<rparr>) t = table_fits q t"
  by (simp add: table_fits_def)

lemma sched_ok_mset:
  assumes "sched_ok E bm w r" and "mset w' = mset w" and "mset r' = mset r"
  shows "sched_ok E bm w' r'"
proof -
  have "mset (map sid (w' @ r')) = mset (map sid (w @ r))" using assms(2,3) by simp
  then have "distinct (map sid (w' @ r')) = distinct (map sid (w @ r))" by (rule mset_eq_imp_distinct_iff)
  moreover have "set w' = set w" "set r' = set r" using assms(2,3) by (metis set_mset_mset)+
  ultimately show ?thesis using assms(1) by (simp add: sched_ok_def queues_ok_def no_stray_def one_kind_def)
qed

lemma sched_ok_drop: "sched_ok E bm (g # w) r \<Longrightarrow> sched_ok E bm w r"
  by (auto simp: sched_ok_def queues_ok_def one_kind_def)

lemma sched_ok_queues: "sched_ok E bm w r \<Longrightarrow> queues_ok E bm w r"
  by (simp add: sched_ok_def)

lemma no_stray_key:
  "no_stray bm r \<Longrightarrow> map_of (block_tables bm) k \<noteq> None \<Longrightarrow> k \<in> sid ` set r"
  unfolding no_stray_def by (metis map_of_eq_None_iff subsetD)

lemma no_strayI:
  "(\<And>k t. map_of (block_tables bm) k = Some t \<Longrightarrow> k \<in> sid ` set r) \<Longrightarrow> no_stray bm r"
  unfolding no_stray_def by (metis map_of_eq_None_iff not_None_eq subsetI)

lemma prefix_fits_shape:
  assumes "bm_shape bm' = bm_shape bm"
  shows "prefix_fits bm' g q = prefix_fits bm g q"
proof -
  have eq: "map prefix_get_num_blocks (prefix_heap bm') = map prefix_get_num_blocks (prefix_heap bm)"
    using assms by (simp add: bm_shape_def)
  then have len: "length (prefix_heap bm') = length (prefix_heap bm)" by (rule map_eq_imp_length_eq)
  have "prefix_get_num_blocks (prefix_heap bm' ! r) = prefix_get_num_blocks (prefix_heap bm ! r)" if "r < length (prefix_heap bm)" for r
    using eq len that by (metis nth_map)
  then show ?thesis using len by (auto simp: prefix_fits_def)
qed

lemma single_sid: "single st g q \<Longrightarrow> sid g = seq_id q"
  by (simp add: single_def sid_def)

lemma waits_frame:
  assumes "waits bm g" and "bm_shape bm' = bm_shape bm"
    and "map_of (block_tables bm') (sid g) = map_of (block_tables bm) (sid g)"
  shows "waits bm' g"
proof -
  obtain q where q: "single WAITING g q" "map_of (block_tables bm) (seq_id q) = None" "prefix_fits bm g q"
    using assms(1) by (auto simp: waits_def)
  then show ?thesis using assms(3) single_sid [OF q(1)] prefix_fits_shape [OF assms(2)] by (auto simp: waits_def)
qed

lemma runs_frame:
  assumes "runs bm g" and "bm_shape bm' = bm_shape bm"
    and "map_of (block_tables bm') (sid g) = map_of (block_tables bm) (sid g)"
  shows "runs bm' g"
proof -
  obtain q t where q: "single RUNNING g q" "map_of (block_tables bm) (seq_id q) = Some t" "t \<noteq> []"
    "blk_device (last t) = GPU" "prefix_fits bm g q" "table_fits q t"
    using assms(1) by (auto simp: runs_def)
  then show ?thesis using assms(3) single_sid [OF q(1)] prefix_fits_shape [OF assms(2)] by (auto simp: runs_def)
qed

lemma covered_frame:
  assumes "covered bm g" and "map_of (block_tables bm') (sid g) = map_of (block_tables bm) (sid g)"
  shows "covered bm' g"
  using assms single_sid unfolding covered_def by metis

lemma sched_ok_shape:
  "bm_shape bm' = bm_shape bm \<Longrightarrow> block_sliding_window bm' = block_sliding_window bm \<and>
     watermark_blocks bm' = watermark_blocks bm \<and> num_total_gpu_blocks bm' = num_total_gpu_blocks bm"
  by (simp add: bm_shape_def)

text \<open>An operation on the table of one group leaves the others as they were.\<close>

lemma queues_ok_others:
  assumes "queues_ok E bm w r" and "bm_inv E bm'" and "bm_shape bm' = bm_shape bm"
    and "\<And>k. k \<noteq> k0 \<Longrightarrow> map_of (block_tables bm') k = map_of (block_tables bm) k"
    and "k0 \<notin> sid ` set (w @ r)"
  shows "queues_ok E bm' w r"
proof -
  have same: "map_of (block_tables bm') (sid g) = map_of (block_tables bm) (sid g)" if "g \<in> set (w @ r)" for g
    using assms(4,5) that by (metis imageI)
  have "waits bm' g" if "g \<in> set w" for g
    by (rule waits_frame [OF _ assms(3) same]) (use assms(1) that in \<open>auto simp: queues_ok_def\<close>)
  moreover have "runs bm' g" if "g \<in> set r" for g
    by (rule runs_frame [OF _ assms(3) same]) (use assms(1) that in \<open>auto simp: queues_ok_def\<close>)
  ultimately show ?thesis
    using assms(1,2) sched_ok_shape [OF assms(3)] by (simp add: queues_ok_def)
qed

section \<open>Changing the status of a single sequence\<close>

lemma single_status:
  assumes "single st g q" and "\<not> status_is_finished st" and "\<not> status_is_finished st'"
  shows "single st' (set_seqs_status st st' g) (q\<lparr>status := st'\<rparr>)"
proof -
  have v: "dict_values (seqs_dict g) = [q]" and q: "status q = st" using assms(1) by (auto simp: single_def)
  have v': "dict_values (seqs_dict (set_seqs_status st st' g)) = [q\<lparr>status := st'\<rparr>]"
    using v q by (simp add: dict_values_set_seqs_status)
  have "num_unfinished_seqs (set_seqs_status st st' g) = num_unfinished_seqs g"
    unfolding num_unfinished_seqs_def get_unfinished_seqs_def v v' using q assms(2,3) by (simp add: seq_is_finished_def)
  then have "get_max_num_running_seqs (set_seqs_status st st' g) = get_max_num_running_seqs g"
    by (simp add: get_max_num_running_seqs_def)
  then show ?thesis using assms(1) v' by (simp add: single_def)
qed

lemma sid_status [simp]: "sid (set_seqs_status st st' g) = sid g"
proof (cases "dict_values (seqs_dict g)")
  case Nil
  then show ?thesis by (simp add: sid_def dict_values_set_seqs_status)
next
  case (Cons q qs)
  then show ?thesis by (simp add: sid_def dict_values_set_seqs_status)
qed

lemma single_get_seqs: "single st g q \<Longrightarrow> get_seqs (Some st) g = [q]"
  by (auto simp: single_def get_seqs_Some)

lemma prefix_fits_status [simp]: "prefix_fits bm (set_seqs_status a b g) (q\<lparr>status := c\<rparr>) = prefix_fits bm g q"
  by (simp add: prefix_fits_def)

section \<open>The steps of the loops\<close>

lemma waits_group_fresh: "waits bm g \<Longrightarrow> group_fresh g bm"
  unfolding waits_def by (auto simp: group_fresh_def single_def get_seqs_Some prefix_fits_def)

lemma admit_ok:
  assumes "sched_ok E bm (g # w) r" and "can_allocate g bm = Inr OK"
  shows "\<exists>bm'. bm_allocate g bm = Inr bm' \<and> sched_ok E bm' w (set_seqs_status WAITING RUNNING g # r) \<and>
    covered bm' (set_seqs_status WAITING RUNNING g) \<and> (\<forall>h. sid h \<noteq> sid g \<longrightarrow> covered bm h \<longrightarrow> covered bm' h)"
proof -
  have inv: "bm_inv E bm" "block_sliding_window bm = None" "0 \<le> watermark_blocks bm" and wt: "waits bm g"
    and dist: "sid g \<notin> sid ` set (w @ r)" "distinct (map sid (w @ r))"
    using assms(1) by (auto simp: sched_ok_def queues_ok_def)
  obtain q where q: "single WAITING g q" "map_of (block_tables bm) (seq_id q) = None" "prefix_fits bm g q"
    using wt by (auto simp: waits_def)
  note fresh = waits_group_fresh [OF wt]
  have "needed_blocks g bm \<le> gpu_avail bm"
    using can_allocate_needed [OF inv(1) fresh inv(2) assms(2)] inv(3) by linarith
  from bm_allocate_ok [OF inv(1) fresh inv(2) this] q(1)
  obtain bm' t where bm': "bm_allocate g bm = Inr bm'" "bm_inv E bm'" "map_of (block_tables bm') (seq_id q) = Some t"
    "\<forall>k. k \<notin> seq_id ` {q} \<longrightarrow> map_of (block_tables bm') k = map_of (block_tables bm) k"
    "length t = length (logical_token_blocks q)" "\<forall>b \<in> set t. blk_device b = GPU"
    by (auto simp: single_def)
  have shape: "bm_shape bm' = bm_shape bm" by (rule bm_shape_allocate [OF inv(1) fresh bm'(1)])
  have "t \<noteq> []" using bm'(5) q(1) by (auto simp: single_def)
  then have "runs bm' (set_seqs_status WAITING RUNNING g)"
    unfolding runs_def using single_status [OF q(1)] bm'(3,5,6) q(3) prefix_fits_shape [OF shape]
    by (intro exI [of _ "q\<lparr>status := RUNNING\<rparr>"] exI [of _ t]) simp
  moreover have "covered bm' (set_seqs_status WAITING RUNNING g)"
    unfolding covered_def using single_status [OF q(1), of RUNNING] bm'(3,5)
    by (intro exI [of _ "q\<lparr>status := RUNNING\<rparr>"] exI [of _ t]) simp
  moreover have "covered bm' h" if "sid h \<noteq> sid g" "covered bm h" for h
    by (rule covered_frame [OF that(2)]) (use bm'(4) that(1) single_sid [OF q(1)] in simp)
  moreover have "queues_ok E bm' w r"
    by (rule queues_ok_others [OF sched_ok_queues [OF sched_ok_drop [OF assms(1)]] bm'(2) shape, of "seq_id q"])
      (use bm'(4) dist(1) single_sid [OF q(1)] in auto)
  moreover have "no_stray bm' (set_seqs_status WAITING RUNNING g # r)"
  proof (rule no_strayI)
    fix k t' assume "map_of (block_tables bm') k = Some t'"
    then show "k \<in> sid ` set (set_seqs_status WAITING RUNNING g # r)"
      using bm'(4) no_stray_key [of bm r k] assms(1) single_sid [OF q(1)] by (cases "k = seq_id q") (auto simp: sched_ok_def)
  qed
  moreover have "one_kind (w @ set_seqs_status WAITING RUNNING g # r)"
    using assms(1) by (auto simp: sched_ok_def queues_ok_def one_kind_def)
  ultimately show ?thesis using bm'(1) dist by (auto simp: sched_ok_def queues_ok_def)
qed

lemma sched_ok_running_head:
  assumes "sched_ok E bm w (g # r)"
  obtains q t where "single RUNNING g q" "map_of (block_tables bm) (seq_id q) = Some t" "t \<noteq> []"
    "blk_device (last t) = GPU" "prefix_fits bm g q" "sid g = seq_id q" "seq_id q \<notin> sid ` set (w @ r)"
    "queues_ok E bm w r" "bm_inv E bm" "block_sliding_window bm = None"
    "\<forall>k. map_of (block_tables bm) k \<noteq> None \<longrightarrow> k \<noteq> seq_id q \<longrightarrow> k \<in> sid ` set r" "table_fits q t"
proof -
  obtain q t where q: "single RUNNING g q" "map_of (block_tables bm) (seq_id q) = Some t" "t \<noteq> []"
    "blk_device (last t) = GPU" "prefix_fits bm g q" and fits: "table_fits q t"
    using assms by (auto simp: sched_ok_def queues_ok_def runs_def)
  note q
  moreover have "sid g = seq_id q" by (rule single_sid [OF q(1)])
  moreover from this have "seq_id q \<notin> sid ` set (w @ r)" using assms by (auto simp: sched_ok_def queues_ok_def)
  moreover have "queues_ok E bm w r" "bm_inv E bm" "block_sliding_window bm = None"
    using assms by (auto simp: sched_ok_def queues_ok_def one_kind_def)
  moreover have "k \<in> sid ` set r" if "map_of (block_tables bm) k \<noteq> None" "k \<noteq> seq_id q" for k
    using no_stray_key [of bm "g # r" k] that assms single_sid [OF q(1)] by (auto simp: sched_ok_def)
  then have "\<forall>k. map_of (block_tables bm) k \<noteq> None \<longrightarrow> k \<noteq> seq_id q \<longrightarrow> k \<in> sid ` set r" by blast
  moreover note fits
  ultimately show thesis by (rule that)
qed

lemma append_ok:
  assumes "sched_ok E bm w (g # r)" and "can_append_slot g bm"
  shows "\<exists>bm' copies'. sch_append_slot g (bm, copies) = Inr (bm', copies') \<and> sched_ok E bm' w (g # r) \<and>
    writable E bm' g \<and> (\<forall>h \<in> set r. writable E bm h \<longrightarrow> writable E bm' h) \<and>
    covered bm' g \<and> (\<forall>h \<in> set r. covered bm h \<longrightarrow> covered bm' h)"
proof -
  obtain q t where q: "single RUNNING g q" "map_of (block_tables bm) (seq_id q) = Some t" "t \<noteq> []"
    "blk_device (last t) = GPU" "prefix_fits bm g q" "sid g = seq_id q" "seq_id q \<notin> sid ` set (w @ r)"
    "queues_ok E bm w r" "bm_inv E bm" "block_sliding_window bm = None"
    "\<forall>k. map_of (block_tables bm) k \<noteq> None \<longrightarrow> k \<noteq> seq_id q \<longrightarrow> k \<in> sid ` set r" "table_fits q t"
    by (rule sched_ok_running_head [OF assms(1)])
  have avail: "0 < gpu_avail bm"
    using assms(2) single_get_seqs [OF q(1)]
    by (auto simp: can_append_slot_def num_seqs_def get_num_free_blocks_def)
  obtain cow u t' where u: "append_slot q bm = Inr (cow, u)" "bm_inv E u"
    "block_tables u = dict_set (seq_id q) t' (block_tables bm)" "bm_frame bm (u\<lparr>block_tables := block_tables bm\<rparr>)"
    "t' \<noteq> []" "blk_device (last t') = GPU" "owned E u (last t')"
    "gpu_avail bm - 1 \<le> gpu_avail u" "\<forall>b. b \<notin> set t \<and> owned E bm b \<longrightarrow> owned E u b"
    "if length t < length (logical_token_blocks q) then cow = None \<and> butlast t' = t
     else butlast t' = butlast t \<and>
       (if owned E bm (last t) then cow = None \<and> t' = t
        else cow = Some (blk_number (last t), blk_number (last t')) \<and> last t' \<notin># E + held bm)"
    using append_slot_ok [OF q(9,2,10) avail q(3,4)] by (elim exE conjE) rule
  have pos: "0 < length t" "0 < length t'" using q(3) u(5) by simp_all
  have "butlast t' = (if length t < length (logical_token_blocks q) then t else butlast t)"
    using u(10) by (simp split: if_splits)
  then have "length t' - 1 = (if length t < length (logical_token_blocks q) then length t else length t - 1)"
    by (metis length_butlast)
  then have len: "length t' = length (logical_token_blocks q)"
    using q(12) pos unfolding table_fits_def by (auto simp del: length_greater_0_conv split: if_splits)
  have shape: "bm_shape u = bm_shape bm" using bm_shape_frame [OF u(4)] by simp
  have tabs: "map_of (block_tables u) k = (if k = seq_id q then Some t' else map_of (block_tables bm) k)" for k
    by (simp add: u(3) update_conv')
  have "queues_ok E u w r"
    by (rule queues_ok_others [OF q(8) u(2) shape, of "seq_id q"]) (use q(7) tabs in auto)
  moreover have "runs u g"
    using q(1,5) u(5,6) len tabs prefix_fits_shape [OF shape] by (auto simp: runs_def)
  moreover have "no_stray u (g # r)"
  proof (rule no_strayI)
    fix k t1 assume "map_of (block_tables u) k = Some t1"
    then show "k \<in> sid ` set (g # r)" using q(11) tabs q(6) by (cases "k = seq_id q") auto
  qed
  ultimately have "sched_ok E u w (g # r)" using assms(1) by (auto simp: sched_ok_def queues_ok_def)
  moreover have "covered u g" using q(1) len tabs by (auto simp: covered_def)
  moreover have "covered u h" if "h \<in> set r" "covered bm h" for h
    by (rule covered_frame [OF that(2)]) (use q(7) tabs imageI [OF that(1), of sid] in auto)
  moreover have "writable E u g" using u(7) tabs q(6) by (simp add: writable_def)
  moreover have "writable E u h" if "h \<in> set r" "writable E bm h" for h
  proof -
    have neq: "sid h \<noteq> seq_id q" using q(7) that(1) by (metis UnI2 imageI set_append)
    have "owned E u (last th)" if th: "map_of (block_tables bm) (sid h) = Some th" for th
    proof -
      have own: "owned E bm (last th)" using \<open>writable E bm h\<close> th by (simp add: writable_def)
      have "runs bm h" using q(8) \<open>h \<in> set r\<close> by (simp add: queues_ok_def)
      then have "th \<noteq> []" using th by (auto simp: runs_def dest!: single_sid)
      then have "last th \<notin> set t" using owned_not_shared [OF own th _ q(2) neq] by simp
      then show ?thesis using own u(9) by blast
    qed
    then show ?thesis using tabs neq by (simp add: writable_def)
  qed
  moreover have "sch_append_slot g (bm, copies) = Inr (u, copy_add cow copies)"
    using u(1) single_get_seqs [OF q(1)] by (simp add: sch_append_slot_def)
  ultimately show ?thesis by blast
qed

text \<open>Freeing the sequence of a running group takes the group out of the invariant and disturbs no other.\<close>

lemma free_head_ok:
  assumes "sched_ok E bm w (g # r)" and "seq_id q' = sid g"
  shows "\<exists>u. bm_free q' bm = Inr u \<and> sched_ok E u w r \<and> bm_shape u = bm_shape bm \<and>
    map_of (block_tables u) (sid g) = None \<and> (\<forall>h \<in> set r. writable E bm h \<longrightarrow> writable E u h) \<and>
    (\<forall>h. sid h \<noteq> sid g \<longrightarrow> covered bm h \<longrightarrow> covered u h)"
proof -
  obtain q t where q: "single RUNNING g q" "map_of (block_tables bm) (seq_id q) = Some t" "t \<noteq> []"
    "blk_device (last t) = GPU" "prefix_fits bm g q" "sid g = seq_id q" "seq_id q \<notin> sid ` set (w @ r)"
    "queues_ok E bm w r" "bm_inv E bm" "block_sliding_window bm = None"
    "\<forall>k. map_of (block_tables bm) k \<noteq> None \<longrightarrow> k \<noteq> seq_id q \<longrightarrow> k \<in> sid ` set r" "table_fits q t"
    by (rule sched_ok_running_head [OF assms(1)])
  obtain u where u: "bm_free q' bm = Inr u" "bm_inv E u" "block_tables u = dict_del (seq_id q) (block_tables bm)"
    using bm_free_ok [OF q(9), of q'] assms(2) q(6) by auto
  have shape: "bm_shape u = bm_shape bm" by (rule bm_shape_free [OF u(1)])
  have tabs: "map_of (block_tables u) k = (if k = seq_id q then None else map_of (block_tables bm) k)" for k
    by (simp add: u(3) delete_conv')
  have "queues_ok E u w r"
    by (rule queues_ok_others [OF q(8) u(2) shape, of "seq_id q"]) (use q(7) tabs in auto)
  moreover have "no_stray u r"
  proof (rule no_strayI)
    fix k t1 assume "map_of (block_tables u) k = Some t1"
    then show "k \<in> sid ` set r" using q(11) tabs by (cases "k = seq_id q") auto
  qed
  moreover have "writable E u h" if "h \<in> set r" "writable E bm h" for h
  proof -
    have neq: "sid h \<noteq> seq_id q" using q(7) that(1) by (metis UnI2 imageI set_append)
    have "owned E u (last th)" if th: "map_of (block_tables bm) (sid h) = Some th" for th
    proof -
      have own: "owned E bm (last th)" using \<open>writable E bm h\<close> th by (simp add: writable_def)
      have "runs bm h" using q(8) \<open>h \<in> set r\<close> by (simp add: queues_ok_def)
      then have "th \<noteq> []" using th by (auto simp: runs_def dest!: single_sid)
      then have "last th \<notin> set t" using owned_not_shared [OF own th _ q(2) neq] by simp
      then show ?thesis using bm_free_owned [OF q(9) u(1) _ own] q(2,6) assms(2) by simp
    qed
    then show ?thesis using tabs neq by (simp add: writable_def)
  qed
  moreover have "covered u h" if "sid h \<noteq> sid g" "covered bm h" for h
    by (rule covered_frame [OF that(2)]) (use q(6) tabs that(1) in simp)
  ultimately show ?thesis using u(1) shape tabs q(6) by (auto simp: sched_ok_def)
qed

lemma preempt_ok:
  assumes "sched_ok E (ds_bm st) (ds_waiting st) (g # r)"
  shows "\<exists>bm'. preempt None g st = Inr (st\<lparr>ds_bm := bm', ds_waiting := set_seqs_status RUNNING WAITING g # ds_waiting st,
        ds_preempted := ds_preempted st @ [set_seqs_status RUNNING WAITING g]\<rparr>) \<and>
    sched_ok E bm' (set_seqs_status RUNNING WAITING g # ds_waiting st) r \<and>
    (\<forall>h \<in> set r. writable E (ds_bm st) h \<longrightarrow> writable E bm' h) \<and>
    (\<forall>h. sid h \<noteq> sid g \<longrightarrow> covered (ds_bm st) h \<longrightarrow> covered bm' h)"
proof -
  let ?bm = "ds_bm st" and ?w = "ds_waiting st"
  obtain q where q: "single RUNNING g q" "prefix_fits ?bm g q" "sid g = seq_id q" "seq_id q \<notin> sid ` set (?w @ r)"
    using sched_ok_running_head [OF assms] by metis
  let ?q = "q\<lparr>status := WAITING\<rparr>"
  obtain u where u: "bm_free ?q ?bm = Inr u" "sched_ok E u ?w r" "bm_shape u = bm_shape ?bm"
    "map_of (block_tables u) (sid g) = None" "\<forall>h \<in> set r. writable E ?bm h \<longrightarrow> writable E u h"
    "\<forall>h. sid h \<noteq> sid g \<longrightarrow> covered ?bm h \<longrightarrow> covered u h"
    using free_head_ok [OF assms, of ?q] q(3) by auto
  have run: "preempt None g st = Inr (st\<lparr>ds_bm := u, ds_waiting := set_seqs_status RUNNING WAITING g # ?w,
      ds_preempted := ds_preempted st @ [set_seqs_status RUNNING WAITING g]\<rparr>)"
    using q(1) single_get_seqs [OF q(1)] u(1) by (simp add: preempt_def preempt_by_recompute_def single_def)
  have "waits u (set_seqs_status RUNNING WAITING g)"
    unfolding waits_def using single_status [OF q(1)] u(4) q(2,3) prefix_fits_shape [OF u(3)]
    by (intro exI [of _ ?q]) simp
  moreover have "sid g \<notin> sid ` set (?w @ r)" using q(3,4) by simp
  moreover have "one_kind ((set_seqs_status RUNNING WAITING g # ?w) @ r)"
    using assms by (auto simp: sched_ok_def queues_ok_def one_kind_def)
  ultimately have "sched_ok E u (set_seqs_status RUNNING WAITING g # ?w) r"
    using u(2) by (auto simp: sched_ok_def queues_ok_def)
  then show ?thesis using run u(5,6) by blast
qed

section \<open>The loops\<close>

lemma can_allocate_returns:
  assumes "waits bm g"
  shows "\<exists>st. can_allocate g bm = Inr st"
proof -
  obtain q where "single WAITING g q" using assms by (auto simp: waits_def)
  then show ?thesis using single_get_seqs by (simp add: can_allocate_def Let_def)
qed

lemma admit_waiting_ok:
  assumes "sched_ok E (ps_bm st) (ps_leftover st @ gs) (r @ ps_scheduled st)" and "\<forall>g \<in> set (ps_scheduled st). covered (ps_bm st) g"
  shows "\<exists>st' rest. admit_waiting cfg gs st = Inr (st', rest) \<and>
    sched_ok E (ps_bm st') (ps_leftover st' @ rest) (r @ ps_scheduled st') \<and> (\<forall>g \<in> set (ps_scheduled st'). covered (ps_bm st') g)"
  using assms
proof (induction gs arbitrary: st)
  case Nil
  then show ?case by auto
next
  case (Cons g gs)
  let ?ign = "st\<lparr>ps_ignored := ps_ignored st @ [set_seqs_status WAITING FINISHED_IGNORED g]\<rparr>"
  have head: "sched_ok E (ps_bm st) (g # ps_leftover st @ gs) (r @ ps_scheduled st)"
    by (rule sched_ok_mset [OF Cons.prems(1)]) simp_all
  then have wt: "waits (ps_bm st) g" by (simp add: sched_ok_def queues_ok_def)
  obtain q where q: "single WAITING g q" using wt by (auto simp: waits_def)
  have ws: "get_seqs (Some WAITING) g = [q]" by (rule single_get_seqs [OF q])
  have ignore: "\<exists>st' rest. admit_waiting cfg gs ?ign = Inr (st', rest) \<and>
    sched_ok E (ps_bm st') (ps_leftover st' @ rest) (r @ ps_scheduled st') \<and> (\<forall>g \<in> set (ps_scheduled st'). covered (ps_bm st') g)"
    by (rule Cons.IH) (use sched_ok_drop [OF head] Cons.prems(2) in simp_all)
  obtain status where status: "can_allocate g (ps_bm st) = Inr status" using can_allocate_returns [OF wt] by blast
  show ?case
  proof (cases "seq_get_len q > prompt_limit cfg \<or> status = NEVER")
    case True
    then show ?thesis using ignore ws status by (auto simp: Let_def)
  next
    case nign: False
    show ?thesis
    proof (cases "status = LATER")
      case True
      then show ?thesis using nign Cons.prems ws status by (auto simp: Let_def)
    next
      case False
      then have ok: "status = OK" using nign by (cases status) auto
      show ?thesis
      proof (cases "lora_full cfg (ps_curr_loras st) g")
        case True
        have "\<exists>st' rest. admit_waiting cfg gs (st\<lparr>ps_leftover := g # ps_leftover st\<rparr>) = Inr (st', rest) \<and>
          sched_ok E (ps_bm st') (ps_leftover st' @ rest) (r @ ps_scheduled st') \<and> (\<forall>g \<in> set (ps_scheduled st'). covered (ps_bm st') g)"
          by (rule Cons.IH) (use head Cons.prems(2) in simp_all)
        then show ?thesis using nign ok True ws status by (simp add: Let_def)
      next
        case nl: False
        obtain bm' where bm': "bm_allocate g (ps_bm st) = Inr bm'"
          "sched_ok E bm' (ps_leftover st @ gs) (set_seqs_status WAITING RUNNING g # r @ ps_scheduled st)"
          "covered bm' (set_seqs_status WAITING RUNNING g)" "\<forall>h. sid h \<noteq> sid g \<longrightarrow> covered (ps_bm st) h \<longrightarrow> covered bm' h"
          using admit_ok [OF head] status ok by auto
        have "sid g \<notin> sid ` set (ps_scheduled st)" using head by (auto simp: sched_ok_def queues_ok_def)
        then have cov: "\<forall>h \<in> set (ps_scheduled st). covered bm' h" using bm'(4) Cons.prems(2) by (metis imageI)
        let ?st = "st\<lparr>ps_bm := bm', ps_seq_lens := ps_seq_lens st @ [seq_get_len q],
            ps_curr_loras := lora_add cfg g (ps_curr_loras st),
            ps_num_curr_seqs := ps_num_curr_seqs st + get_max_num_running_seqs g,
            ps_scheduled := ps_scheduled st @ [set_seqs_status WAITING RUNNING g]\<rparr>"
        have adm: "\<exists>st' rest. admit_waiting cfg gs ?st = Inr (st', rest) \<and>
          sched_ok E (ps_bm st') (ps_leftover st' @ rest) (r @ ps_scheduled st') \<and> (\<forall>g \<in> set (ps_scheduled st'). covered (ps_bm st') g)"
          by (rule Cons.IH) (use sched_ok_mset [OF bm'(2)] cov bm'(3) in auto)
        have step: "admit_waiting cfg (g # gs) st \<in> {Inr (st, g # gs), admit_waiting cfg gs ?st}"
          using nign ok nl ws status bm'(1) by (simp add: Let_def sch_allocate_def)
        show ?thesis using step adm Cons.prems by (auto simp del: admit_waiting.simps)
      qed
    qed
  qed
qed

lemma decode_loop_ok:
  assumes "sched_ok E (ds_bm st) (ds_waiting st) (gs @ ds_running st)"
    and "\<forall>h \<in> set (ds_running st). writable E (ds_bm st) h" and "\<forall>h \<in> set (ds_running st). covered (ds_bm st) h"
  shows "\<exists>st'. decode_loop gs st = Inr st' \<and> sched_ok E (ds_bm st') (ds_waiting st') (ds_running st') \<and>
    (\<forall>h \<in> set (ds_running st'). writable E (ds_bm st') h) \<and> (\<forall>h \<in> set (ds_running st'). covered (ds_bm st') h) \<and>
    ds_swapped st' = ds_swapped st \<and> blocks_to_swap_in (ds_io st') = blocks_to_swap_in (ds_io st) \<and>
    blocks_to_swap_out (ds_io st') = blocks_to_swap_out (ds_io st)"
  using assms
proof (induction gs st rule: decode_loop.induct)
  case (1 st)
  then show ?case by simp
next
  case (2 g gs st)
  show ?case
  proof (cases "can_append_slot g (ds_bm st)")
    case True
    obtain bm' copies' where ap: "sch_append_slot g (ds_bm st, blocks_to_copy (ds_io st)) = Inr (bm', copies')"
      "sched_ok E bm' (ds_waiting st) (g # gs @ ds_running st)" "writable E bm' g"
      "\<forall>h \<in> set (gs @ ds_running st). writable E (ds_bm st) h \<longrightarrow> writable E bm' h"
      "covered bm' g" "\<forall>h \<in> set (gs @ ds_running st). covered (ds_bm st) h \<longrightarrow> covered bm' h"
      using append_ok [of E "ds_bm st" "ds_waiting st" g "gs @ ds_running st" "blocks_to_copy (ds_io st)"] True "2.prems"(1)
      unfolding append_Cons by blast
    let ?st = "st\<lparr>ds_bm := bm', ds_io := (ds_io st)\<lparr>blocks_to_copy := copies'\<rparr>, ds_running := ds_running st @ [g]\<rparr>"
    have "sched_ok E bm' (ds_waiting st) (gs @ ds_running st @ [g])"
      by (rule sched_ok_mset [OF ap(2)]) simp_all
    then show ?thesis
      using "2.IH"(1) [OF True ap(1) refl] ap(1,3-6) "2.prems"(2,3) True by simp
  next
    case False
    show ?thesis
    proof (cases "gs = []")
      case True
      obtain bm' where p: "preempt None g st = Inr (st\<lparr>ds_bm := bm', ds_waiting := set_seqs_status RUNNING WAITING g # ds_waiting st,
        ds_preempted := ds_preempted st @ [set_seqs_status RUNNING WAITING g]\<rparr>)"
        "sched_ok E bm' (set_seqs_status RUNNING WAITING g # ds_waiting st) (ds_running st)"
        "\<forall>h \<in> set (ds_running st). writable E (ds_bm st) h \<longrightarrow> writable E bm' h"
        "\<forall>h. sid h \<noteq> sid g \<longrightarrow> covered (ds_bm st) h \<longrightarrow> covered bm' h"
        using preempt_ok [of E st g "ds_running st"] "2.prems"(1) True by auto
      have "sid g \<notin> sid ` set (ds_running st)" using "2.prems"(1) by (auto simp: sched_ok_def queues_ok_def)
      then have "\<forall>h \<in> set (ds_running st). covered bm' h" using p(4) "2.prems"(3) by (metis imageI)
      then show ?thesis using p False True "2.prems"(2) by simp
    next
      case ne: False
      have lastg: "sched_ok E (ds_bm st) (ds_waiting st) (last gs # (g # butlast gs) @ ds_running st)"
      proof (rule sched_ok_mset [OF "2.prems"(1) refl])
        have "mset gs = mset (butlast gs @ [last gs])" using ne by simp
        then show "mset (last gs # (g # butlast gs) @ ds_running st) = mset ((g # gs) @ ds_running st)" by simp
      qed
      from preempt_ok [OF lastg] obtain bm' where p:
        "preempt None (last gs) st = Inr (st\<lparr>ds_bm := bm', ds_waiting := set_seqs_status RUNNING WAITING (last gs) # ds_waiting st,
          ds_preempted := ds_preempted st @ [set_seqs_status RUNNING WAITING (last gs)]\<rparr>)"
        "sched_ok E bm' (set_seqs_status RUNNING WAITING (last gs) # ds_waiting st) ((g # butlast gs) @ ds_running st)"
        "\<forall>h \<in> set ((g # butlast gs) @ ds_running st). writable E (ds_bm st) h \<longrightarrow> writable E bm' h"
        "\<forall>h. sid h \<noteq> sid (last gs) \<longrightarrow> covered (ds_bm st) h \<longrightarrow> covered bm' h"
        by blast
      have "sid (last gs) \<notin> sid ` set (ds_running st)" using lastg by (auto simp: sched_ok_def queues_ok_def)
      then have "\<forall>h \<in> set (ds_running st). covered bm' h" using p(4) "2.prems"(3) by (metis imageI)
      then show ?thesis
        using "2.IH"(2) [OF False ne p(1)] p "2.prems"(2) False ne by simp
    qed
  qed
qed

section \<open>The step\<close>

lemma new_scheduler_outputs_no_swap:
  assumes "sched_ok E bm w (r @ gs)" and "blocks_to_swap_out io = []"
  shows "\<exists>out. new_scheduler_outputs gs p n io ign = Inr out"
proof -
  have "\<not> mixed_ids gs" using assms(1) by (auto simp: sched_ok_def queues_ok_def one_kind_def mixed_ids_def)
  then show ?thesis using assms(2) by (simp add: new_scheduler_outputs_def Let_def)
qed

lemma schedule_iter_inv:
  assumes "sched_ok E (sch_bm s) (waiting s) (running s)" and "swapped s = []"
  shows "\<exists>out s'. sch_schedule_iter now s = Inr (out, s') \<and> sched_ok E (sch_bm s') (waiting s') (running s') \<and>
    swapped s' = [] \<and> (\<not> prompt_run out \<longrightarrow> (\<forall>g \<in> set (running s'). writable E (sch_bm s') g)) \<and>
    (\<forall>g \<in> set (scheduled_seq_groups out). covered (sch_bm s') g) \<and>
    blocks_to_swap_in (out_io out) = [] \<and> blocks_to_swap_out (out_io out) = []"
proof -
  have "sched_ok E (ps_bm (prompt_start s)) (ps_leftover (prompt_start s) @ waiting s) (running s @ ps_scheduled (prompt_start s))"
    using assms(1) by (simp add: prompt_start_def)
  from admit_waiting_ok [OF this] obtain st rest where adm: "admit_waiting s (waiting s) (prompt_start s) = Inr (st, rest)"
    "sched_ok E (ps_bm st) (ps_leftover st @ rest) (running s @ ps_scheduled st)" "\<forall>g \<in> set (ps_scheduled st). covered (ps_bm st) g"
    by (force simp: prompt_start_def)
  let ?s1 = "s\<lparr>sch_bm := ps_bm st, waiting := rev (ps_leftover st) @ rest, running := running s @ ps_scheduled st\<rparr>"
  have ok1: "sched_ok E (sch_bm ?s1) (waiting ?s1) (running ?s1)"
    by simp (rule sched_ok_mset [OF adm(2)], simp_all)
  show ?thesis
  proof (cases "ps_scheduled st \<noteq> [] \<or> ps_ignored st \<noteq> []")
    case True
    obtain out where out: "new_scheduler_outputs (ps_scheduled st) True
       (if ps_seq_lens st \<noteq> [] then length (ps_seq_lens st) * max_list (ps_seq_lens st) else 0) no_io (ps_ignored st) = Inr out"
      using new_scheduler_outputs_no_swap [OF adm(2)] unfolding no_io_def by fastforce
    then have "schedule_prompts s = Inr (Some out, ?s1)"
      using True by (simp add: schedule_prompts_def adm(1) Let_def)
    then have "sch_schedule_iter now s = Inr (out, ?s1)" using assms(2) by (simp add: sch_schedule_iter_def)
    moreover have "prompt_run out" "blocks_to_swap_in (out_io out) = []" "blocks_to_swap_out (out_io out) = []"
      using new_scheduler_outputs_fields(2,5) [OF out] by (simp_all add: no_io_def)
    moreover have "\<forall>g \<in> set (scheduled_seq_groups out). covered (sch_bm ?s1) g"
      using adm(3) mset_eq_setD [OF new_scheduler_outputs_fields(4) [OF out]] by simp
    ultimately show ?thesis using ok1 assms(2) by auto
  next
    case False
    then have p: "schedule_prompts s = Inr (None, ?s1)" by (simp add: schedule_prompts_def adm(1) Let_def)
    have "sched_ok E (ds_bm (decode_start ?s1)) (ds_waiting (decode_start ?s1))
        (sort_by_priority now (running ?s1) @ ds_running (decode_start ?s1))"
      using sched_ok_mset [OF ok1 refl] fcfs.sort_by_mset by (simp add: decode_start_def)
    from decode_loop_ok [OF this] obtain ds where ds:
      "decode_loop (sort_by_priority now (running ?s1)) (decode_start ?s1) = Inr ds"
      "sched_ok E (ds_bm ds) (ds_waiting ds) (ds_running ds)" "\<forall>h \<in> set (ds_running ds). writable E (ds_bm ds) h"
      "\<forall>h \<in> set (ds_running ds). covered (ds_bm ds) h" "ds_swapped ds = []" "blocks_to_swap_in (ds_io ds) = []" "blocks_to_swap_out (ds_io ds) = []"
      using assms(2) by (auto simp: decode_start_def no_io_def)
    obtain out where out: "new_scheduler_outputs (ds_running ds) False
        (sum_list (map (num_seqs (Some RUNNING)) (ds_running ds))) (ds_io ds) [] = Inr out"
      using new_scheduler_outputs_no_swap [of E "ds_bm ds" "ds_waiting ds" "[]" "ds_running ds", unfolded append_Nil, OF ds(2,7)] by blast
    have sorted0: "sort_by_priority now [] = []" by (simp add: sort_by_priority_def)
    have "schedule_decode now ?s1 = Inr (out, ?s1\<lparr>sch_bm := ds_bm ds, waiting := ds_waiting ds, running := ds_running ds, swapped := []\<rparr>)"
      unfolding schedule_decode_def ds(1) ebind_simps Let_def ds(5) sorted0
      using out by (cases "ds_preempted ds = []") (simp_all add: swap_in_start_def)
    then have "sch_schedule_iter now s = Inr (out, ?s1\<lparr>sch_bm := ds_bm ds, waiting := ds_waiting ds, running := ds_running ds, swapped := []\<rparr>)"
      using assms(2) p by (simp add: sch_schedule_iter_def)
    then show ?thesis
      using ds new_scheduler_outputs_fields(5) [OF out] mset_eq_setD [OF new_scheduler_outputs_fields(4) [OF out]] by auto
  qed
qed

text \<open>C22: \<open>_schedule\<close> on single-sequence requests never raises: it keeps the invariant that links the queues
  to the block tables, swaps nothing, and after a decode step the block that the next token of each
  running sequence goes to is in no other table.\<close>

theorem schedule_iter_ok:
  assumes "sched_ok E (sch_bm s) (waiting s) (running s)" and "swapped s = []"
  shows "\<exists>out s'. sch_schedule_iter now s = Inr (out, s') \<and> sched_ok E (sch_bm s') (waiting s') (running s') \<and>
    swapped s' = [] \<and> (\<not> prompt_run out \<longrightarrow> (\<forall>g \<in> set (running s'). writable E (sch_bm s') g)) \<and>
    blocks_to_swap_in (out_io out) = [] \<and> blocks_to_swap_out (out_io out) = []"
  using schedule_iter_inv [OF assms, of now] by blast

end
