(* ===== verification/Weight_Loading.thy ===== *)
theory Weight_Loading
  imports Sched_Inv
begin

text \<open>
  \<open>increase_layer_weight_on_comp_gpu\<close>: when nothing waits, GPU blocks are given up for the weights of
  more layers. Under the invariant of the loader (tables are not shared, released blocks are at the
  top) the step never fails: the range it releases always fits, every used block of the range has a
  free block below to go to, and the chains of copies end.
\<close>

section \<open>The number of layers\<close>

declare layers_to_load_loop.simps [simp del]

lemma layers_to_load_loop_fits:
  assumes "layers_to_load_loop free blk_num cached new_cached last_layers = Some n"
    and "0 \<le> blk_num" and "new_cached \<le> cached + 2"
    and "\<And>m. last_layers = Some m \<Longrightarrow> blk_num * m \<le> free \<and> 0 \<le> m"
    and "0 \<le> new_cached"
  shows "blk_num * n \<le> free \<and> 0 \<le> n"
  using assms
proof (induction free blk_num cached new_cached last_layers rule: layers_to_load_loop.induct)
  case (1 free blk_num cached new_cached last_layers)
  let ?n = "cached + 2 - new_cached"
  show ?case
  proof (cases "free \<ge> blk_num * ?n")
    case False
    then show ?thesis using "1.prems" by (simp add: layers_to_load_loop.simps [of _ _ _ new_cached])
  next
    case fits: True
    show ?thesis
    proof (cases "cached - ?n \<le> 0")
      case True
      then show ?thesis using "1.prems" fits by (simp add: layers_to_load_loop.simps [of _ _ _ new_cached])
    next
      case False
      then have "layers_to_load_loop free blk_num cached (new_cached div 2) (Some ?n) = Some n"
        using "1.prems"(1) fits by (simp add: layers_to_load_loop.simps [of _ _ _ new_cached])
      then show ?thesis
        by (rule "1.IH" [OF refl fits False]) (use "1.prems" fits in \<open>auto\<close>)
    qed
  qed
qed

lemma layers_to_load_fits:
  assumes "layers_to_load free blk_num cached = Some n" and "0 \<le> blk_num" and "0 \<le> cached"
  shows "blk_num * n \<le> free \<and> 0 \<le> n"
  by (rule layers_to_load_loop_fits [OF assms(1) [unfolded layers_to_load_def] assms(2)])
    (use assms(3) in auto)

section \<open>Room below\<close>

definition weights_ok :: "block_id multiset \<Rightarrow> block_manager \<Rightarrow> bool" where
  "weights_ok E s \<longleftrightarrow> bm_inv E s \<and> num_total_gpu_blocks s = ba_num_blocks (gpu_allocator s) \<and>
     actual_gpu_blk_rng_end s \<le> int (num_total_gpu_blocks s) \<and>
     (\<forall>b \<in> set (free_blocks (gpu_allocator s)). int (blk_number b) < actual_gpu_blk_rng_end s) \<and>
     (\<forall>b \<in># E. actual_gpu_blk_rng_end s \<le> int (blk_number b)) \<and> prefix_refs (prefix_heap s) = {#} \<and>
     (\<forall>b \<in># table_refs (block_tables s). blk_device b = GPU \<and> count (table_refs (block_tables s)) b = 1)"

lemma reorg_room:
  assumes "alloc_ok GPU (gpu_allocator s) h" and "0 \<le> lo"
    and "\<forall>b \<in> set (free_blocks (gpu_allocator s)). int (blk_number b) < hi"
    and "hi - lo \<le> int (length (free_blocks (gpu_allocator s)))"
  shows "length (filter (\<lambda>b. b \<notin> set (free_blocks (gpu_allocator s))) (gpu_range lo hi))
    \<le> length (filter (\<lambda>b. int (blk_number b) < lo) (free_blocks (gpu_allocator s)))"
proof -
  let ?fl = "free_blocks (gpu_allocator s)" and ?R = "gpu_range lo hi"
  let ?P = "\<lambda>b. int (blk_number b) < lo"
  have fl: "distinct ?fl" "\<forall>b \<in> set ?fl. blk_device b = GPU" using assms(1) by (auto simp: alloc_ok_def)
  have "set (filter (\<lambda>b. b \<in> set ?fl) ?R) = set (filter (\<lambda>b. \<not> ?P b) ?fl)"
    using set_gpu_range [OF assms(2), of hi] fl(2) assms(3) by (auto simp: in_range_def)
  then have "length (filter (\<lambda>b. b \<in> set ?fl) ?R) = length (filter (\<lambda>b. \<not> ?P b) ?fl)"
    using distinct_card [of "filter (\<lambda>b. b \<in> set ?fl) ?R"] distinct_card [of "filter (\<lambda>b. \<not> ?P b) ?fl"]
      distinct_gpu_range [OF assms(2), of hi] fl(1) by (metis distinct_filter)
  moreover have "length (filter (\<lambda>b. b \<in> set ?fl) ?R) + length (filter (\<lambda>b. b \<notin> set ?fl) ?R) = nat (hi - lo)"
    using sum_length_filter_compl [of "\<lambda>b. b \<in> set ?fl" ?R] by (simp add: gpu_range_def)
  moreover have "length (filter ?P ?fl) + length (filter (\<lambda>b. \<not> ?P b) ?fl) = length ?fl"
    by (rule sum_length_filter_compl)
  ultimately show ?thesis using assms(4) by linarith
qed

lemma free_below:
  assumes "alloc_ok GPU (gpu_allocator s) h" and "\<forall>b \<in> set (free_blocks (gpu_allocator s)). int (blk_number b) < hi"
    and "free_blocks (gpu_allocator s) \<noteq> [] \<or> 0 \<le> hi"
  shows "int (length (free_blocks (gpu_allocator s))) \<le> hi"
proof -
  let ?fl = "free_blocks (gpu_allocator s)"
  have hi: "0 \<le> hi" using assms(2,3) by (cases ?fl) auto
  have fl: "distinct ?fl" "\<forall>b \<in> set ?fl. blk_device b = GPU" using assms(1) by (auto simp: alloc_ok_def)
  have "length ?fl = card (set ?fl)" using distinct_card [OF fl(1)] by simp
  also have "\<dots> \<le> card (set (gpu_range 0 hi))"
  proof (rule card_mono [OF finite_set])
    show "set ?fl \<subseteq> set (gpu_range 0 hi)"
      using set_gpu_range [of 0 hi] fl(2) assms(2) by (auto simp: in_range_def)
  qed
  also have "\<dots> \<le> length (gpu_range 0 hi)" by (rule card_length)
  also have "\<dots> = nat hi" by (simp add: gpu_range_def)
  finally show ?thesis using hi by linarith
qed

lemma count_image_inj_on:
  assumes "inj_on f (set_mset M)" and "x \<in># M"
  shows "count (image_mset f M) (f x) = count M x"
proof -
  have "f -` {f x} \<inter> set_mset M = {x}" using assms by (auto dest: inj_onD)
  then show ?thesis by (simp add: count_image_mset)
qed

theorem reorganize_weights_ok:
  assumes "weights_ok E s" and "0 \<le> actual_gpu_blk_rng_end s" and "0 \<le> blk_num_per_layer kv" and "0 \<le> n"
    and "blk_num_per_layer kv * n \<le> int (gpu_avail s)"
  shows "\<exists>ret u mv. reorganize_gpu_blocks n kv s =
      Inr (ret, kv\<lparr>cached_layer_num := cached_layer_num kv - n, load_more_layer_on_card_num := n\<rparr>, u) \<and>
    weights_ok (E + mset (gpu_range (actual_gpu_blk_rng_end s - blk_num_per_layer kv * n) (actual_gpu_blk_rng_end s))) u \<and>
    0 \<le> actual_gpu_blk_rng_end u \<and> actual_gpu_blk_rng_end u = actual_gpu_blk_rng_end s - blk_num_per_layer kv * n \<and>
    moves_down (actual_gpu_blk_rng_end u) (actual_gpu_blk_rng_end u + n * blk_num_per_layer kv) ret \<and>
    block_tables u = map (\<lambda>(k, t). (k, map mv t)) (block_tables s) \<and>
    (\<forall>b \<in># table_refs (block_tables s). blk_device (mv b) = blk_device b) \<and>
    (\<forall>b \<in># table_refs (block_tables s). int (blk_number b) < actual_gpu_blk_rng_end s \<longrightarrow>
       map_of ret (int (blk_number b)) = Some (int (blk_number (mv b)))) \<and> bm_shape u = bm_shape s"
proof -
  let ?hi = "actual_gpu_blk_rng_end s"
  let ?lo = "?hi - blk_num_per_layer kv * n"
  have w: "bm_inv E s" "num_total_gpu_blocks s = ba_num_blocks (gpu_allocator s)" "?hi \<le> int (num_total_gpu_blocks s)"
    "\<forall>b \<in> set (free_blocks (gpu_allocator s)). int (blk_number b) < ?hi" "\<forall>b \<in># E. ?hi \<le> int (blk_number b)"
    "prefix_refs (prefix_heap s) = {#}"
    "\<forall>b \<in># table_refs (block_tables s). blk_device b = GPU \<and> count (table_refs (block_tables s)) b = 1"
    using assms(1) by (auto simp: weights_ok_def)
  have ok: "alloc_ok GPU (gpu_allocator s) (ref_count s)" using w(1) unfolding bm_inv_def refs_ok_def by blast
  have nn: "0 \<le> blk_num_per_layer kv * n" using assms(3,4) by simp
  have lo: "0 \<le> ?lo" "?lo \<le> ?hi"
    using free_below [OF ok w(4)] assms(2,5) nn by linarith+
  have "length (filter (\<lambda>b. b \<notin> set (free_blocks (gpu_allocator s))) (gpu_range ?lo ?hi))
      \<le> length (filter (\<lambda>b. int (blk_number b) < ?lo) (free_blocks (gpu_allocator s)))"
    by (rule reorg_room [OF ok lo(1) w(4)]) (use assms(5) in simp)
  then have ready: "reorg_ready E ?lo ?hi s"
    using lo w by (auto simp: reorg_ready_def in_range_def)
  from reorganize_ok [OF w(1) ready refl refl] obtain ret u mv where r:
    "reorganize_gpu_blocks n kv s =
      Inr (ret, kv\<lparr>cached_layer_num := cached_layer_num kv - n, load_more_layer_on_card_num := n\<rparr>, u)"
    "bm_inv (E + mset (gpu_range ?lo ?hi)) u" "actual_gpu_blk_rng_end u = ?lo"
    "block_tables u = map (\<lambda>(k, t). (k, map mv t)) (block_tables s)"
    "inj_on mv (set_mset (table_refs (block_tables s)))"
    "\<forall>b \<in> set (free_blocks (gpu_allocator u)). int (blk_number b) < ?lo" "moves_down ?lo ?hi ret"
    "\<forall>b \<in># table_refs (block_tables s). blk_device (mv b) = blk_device b"
    "\<forall>b \<in># table_refs (block_tables s). blk_device b = GPU \<and> int (blk_number b) < ?hi \<longrightarrow>
       map_of ret (int (blk_number b)) = Some (int (blk_number (mv b)))"
    "bm_shape u = bm_shape s" "prefix_heap u = prefix_heap s"
    "ba_num_blocks (gpu_allocator u) = ba_num_blocks (gpu_allocator s)"
    by (elim exE conjE)
  have refs: "table_refs (block_tables u) = image_mset mv (table_refs (block_tables s))"
    by (simp add: r(4) table_refs_concat map_concat o_def case_prod_beta flip: mset_map)
  have "num_total_gpu_blocks u = num_total_gpu_blocks s" using r(10) by (simp add: bm_shape_def)
  moreover have "\<forall>b \<in># E + mset (gpu_range ?lo ?hi). ?lo \<le> int (blk_number b)"
    using w(5) nn set_gpu_range [OF lo(1), of ?hi] by (fastforce simp: in_range_def)
  moreover have "\<forall>b \<in># table_refs (block_tables u). blk_device b = GPU \<and> count (table_refs (block_tables u)) b = 1"
    unfolding refs using w(7) r(8) count_image_inj_on [OF r(5)] by auto
  ultimately have "weights_ok (E + mset (gpu_range ?lo ?hi)) u"
    using r(2,3,6,11,12) w(2,3,6) nn by (simp add: weights_ok_def)
  moreover have "\<forall>b \<in># table_refs (block_tables s). int (blk_number b) < ?hi \<longrightarrow>
      map_of ret (int (blk_number b)) = Some (int (blk_number (mv b)))" using r(9) w(7) by blast
  ultimately show ?thesis
    using r(1,3,4,7,8,10) lo(1) by (intro exI [of _ ret] exI [of _ u] exI [of _ mv]) (simp add: mult.commute)
qed

text \<open>The whole step returns: either nothing is done, or the blocks are renumbered and the chains of copies found.\<close>

lemma increase_layer_details:
  assumes "weights_ok E (sch_bm s)" and "0 \<le> actual_gpu_blk_rng_end (sch_bm s)" and "0 \<le> blk_num_per_layer kv"
    and "0 \<le> cached_layer_num kv"
  obtains (Idle) "increase_layer_weight_on_comp_gpu kv s = Inr ([], kv, s\<lparr>sch_bm := sch_bm s\<rparr>)"
  | (Load) n ret u mv cs chain_lens kv' hi lo where "hi = actual_gpu_blk_rng_end (sch_bm s)" "lo = hi - blk_num_per_layer kv * n"
      "kv' = kv\<lparr>cached_layer_num := cached_layer_num kv - n, load_more_layer_on_card_num := n\<rparr>"
      "increase_layer_weight_on_comp_gpu kv s = Inr ([(0, cs), (1, chain_lens)], kv', s\<lparr>sch_bm := u\<rparr>)"
      "get_dependent_blk_moving_chains ret kv' u = Inr (cs, chain_lens)"
      "weights_ok (E + mset (gpu_range lo hi)) u" "0 \<le> lo" "actual_gpu_blk_rng_end u = lo" "moves_down lo hi ret"
      "block_tables u = map (\<lambda>(k, t). (k, map mv t)) (block_tables (sch_bm s))"
      "\<forall>b \<in># table_refs (block_tables (sch_bm s)). blk_device (mv b) = blk_device b"
      "\<forall>b \<in># table_refs (block_tables (sch_bm s)). int (blk_number b) < hi \<longrightarrow>
         map_of ret (int (blk_number b)) = Some (int (blk_number (mv b)))"
      "bm_shape u = bm_shape (sch_bm s)"
proof (cases "cached_layer_num kv = 0 \<or> length (waiting s) > 0 \<or>
    layers_to_load (int (gpu_avail (sch_bm s))) (blk_num_per_layer kv) (cached_layer_num kv) = None")
  case True
  then have "increase_layer_weight_on_comp_gpu kv s = Inr ([], kv, s\<lparr>sch_bm := sch_bm s\<rparr>)"
    by (auto simp: increase_layer_weight_on_comp_gpu_def get_num_free_blocks_def)
  then show ?thesis by (rule Idle)
next
  case False
  then obtain n where n: "layers_to_load (int (gpu_avail (sch_bm s))) (blk_num_per_layer kv) (cached_layer_num kv) = Some n"
    by auto
  note fits = layers_to_load_fits [OF n assms(3,4)]
  let ?hi = "actual_gpu_blk_rng_end (sch_bm s)"
  let ?lo = "?hi - blk_num_per_layer kv * n" and ?kv = "kv\<lparr>cached_layer_num := cached_layer_num kv - n, load_more_layer_on_card_num := n\<rparr>"
  obtain ret u mv where r: "reorganize_gpu_blocks n kv (sch_bm s) = Inr (ret, ?kv, u)"
    "weights_ok (E + mset (gpu_range ?lo ?hi)) u" "0 \<le> actual_gpu_blk_rng_end u" "actual_gpu_blk_rng_end u = ?lo"
    "moves_down (actual_gpu_blk_rng_end u) (actual_gpu_blk_rng_end u + n * blk_num_per_layer kv) ret"
    "block_tables u = map (\<lambda>(k, t). (k, map mv t)) (block_tables (sch_bm s))"
    "\<forall>b \<in># table_refs (block_tables (sch_bm s)). blk_device (mv b) = blk_device b"
    "\<forall>b \<in># table_refs (block_tables (sch_bm s)). int (blk_number b) < ?hi \<longrightarrow>
       map_of ret (int (blk_number b)) = Some (int (blk_number (mv b)))"
    "bm_shape u = bm_shape (sch_bm s)"
    using reorganize_weights_ok [OF assms(1-3) conjunct2 [OF fits] conjunct1 [OF fits]] by (elim exE conjE)
  have "moves_down (actual_gpu_blk_rng_end u) (actual_gpu_blk_rng_end u + load_more_layer_on_card_num ?kv * blk_num_per_layer ?kv) ret"
    using r(5) by simp
  from chains_ok [OF this] obtain qs where c: "get_dependent_blk_moving_chains ret ?kv u = Inr (concat qs, 0 # offsets 0 qs)"
    by blast
  have run: "increase_layer_weight_on_comp_gpu kv s = Inr ([(0, concat qs), (1, 0 # offsets 0 qs)], ?kv, s\<lparr>sch_bm := u\<rparr>)"
    using False n r(1) c by (simp add: increase_layer_weight_on_comp_gpu_def get_num_free_blocks_def)
  have "?lo + n * blk_num_per_layer kv = ?hi" by simp
  then have "moves_down ?lo ?hi ret" using r(5) unfolding r(4) by (simp only:)
  then show ?thesis using Load [OF refl refl refl run c r(2) _ r(4) _ r(6,7,8,9)] r(3,4) by simp
qed

text \<open>C29: Loading more layer weights, decided and carried out by \<open>increase_layer_weight_on_comp_gpu\<close>, never
  raises in a state of the weight loading: the blocks given up are accounted for, the end of the
  block range stays non-negative, and the invariant of the scheduler is kept.\<close>

theorem increase_layer_ok:
  assumes "weights_ok E (sch_bm s)" and "0 \<le> actual_gpu_blk_rng_end (sch_bm s)" and "0 \<le> blk_num_per_layer kv"
    and "0 \<le> cached_layer_num kv" and "sched_ok E (sch_bm s) (waiting s) (running s)"
  shows "\<exists>d kv' bm' R. increase_layer_weight_on_comp_gpu kv s = Inr (d, kv', s\<lparr>sch_bm := bm'\<rparr>) \<and>
    weights_ok (E + R) bm' \<and> 0 \<le> actual_gpu_blk_rng_end bm' \<and> sched_ok (E + R) bm' (waiting s) (running s)"
proof (cases rule: increase_layer_details [OF assms(1-4), case_names Idle Load])
  case Idle
  then show ?thesis using assms(1,2,5) by (intro exI [of _ "[]"] exI [of _ kv] exI [of _ "sch_bm s"] exI [of _ "{#}"]) simp
next
  case (Load n ret u mv cs chain_lens kv' hi lo)
  let ?R = "mset (gpu_range lo hi)"
  note r = Load
  have tabs: "map_of (block_tables u) k = map_option (map mv) (map_of (block_tables (sch_bm s)) k)" for k
    by (simp add: r(10) map_of_map)
  have "runs u g" if g: "g \<in> set (running s)" for g
  proof -
    have "runs (sch_bm s) g" using assms(5) g by (simp add: sched_ok_def queues_ok_def)
    then obtain q t where q: "single RUNNING g q" "map_of (block_tables (sch_bm s)) (seq_id q) = Some t"
      "t \<noteq> []" "blk_device (last t) = GPU" "prefix_fits (sch_bm s) g q" "table_fits q t" by (auto simp: runs_def)
    have "last t \<in># table_refs (block_tables (sch_bm s))" using table_refs_lookup_mem [OF q(2)] q(3) by simp
    then have "blk_device (mv (last t)) = GPU" using r(11) q(4) by simp
    then show ?thesis
      using q(1,2,3,5,6) tabs prefix_fits_shape [OF r(13)] by (auto simp: runs_def last_map table_fits_def)
  qed
  moreover have "waits u g" if g: "g \<in> set (waiting s)" for g
  proof -
    have "waits (sch_bm s) g" using assms(5) g by (simp add: sched_ok_def queues_ok_def)
    then show ?thesis using tabs prefix_fits_shape [OF r(13)] by (auto simp: waits_def)
  qed
  moreover have "no_stray u (running s)"
    using assms(5) by (simp add: sched_ok_def no_stray_def r(10) image_image case_prod_beta)
  ultimately have "sched_ok (E + ?R) u (waiting s) (running s)"
    using assms(5) r(6) sched_ok_shape [OF r(13)] by (simp add: sched_ok_def queues_ok_def weights_ok_def)
  then show ?thesis using r(4,6,7,8) by blast
qed

end
