(* ===== verification/Examples.thy ===== *)
theory Examples
  imports Weight_Loading
begin

text \<open>
  Concrete states for the witnesses of the properties: a block manager with 8 GPU and 4 CPU blocks,
  single-sequence requests of two blocks, the state after one of them is allocated, and a state in
  the middle of weight loading.
\<close>

definition ex_sp :: sampling_params where
  "ex_sp = default_sampling_args"

definition ex_block :: "nat \<Rightarrow> logical_token_block" where
  "ex_block n = \<lparr>lb_block_number = n, lb_block_size = 2, lb_token_ids = [5, 6], lb_num_tokens = 2\<rparr>"

definition ex_seq :: "sequence_status \<Rightarrow> int \<Rightarrow> sequence" where
  "ex_seq st k =
     \<lparr>seq_id = k, seq_prompt = Some ''hi'', seq_block_size = 2, seq_lora_request = None,
      seq_data = new_sequence_data [5, 6, 5, 6], output_logprobs = [], output_text = '''',
      logical_token_blocks = [ex_block 0, ex_block 1], status = st,
      prefix_offset = 0, read_offset = 0, seq_tokens = None\<rparr>"

definition ex_group :: "sequence_status \<Rightarrow> int \<Rightarrow> sequence_group" where
  "ex_group st k =
     \<lparr>request_id = StrId ''r'', seqs_dict = [(k, ex_seq st k)], sg_sampling_params = ex_sp, arrival_time = of_int k,
      last_token_time = 0, sg_lora_request = None, sg_prefix = None, sg_prompt_logprobs = None\<rparr>"

definition ex_bm :: block_manager where
  "ex_bm = \<lparr>bm_block_size = 2, num_total_gpu_blocks = 8, num_total_cpu_blocks = 4,
     block_sliding_window = None, watermark = 0, watermark_blocks = 0,
     gpu_allocator = new_block_allocator GPU 2 8, cpu_allocator = new_block_allocator CPU 2 4,
     block_tables = [], actual_gpu_blk_rng_end = 8, ref_count = (\<lambda>_. 0), prefix_heap = []\<rparr>"

lemma ex_bm_new: "new_block_manager 2 8 4 0 None = Inr ex_bm"
proof -
  have "f64_mul 0 (of_nat 8) = 0" using round_f64_of_int [of 0] by (simp add: f64_mul_def)
  then show ?thesis by (simp add: new_block_manager_def ex_bm_def)
qed

lemma ex_seq_simps [simp]:
  "seq_id (ex_seq st k) = k" "status (ex_seq st k) = st" "logical_token_blocks (ex_seq st k) = [ex_block 0, ex_block 1]"
  "seq_get_len (ex_seq st k) = 4" "(ex_seq st k)\<lparr>status := st'\<rparr> = ex_seq st' k"
  by (simp_all add: ex_seq_def seq_get_len_def data_get_len_def new_sequence_data_def)

lemma ex_group_simps [simp]:
  "seqs_dict (ex_group st k) = [(k, ex_seq st k)]" "sg_prefix (ex_group st k) = None"
  "request_id (ex_group st k) = StrId ''r''" "sg_lora_request (ex_group st k) = None"
  "get_seqs (Some st') (ex_group st k) = (if st = st' then [ex_seq st k] else [])"
  "set_seqs_status st st' (ex_group st k) = ex_group st' k" "sid (ex_group st k) = k"
  by (auto simp: ex_group_def get_seqs_Some set_seqs_status_def sid_def)

lemma ex_group_max [simp]:
  "\<not> status_is_finished st \<Longrightarrow> get_max_num_running_seqs (ex_group st k) = 1"
  by (simp add: get_max_num_running_seqs_def num_seqs_def num_unfinished_seqs_def get_unfinished_seqs_def
      seq_is_finished_def) (simp add: ex_group_def ex_sp_def default_sampling_args_def)

lemma ex_single: "\<not> status_is_finished st \<Longrightarrow> single st (ex_group st k) (ex_seq st k)"
  by (simp add: single_def)

lemma ex_bm_inv: "bm_inv {#} ex_bm"
  by (rule bm_inv_new [OF ex_bm_new])

lemma ex_bm_simps [simp]:
  "block_sliding_window ex_bm = None" "watermark_blocks ex_bm = 0" "block_tables ex_bm = []"
  "prefix_heap ex_bm = []" "length (free_blocks (gpu_allocator ex_bm)) = 8" "num_total_gpu_blocks ex_bm = 8"
  "length (free_blocks (cpu_allocator ex_bm)) = 4" "ref_count ex_bm = (\<lambda>_. 0)"
  by (simp_all add: ex_bm_def new_block_allocator_def)

lemma ex_fresh: "group_fresh (ex_group WAITING k) ex_bm"
  by (simp add: group_fresh_def)

lemma ex_can_allocate: "can_allocate (ex_group WAITING k) ex_bm = Inr OK"
  by (simp add: can_allocate_def sg_prefix_obj_def get_num_free_blocks_def)

lemma ex_needed: "needed_blocks (ex_group WAITING k) ex_bm = 2"
  by (simp add: needed_blocks_def shared_prefix_table_def)

text \<open>After allocating request 1.\<close>

definition ex_bm1 :: block_manager where
  "ex_bm1 = (case bm_allocate (ex_group WAITING 1) ex_bm of Inr u \<Rightarrow> u | Inl _ \<Rightarrow> ex_bm)"

lemma ex_bm1_ok:
  obtains t where "bm_allocate (ex_group WAITING 1) ex_bm = Inr ex_bm1" "bm_inv {#} ex_bm1"
    "map_of (block_tables ex_bm1) 1 = Some t" "length t = 2" "\<forall>b \<in> set t. blk_device b = GPU"
    "length (free_blocks (gpu_allocator ex_bm1)) = 6" "bm_shape ex_bm1 = bm_shape ex_bm"
    "\<forall>k. k \<noteq> 1 \<longrightarrow> map_of (block_tables ex_bm1) k = None"
proof -
  obtain u t where u: "bm_allocate (ex_group WAITING 1) ex_bm = Inr u" "bm_inv {#} u"
    "map_of (block_tables u) 1 = Some t" "length t = 2" "\<forall>b \<in> set t. blk_device b = GPU"
    "length (free_blocks (gpu_allocator u)) = 6" "\<forall>k. k \<noteq> 1 \<longrightarrow> map_of (block_tables u) k = None"
    using bm_allocate_ok [OF ex_bm_inv ex_fresh, of 1] ex_needed [of 1] by auto
  then have "ex_bm1 = u" by (simp add: ex_bm1_def)
  moreover have "bm_shape u = bm_shape ex_bm" by (rule bm_shape_allocate [OF ex_bm_inv ex_fresh u(1)])
  ultimately show thesis using that u by blast
qed

lemma ex_bm1_shape: "block_sliding_window ex_bm1 = None" "watermark_blocks ex_bm1 = 0" "prefix_heap ex_bm1 = []"
proof -
  obtain t where "bm_shape ex_bm1 = bm_shape ex_bm" using ex_bm1_ok by blast
  then show "block_sliding_window ex_bm1 = None" "watermark_blocks ex_bm1 = 0" "prefix_heap ex_bm1 = []"
    by (simp_all add: bm_shape_def)
qed

text \<open>A scheduler with request 1 waiting.\<close>

definition ex_sched :: scheduler where
  "ex_sched = \<lparr>max_num_batched_tokens = 100, max_num_seqs = 4, max_model_len = 50, max_paddings = 10,
     max_loras = None, prompt_limit = 50, sch_bm = ex_bm, sch_prefix_pool = new_prefix_pool 2,
     waiting = [ex_group WAITING 1], running = [], swapped = [], tot_preempt = 0,
     dynamic_increase_oncard_weights = True\<rparr>"

lemma ex_sched_ok: "sched_ok {#} (sch_bm ex_sched) (waiting ex_sched) (running ex_sched)"
  using ex_bm_inv ex_single [of WAITING 1]
  by (auto simp: sched_ok_def queues_ok_def one_kind_def no_stray_def ex_sched_def waits_def prefix_fits_def intro!: exI [of _ "ex_seq WAITING 1"])

text \<open>The state in which a layer of two blocks is loaded: blocks 2 and 3 are used, 0 and 1 are free.\<close>

definition ex_kv :: kv_per_layer_weight where
  "ex_kv = \<lparr>blk_num_per_layer = 1, kv_block_size = 4096, layer_weight_size = 4096, cached_layer_num = 2,
     load_more_layer_on_card_num = 0, layer_num = 2, tot_gpu_mem = 65536\<rparr>"

definition ex_full :: block_manager where
  "ex_full = \<lparr>bm_block_size = 2, num_total_gpu_blocks = 4, num_total_cpu_blocks = 4,
     block_sliding_window = None, watermark = 0, watermark_blocks = 0,
     gpu_allocator = \<lparr>ba_device = GPU, ba_block_size = 2, ba_num_blocks = 4, free_blocks = [(GPU, 0), (GPU, 1)]\<rparr>,
     cpu_allocator = new_block_allocator CPU 2 4,
     block_tables = [(1, [(GPU, 3), (GPU, 2)])], actual_gpu_blk_rng_end = 4,
     ref_count = count {#(GPU, 3), (GPU, 2)#}, prefix_heap = []\<rparr>"

lemma ex_full_inv: "bm_inv {#} ex_full"
proof -
  have "set [(GPU, 0), (GPU, 1 :: nat)] = {b. fst b = GPU \<and> snd b < 4 \<and> count {#(GPU, 3), (GPU, 2)#} b = 0}"
    by (auto simp: less_Suc_eq numeral_eq_Suc)
  moreover have "alloc_ok CPU (new_block_allocator CPU 2 4) (count {#(GPU, 3), (GPU, 2)#})"
    by (rule alloc_ok_other [OF alloc_ok_new]) auto
  moreover have "held ex_full = {#(GPU, 3), (GPU, 2)#}"
    by (simp add: held_def ex_full_def table_refs_def prefix_refs_def)
  ultimately show ?thesis by (auto simp: bm_inv_def refs_ok_def alloc_ok_def ex_full_def)
qed

lemma ex_full_weights: "weights_ok {#} ex_full"
  using ex_full_inv by (auto simp: weights_ok_def ex_full_def prefix_refs_def table_refs_def)

text \<open>The same sequence, swapped out: its blocks are CPU blocks.\<close>

definition ex_swapped :: block_manager where
  "ex_swapped = ex_full\<lparr>gpu_allocator := new_block_allocator GPU 2 4,
     cpu_allocator := \<lparr>ba_device = CPU, ba_block_size = 2, ba_num_blocks = 4, free_blocks = [(CPU, 0), (CPU, 1)]\<rparr>,
     block_tables := [(1, [(CPU, 3), (CPU, 2)])], ref_count := count {#(CPU, 3), (CPU, 2)#}\<rparr>"

lemma ex_swapped_inv: "bm_inv {#} ex_swapped"
proof -
  have "set [(CPU, 0), (CPU, 1 :: nat)] = {b. fst b = CPU \<and> snd b < 4 \<and> count {#(CPU, 3), (CPU, 2)#} b = 0}"
    by (auto simp: less_Suc_eq numeral_eq_Suc)
  moreover have "alloc_ok GPU (new_block_allocator GPU 2 4) (count {#(CPU, 3), (CPU, 2)#})"
    by (rule alloc_ok_other [OF alloc_ok_new]) auto
  moreover have "held ex_swapped = {#(CPU, 3), (CPU, 2)#}"
    by (simp add: held_def ex_swapped_def ex_full_def table_refs_def prefix_refs_def)
  ultimately show ?thesis by (auto simp: bm_inv_def refs_ok_def alloc_ok_def ex_swapped_def ex_full_def)
qed

lemma ex_unfinished: "\<not> status_is_finished st \<Longrightarrow> get_unfinished_seqs (ex_group st k) = [ex_seq st k]"
  by (simp add: get_unfinished_seqs_def seq_is_finished_def)

lemma ex_swap_ready:
  "group_on GPU RUNNING (ex_group RUNNING 1) ex_full" "prefix_ready (ex_group RUNNING 1) ex_full"
  "can_swap_out (ex_group RUNNING 1) ex_full = Inr True"
  "group_on CPU SWAPPED (ex_group SWAPPED 1) ex_swapped" "prefix_ready (ex_group SWAPPED 1) ex_swapped"
  "can_swap_in (ex_group SWAPPED 1) ex_swapped = Inr True"
  by (simp_all add: group_on_def prefix_ready_def can_swap_out_def can_swap_in_def get_physical_blocks_def ex_unfinished
      ex_full_def ex_swapped_def dict_get_def get_num_free_blocks_def new_block_allocator_def num_seqs_def)

definition ex_sched_full :: scheduler where
  "ex_sched_full = ex_sched\<lparr>sch_bm := ex_full, waiting := [], running := [ex_group RUNNING 1]\<rparr>"

lemma ex_sched_full_ok: "sched_ok {#} (sch_bm ex_sched_full) (waiting ex_sched_full) (running ex_sched_full)"
  using ex_full_inv ex_single [of RUNNING 1]
  by (auto simp: sched_ok_def queues_ok_def one_kind_def no_stray_def ex_sched_full_def ex_sched_def runs_def prefix_fits_def ex_full_def table_fits_def
      intro!: exI [of _ "ex_seq RUNNING 1"])

end
