(* ===== verification/Block_Props.thy ===== *)
theory Block_Props
  imports Examples
begin

text \<open>
  The properties of sequences, prefixes, sampling parameters and the block space manager, each with
  a witness at one of the states of \<open>Examples\<close>.
\<close>

section \<open>Block manager\<close>

text \<open>C25: If \<open>can_allocate\<close> answers OK, \<open>allocate\<close> succeeds, keeps the reference counts equal to the
  occurrences in tables, gives every sequence of the group the same table of GPU blocks, as long as
  its logical blocks, touches no other table, and leaves at least the watermark free.\<close>

theorem allocate_correct:
  assumes "bm_inv E s" and "group_fresh g s" and "block_sliding_window s = None"
    and "0 \<le> watermark_blocks s" and "can_allocate g s = Inr OK"
  shows "\<exists>u tab. bm_allocate g s = Inr u \<and> bm_inv E u \<and>
    (\<forall>q \<in> set (get_seqs None g). map_of (block_tables u) (seq_id q) = Some tab) \<and>
    (\<forall>k. k \<notin> seq_id ` set (get_seqs None g) \<longrightarrow> map_of (block_tables u) k = map_of (block_tables s) k) \<and>
    length tab = length (logical_token_blocks (hd (get_seqs None g))) \<and> (\<forall>b \<in> set tab. blk_device b = GPU) \<and>
    watermark_blocks s \<le> int (get_num_free_gpu_blocks u)"
proof -
  note n = can_allocate_needed [OF assms(1,2,3,5)]
  then have "needed_blocks g s \<le> gpu_avail s" using assms(4) by linarith
  from bm_allocate_ok [OF assms(1-3) this] obtain u tab where u:
    "bm_allocate g s = Inr u \<and> bm_inv E u \<and>
    (\<forall>q \<in> set (get_seqs None g). map_of (block_tables u) (seq_id q) = Some tab) \<and>
    (\<forall>k. k \<notin> seq_id ` set (get_seqs None g) \<longrightarrow> map_of (block_tables u) k = map_of (block_tables s) k) \<and>
    length tab = length (logical_token_blocks (hd (get_seqs None g))) \<and> (\<forall>b \<in> set tab. blk_device b = GPU) \<and>
    gpu_avail u = gpu_avail s - needed_blocks g s" by blast
  moreover from u have "watermark_blocks s \<le> int (get_num_free_gpu_blocks u)"
    using n by (simp add: get_num_free_gpu_blocks_def get_num_free_blocks_def)
  ultimately show ?thesis by blast
qed

theorem allocate_correct_witness:
  "\<exists>u tab. bm_allocate (ex_group WAITING 1) ex_bm = Inr u \<and> map_of (block_tables u) 1 = Some tab \<and> length tab = 2"
  using allocate_correct [OF ex_bm_inv ex_fresh, of 1] ex_can_allocate [of 1] by auto

text \<open>C26: \<open>append_slot\<close> succeeds when a GPU block is free, and afterwards the last block of the
  sequence's table is on the GPU and in no other table: a fresh block when a slot is missing, the
  old one when it was not shared, else a copy, of which the caller is told. No other table changes.\<close>

theorem append_slot_correct:
  assumes "bm_inv E s" and "map_of (block_tables s) (seq_id q) = Some t" and "block_sliding_window s = None"
    and "0 < get_num_free_gpu_blocks s" and "t \<noteq> []" and "blk_device (last t) = GPU"
  shows "\<exists>cow u t'. append_slot q s = Inr (cow, u) \<and> bm_inv E u \<and>
    block_tables u = dict_set (seq_id q) t' (block_tables s) \<and> t' \<noteq> [] \<and>
    blk_device (last t') = GPU \<and> count (E + held u) (last t') = 1 \<and>
    (if length t < length (logical_token_blocks q) then cow = None \<and> butlast t' = t
     else butlast t' = butlast t \<and>
       (if count (E + held s) (last t) = 1 then cow = None \<and> t' = t
        else cow = Some (blk_number (last t), blk_number (last t')) \<and> last t' \<notin># E + held s))"
proof -
  have "0 < gpu_avail s" using assms(4) by (simp add: get_num_free_gpu_blocks_def get_num_free_blocks_def)
  from append_slot_ok [OF assms(1-3) this assms(5,6)] show ?thesis unfolding owned_def by blast
qed

theorem append_slot_correct_witness:
  "\<exists>cow u t'. append_slot (ex_seq RUNNING 1) ex_full = Inr (cow, u) \<and> bm_inv {#} u \<and>
     map_of (block_tables u) 1 = Some t' \<and> t' = [(GPU, 3), (GPU, 2)]"
proof -
  have t: "map_of (block_tables ex_full) (seq_id (ex_seq RUNNING 1)) = Some [(GPU, 3), (GPU, 2)]" by (simp add: ex_full_def)
  have c: "count ({#} + held ex_full) (GPU, 2) = 1"
    by (simp add: held_def ex_full_def table_refs_def prefix_refs_def)
  from append_slot_correct [OF ex_full_inv t] obtain cow u t' where
    "append_slot (ex_seq RUNNING 1) ex_full = Inr (cow, u)" "bm_inv {#} u"
    "block_tables u = dict_set 1 t' (block_tables ex_full)" "t' = [(GPU, 3), (GPU, 2)]"
    using c by (auto simp: ex_full_def get_num_free_gpu_blocks_def get_num_free_blocks_def)
  then show ?thesis by (auto simp: update_conv')
qed

text \<open>Freeing a sequence never raises under the invariant, gives back exactly the references of
  its table, and removes the table; a sequence without a table is left alone.\<close>

theorem free_correct:
  assumes "bm_inv E s"
  shows "\<exists>u. bm_free q s = Inr u \<and> bm_inv E u \<and> block_tables u = dict_del (seq_id q) (block_tables s) \<and>
    (\<forall>t. map_of (block_tables s) (seq_id q) = Some t \<longrightarrow> (\<forall>b. ref_count u b + count (mset t) b = ref_count s b))"
proof -
  obtain u where u: "bm_free q s = Inr u" "bm_inv E u" "block_tables u = dict_del (seq_id q) (block_tables s)"
    using bm_free_ok [OF assms] by blast
  have "ref_count u b + count (mset t) b = ref_count s b" if "map_of (block_tables s) (seq_id q) = Some t" for t b
  proof -
    have "count (E + held u + mset t) b = count (E + held s) b" by (simp only: bm_free_held [OF assms u(1) that])
    then show ?thesis using assms u(2) by (simp add: bm_inv_def refs_ok_def)
  qed
  with u show ?thesis by blast
qed

theorem free_correct_witness:
  "\<exists>u. bm_free (ex_seq RUNNING 1) ex_full = Inr u \<and> ref_count u (GPU, 3) = 0"
proof -
  from free_correct [OF ex_full_inv, of "ex_seq RUNNING 1"] obtain u where u: "bm_free (ex_seq RUNNING 1) ex_full = Inr u"
    "\<forall>t. map_of (block_tables ex_full) 1 = Some t \<longrightarrow> (\<forall>b. ref_count u b + count (mset t) b = ref_count ex_full b)" by auto
  have t: "map_of (block_tables ex_full) 1 = Some [(GPU, 3), (GPU, 2)]" by (simp add: ex_full_def)
  have "ref_count u (GPU, 3) + count (mset [(GPU, 3 :: nat), (GPU, 2)]) (GPU, 3) = ref_count ex_full (GPU, 3)"
    using u(2) t by blast
  then have "ref_count u (GPU, 3) = 0" by (simp add: ex_full_def)
  with u(1) show ?thesis by blast
qed

text \<open>\<open>reorganize_gpu_blocks\<close> empties the top of the GPU range: its blocks go to the caller, no
  table and no free block is left in it, the tables are renamed injectively to blocks of the same
  device, and the returned mapping has the new number of every block below the old end.\<close>

theorem reorganize_empties_range:
  assumes "bm_inv E s" and "reorg_ready E lo hi s"
    and "hi = actual_gpu_blk_rng_end s" and "lo = hi - blk_num_per_layer kv * n"
  shows "\<exists>ret u mv. reorganize_gpu_blocks n kv s =
      Inr (ret, kv\<lparr>cached_layer_num := cached_layer_num kv - n, load_more_layer_on_card_num := n\<rparr>, u) \<and>
    bm_inv (E + mset (gpu_range lo hi)) u \<and> actual_gpu_blk_rng_end u = lo \<and>
    block_tables u = map (\<lambda>(k, t). (k, map mv t)) (block_tables s) \<and>
    inj_on mv (set_mset (table_refs (block_tables s))) \<and>
    (\<forall>b \<in># table_refs (block_tables u). \<not> in_range lo hi b) \<and>
    (\<forall>b \<in> set (free_blocks (gpu_allocator u)). int (blk_number b) < lo) \<and>
    (\<forall>b \<in># table_refs (block_tables s). blk_device (mv b) = blk_device b) \<and>
    (\<forall>b \<in># table_refs (block_tables s). blk_device b = GPU \<and> int (blk_number b) < hi \<longrightarrow>
       map_of ret (int (blk_number b)) = Some (int (blk_number (mv b))))"
  using reorganize_ok [OF assms] by (elim exE conjE) (intro exI conjI, assumption+)

theorem reorganize_empties_range_witness:
  "\<exists>ret kv u. reorganize_gpu_blocks 2 ex_kv ex_full = Inr (ret, kv, u) \<and> actual_gpu_blk_rng_end u = 2"
proof -
  have "reorg_ready {#} 2 4 ex_full"
    by (auto simp: reorg_ready_def ex_full_def in_range_def prefix_refs_def table_refs_def gpu_range_def upto.simps)
  from reorganize_empties_range [OF ex_full_inv this, of ex_kv 2] show ?thesis
    by (auto simp: ex_full_def ex_kv_def)
qed

text \<open>C31: \<open>get_dependent_blk_moving_chains\<close> ends. Its result is a list of chains with their offsets:
  in a chain each block is copied to the next one and nothing leaves the last, no block is in two chains or
  twice in one, and every copy that any layer needs starts in some chain.\<close>

theorem moving_chains_cover:
  assumes "moves_down (actual_gpu_blk_rng_end s)
      (actual_gpu_blk_rng_end s + load_more_layer_on_card_num kv * blk_num_per_layer kv) d"
  shows "\<exists>qs m. get_dependent_blk_moving_chains d kv s = Inr (concat qs, 0 # offsets 0 qs) \<and>
    m = layer_mapping (layer_num kv) (actual_gpu_blk_rng_end s + load_more_layer_on_card_num kv * blk_num_per_layer kv)
          (actual_gpu_blk_rng_end s) d \<and>
    (\<forall>q \<in> set qs. chain_ok m q) \<and> distinct (concat qs) \<and> (\<forall>k v. map_of m k = Some v \<and> v \<noteq> k \<longrightarrow> k \<in> set (concat qs))"
  by (rule chains_ok [OF assms])

theorem moving_chains_cover_witness:
  "\<exists>qs. get_dependent_blk_moving_chains [(3, 1), (2, 0)] (ex_kv\<lparr>load_more_layer_on_card_num := 2\<rparr>)
      (ex_full\<lparr>actual_gpu_blk_rng_end := 2\<rparr>) = Inr (concat qs, 0 # offsets 0 qs)"
proof -
  have "moves_down 2 (2 + load_more_layer_on_card_num (ex_kv\<lparr>load_more_layer_on_card_num := 2\<rparr>) * blk_num_per_layer ex_kv)
      [(3, 1), (2, 0)]"
    by (auto simp: moves_down_def ex_kv_def)
  with moving_chains_cover [of "ex_full\<lparr>actual_gpu_blk_rng_end := 2\<rparr>" "ex_kv\<lparr>load_more_layer_on_card_num := 2\<rparr>" "[(3, 1), (2, 0)]"]
  show ?thesis by auto
qed

text \<open>Witnesses of the properties on swapping, \<open>reset\<close> and \<open>fork\<close> (\<open>Block_Swap\<close>, \<open>Block_Refs\<close>).\<close>

theorem bm_swap_out_witness:
  "\<exists>u m. bm_swap_out (ex_group RUNNING 1) ex_full = Inr (block_number_mapping m, u) \<and> bm_inv {#} u"
  using bm_swap_out_ok [OF ex_full_inv ex_swap_ready(1-3)] by blast

theorem bm_swap_in_witness:
  "\<exists>u m. bm_swap_in (ex_group SWAPPED 1) ex_swapped = Inr (block_number_mapping m, u) \<and> bm_inv {#} u"
  using bm_swap_in_ok [OF ex_swapped_inv ex_swap_ready(4,5) _ ex_swap_ready(6)]
  by (fastforce simp: sg_prefix_obj_def ex_swapped_def ex_full_def)

theorem bm_reset_witness:
  "\<exists>u. bm_reset ex_full = Inr u \<and> bm_inv {#} u \<and> block_tables u = []"
  using bm_reset_ok [OF ex_full_inv] by blast

theorem bm_fork_witness:
  "\<exists>u. bm_fork (ex_seq RUNNING 1) (ex_seq RUNNING 2) ex_full = Inr u \<and> bm_inv {#} u \<and>
     map_of (block_tables u) 2 = Some [(GPU, 3), (GPU, 2)]"
  using bm_fork_ok [OF ex_full_inv, of "ex_seq RUNNING 1" "[(GPU, 3), (GPU, 2)]" "ex_seq RUNNING 2"]
  by (auto simp: ex_full_def)

section \<open>Sliding windows\<close>

definition ex_window :: block_manager where
  "ex_window = ex_bm\<lparr>block_sliding_window := Some 1\<rparr>"


section \<open>Sequences, prefixes, sampling parameters\<close>

text \<open>C32: A sequence's logical blocks always store exactly its tokens, in numbered blocks of which all
  but the last are full: appending a token keeps this, and the number of blocks is the number of
  tokens divided by the block size, rounded up.\<close>

theorem append_token_keeps_blocks:
  assumes "seq_ok s" and "t \<in> set (dict_keys lps)"
  shows "\<exists>s'. seq_append_token_id t lps s = Inr s' \<and> seq_ok s' \<and> seq_get_token_ids s' = seq_get_token_ids s @ [t] \<and>
    length (logical_token_blocks s') = (seq_get_len s' + seq_block_size s' - 1) div seq_block_size s'"
  using seq_append_token_id_ok [OF assms] seq_ok_length by blast

theorem append_token_keeps_blocks_witness:
  "\<exists>s s'. new_sequence 1 (Some ''hi'') [5, 6, 7] 2 None = Inr s \<and> seq_append_token_id 9 [(9, 0)] s = Inr s' \<and>
     seq_get_token_ids s' = [5, 6, 7, 9]"
proof -
  obtain s where s: "new_sequence 1 (Some ''hi'') [5, 6, 7] 2 None = Inr s" "seq_ok s" "seq_get_token_ids s = [5, 6, 7]"
    using new_sequence_ok [of 2 1 "Some ''hi''" "[5, 6, 7]" None] by auto
  from append_token_keeps_blocks [OF s(2), of 9 "[(9, 0)]"] s show ?thesis by auto
qed

text \<open>With block size 0 the loop that stores the tokens of a prompt does not end.\<close>

lemma append_tokens_diverges:
  assumes "ts \<noteq> []"
  shows "append_tokens_loop fuel 0 ts 0 [] = Inl NoReturn"
  using append_tokens_block_size_0 [of 0 ts "[]"] assms by simp

lemma append_tokens_diverges_witness: "append_tokens_loop 100 0 [5] 0 [] = Inl NoReturn"
  using append_tokens_diverges [of "[5]"] by simp

end
