(* ===== verification/Sched_Runs.thy ===== *)
theory Sched_Runs
  imports Block_Props
begin

text \<open>
  Runs of the scheduler. The first step of the example scheduler, computed; it is the witness of the
  properties of \<open>_schedule\<close>.
\<close>

section \<open>The first step of the example\<close>

definition ex_out :: scheduler_outputs where
  "ex_out = \<lparr>scheduled_seq_groups = [ex_group RUNNING 1], prompt_run = True, num_batched_tokens = 4,
     out_io = no_io, ignored_seq_groups = [], blocks_to_reorganize = [], num_loras = 1\<rparr>"

definition ex_sched1 :: scheduler where
  "ex_sched1 = ex_sched\<lparr>sch_bm := ex_bm1, waiting := [], running := [ex_group RUNNING 1]\<rparr>"

lemma ex_sched_simps [simp]:
  "max_num_batched_tokens ex_sched = 100" "max_num_seqs ex_sched = 4" "max_paddings ex_sched = 10"
  "max_loras ex_sched = None" "prompt_limit ex_sched = 50" "sch_bm ex_sched = ex_bm"
  "waiting ex_sched = [ex_group WAITING 1]" "running ex_sched = []" "swapped ex_sched = []"
  by (simp_all add: ex_sched_def)

lemma ex_prompt_run: "sch_schedule_iter now ex_sched = Inr (ex_out, ex_sched1)"
proof -
  have alloc: "sch_allocate (ex_group WAITING 1) ex_bm = Inr (ex_group RUNNING 1, ex_bm1)"
    using ex_bm1_ok by (auto simp: sch_allocate_def)
  have "prompt_start ex_sched = \<lparr>ps_bm = ex_bm, ps_num_curr_seqs = 0, ps_curr_loras = None, ps_seq_lens = [],
      ps_leftover = [], ps_scheduled = [], ps_ignored = []\<rparr>"
    by (simp add: prompt_start_def running_seqs_bound_def running_loras_def)
  then have "schedule_prompts ex_sched = Inr (Some ex_out, ex_sched1)"
    using alloc by (simp add: schedule_prompts_def lora_full_def lora_add_def ex_can_allocate max_list_def
        new_scheduler_outputs_def mixed_ids_def sort_by_lora_ids_def no_io_def ex_out_def ex_sched1_def py_assert_def del: ebind_eq_Inr)
  then show ?thesis by (simp add: sch_schedule_iter_def)
qed

theorem schedule_iter_ok_witness:
  "\<exists>out s'. sch_schedule_iter 0 ex_sched = Inr (out, s') \<and> sched_ok {#} (sch_bm s') (waiting s') (running s')"
proof -
  from schedule_iter_ok [OF ex_sched_ok ex_sched_simps(9), of 0] show ?thesis by blast
qed

theorem schedule_iter_ids_witness: "queued ex_sched1 + ids (ignored_seq_groups ex_out) = queued ex_sched"
  by (rule schedule_iter_ids [OF ex_prompt_run])

theorem schedule_limits_witness:
  "\<exists>gs ls. running ex_sched1 = running ex_sched @ gs \<and> within_limits ex_sched 0 gs ls"
proof -
  have "prompt_run ex_out" "running_seqs_bound (running ex_sched) = 0"
    by (simp_all add: ex_out_def running_seqs_bound_def)
  with schedule_limits [OF ex_prompt_run] show ?thesis by auto
qed

theorem increase_layer_ok_witness:
  "\<exists>d kv' bm' R. increase_layer_weight_on_comp_gpu ex_kv ex_sched_full = Inr (d, kv', ex_sched_full\<lparr>sch_bm := bm'\<rparr>) \<and>
    sched_ok R bm' [] [ex_group RUNNING 1]"
proof -
  have "weights_ok {#} (sch_bm ex_sched_full)" "0 \<le> actual_gpu_blk_rng_end (sch_bm ex_sched_full)"
    "waiting ex_sched_full = []" "running ex_sched_full = [ex_group RUNNING 1]"
    using ex_full_weights by (simp_all add: ex_sched_full_def ex_full_def)
  with increase_layer_ok [of "{#}" ex_sched_full ex_kv] ex_sched_full_ok show ?thesis
    by (simp add: ex_kv_def) blast
qed

section \<open>Queue order, prefixes, sampling parameters\<close>

text \<open>First come, first served: a queue in the order of arrival is left as it is, and in every sorted
  queue no request stands behind one that has waited for a shorter time.\<close>

lemma fcfs_order:
  assumes "i < j" and "j < length gs"
  shows "fcfs_get_priority now (sort_by_priority now gs ! j) \<le> fcfs_get_priority now (sort_by_priority now gs ! i) \<and>
    (sorted (map arrival_time gs) \<longrightarrow> sort_by_priority now gs = gs)"
proof -
  have "sorted (map (\<lambda>g. - fcfs_get_priority now g) gs)" if "sorted (map arrival_time gs)"
    using that by (simp add: sorted_map sorted_wrt_mono_rel [OF _ that [unfolded sorted_map]] fcfs_earlier)
  then show ?thesis
    using fcfs.sort_by_first [OF assms] by (simp add: sort_by_priority_def sort_key_id_if_sorted)
qed

lemma fcfs_order_witness:
  "sort_by_priority 5 [ex_group WAITING 1, ex_group WAITING 2] = [ex_group WAITING 1, ex_group WAITING 2]"
proof -
  have "sorted (map arrival_time [ex_group WAITING 1, ex_group WAITING 2])" by (simp add: ex_group_def)
  with fcfs_order [of 0 1 "[ex_group WAITING 1, ex_group WAITING 2]" 5] show ?thesis by simp
qed

definition ex_hash :: "int list \<times> int \<Rightarrow> int" where
  "ex_hash x = sum_list (fst x)"

lemma ex_pool:
  "pool_ok ex_hash (new_prefix_pool 2) []" "truncate_token_ids (new_prefix_pool 2) [7, 8, 9] = Inr [7, 8]"
  "truncate_token_ids (new_prefix_pool 2) [7, 8, 3] = Inr [7, 8]"
  "add_or_get_prefix ex_hash [7, 8, 9] 0 (new_prefix_pool 2) [] =
     Inr (Some 0, \<lparr>pool_prefixes = [(15, 0)], pool_block_size = 2\<rparr>,
       [\<lparr>pf_token_ids = [7, 8], pf_block_size = 2, pf_length = 2, pf_block_table = None, pf_computed = False\<rparr>])"
  using pool_ok_new [of 2 ex_hash]
  by (simp_all add: truncate_token_ids_def new_prefix_pool_def add_or_get_prefix_def new_prefix_def
      ex_hash_def py_assert_def)

theorem add_or_get_prefix_finds_witness:
  "pool_ok ex_hash \<lparr>pool_prefixes = [(15, 0)], pool_block_size = 2\<rparr>
     [\<lparr>pf_token_ids = [7, 8], pf_block_size = 2, pf_length = 2, pf_block_table = None, pf_computed = False\<rparr>]"
  using add_or_get_prefix_finds [OF ex_pool(1,2) _ ex_pool(4)] by simp

lemma add_or_get_prefix_again_witness:
  "\<exists>pool heap. add_or_get_prefix ex_hash [7, 8, 3] 0 pool heap = Inr (Some 0, pool, heap)"
  using add_or_get_prefix_again [OF ex_pool(1,4), of "[7, 8, 3]"] ex_pool(2,3) by auto


end
