(* ===== verification/Py_Strings.thy ===== *)
theory Py_Strings
  imports Mil_Prelude
begin

text \<open>
  The string operations of Python that the modelled code uses: \<^verbatim>\<open>str\<close> of an integer, \<^verbatim>\<open>sep.join\<close>,
  \<^verbatim>\<open>split(',')\<close>, \<^verbatim>\<open>startswith\<close>, \<^verbatim>\<open>endswith\<close> and \<^verbatim>\<open>in\<close>.
\<close>

fun nat_str :: "nat \<Rightarrow> string" where
  "nat_str n = (if n < 10 then [char_of (48 + n)] else nat_str (n div 10) @ [char_of (48 + n mod 10)])"

declare nat_str.simps [simp del]

definition int_str :: "int \<Rightarrow> string" where
  "int_str i = (if i < 0 then ''-'' @ nat_str (nat (- i)) else nat_str (nat i))"

fun join_str :: "string \<Rightarrow> string list \<Rightarrow> string" where
  "join_str sep [] = ''''"
| "join_str sep [s] = s"
| "join_str sep (s # t # ts) = s @ sep @ join_str sep (t # ts)"

fun split_commas :: "string \<Rightarrow> string list" where
  "split_commas [] = [[]]"
| "split_commas (c # cs) =
     (if c = CHR '','' then [] # split_commas cs
      else (case split_commas cs of [] \<Rightarrow> [[c]] | s # ss \<Rightarrow> (c # s) # ss))"

definition starts_with :: "string \<Rightarrow> string \<Rightarrow> bool" where
  "starts_with s p \<longleftrightarrow> take (length p) s = p"

definition ends_with :: "string \<Rightarrow> string \<Rightarrow> bool" where
  "ends_with s p \<longleftrightarrow> length p \<le> length s \<and> drop (length s - length p) s = p"

text \<open>\<^verbatim>\<open>sub in s\<close>\<close>

definition contains_str :: "string \<Rightarrow> string \<Rightarrow> bool" where
  "contains_str sub s \<longleftrightarrow> list_ex (\<lambda>i. starts_with (drop i s) sub) [0..<length s + 1]"

lemma ends_with_append: "ends_with s p \<longleftrightarrow> (\<exists>r. s = r @ p)"
proof
  assume "ends_with s p"
  then have "s = take (length s - length p) s @ p" by (metis append_take_drop_id ends_with_def)
  then show "\<exists>r. s = r @ p" by blast
qed (auto simp: ends_with_def)

section \<open>Decimal numbers\<close>

lemma nat_str_digits: "set (nat_str n) \<subseteq> char_of ` {48..<58 :: nat}"
proof (induction n rule: nat_str.induct)
  case (1 n)
  show ?case
  proof (cases "n < 10")
    case False
    have "n mod 10 < 10" by simp
    then have "48 + n mod 10 \<in> {48..<58}" by auto
    then show ?thesis using 1 [OF False] False by (subst nat_str.simps) auto
  qed (subst nat_str.simps, auto)
qed

lemma comma_not_digit: "CHR '','' \<notin> char_of ` {48..<58 :: nat}"
proof
  assume "CHR '','' \<in> char_of ` {48..<58 :: nat}"
  then obtain n :: nat where n: "CHR '','' = char_of n" "48 \<le> n" "n < 58" by auto
  have "(44 :: nat) = of_char (CHR '','')" by simp
  also have "\<dots> = n mod 256" unfolding n(1) by (simp add: of_char_of)
  finally show False using n(2,3) by simp
qed

lemma int_str_no_comma: "CHR '','' \<notin> set (int_str i)"
  using nat_str_digits comma_not_digit by (auto simp: int_str_def)

section \<open>Joining and splitting\<close>

lemma split_commas_ne [simp]: "split_commas s \<noteq> []"
  by (cases s) (auto split: list.splits)

lemma split_no_comma: "CHR '','' \<notin> set s \<Longrightarrow> split_commas s = [s]"
  by (induction s) auto

lemma split_append_comma: "CHR '','' \<notin> set s \<Longrightarrow> split_commas (s @ CHR '','' # t) = s # split_commas t"
  by (induction s) auto

lemma split_join_commas:
  "ss \<noteq> [] \<Longrightarrow> \<forall>s \<in> set ss. CHR '','' \<notin> set s \<Longrightarrow> split_commas (join_str '','' ss) = ss"
proof (induction "'','' :: string" ss rule: join_str.induct)
  case (3 s t ts)
  then show ?case using split_append_comma [of s "join_str '','' (t # ts)"] by simp
qed (auto simp: split_no_comma)

end
