(* ===== verification/Communicator.thy ===== *)
theory Communicator
  imports Float64 Py_Strings
begin

text \<open>
  \<^verbatim>\<open>vllm/core/multimodel_scheduler.py\<close>, \<open>LLM_COMMUNICATOR\<close>: the process through which the models of a
  multi-model system hand their outputs to the models downstream. One definition per method, each
  over the record of the attributes it reads and writes. A method holds the lock of the model whose
  data it changes, so a call is one step of the system. A \<open>defaultdict\<close> is a total function unless
  its keys are iterated. Left out: the printing, the tokenizers (\<open>chat\<close>, a parameter, is the chat
  template of each base model's tokenizer), \<open>inp_req_ids\<close>, which no method reads, and
  \<open>_get_fused_inp_queues_limited_version\<close>, which nothing calls.
\<close>

section \<open>Contents of requests\<close>

text \<open>A content is generated text or a list of token ids; a slot that has not been filled is \<^verbatim>\<open>None\<close>.\<close>

datatype content = PyNone | Text string | Tokens "int list"

definition content_add :: "content \<Rightarrow> content \<Rightarrow> content result" where
  "content_add a b =
     (case (a, b) of
        (Text s, Text t) \<Rightarrow> Inr (Text (s @ t))
      | (Tokens xs, Tokens ys) \<Rightarrow> Inr (Tokens (xs @ ys))
      | _ \<Rightarrow> Inl TypeError)"

definition fuse_inp_srcs :: "content list \<Rightarrow> content result" where
  "fuse_inp_srcs src_seqs =
     (case src_seqs of
        [] \<Rightarrow> Inl IndexError
      | src # srcs \<Rightarrow> efold (\<lambda>src ret. content_add ret src) srcs src)"

text \<open>\<^verbatim>\<open>''.join\<close> raises on anything but strings.\<close>

definition join_texts :: "content list \<Rightarrow> content result" where
  "join_texts cs = ebind (efold (\<lambda>c acc. case c of Text s \<Rightarrow> Inr (acc @ s) | _ \<Rightarrow> Inl TypeError) cs []) (\<lambda>s. Inr (Text s))"

text \<open>\<^verbatim>\<open>str\<close> of a content, as \<^verbatim>\<open>str.format\<close> inserts it.\<close>

definition content_str :: "content \<Rightarrow> string" where
  "content_str c =
     (case c of PyNone \<Rightarrow> ''None'' | Text s \<Rightarrow> s | Tokens ts \<Rightarrow> ''['' @ join_str '', '' (map int_str ts) @ '']'')"

text \<open>
  \<^verbatim>\<open>str.format\<close> with positional arguments, for templates with the fields \<^verbatim>\<open>{}\<close> and doubled braces.
  A numbered, named or formatted field is outside the model (\<open>NotImplementedError\<close>).
\<close>

fun py_format :: "string \<Rightarrow> content list \<Rightarrow> string result" where
  "py_format [] args = Inr []"
| "py_format [c] args = (if c = CHR ''{'' \<or> c = CHR ''}'' then Inl (ValueError ''Single brace'') else Inr [c])"
| "py_format (c # d # cs) args =
     (if c = CHR ''{'' then
        (if d = CHR ''{'' then ebind (py_format cs args) (\<lambda>s. Inr (CHR ''{'' # s))
         else if d = CHR ''}'' then
           (case args of [] \<Rightarrow> Inl IndexError | a # as \<Rightarrow> ebind (py_format cs as) (\<lambda>s. Inr (content_str a @ s)))
         else Inl NotImplementedError)
      else if c = CHR ''}'' then
        (if d = CHR ''}'' then ebind (py_format cs args) (\<lambda>s. Inr (CHR ''}'' # s))
         else Inl (ValueError ''Single brace''))
      else ebind (py_format (d # cs) args) (\<lambda>s. Inr (c # s)))"

section \<open>The state\<close>

type_synonym request = "int \<times> content"

text \<open>The tuple \<open>(tokenizer, trust_remote_code[, template[, srcs_in_order]])\<close> of a base model.\<close>

record template_args =
  ta_tokenizer :: string
  ta_trust_remote_code :: bool
  ta_template :: "(string \<times> int list option) option"

record communicator =
  output_pool :: "int \<Rightarrow> request list"
  read_output_nums :: "int \<times> int \<Rightarrow> nat"
  available_srcs :: "int \<Rightarrow> (int, nat \<times> content list) dict"
  fused_inp_queues :: "int \<Rightarrow> request list"
  fetched_fused_inp_start :: "int \<Rightarrow> nat list"
  in_edge_dict :: "(int, int list) dict"
  unavailable_req_nums :: "(int, int) dict"
  ungened_out_req_nums :: "(int, int) dict"
  base_model_ids_dict :: "(int, int list) dict"
  out_reqs_reversed :: "(int, (int, (int, int list) dict) dict) dict"
  out_req_id_mapping :: "(int, (int, int \<times> nat) dict) dict"
  new_out_req_part_num :: "(int, (int, nat) dict) dict"
  meta_output_pool :: "(int, (int, nat \<times> content list) dict) dict"
  independent_srcs :: "(int, bool) dict"
  out_req_model_id_mapping :: "int \<Rightarrow> (int, int) dict"
  prompt_template_args :: "(int, template_args) dict"
  outlen_dict :: "(int, (int, int) dict) dict"
  non_compute_ranges :: "(int, (int \<times> float64 list \<times> float64 list) list) dict"

text \<open>\<open>d[k]\<close> of a \<^verbatim>\<open>defaultdict\<close> whose keys matter.\<close>

definition ddict_get :: "'v \<Rightarrow> ('k, 'v) dict \<Rightarrow> 'k \<Rightarrow> 'v" where
  "ddict_get z d k = (case map_of d k of None \<Rightarrow> z | Some v \<Rightarrow> v)"

section \<open>Construction\<close>

text \<open>\<open>_init_inp_req_from_which_model_which_out_reqs_reversed\<close>: for each output request the inputs it feeds.\<close>

definition reverse_req_info :: "(int, int) dict \<Rightarrow> (int, int list) dict" where
  "reverse_req_info from_req_info =
     fold (\<lambda>(inp_req_id, out_req_id) d. dict_set out_req_id (ddict_get [] d out_req_id @ [inp_req_id]) d) from_req_info
       (fold (\<lambda>out_req_id d. dict_set out_req_id [] d) (dict_values from_req_info) [])"

definition init_reversed :: "(int, (int, (int, int) dict) dict) dict \<Rightarrow> (int, (int, (int, int list) dict) dict) dict" where
  "init_reversed d = map (\<lambda>(to, from_info). (to, map (\<lambda>(from, info). (from, reverse_req_info info)) from_info)) d"

definition init_meta_output_pool :: "(int, (int, nat) dict) dict \<Rightarrow> (int, (int, nat \<times> content list) dict) dict" where
  "init_meta_output_pool d = map (\<lambda>(m, parts). (m, map (\<lambda>(r, n). (r, 0, replicate n PyNone)) parts)) d"

definition new_communicator ::
    "(int, int list) dict \<Rightarrow> (int, int list) dict \<Rightarrow> (int, (int, (int, int) dict) dict) dict
     \<Rightarrow> (int, (int, int \<times> nat) dict) dict \<Rightarrow> (int, (int, nat) dict) dict \<Rightarrow> (int, bool) dict
     \<Rightarrow> (int, template_args) dict \<Rightarrow> communicator" where
  "new_communicator in_edges base_ids from_reqs out_mapping part_num indep templates =
     \<lparr>output_pool = (\<lambda>_. []), read_output_nums = (\<lambda>_. 0), available_srcs = (\<lambda>_. []),
      fused_inp_queues = (\<lambda>_. []), fetched_fused_inp_start = (\<lambda>_. []), in_edge_dict = in_edges,
      unavailable_req_nums = [], ungened_out_req_nums = [], base_model_ids_dict = base_ids,
      out_reqs_reversed = init_reversed from_reqs, out_req_id_mapping = out_mapping,
      new_out_req_part_num = part_num, meta_output_pool = init_meta_output_pool part_num,
      independent_srcs = indep, out_req_model_id_mapping = (\<lambda>_. []),
      prompt_template_args = templates, outlen_dict = [], non_compute_ranges = []\<rparr>"

definition init_req_nums :: "(int, int) dict \<Rightarrow> (int, int) dict \<Rightarrow> communicator \<Rightarrow> communicator" where
  "init_req_nums unavailable ungened s =
     s\<lparr>unavailable_req_nums := dict_update (unavailable_req_nums s) unavailable,
       ungened_out_req_nums := dict_update (ungened_out_req_nums s) ungened\<rparr>"

definition update_non_compute_ranges ::
    "float64 list \<times> float64 list \<Rightarrow> int \<Rightarrow> int list \<Rightarrow> communicator \<Rightarrow> communicator" where
  "update_non_compute_ranges ranges shared_id gpu_ids s =
     s\<lparr>non_compute_ranges :=
         fold (\<lambda>g d. dict_set g (ddict_get [] d g @ [(shared_id, ranges)]) d) gpu_ids (non_compute_ranges s)\<rparr>"

definition get_all_model_outputs :: "communicator \<Rightarrow> (int, (int, int) dict) dict" where
  "get_all_model_outputs s = filter (\<lambda>(m, _). m \<ge> 0) (outlen_dict s)"

section \<open>Locks\<close>

text \<open>
  \<open>_get_correct_lock\<close> on \<open>_add_req_locks\<close> (\<open>add = True\<close>) or \<open>_fetch_req_locks\<close>: both dictionaries have a
  lock for each key of \<open>in_edge_dict\<close>, and are different objects, so the comparison of the code says
  which one was passed.
\<close>

datatype req_lock = Dummy_Lock | Model_Lock int

definition get_correct_lock :: "int \<Rightarrow> bool \<Rightarrow> bool \<Rightarrow> communicator \<Rightarrow> req_lock result" where
  "get_correct_lock model_id add read_only s =
     (let model_lock = ebind (dict_get (in_edge_dict s) model_id) (\<lambda>_. Inr (Model_Lock model_id))
      in if model_id < 0 then Inr Dummy_Lock
         else if add \<and> read_only then
           ebind (dict_get (ungened_out_req_nums s) model_id) (\<lambda>n. if n = 0 then Inr Dummy_Lock else model_lock)
         else model_lock)"

section \<open>Outputs of a model\<close>

text \<open>The slot \<open>ind\<close> of an output request that is put together from parts.\<close>

definition meta_put :: "nat \<Rightarrow> content \<Rightarrow> nat \<times> content list \<Rightarrow> (nat \<times> content list) result" where
  "meta_put ind c = (\<lambda>(n, parts). if ind < length parts then Inr (n + 1, parts[ind := c]) else Inl IndexError)"

definition process_output ::
    "int \<Rightarrow> request \<Rightarrow> communicator \<times> request list \<Rightarrow> (communicator \<times> request list) result" where
  "process_output model_id = (\<lambda>(req_id, c) (s, ret).
     ebind (dict_get (out_req_id_mapping s) model_id) (\<lambda>mapping.
     ebind (dict_get mapping req_id) (\<lambda>(new_out_id, ind).
     ebind (dict_get (meta_output_pool s) model_id) (\<lambda>pool.
     ebind (dict_get pool new_out_id) (\<lambda>entry.
     ebind (meta_put ind c entry) (\<lambda>(n, parts).
       let s = s\<lparr>meta_output_pool := dict_set model_id (dict_set new_out_id (n, parts) pool) (meta_output_pool s)\<rparr>
       in if n = length parts then ebind (fuse_inp_srcs parts) (\<lambda>fused. Inr (s, ret @ [(new_out_id, fused)]))
          else Inr (s, ret)))))))"

definition process_outputs :: "int \<Rightarrow> request list \<Rightarrow> communicator \<Rightarrow> (communicator \<times> request list) result" where
  "process_outputs model_id seqs s =
     ebind (dict_get (meta_output_pool s) model_id) (\<lambda>_. efold (process_output model_id) seqs (s, []))"

definition add_seqs_base_model :: "int \<Rightarrow> (int \<times> content \<times> int) list \<Rightarrow> communicator \<Rightarrow> communicator result" where
  "add_seqs_base_model model_id seqs s =
     (let seqlens = map (\<lambda>(req_id, _, seqlen). (req_id, seqlen)) seqs;
          seqs = map (\<lambda>(req_id, c, _). (req_id, c)) seqs
      in ebind (get_correct_lock model_id True False s) (\<lambda>_.
         ebind (if model_id \<in> set (dict_keys (new_out_req_part_num s)) then process_outputs model_id seqs s else Inr (s, seqs))
           (\<lambda>(s, to_add).
         ebind (dict_get (ungened_out_req_nums s) model_id) (\<lambda>n.
           Inr (s\<lparr>output_pool := (output_pool s)(model_id := output_pool s model_id @ to_add),
                  ungened_out_req_nums := dict_set model_id (n - int (length to_add)) (ungened_out_req_nums s),
                  outlen_dict := dict_set model_id (dict_update (ddict_get [] (outlen_dict s) model_id) seqlens) (outlen_dict s)\<rparr>)))))"

text \<open>\<^verbatim>\<open>try: ... except Exception: assert False\<close>.\<close>

definition assert_no_exception :: "'a result \<Rightarrow> 'a result" where
  "assert_no_exception r = (case r of Inl _ \<Rightarrow> Inl AssertionError | Inr v \<Rightarrow> Inr v)"

text \<open>The outputs of a fused model, by the base model whose request they answer.\<close>

definition split_by_base_model ::
    "(int, int) dict \<Rightarrow> (int \<times> content \<times> int) list \<Rightarrow> (int, (int \<times> content \<times> int) list) dict result" where
  "split_by_base_model mapping seqs =
     efold (\<lambda>q d. ebind (dict_get mapping (fst q)) (\<lambda>m. Inr (dict_set m (ddict_get [] d m @ [q]) d))) seqs []"

definition add_seqs :: "int \<Rightarrow> (int \<times> content \<times> int) list \<Rightarrow> communicator \<Rightarrow> communicator result" where
  "add_seqs shared_id seqs s = assert_no_exception
     (case map_of (base_model_ids_dict s) shared_id of
        None \<Rightarrow> ebind (py_assert (shared_id < 0)) (\<lambda>_. add_seqs_base_model shared_id seqs s)
      | Some [m] \<Rightarrow> add_seqs_base_model m seqs s
      | Some _ \<Rightarrow>
          ebind (split_by_base_model (out_req_model_id_mapping s shared_id) seqs) (\<lambda>d.
            efold (\<lambda>(m, qs). add_seqs_base_model m qs) d s))"

section \<open>Inputs of a model\<close>

definition get_selected_outputs :: "int \<Rightarrow> int \<Rightarrow> communicator \<Rightarrow> request list \<times> communicator" where
  "get_selected_outputs from_model_id to_model_id s =
     (let start = read_output_nums s (from_model_id, to_model_id);
          new = drop start (output_pool s from_model_id);
          s = s\<lparr>read_output_nums := (read_output_nums s)((from_model_id, to_model_id) := length (output_pool s from_model_id))\<rparr>
      in case Option.bind (map_of (out_reqs_reversed s) to_model_id) (\<lambda>d. map_of d from_model_id) of
           None \<Rightarrow> (new, s)
         | Some out_req_ids \<Rightarrow> (concat (map (\<lambda>(r, c). map (\<lambda>i. (i, c)) (ddict_get [] out_req_ids r)) new), s))"

text \<open>\<open>fuse_inp_srcs_based_on_template\<close>, for one source (\<open>one_src=True\<close>) and for several.\<close>

definition apply_template_one :: "int \<Rightarrow> request list \<Rightarrow> communicator \<Rightarrow> request list result" where
  "apply_template_one m reqs s =
     ebind (dict_get (prompt_template_args s) m) (\<lambda>ta.
       case ta_template ta of
         None \<Rightarrow> Inr reqs
       | Some (template, _) \<Rightarrow>
           efold (\<lambda>(r, c) acc. ebind (py_format template [c]) (\<lambda>t. Inr (acc @ [(r, Text t)]))) reqs [])"

definition apply_template_srcs :: "int \<Rightarrow> (int \<times> content list) list \<Rightarrow> communicator \<Rightarrow> request list result" where
  "apply_template_srcs m reqs s =
     ebind (dict_get (prompt_template_args s) m) (\<lambda>ta.
       case ta_template ta of
         None \<Rightarrow> efold (\<lambda>(r, cs) acc. ebind (join_texts cs) (\<lambda>c. Inr (acc @ [(r, c)]))) reqs []
       | Some (template, None) \<Rightarrow> Inl IndexError
       | Some (template, Some srcs_in_order) \<Rightarrow>
           ebind (dict_get (in_edge_dict s) m) (\<lambda>inps.
           let mapping = dict_update [] (zip inps [0..<length inps]) in
           efold (\<lambda>(r, cs) acc.
               ebind (efold (\<lambda>src as. ebind (dict_get mapping src) (\<lambda>i.
                        ebind (py_index cs (int i)) (\<lambda>c. Inr (as @ [c])))) srcs_in_order []) (\<lambda>args.
               ebind (py_format template args) (\<lambda>t. Inr (acc @ [(r, Text t)])))) reqs []))"

text \<open>A request from source number \<open>inp_i\<close>, and whether all \<open>inp_src_num\<close> sources of it have come.\<close>

definition add_source ::
    "nat \<Rightarrow> nat \<Rightarrow> request \<Rightarrow> (int, nat \<times> content list) dict \<times> int list \<Rightarrow> (int, nat \<times> content list) dict \<times> int list" where
  "add_source inp_src_num inp_i = (\<lambda>(r, c) (avail, complete).
     let (n, srcs) = ddict_get (0, replicate inp_src_num PyNone) avail r;
         avail = dict_set r (n + 1, srcs[inp_i := c]) avail
     in (avail, if n + 1 = inp_src_num then complete @ [r] else complete))"

definition fetch_single :: "int list \<Rightarrow> int \<Rightarrow> communicator \<Rightarrow> (request list \<times> communicator) result" where
  "fetch_single inps m s =
     efold (\<lambda>f (reqs, s). ebind (get_correct_lock f True True s) (\<lambda>_.
       let (new, s) = get_selected_outputs f m s in Inr (reqs @ new, s))) inps ([], s)"

definition fetch_multi :: "int list \<Rightarrow> int \<Rightarrow> communicator \<Rightarrow> (int list \<times> communicator) result" where
  "fetch_multi inps m s =
     efold (\<lambda>(i, f) (complete, s). ebind (get_correct_lock f True True s) (\<lambda>_.
       let (new, s) = get_selected_outputs f m s;
           (avail, complete) = fold (add_source (length inps) i) new (available_srcs s m, complete)
       in Inr (complete, s\<lparr>available_srcs := (available_srcs s)(m := avail)\<rparr>))) (enumerate 0 inps) ([], s)"

definition enqueue :: "int \<Rightarrow> request list \<Rightarrow> communicator \<Rightarrow> communicator result" where
  "enqueue m reqs s =
     ebind (dict_get (unavailable_req_nums s) m) (\<lambda>n.
       Inr (s\<lparr>fused_inp_queues := (fused_inp_queues s)(m := fused_inp_queues s m @ reqs),
              unavailable_req_nums := dict_set m (n - int (length reqs)) (unavailable_req_nums s)\<rparr>))"

definition get_fused_inp_queues :: "int \<Rightarrow> communicator \<Rightarrow> communicator result" where
  "get_fused_inp_queues m s =
     ebind (dict_get (unavailable_req_nums s) m) (\<lambda>n.
     if n = 0 then Inr s
     else ebind (dict_get (in_edge_dict s) m) (\<lambda>inps.
       ebind (if length inps = 1 then Inr True else dict_get (independent_srcs s) m) (\<lambda>single.
       if single then
         ebind (fetch_single inps m s) (\<lambda>(reqs, s).
         ebind (apply_template_one m (sort_key fst reqs) s) (\<lambda>reqs. enqueue m reqs s))
       else
         ebind (fetch_multi inps m s) (\<lambda>(complete, s).
         ebind (efold (\<lambda>r acc. ebind (dict_get (available_srcs s m) r) (\<lambda>(_, srcs). Inr (acc @ [(r, srcs)]))) (sort complete) [])
           (\<lambda>reqs. ebind (apply_template_srcs m reqs s) (\<lambda>reqs. enqueue m reqs s))))))"

text \<open>\<open>_get_seqs\<close>: worker \<open>dp_id\<close> takes every \<open>dp_size\<close>-th request from its own start.\<close>

definition get_seqs_of_worker :: "int \<Rightarrow> nat \<Rightarrow> nat \<Rightarrow> communicator \<Rightarrow> (request list \<times> communicator) result" where
  "get_seqs_of_worker m dp_id dp_size s =
     ebind (py_index (fetched_fused_inp_start s m) (int dp_id)) (\<lambda>start.
     if dp_size = 0 then Inl (ValueError ''slice step cannot be zero'')
     else let ret = stride start dp_size (fused_inp_queues s m)
          in Inr (ret, s\<lparr>fetched_fused_inp_start := (fetched_fused_inp_start s)
                          (m := (fetched_fused_inp_start s m)[dp_id := start + length ret * dp_size])\<rparr>))"

text \<open>\<open>_reset_state_for_model\<close>: what the workers have not taken, in order of the ids, is dealt out again.\<close>

definition reset_state_base_model :: "int \<Rightarrow> nat \<Rightarrow> communicator \<Rightarrow> communicator" where
  "reset_state_base_model m dp_size s =
     (let starts = fetched_fused_inp_start s m;
          remaining = concat (map (\<lambda>st. stride st (length starts) (fused_inp_queues s m)) starts)
      in s\<lparr>fused_inp_queues := (fused_inp_queues s)(m := sort_key fst remaining),
           fetched_fused_inp_start := (fetched_fused_inp_start s)(m := [0..<dp_size])\<rparr>)"

definition reset_state_for_model :: "int \<Rightarrow> nat \<Rightarrow> communicator \<Rightarrow> communicator result" where
  "reset_state_for_model shared_id dp_size s =
     ebind (dict_get (base_model_ids_dict s) shared_id) (\<lambda>ms. Inr (fold (\<lambda>m. reset_state_base_model m dp_size) ms s))"

definition update_out_req_model_id_mapping :: "int \<Rightarrow> int \<Rightarrow> request list \<Rightarrow> communicator \<Rightarrow> communicator result" where
  "update_out_req_model_id_mapping shared_id m reqs s =
     ebind (dict_get (base_model_ids_dict s) shared_id) (\<lambda>ms.
       if length ms = 1 then Inr s
       else Inr (s\<lparr>out_req_model_id_mapping := (out_req_model_id_mapping s)
              (shared_id := dict_update (out_req_model_id_mapping s shared_id) (map (\<lambda>(r, _). (r, m)) reqs))\<rparr>))"

text \<open>\<open>get_seqs_base_model\<close>: \<open>take_share\<close> is its part after the queue has been brought up to date.\<close>

definition take_share :: "int \<Rightarrow> int \<Rightarrow> nat \<Rightarrow> nat \<Rightarrow> communicator \<Rightarrow> (request list \<times> bool \<times> communicator) result" where
  "take_share sh m i k s =
     ebind (get_seqs_of_worker m i k s) (\<lambda>(ret, s).
     if ret \<noteq> [] then
       ebind (update_out_req_model_id_mapping sh m ret s) (\<lambda>s. Inr (ret, True, s))
     else
       let s = reset_state_base_model m k s in
       ebind (py_index (fetched_fused_inp_start s m) (int i)) (\<lambda>start.
       if start \<ge> length (fused_inp_queues s m) then
         (case fused_inp_queues s m of
            q # qs \<Rightarrow>
              ebind (update_out_req_model_id_mapping sh m [q]
                       (s\<lparr>fused_inp_queues := (fused_inp_queues s)(m := qs)\<rparr>)) (\<lambda>s. Inr ([q], True, s))
          | [] \<Rightarrow>
              ebind (dict_get (unavailable_req_nums s) m) (\<lambda>n.
              ebind (py_assert (n \<ge> 0)) (\<lambda>_. Inr ([], n \<noteq> 0, s))))
       else
         ebind (get_seqs_of_worker m i k s) (\<lambda>(ret, s).
         ebind (update_out_req_model_id_mapping sh m ret s) (\<lambda>s. Inr (ret, True, s)))))"

definition get_seqs_base_model :: "int \<Rightarrow> int \<Rightarrow> nat \<Rightarrow> nat \<Rightarrow> communicator \<Rightarrow> (request list \<times> bool \<times> communicator) result" where
  "get_seqs_base_model to_shared_id m dp_id dp_size s =
     ebind (get_correct_lock m False False s) (\<lambda>_.
     ebind (get_fused_inp_queues m s) (take_share to_shared_id m dp_id dp_size))"

definition apply_prompt_template :: "(int \<Rightarrow> (content \<Rightarrow> string) option) \<Rightarrow> int \<Rightarrow> request list \<Rightarrow> communicator \<Rightarrow> request list result" where
  "apply_prompt_template chat m seqs s =
     ebind (dict_get (prompt_template_args s) m) (\<lambda>_.
       Inr (case chat m of None \<Rightarrow> seqs | Some f \<Rightarrow> map (\<lambda>(r, c). (r, Text (f c))) seqs))"

definition get_seqs_loop ::
    "(int \<Rightarrow> (content \<Rightarrow> string) option) \<Rightarrow> int \<Rightarrow> nat \<Rightarrow> nat \<Rightarrow> bool \<Rightarrow> int
     \<Rightarrow> request list \<times> bool \<times> int list \<times> communicator \<Rightarrow> (request list \<times> bool \<times> int list \<times> communicator) result" where
  "get_seqs_loop chat to_shared_id dp_id dp_size fused m = (\<lambda>(ret, possible, ids, s).
     ebind (get_seqs_base_model to_shared_id m dp_id dp_size s) (\<lambda>(new, p, s).
     ebind (apply_prompt_template chat m new s) (\<lambda>new.
       Inr (ret @ new, possible \<or> p, if fused then ids @ replicate (length new) m else ids, s))))"

definition get_seqs_comm ::
    "(int \<Rightarrow> (content \<Rightarrow> string) option) \<Rightarrow> int \<Rightarrow> nat \<Rightarrow> nat \<Rightarrow> communicator
     \<Rightarrow> (request list \<times> bool \<times> int list \<times> communicator) result" where
  "get_seqs_comm chat to_shared_id dp_id dp_size s = assert_no_exception
     (ebind (dict_get (base_model_ids_dict s) to_shared_id) (\<lambda>ms.
      ebind (efold (get_seqs_loop chat to_shared_id dp_id dp_size (length ms > 1)) ms ([], False, [], s)) (\<lambda>(ret, possible, ids, s).
        Inr (ret, possible, if length ms = 1 then ms else ids, s))))"

end
