(* ===== verification/Dealing.thy ===== *)
theory Dealing
  imports Communicator
begin

text \<open>
  How the queue of a model is dealt to its data-parallel workers. Worker \<open>i\<close> of \<open>k\<close> owns the positions
  congruent to \<open>i\<close>, and its start is the first of them it has not taken. \<open>unread\<close> is the abstraction:
  the requests no worker has taken, which every operation on the queue changes as it should.
\<close>

section \<open>Extended slices by position\<close>

lemma stride_enumerate:
  "0 < k \<Longrightarrow> stride i k xs = map snd (filter (\<lambda>(j, _). n + i \<le> j \<and> k dvd (j - n - i)) (enumerate n xs))"
proof (induction i k xs arbitrary: n rule: stride.induct)
  case (1 i k)
  then show ?case by simp
next
  case (2 k x xs)
  have "n + k \<le> j \<and> k dvd j - Suc n - (k - 1) \<longleftrightarrow> n \<le> j \<and> k dvd j - n" if "Suc n \<le> j" for j
  proof (cases "n + k \<le> j")
    case True
    then obtain d where "j = n + k + d" by (auto simp: le_iff_add)
    then show ?thesis using 2(2) by simp
  next
    case False
    then show ?thesis using that by (auto dest: dvd_imp_le)
  qed
  then have "filter (\<lambda>(j, _). n + k \<le> j \<and> k dvd (j - Suc n - (k - 1))) (enumerate (Suc n) xs) =
      filter (\<lambda>(j, _). n \<le> j \<and> k dvd (j - n)) (enumerate (Suc n) xs)"
    by (intro filter_cong refl) (simp only: in_set_enumerate_eq case_prod_beta)
  with 2(1) [of "Suc n"] 2(2) show ?case by simp
next
  case (3 i k x xs)
  then show ?case using 3(1) [of "Suc n"] by simp
qed

lemma stride_end:
  "0 < k \<Longrightarrow> length xs \<le> i + length (stride i k xs) * k \<and>
     (stride i k xs = [] \<or> i + length (stride i k xs) * k < length xs + k)"
proof (induction i k xs rule: stride.induct)
  case (2 k x xs)
  then show ?case by (cases "stride (k - 1) k xs = []") auto
qed auto

lemma mset_filter_split:
  assumes "\<And>x. x \<in> set xs \<Longrightarrow> P x \<longleftrightarrow> Q x \<or> R x" and "\<And>x. x \<in> set xs \<Longrightarrow> \<not> (Q x \<and> R x)"
  shows "mset (filter P xs) = mset (filter Q xs) + mset (filter R xs)"
  using assms by (induction xs) auto

lemma mset_concat_classes:
  "mset (concat (map (\<lambda>i. filter (\<lambda>x. c x = i \<and> P x) xs) [0..<k])) = mset (filter (\<lambda>x. c x < k \<and> P x) xs)"
proof (induction k)
  case (Suc k)
  have "mset (filter (\<lambda>x. c x < Suc k \<and> P x) xs) =
      mset (filter (\<lambda>x. c x < k \<and> P x) xs) + mset (filter (\<lambda>x. c x = k \<and> P x) xs)"
    by (rule mset_filter_split) auto
  with Suc show ?case by simp
qed simp

section \<open>What no worker has taken\<close>

definition unread :: "nat list \<Rightarrow> 'a list \<Rightarrow> 'a list" where
  "unread starts q = map snd (filter (\<lambda>(j, _). starts ! (j mod length starts) \<le> j) (enumerate 0 q))"

definition starts_ok :: "nat list \<Rightarrow> nat \<Rightarrow> bool" where
  "starts_ok starts n \<longleftrightarrow> starts \<noteq> [] \<and>
     (\<forall>i < length starts. starts ! i mod length starts = i \<and> starts ! i < n + length starts)"

lemma stride_class:
  assumes "starts_ok starts n" and "i < length starts"
  shows "stride (starts ! i) (length starts) q =
    map snd (filter (\<lambda>(j, _). j mod length starts = i \<and> starts ! i \<le> j) (enumerate 0 q))"
proof -
  have k: "0 < length starts" and i: "starts ! i mod length starts = i"
    using assms by (auto simp: starts_ok_def)
  have "0 + starts ! i \<le> j \<and> length starts dvd j - 0 - starts ! i \<longleftrightarrow> j mod length starts = i \<and> starts ! i \<le> j" for j
    using i mod_eq_dvd_iff_nat [of "starts ! i" j "length starts"] by auto
  then show ?thesis by (simp only: stride_enumerate [OF k, of _ q 0])
qed

text \<open>Worker \<open>i\<close> takes its part: exactly that part is no longer unread.\<close>

lemma unread_take:
  assumes "starts_ok starts (length q)" and "i < length starts"
    and "starts' = starts[i := starts ! i + length (stride (starts ! i) (length starts) q) * length starts]"
  shows "starts_ok starts' (length q)"
    and "mset (unread starts q) = mset (stride (starts ! i) (length starts) q) + mset (unread starts' q)"
proof -
  let ?k = "length starts" and ?ret = "stride (starts ! i) (length starts) q"
  have k: "0 < ?k" and st: "\<And>j. j < ?k \<Longrightarrow> starts ! j mod ?k = j \<and> starts ! j < length q + ?k"
    using assms(1) by (auto simp: starts_ok_def)
  note e = stride_end [OF k, of q "starts ! i"]
  show "starts_ok starts' (length q)"
    unfolding starts_ok_def
  proof (intro conjI allI impI)
    show "starts' \<noteq> []" using k assms(3) by auto
    fix j assume j: "j < length starts'"
    then have jk: "j < ?k" by (simp add: assms(3))
    show "starts' ! j mod length starts' = j" using st [OF jk] jk by (cases "i = j") (simp_all add: assms(3) nth_list_update)
    show "starts' ! j < length q + length starts'"
      using st [OF jk] e jk by (cases "i = j") (auto simp: assms(3) nth_list_update)
  qed
  have "filter (\<lambda>(j, _). starts ! (j mod ?k) \<le> j) (enumerate 0 q) = filter (\<lambda>p. starts ! (fst p mod ?k) \<le> fst p) (enumerate 0 q)"
    by (simp add: case_prod_unfold)
  moreover have "mset (filter (\<lambda>p. starts ! (fst p mod ?k) \<le> fst p) (enumerate 0 q)) =
      mset (filter (\<lambda>p. fst p mod ?k = i \<and> starts ! i \<le> fst p) (enumerate 0 q)) +
      mset (filter (\<lambda>p. starts' ! (fst p mod ?k) \<le> fst p) (enumerate 0 q))"
  proof (rule mset_filter_split)
    fix p assume "p \<in> set (enumerate 0 q)"
    then have p: "fst p < length q" by (auto simp: in_set_enumerate_eq)
    have "\<not> starts' ! i \<le> fst p" using p e assms(2,3) by simp
    moreover have "c \<noteq> i \<Longrightarrow> starts' ! c = starts ! c" for c by (simp add: assms(3))
    ultimately show "starts ! (fst p mod ?k) \<le> fst p \<longleftrightarrow>
        (fst p mod ?k = i \<and> starts ! i \<le> fst p) \<or> starts' ! (fst p mod ?k) \<le> fst p"
      "\<not> ((fst p mod ?k = i \<and> starts ! i \<le> fst p) \<and> starts' ! (fst p mod ?k) \<le> fst p)"
      by (metis)+
  qed
  ultimately show "mset (unread starts q) = mset ?ret + mset (unread starts' q)"
    using stride_class [OF assms(1,2), of q] assms(3)
    by (simp add: unread_def case_prod_unfold image_mset_union flip: image_mset_union)
qed

text \<open>New requests at the end of the queue are unread.\<close>

lemma unread_append:
  assumes "starts_ok starts (length q)"
  shows "unread starts (q @ new) = unread starts q @ new" and "starts_ok starts (length (q @ new))"
proof -
  let ?k = "length starts"
  have k: "0 < ?k" and st: "\<And>j. j < ?k \<Longrightarrow> starts ! j mod ?k = j \<and> starts ! j < length q + ?k"
    using assms by (auto simp: starts_ok_def)
  have "starts ! (j mod ?k) \<le> j" if "length q \<le> j" for j
  proof (rule ccontr)
    assume "\<not> starts ! (j mod ?k) \<le> j"
    moreover have m: "starts ! (j mod ?k) mod ?k = j mod ?k" "starts ! (j mod ?k) < length q + ?k"
      using st [of "j mod ?k"] k by auto
    ultimately have "?k dvd starts ! (j mod ?k) - j" "0 < starts ! (j mod ?k) - j"
      using mod_eq_dvd_iff_nat [of j "starts ! (j mod ?k)" ?k] by auto
    then have "?k \<le> starts ! (j mod ?k) - j" by (metis dvd_imp_le)
    then have "j + ?k \<le> starts ! (j mod ?k)" using k by linarith
    with m(2) that show False by simp
  qed
  then have "filter (\<lambda>(j, _). starts ! (j mod ?k) \<le> j) (enumerate (length q) new) = enumerate (length q) new"
    by (auto simp: filter_id_conv in_set_enumerate_eq)
  then show "unread starts (q @ new) = unread starts q @ new"
    by (simp add: unread_def enumerate_append_eq)
  show "starts_ok starts (length (q @ new))" using assms by (auto simp: starts_ok_def)
qed

text \<open>After a reset nothing has been taken.\<close>

lemma starts_ok_reset [simp]: "0 < k \<Longrightarrow> starts_ok [0..<k] n"
  by (simp add: starts_ok_def)

lemma unread_reset [simp]: "0 < k \<Longrightarrow> unread [0..<k] q = q"
proof -
  assume "0 < k"
  then have "filter (\<lambda>(j, _). [0..<k] ! (j mod length [0..<k]) \<le> j) (enumerate 0 q) = enumerate 0 q"
    by (auto simp: filter_id_conv)
  then show ?thesis by (simp add: unread_def)
qed

lemma unread_Nil [simp]: "unread starts [] = []"
  by (simp add: unread_def)

text \<open>What a reset collects from the workers is what is unread.\<close>

lemma unread_collect:
  assumes "starts_ok starts (length q)"
  shows "mset (concat (map (\<lambda>st. stride st (length starts) q) starts)) = mset (unread starts q)"
proof -
  let ?k = "length starts" and ?P = "\<lambda>p. starts ! (fst p mod length starts) \<le> fst p"
  have k: "0 < ?k" using assms by (auto simp: starts_ok_def)
  have "map (\<lambda>st. stride st ?k q) starts = map (\<lambda>i. stride (starts ! i) ?k q) [0..<?k]"
    by (metis (no_types, lifting) map_nth map_map comp_apply map_cong)
  also have "\<dots> = map (\<lambda>i. map snd (filter (\<lambda>p. fst p mod ?k = i \<and> ?P p) (enumerate 0 q))) [0..<?k]"
    by (auto simp: stride_class [OF assms] case_prod_unfold intro!: arg_cong [where f = "map snd"] filter_cong)
  finally have "mset (concat (map (\<lambda>st. stride st ?k q) starts)) =
      image_mset snd (mset (concat (map (\<lambda>i. filter (\<lambda>p. fst p mod ?k = i \<and> ?P p) (enumerate 0 q)) [0..<?k])))"
    by (simp add: map_concat o_def flip: mset_map)
  also have "\<dots> = image_mset snd (mset (filter (\<lambda>p. fst p mod ?k < ?k \<and> ?P p) (enumerate 0 q)))"
    by (simp only: mset_concat_classes)
  also have "\<dots> = mset (unread starts q)"
    using k by (simp add: unread_def case_prod_unfold)
  finally show ?thesis .
qed

end
