(* ===== verification/Comm_Delivery.thy ===== *)
theory Comm_Delivery
  imports Dealing "HOL-Library.Sublist"
begin

text \<open>
  Delivery by the communicator: in every run of its methods, whatever the order in which the workers
  of a model ask and however often the model is restarted with another number of workers, each
  request that has arrived for a model is handed out once or still queued.
\<close>

section \<open>What has arrived and what is pending\<close>

definition targets :: "int \<Rightarrow> int \<Rightarrow> communicator \<Rightarrow> int \<Rightarrow> int list" where
  "targets f m s r =
     (case Option.bind (map_of (out_reqs_reversed s) m) (\<lambda>d. map_of d f) of
        None \<Rightarrow> [r] | Some d \<Rightarrow> ddict_get [] d r)"

definition arrived_from :: "int \<Rightarrow> int \<Rightarrow> communicator \<Rightarrow> int multiset" where
  "arrived_from f m s = mset (concat (map (\<lambda>(r, _). targets f m s r) (take (read_output_nums s (f, m)) (output_pool s f))))"

definition arrived :: "int \<Rightarrow> communicator \<Rightarrow> int multiset" where
  "arrived m s = (\<Sum>f \<in> set (ddict_get [] (in_edge_dict s) m). arrived_from f m s)"

definition pending :: "int \<Rightarrow> communicator \<Rightarrow> int multiset" where
  "pending m s = mset (map fst (unread (fetched_fused_inp_start s m) (fused_inp_queues s m)))"

definition queue_ok :: "int \<Rightarrow> communicator \<Rightarrow> bool" where
  "queue_ok m s \<longleftrightarrow>
     (if fetched_fused_inp_start s m = [] then fused_inp_queues s m = []
      else starts_ok (fetched_fused_inp_start s m) (length (fused_inp_queues s m)))"

definition reads_ok :: "communicator \<Rightarrow> bool" where
  "reads_ok s \<longleftrightarrow> (\<forall>f m. read_output_nums s (f, m) \<le> length (output_pool s f))"

text \<open>A model with one source, or whose sources feed it independently.\<close>

definition one_source :: "int \<Rightarrow> communicator \<Rightarrow> bool" where
  "one_source m s \<longleftrightarrow> (\<exists>inps. map_of (in_edge_dict s) m = Some inps \<and>
     (length inps = 1 \<or> map_of (independent_srcs s) m = Some True))"

text \<open>What never changes after the construction.\<close>

definition same_setup :: "communicator \<Rightarrow> communicator \<Rightarrow> bool" where
  "same_setup s s' \<longleftrightarrow> in_edge_dict s' = in_edge_dict s \<and> out_reqs_reversed s' = out_reqs_reversed s \<and>
     independent_srcs s' = independent_srcs s"

lemma same_setup_refl [simp]: "same_setup s s"
  by (simp add: same_setup_def)

lemma same_setup_trans: "same_setup s t \<Longrightarrow> same_setup t u \<Longrightarrow> same_setup s u"
  by (simp add: same_setup_def)

lemma one_source_setup: "same_setup s s' \<Longrightarrow> one_source m s' = one_source m s"
  by (simp add: same_setup_def one_source_def)

section \<open>Reading the outputs of the sources\<close>

lemma arrived_from_new:
  assumes "get_selected_outputs f m s = (new, s')" and "reads_ok s"
  shows "arrived_from f m s' = arrived_from f m s + mset (map fst new)"
    and "f' \<noteq> f \<Longrightarrow> arrived_from f' m s' = arrived_from f' m s"
    and "\<exists>r. s' = s\<lparr>read_output_nums := r\<rparr> \<and> (\<forall>g n. n \<noteq> m \<longrightarrow> r (g, n) = read_output_nums s (g, n))"
    and "reads_ok s'"
proof -
  let ?n = "read_output_nums s (f, m)" and ?pool = "output_pool s f"
  have s': "s' = s\<lparr>read_output_nums := (read_output_nums s)((f, m) := length ?pool)\<rparr>"
    and new: "map fst new = concat (map (\<lambda>(r, _). targets f m s r) (drop ?n ?pool))"
    using assms(1) by (auto simp: get_selected_outputs_def Let_def targets_def map_concat o_def case_prod_unfold split: option.splits)
  have t: "targets g m s' = targets g m s" for g by (rule ext) (simp add: s' targets_def)
  have "map (\<lambda>(r, _). targets f m s r) ?pool =
      map (\<lambda>(r, _). targets f m s r) (take ?n ?pool) @ map (\<lambda>(r, _). targets f m s r) (drop ?n ?pool)"
    by (simp flip: map_append)
  then show "arrived_from f m s' = arrived_from f m s + mset (map fst new)"
    unfolding arrived_from_def t new by (simp add: s' del: mset_map)
  show "f' \<noteq> f \<Longrightarrow> arrived_from f' m s' = arrived_from f' m s"
    unfolding arrived_from_def t by (simp add: s')
  show "\<exists>r. s' = s\<lparr>read_output_nums := r\<rparr> \<and> (\<forall>g n. n \<noteq> m \<longrightarrow> r (g, n) = read_output_nums s (g, n))"
    by (rule exI [of _ "(read_output_nums s)((f, m) := length ?pool)"]) (simp add: s')
  show "reads_ok s'" using assms(2) by (simp add: reads_ok_def s')
qed

lemma sum_arrived_new:
  assumes "get_selected_outputs f m s = (new, s')" and "reads_ok s" and "finite A" and "f \<in> A"
  shows "(\<Sum>g \<in> A. arrived_from g m s') = (\<Sum>g \<in> A. arrived_from g m s) + mset (map fst new)"
proof -
  have "(\<Sum>g \<in> A - {f}. arrived_from g m s') = (\<Sum>g \<in> A - {f}. arrived_from g m s)"
    using arrived_from_new(2) [OF assms(1,2)] by (intro sum.cong) auto
  then show ?thesis
    using arrived_from_new(1) [OF assms(1,2)] assms(3,4) by (simp add: sum.remove [of A f] add_ac)
qed

lemma fetch_loop:
  assumes "efold (\<lambda>f (reqs, s). ebind (get_correct_lock f True True s) (\<lambda>_.
       let (new, s) = get_selected_outputs f m s in Inr (reqs @ new, s))) inps (acc, s) = Inr (reqs, s')"
    and "reads_ok s" and "finite A" and "set inps \<subseteq> A"
  shows "(\<Sum>g \<in> A. arrived_from g m s') + mset (map fst acc) = (\<Sum>g \<in> A. arrived_from g m s) + mset (map fst reqs)"
    and "\<exists>r. s' = s\<lparr>read_output_nums := r\<rparr> \<and> (\<forall>g n. n \<noteq> m \<longrightarrow> r (g, n) = read_output_nums s (g, n))"
    and "reads_ok s'"
proof -
  have "(\<Sum>g \<in> A. arrived_from g m s') + mset (map fst acc) = (\<Sum>g \<in> A. arrived_from g m s) + mset (map fst reqs) \<and>
     (\<exists>r. s' = s\<lparr>read_output_nums := r\<rparr> \<and> (\<forall>g n. n \<noteq> m \<longrightarrow> r (g, n) = read_output_nums s (g, n))) \<and> reads_ok s'"
    using assms(1,2,4)
  proof (induction inps arbitrary: acc s)
    case Nil
    then show ?case by (auto intro!: exI [of _ "read_output_nums s"])
  next
    case (Cons f fs)
    obtain new s1 where n: "get_selected_outputs f m s = (new, s1)" by force
    note a = arrived_from_new [OF n Cons.prems(2)]
    obtain r1 where r1: "s1 = s\<lparr>read_output_nums := r1\<rparr>" "\<forall>g n. n \<noteq> m \<longrightarrow> r1 (g, n) = read_output_nums s (g, n)"
      using a(3) by blast
    have run: "efold (\<lambda>f (reqs, s). ebind (get_correct_lock f True True s) (\<lambda>_.
         let (new, s) = get_selected_outputs f m s in Inr (reqs @ new, s))) fs (acc @ new, s1) = Inr (reqs, s')"
      using Cons.prems(1) n by auto
    have sub: "set fs \<subseteq> A" using Cons.prems(3) by simp
    have fA: "f \<in> A" using Cons.prems(3) by simp
    from Cons.IH [OF run a(4) sub] obtain r where
      r: "s' = s1\<lparr>read_output_nums := r\<rparr>" "\<forall>g n. n \<noteq> m \<longrightarrow> r (g, n) = read_output_nums s1 (g, n)" "reads_ok s'"
      and eq: "(\<Sum>g \<in> A. arrived_from g m s') + mset (map fst (acc @ new)) = (\<Sum>g \<in> A. arrived_from g m s1) + mset (map fst reqs)"
      by blast
    have "(\<Sum>g \<in> A. arrived_from g m s') + mset (map fst acc) + mset (map fst new) =
        (\<Sum>g \<in> A. arrived_from g m s) + mset (map fst reqs) + mset (map fst new)"
      using eq sum_arrived_new [OF n Cons.prems(2) assms(3) fA] by (simp add: add_ac del: mset_map)
    moreover have "\<exists>r. s' = s\<lparr>read_output_nums := r\<rparr> \<and> (\<forall>g n. n \<noteq> m \<longrightarrow> r (g, n) = read_output_nums s (g, n))"
      using r(1,2) r1 by (intro exI [of _ r]) simp
    ultimately show ?case using r(3) by simp
  qed
  then show "(\<Sum>g \<in> A. arrived_from g m s') + mset (map fst acc) = (\<Sum>g \<in> A. arrived_from g m s) + mset (map fst reqs)"
    and "\<exists>r. s' = s\<lparr>read_output_nums := r\<rparr> \<and> (\<forall>g n. n \<noteq> m \<longrightarrow> r (g, n) = read_output_nums s (g, n))"
    and "reads_ok s'" by blast+
qed

lemma apply_template_one_ids:
  assumes "apply_template_one m reqs s = Inr reqs'"
  shows "map fst reqs' = map fst reqs"
proof -
  have "efold (\<lambda>(r, c) acc. ebind (py_format template [c]) (\<lambda>t. Inr (acc @ [(r, Text t)]))) reqs acc = Inr reqs' \<Longrightarrow>
      map fst reqs' = map fst acc @ map fst reqs" for template acc
    by (induction reqs arbitrary: acc) auto
  then show ?thesis
    using assms by (auto simp: apply_template_one_def split: option.splits)
qed

section \<open>The queue\<close>

text \<open>How an operation on model \<open>m\<close> leaves everything else.\<close>

definition only_model :: "int \<Rightarrow> communicator \<Rightarrow> communicator \<Rightarrow> bool" where
  "only_model m s s' \<longleftrightarrow> same_setup s s' \<and> output_pool s' = output_pool s \<and>
     (\<forall>n. n \<noteq> m \<longrightarrow> fused_inp_queues s' n = fused_inp_queues s n \<and>
        fetched_fused_inp_start s' n = fetched_fused_inp_start s n \<and>
        map_of (unavailable_req_nums s') n = map_of (unavailable_req_nums s) n \<and>
        (\<forall>f. read_output_nums s' (f, n) = read_output_nums s (f, n)))"

lemma one_source_only: "only_model n s s' \<Longrightarrow> one_source m s' = one_source m s"
  by (simp add: only_model_def same_setup_def one_source_def)

lemma only_model_refl [simp]: "only_model m s s"
  by (simp add: only_model_def)

lemma only_model_trans: "only_model m s t \<Longrightarrow> only_model m t u \<Longrightarrow> only_model m s u"
  by (auto simp: only_model_def intro: same_setup_trans)

lemma arrived_cong:
  assumes "same_setup s s'" and "output_pool s' = output_pool s"
    and "\<And>f. read_output_nums s' (f, n) = read_output_nums s (f, n)"
  shows "arrived n s' = arrived n s"
proof -
  have "targets f n s' = targets f n s" for f by (rule ext) (use assms(1) in \<open>simp add: targets_def same_setup_def\<close>)
  then show ?thesis using assms by (simp add: arrived_def arrived_from_def same_setup_def)
qed

lemma only_model_others:
  assumes "only_model m s s'" and "n \<noteq> m"
  shows "arrived n s' = arrived n s" "pending n s' = pending n s" "queue_ok n s' = queue_ok n s"
    "map_of (unavailable_req_nums s') n = map_of (unavailable_req_nums s) n"
  using assms arrived_cong [of s s' n] by (auto simp: only_model_def pending_def queue_ok_def)

lemma queue_append:
  assumes "queue_ok m s" and "fetched_fused_inp_start s m \<noteq> []"
    and "s' = s\<lparr>fused_inp_queues := (fused_inp_queues s)(m := fused_inp_queues s m @ new), unavailable_req_nums := u\<rparr>"
  shows "queue_ok m s'" "pending m s' = pending m s + mset (map fst new)"
  using assms unread_append [of "fetched_fused_inp_start s m" "fused_inp_queues s m" new]
  by (simp_all add: queue_ok_def pending_def)

text \<open>Taking over the new outputs of the sources: they move from the pools to the queue.\<close>

lemma get_fused_inp_queues_ok:
  assumes "get_fused_inp_queues m s = Inr s'" and "one_source m s" and "queue_ok m s" and "reads_ok s"
    and "fetched_fused_inp_start s m \<noteq> []"
  shows "pending m s' + arrived m s = pending m s + arrived m s'" "queue_ok m s'" "reads_ok s'" "only_model m s s'"
    "fetched_fused_inp_start s' m = fetched_fused_inp_start s m"
    "map_of (unavailable_req_nums s) m = Some N \<Longrightarrow>
       \<exists>N'. map_of (unavailable_req_nums s') m = Some N' \<and> N' + int (size (arrived m s')) = N + int (size (arrived m s))"
proof -
  obtain N0 where N0: "map_of (unavailable_req_nums s) m = Some N0"
    using assms(1) by (auto simp: get_fused_inp_queues_def)
  have "pending m s' + arrived m s = pending m s + arrived m s' \<and> queue_ok m s' \<and> reads_ok s' \<and> only_model m s s' \<and>
    fetched_fused_inp_start s' m = fetched_fused_inp_start s m \<and>
    (\<exists>N'. map_of (unavailable_req_nums s') m = Some N' \<and> N' + int (size (arrived m s')) = N0 + int (size (arrived m s)))"
  proof (cases "N0 = 0")
    case True
    then have "s' = s" using assms(1) N0 by (simp add: get_fused_inp_queues_def dict_get_def)
    then show ?thesis using assms N0 by simp
  next
    case False
    obtain inps where inps: "map_of (in_edge_dict s) m = Some inps"
      "length inps = 1 \<or> map_of (independent_srcs s) m = Some True"
      using assms(2) by (auto simp: one_source_def)
    obtain reqs s1 reqs' where f: "fetch_single inps m s = Inr (reqs, s1)"
      and t: "apply_template_one m (sort_key fst reqs) s1 = Inr reqs'" and e: "enqueue m reqs' s1 = Inr s'"
      using assms(1) N0 False inps by (auto simp: get_fused_inp_queues_def dict_get_def split: if_splits)
    note l = fetch_loop [OF f [unfolded fetch_single_def] assms(4), of "set inps"]
    obtain r where r: "s1 = s\<lparr>read_output_nums := r\<rparr>" "\<forall>g n. n \<noteq> m \<longrightarrow> r (g, n) = read_output_nums s (g, n)"
      using l(2) by blast
    have ids: "mset (map fst reqs') = mset (map fst reqs)"
      by (simp add: apply_template_one_ids [OF t] del: mset_map) (simp add: mset_map)
    have s': "s' = s1\<lparr>fused_inp_queues := (fused_inp_queues s1)(m := fused_inp_queues s1 m @ reqs'),
        unavailable_req_nums := dict_set m (N0 - int (length reqs')) (unavailable_req_nums s1)\<rparr>"
      using e N0 r(1) by (simp add: enqueue_def dict_get_def)
    have q1: "queue_ok m s1" "fetched_fused_inp_start s1 m \<noteq> []" "pending m s1 = pending m s"
      using assms(3,5) r(1) by (simp_all add: queue_ok_def pending_def)
    note q = queue_append [OF q1(1,2) s']
    have a1: "arrived m s1 = arrived m s + mset (map fst reqs)"
      using l(1) inps(1) r(1) by (simp add: arrived_def ddict_get_def)
    have a: "arrived m s' = arrived m s1"
      by (rule arrived_cong) (simp_all add: s' same_setup_def)
    have "pending m s' + arrived m s = pending m s + arrived m s'"
      unfolding a a1 q(2) q1(3) ids by (simp add: add_ac)
    moreover have "reads_ok s'" using l(3) by (simp add: reads_ok_def s')
    moreover have "only_model m s s'"
      using r by (simp add: s' only_model_def same_setup_def update_conv')
    moreover have "size (arrived m s') = size (arrived m s) + length reqs'"
      unfolding a a1 using ids by (metis size_mset size_union length_map)
    ultimately show ?thesis using q(1) r(1) by (simp add: s' update_conv')
  qed
  then show "pending m s' + arrived m s = pending m s + arrived m s'" "queue_ok m s'" "reads_ok s'" "only_model m s s'"
    "fetched_fused_inp_start s' m = fetched_fused_inp_start s m"
    "map_of (unavailable_req_nums s) m = Some N \<Longrightarrow>
       \<exists>N'. map_of (unavailable_req_nums s') m = Some N' \<and> N' + int (size (arrived m s')) = N + int (size (arrived m s))"
    using N0 by auto
qed

lemma get_seqs_of_worker_ok:
  assumes "get_seqs_of_worker m i (length (fetched_fused_inp_start s m)) s = Inr (ret, s')" and "queue_ok m s"
  shows "pending m s = mset (map fst ret) + pending m s'" "queue_ok m s'" "only_model m s s'"
    "\<exists>st. s' = s\<lparr>fetched_fused_inp_start := st\<rparr>" "i < length (fetched_fused_inp_start s m)"
proof -
  let ?st = "fetched_fused_inp_start s m" and ?q = "fused_inp_queues s m"
  have i: "i < length ?st" and ret: "ret = stride (?st ! i) (length ?st) ?q"
    and s': "s' = s\<lparr>fetched_fused_inp_start := (fetched_fused_inp_start s)(m := ?st[i := ?st ! i + length ret * length ?st])\<rparr>"
    using assms(1) by (auto simp: get_seqs_of_worker_def py_index_of_nat Let_def split: if_splits)
  have st: "starts_ok ?st (length ?q)" using assms(2) i by (auto simp: queue_ok_def split: if_splits)
  note u = unread_take [OF st i, of "?st[i := ?st ! i + length ret * length ?st]"]
  have ne: "?st \<noteq> []" using i by auto
  show "pending m s = mset (map fst ret) + pending m s'"
    using u(2) by (simp add: s' ret pending_def flip: image_mset_union)
  show "queue_ok m s'" using u(1) ne by (simp add: queue_ok_def s' ret)
  show "only_model m s s'" by (simp add: only_model_def s' same_setup_def)
  show "\<exists>st. s' = s\<lparr>fetched_fused_inp_start := st\<rparr>" using s' by blast
  show "i < length ?st" by (rule i)
qed

lemma reset_state_base_model_ok:
  assumes "queue_ok m s" and "0 < k"
  shows "pending m (reset_state_base_model m k s) = pending m s" "queue_ok m (reset_state_base_model m k s)"
    "only_model m s (reset_state_base_model m k s)" "fetched_fused_inp_start (reset_state_base_model m k s) m = [0..<k]"
    "mset (map fst (fused_inp_queues (reset_state_base_model m k s) m)) = pending m s"
    "\<exists>st q. reset_state_base_model m k s = s\<lparr>fused_inp_queues := q, fetched_fused_inp_start := st\<rparr>"
proof -
  let ?st = "fetched_fused_inp_start s m" and ?q = "fused_inp_queues s m"
  have "mset (concat (map (\<lambda>st. stride st (length ?st) ?q) ?st)) = mset (unread ?st ?q)"
    using assms(1) unread_collect [of ?st ?q] by (cases "?st = []") (simp_all add: queue_ok_def)
  then have c: "mset (map fst (concat (map (\<lambda>st. stride st (length ?st) ?q) ?st))) = pending m s"
    by (simp add: pending_def)
  then show "mset (map fst (fused_inp_queues (reset_state_base_model m k s) m)) = pending m s"
    by (simp add: reset_state_base_model_def Let_def)
  then show "pending m (reset_state_base_model m k s) = pending m s"
    using assms(2) by (simp add: pending_def reset_state_base_model_def Let_def)
  show "queue_ok m (reset_state_base_model m k s)"
    using assms(2) by (simp add: queue_ok_def reset_state_base_model_def Let_def)
  show "only_model m s (reset_state_base_model m k s)"
    by (simp add: only_model_def reset_state_base_model_def Let_def same_setup_def)
  show "fetched_fused_inp_start (reset_state_base_model m k s) m = [0..<k]"
    by (simp add: reset_state_base_model_def Let_def)
  show "\<exists>st q. reset_state_base_model m k s = s\<lparr>fused_inp_queues := q, fetched_fused_inp_start := st\<rparr>"
    unfolding reset_state_base_model_def Let_def by blast
qed

lemma update_mapping_fields:
  assumes "update_out_req_model_id_mapping sh m reqs s = Inr s'"
  shows "\<exists>x. s' = s\<lparr>out_req_model_id_mapping := x\<rparr>"
  using assms by (auto simp: update_out_req_model_id_mapping_def split: if_splits intro: exI [of _ "out_req_model_id_mapping s"])

lemma mapping_irrelevant:
  "pending m (s\<lparr>out_req_model_id_mapping := x\<rparr>) = pending m s"
  "arrived m (s\<lparr>out_req_model_id_mapping := x\<rparr>) = arrived m s"
  "queue_ok m (s\<lparr>out_req_model_id_mapping := x\<rparr>) = queue_ok m s"
  "reads_ok (s\<lparr>out_req_model_id_mapping := x\<rparr>) = reads_ok s"
  "only_model n s' (s\<lparr>out_req_model_id_mapping := x\<rparr>) = only_model n s' s"
  by (simp_all add: pending_def arrived_def arrived_from_def targets_def queue_ok_def reads_ok_def only_model_def same_setup_def
      cong: option.case_cong)

text \<open>What is handed out leaves the queue, also by the branch that takes a single request from its front.\<close>

lemma take_share_ok:
  assumes "take_share sh m i (length (fetched_fused_inp_start s m)) s = Inr (ret, p, s')" and "queue_ok m s"
  shows "pending m s = mset (map fst ret) + pending m s' \<and> queue_ok m s' \<and> only_model m s s' \<and>
    arrived m s' = arrived m s \<and> (reads_ok s \<longrightarrow> reads_ok s') \<and>
    map_of (unavailable_req_nums s') m = map_of (unavailable_req_nums s) m \<and>
    (\<not> p \<longrightarrow> pending m s' = {#} \<and> map_of (unavailable_req_nums s') m = Some 0)"
proof -
  let ?k = "length (fetched_fused_inp_start s m)"
  obtain ret1 s1 where w: "get_seqs_of_worker m i ?k s = Inr (ret1, s1)"
    using assms(1) by (auto simp: take_share_def)
  note w1 = get_seqs_of_worker_ok [OF w assms(2)]
  obtain st where s1: "s1 = s\<lparr>fetched_fused_inp_start := st\<rparr>" using w1(4) by blast
  have same: "arrived m s1 = arrived m s" "reads_ok s1 = reads_ok s" "unavailable_req_nums s1 = unavailable_req_nums s"
    using s1 by (simp_all add: arrived_def arrived_from_def targets_def reads_ok_def cong: option.case_cong)
  show ?thesis
  proof (cases "ret1 = []")
    case False
    then obtain x where "ret = ret1" "p" "s' = s1\<lparr>out_req_model_id_mapping := x\<rparr>"
      using assms(1) w by (auto simp: take_share_def dest: update_mapping_fields)
    then show ?thesis using w1(1-3) same by (simp add: mapping_irrelevant)
  next
    case True
    have k: "0 < ?k" using w1(5) by (cases ?k) auto
    define s2 where "s2 = reset_state_base_model m ?k s1"
    note r = reset_state_base_model_ok [OF w1(2) k, folded s2_def]
    have p2: "pending m s2 = pending m s" using r(1) w1(1) True by simp
    obtain st2 q2 where s2: "s2 = s1\<lparr>fused_inp_queues := q2, fetched_fused_inp_start := st2\<rparr>" using r(6) by blast
    have same2: "arrived m s2 = arrived m s" "reads_ok s2 = reads_ok s" "unavailable_req_nums s2 = unavailable_req_nums s"
      using same s2 by (simp_all add: arrived_def arrived_from_def targets_def reads_ok_def cong: option.case_cong)
    have o2: "only_model m s s2" using only_model_trans [OF w1(3) r(3)] .
    have start: "py_index (fetched_fused_inp_start s2 m) (int i) = Inr i" using w1(5) by (simp add: py_index_of_nat r(4))
    have len: "length (fetched_fused_inp_start s2 m) = ?k" by (simp add: r(4))
    have rest: "(if i \<ge> length (fused_inp_queues s2 m) then
         (case fused_inp_queues s2 m of
            q # qs \<Rightarrow>
              ebind (update_out_req_model_id_mapping sh m [q]
                       (s2\<lparr>fused_inp_queues := (fused_inp_queues s2)(m := qs)\<rparr>)) (\<lambda>s. Inr ([q], True, s))
          | [] \<Rightarrow>
              ebind (dict_get (unavailable_req_nums s2) m) (\<lambda>n.
              ebind (py_assert (n \<ge> 0)) (\<lambda>_. Inr ([], n \<noteq> 0, s2))))
       else
         ebind (get_seqs_of_worker m i ?k s2) (\<lambda>(ret, s).
         ebind (update_out_req_model_id_mapping sh m ret s) (\<lambda>s. Inr (ret, True, s)))) = Inr (ret, p, s')"
      using assms(1) w True start unfolding take_share_def s2_def by (simp add: Let_def del: ebind_eq_Inr)
    consider (Share) "\<not> length (fused_inp_queues s2 m) \<le> i" | (Front) q qs where "fused_inp_queues s2 m = q # qs" "length (q # qs) \<le> i"
      | (Empty) "fused_inp_queues s2 m = []"
      by (cases "fused_inp_queues s2 m") auto
    then show ?thesis
    proof cases
      case Share
      then obtain ret3 s3 where w3: "get_seqs_of_worker m i ?k s2 = Inr (ret3, s3)"
        and u: "update_out_req_model_id_mapping sh m ret3 s3 = Inr s'" "ret = ret3" "p"
        using rest by auto
      note t = get_seqs_of_worker_ok [OF w3 [folded len] r(2)]
      obtain x st3 where "s' = s3\<lparr>out_req_model_id_mapping := x\<rparr>" and s3: "s3 = s2\<lparr>fetched_fused_inp_start := st3\<rparr>"
        using u(1) t(4) update_mapping_fields by blast
      moreover have "arrived m s3 = arrived m s" "reads_ok s3 = reads_ok s" "unavailable_req_nums s3 = unavailable_req_nums s"
        using same2 s3 by (simp_all add: arrived_def arrived_from_def targets_def reads_ok_def cong: option.case_cong)
      ultimately show ?thesis
        using t(1,2) p2 u(2,3) only_model_trans [OF o2 t(3)] by (simp add: mapping_irrelevant)
    next
      case (Front q qs)
      define s3 where "s3 = s2\<lparr>fused_inp_queues := (fused_inp_queues s2)(m := qs)\<rparr>"
      obtain x where s': "s' = s3\<lparr>out_req_model_id_mapping := x\<rparr>" "ret = [q]" "p"
        using rest Front by (auto simp: s3_def dest: update_mapping_fields)
      have "pending m s2 = mset (map fst ret) + pending m s3"
        using k by (simp add: pending_def s3_def s'(2) r(4) Front(1))
      moreover have "queue_ok m s3" using k by (simp add: queue_ok_def s3_def r(4))
      moreover have "only_model m s2 s3" by (simp add: only_model_def s3_def same_setup_def)
      moreover have "arrived m s3 = arrived m s" "reads_ok s3 = reads_ok s" "unavailable_req_nums s3 = unavailable_req_nums s"
        using same2 by (simp_all add: s3_def arrived_def arrived_from_def targets_def reads_ok_def cong: option.case_cong)
      ultimately show ?thesis using p2 s' only_model_trans [OF o2] by (simp add: mapping_irrelevant)
    next
      case Empty
      then have "ret = []" "s' = s2" "p \<or> map_of (unavailable_req_nums s2) m = Some 0"
        using rest by (auto simp: dict_get_def split: option.splits)
      moreover have "pending m s2 = {#}" using Empty by (simp add: pending_def)
      ultimately show ?thesis using p2 r(2) o2 same2 by auto
    qed
  qed
qed

section \<open>Adding outputs\<close>

text \<open>Adding outputs only makes the pools longer.\<close>

definition adds :: "communicator \<Rightarrow> communicator \<Rightarrow> bool" where
  "adds s s' \<longleftrightarrow> same_setup s s' \<and> fused_inp_queues s' = fused_inp_queues s \<and>
     fetched_fused_inp_start s' = fetched_fused_inp_start s \<and> read_output_nums s' = read_output_nums s \<and>
     unavailable_req_nums s' = unavailable_req_nums s \<and> (\<forall>f. prefix (output_pool s f) (output_pool s' f))"

lemma adds_refl [simp]: "adds s s"
  by (simp add: adds_def)

lemma adds_trans: "adds s t \<Longrightarrow> adds t u \<Longrightarrow> adds s u"
  unfolding adds_def by (metis same_setup_trans prefix_order.trans)

lemma process_outputs_adds:
  assumes "process_outputs m seqs s = Inr (s', ret)"
  shows "\<exists>x. s' = s\<lparr>meta_output_pool := x\<rparr>"
proof -
  have "\<exists>x. t' = t\<lparr>meta_output_pool := x\<rparr>" if "process_output m q (t, r) = Inr (t', r')" for q t r t' r'
    using that by (cases q) (auto simp: process_output_def Let_def split: if_splits)
  then have "efold (process_output m) seqs (s, r) = Inr (s', ret) \<Longrightarrow> \<exists>x. s' = s\<lparr>meta_output_pool := x\<rparr>" for r
    by (induction seqs arbitrary: s r) (fastforce intro: exI [of _ "meta_output_pool s'"])+
  then show ?thesis using assms by (auto simp: process_outputs_def)
qed

lemma add_seqs_base_model_adds:
  assumes "add_seqs_base_model m seqs s = Inr s'"
  shows "adds s s'"
proof -
  let ?seqs = "map (\<lambda>(req_id, c, _). (req_id, c)) seqs"
  obtain s1 to_add n ol where
    s1: "(if m \<in> set (dict_keys (new_out_req_part_num s)) then process_outputs m ?seqs s else Inr (s, ?seqs)) = Inr (s1, to_add)"
    and s': "s' = s1\<lparr>output_pool := (output_pool s1)(m := output_pool s1 m @ to_add), ungened_out_req_nums := n, outlen_dict := ol\<rparr>"
    using assms by (auto simp: add_seqs_base_model_def Let_def)
  have "\<exists>x. s1 = s\<lparr>meta_output_pool := x\<rparr>"
    using s1 by (auto split: if_splits dest: process_outputs_adds intro: exI [of _ "meta_output_pool s"])
  then show ?thesis by (auto simp: adds_def s' same_setup_def)
qed

lemma add_seqs_adds:
  assumes "add_seqs sh seqs s = Inr s'"
  shows "adds s s'"
proof -
  have "efold (\<lambda>(m, qs). add_seqs_base_model m qs) d s = Inr s' \<Longrightarrow> adds s s'" for d
    by (erule efold_invariant [where P = "adds s"]) (auto intro: adds_trans dest: add_seqs_base_model_adds)
  then show ?thesis
    using assms add_seqs_base_model_adds
    by (auto simp: add_seqs_def assert_no_exception_def split: sum.splits option.splits list.splits)
qed

lemma adds_props:
  assumes "adds s s'" and "reads_ok s"
  shows "reads_ok s'" "pending m s' = pending m s" "arrived m s' = arrived m s" "queue_ok m s' = queue_ok m s"
    "unavailable_req_nums s' = unavailable_req_nums s"
proof -
  have take: "take (read_output_nums s (f, m)) (output_pool s' f) = take (read_output_nums s (f, m)) (output_pool s f)" for f m
    using assms by (auto simp: adds_def reads_ok_def prefix_def) (metis append_Nil2 diff_is_0_eq' take0 take_append)
  have t: "targets f m s' = targets f m s" for f
    by (rule ext) (use assms(1) in \<open>simp add: adds_def same_setup_def targets_def\<close>)
  have "length (output_pool s f) \<le> length (output_pool s' f)" for f
    using assms(1) by (intro prefix_length_le) (simp add: adds_def)
  then show "reads_ok s'" using assms by (auto simp: reads_ok_def adds_def intro: order.trans)
  show "arrived m s' = arrived m s"
    using assms(1) by (simp add: arrived_def arrived_from_def t adds_def same_setup_def take)
  show "pending m s' = pending m s" "queue_ok m s' = queue_ok m s" "unavailable_req_nums s' = unavailable_req_nums s"
    using assms(1) by (simp_all add: adds_def pending_def queue_ok_def)
qed

section \<open>Other models\<close>

definition other_models :: "int \<Rightarrow> communicator \<Rightarrow> communicator \<Rightarrow> bool" where
  "other_models m s s' \<longleftrightarrow> only_model m s s' \<and> (reads_ok s \<longrightarrow> reads_ok s')"

lemma other_models_refl [simp]: "other_models m s s"
  by (simp add: other_models_def)

lemma other_models_trans: "other_models m s t \<Longrightarrow> other_models m t u \<Longrightarrow> other_models m s u"
  unfolding other_models_def using only_model_trans by blast

lemma selected_outputs_others: "get_selected_outputs f m s = (new, s') \<Longrightarrow> other_models m s s'"
  by (auto simp: get_selected_outputs_def Let_def other_models_def only_model_def same_setup_def reads_ok_def split: option.splits)

lemma avail_others: "other_models m s s' \<Longrightarrow> other_models m s (s'\<lparr>available_srcs := a\<rparr>)"
  by (auto simp: other_models_def only_model_def same_setup_def reads_ok_def)

lemma fetch_single_others: "fetch_single inps m s = Inr (reqs, s') \<Longrightarrow> other_models m s s'"
  unfolding fetch_single_def
  by (drule efold_invariant [where P = "\<lambda>(_, t). other_models m s t"])
    (auto split: prod.splits dest: selected_outputs_others intro: other_models_trans)

lemma fetch_multi_others: "fetch_multi inps m s = Inr (ids, s') \<Longrightarrow> other_models m s s'"
  unfolding fetch_multi_def
  by (drule efold_invariant [where P = "\<lambda>(_, t). other_models m s t"])
    (auto split: prod.splits dest!: selected_outputs_others intro!: avail_others elim: other_models_trans)

lemma enqueue_others: "enqueue m reqs s = Inr s' \<Longrightarrow> other_models m s s'"
  by (auto simp: enqueue_def other_models_def only_model_def same_setup_def reads_ok_def update_conv')

lemma get_fused_inp_queues_others: "get_fused_inp_queues m s = Inr s' \<Longrightarrow> other_models m s s'"
  by (auto simp: get_fused_inp_queues_def split: if_splits
      dest!: fetch_single_others fetch_multi_others enqueue_others elim: other_models_trans)

lemma worker_others: "get_seqs_of_worker m i k s = Inr (ret, s') \<Longrightarrow> other_models m s s'"
  by (auto simp: get_seqs_of_worker_def Let_def other_models_def only_model_def same_setup_def reads_ok_def split: if_splits)

lemma reset_others: "other_models m s (reset_state_base_model m k s)"
  by (simp add: reset_state_base_model_def Let_def other_models_def only_model_def same_setup_def reads_ok_def)

lemma update_mapping_others: "update_out_req_model_id_mapping sh m reqs s = Inr s' \<Longrightarrow> other_models n s s'"
  by (auto simp: other_models_def only_model_def same_setup_def reads_ok_def dest!: update_mapping_fields)

lemma queue_others: "other_models m s (s\<lparr>fused_inp_queues := (fused_inp_queues s)(m := q)\<rparr>)"
  by (simp add: other_models_def only_model_def same_setup_def reads_ok_def)

lemma take_share_others:
  assumes "take_share sh m i k s = Inr (ret, p, s')"
  shows "other_models m s s'"
proof -
  obtain ret1 s1 where w: "get_seqs_of_worker m i k s = Inr (ret1, s1)"
    using assms by (auto simp: take_share_def)
  have o1: "other_models m s s1" by (rule worker_others [OF w])
  define s2 where "s2 = reset_state_base_model m k s1"
  have o2: "other_models m s s2" using other_models_trans [OF o1 reset_others] by (simp add: s2_def)
  have "other_models m s1 s' \<or> other_models m s2 s'"
    using assms w unfolding take_share_def s2_def
    by (auto simp: Let_def split: if_splits list.splits
        dest: update_mapping_others worker_others intro: other_models_trans [OF queue_others] other_models_trans)
  then show ?thesis using o1 o2 other_models_trans by blast
qed

lemma get_seqs_base_model_others: "get_seqs_base_model sh m i k s = Inr (ret, p, s') \<Longrightarrow> other_models m s s'"
  by (auto simp: get_seqs_base_model_def dest!: get_fused_inp_queues_others take_share_others elim: other_models_trans)

section \<open>Runs\<close>

text \<open>
  A run of the communicator from \<open>s0\<close>: outputs are added, models restarted with any positive number
  of workers, and workers fetch, each with the number of workers of its model. \<open>d m\<close> is the multiset
  of the requests handed out to the workers of base model \<open>m\<close> so far.
\<close>

inductive comm_run :: "communicator \<Rightarrow> communicator \<Rightarrow> (int \<Rightarrow> int multiset) \<Rightarrow> bool" for s0 where
  Start: "comm_run s0 s0 (\<lambda>_. {#})"
| Add: "comm_run s0 s d \<Longrightarrow> add_seqs sh seqs s = Inr s' \<Longrightarrow> comm_run s0 s' d"
| Restart: "comm_run s0 s d \<Longrightarrow> 0 < k \<Longrightarrow> reset_state_for_model sh k s = Inr s' \<Longrightarrow> comm_run s0 s' d"
| Fetch: "comm_run s0 s d \<Longrightarrow> get_seqs_base_model sh m i (length (fetched_fused_inp_start s m)) s = Inr (ret, p, s') \<Longrightarrow>
    comm_run s0 s' (d(m := d m + mset (map fst ret)))"

inductive_cases comm_run_fetch: "comm_run s0 s d"

definition comm_start :: "communicator \<Rightarrow> bool" where
  "comm_start s \<longleftrightarrow> (\<forall>m. fused_inp_queues s m = [] \<and> fetched_fused_inp_start s m = []) \<and> (\<forall>p. read_output_nums s p = 0)"

text \<open>The invariant of the runs for model \<open>m\<close>, which started with \<open>N\<close> requests to come.\<close>

definition comm_inv :: "int \<Rightarrow> int \<Rightarrow> communicator \<Rightarrow> int multiset \<Rightarrow> bool" where
  "comm_inv m N s dm \<longleftrightarrow> one_source m s \<and> queue_ok m s \<and> reads_ok s \<and> dm + pending m s = arrived m s \<and>
     map_of (unavailable_req_nums s) m = Some (N - int (size (arrived m s)))"

lemma fetch_needs_workers:
  assumes "get_seqs_base_model sh m i (length (fetched_fused_inp_start s m)) s = Inr (ret, p, s')"
    and "one_source m s" and "queue_ok m s"
  shows "fetched_fused_inp_start s m \<noteq> []"
proof
  assume e: "fetched_fused_inp_start s m = []"
  obtain s1 where "get_fused_inp_queues m s = Inr s1" and t: "take_share sh m i 0 s1 = Inr (ret, p, s')"
    using assms(1) e by (auto simp: get_seqs_base_model_def)
  then show False by (auto simp: take_share_def get_seqs_of_worker_def split: if_splits)
qed

lemma fetch_ok:
  assumes "get_seqs_base_model sh m i (length (fetched_fused_inp_start s m)) s = Inr (ret, p, s')"
    and "comm_inv m N s dm"
  shows "comm_inv m N s' (dm + mset (map fst ret))" "only_model m s s'"
    "\<not> p \<Longrightarrow> pending m s' = {#} \<and> int (size (arrived m s')) = N"
proof -
  have inv: "one_source m s" "queue_ok m s" "reads_ok s" "dm + pending m s = arrived m s"
    "map_of (unavailable_req_nums s) m = Some (N - int (size (arrived m s)))"
    using assms(2) by (auto simp: comm_inv_def)
  have ne: "fetched_fused_inp_start s m \<noteq> []" by (rule fetch_needs_workers [OF assms(1) inv(1,2)])
  obtain s1 where g: "get_fused_inp_queues m s = Inr s1"
    and t: "take_share sh m i (length (fetched_fused_inp_start s m)) s1 = Inr (ret, p, s')"
    using assms(1) by (auto simp: get_seqs_base_model_def)
  note gq = get_fused_inp_queues_ok [OF g inv(1-3) ne]
  obtain N' where N': "map_of (unavailable_req_nums s1) m = Some N'"
    "N' + int (size (arrived m s1)) = N - int (size (arrived m s)) + int (size (arrived m s))"
    using gq(6) [OF inv(5)] by blast
  note ts = take_share_ok [OF t [folded gq(5)] gq(2)]
  show o: "only_model m s s'" using ts gq(4) only_model_trans by blast
  have "dm + pending m s1 + arrived m s = arrived m s1 + arrived m s"
    using gq(1) inv(4) by (metis union_assoc union_commute)
  then have "dm + pending m s1 = arrived m s1" by simp
  moreover have "one_source m s'" using inv(1) one_source_only [OF o] by simp
  ultimately show "comm_inv m N s' (dm + mset (map fst ret))"
    using ts gq(3) N' by (simp add: comm_inv_def add_ac)
  show "\<not> p \<Longrightarrow> pending m s' = {#} \<and> int (size (arrived m s')) = N"
    using ts N' by auto
qed

lemma reset_only_queues:
  "\<exists>st q. fold (\<lambda>m. reset_state_base_model m k) ms s = s\<lparr>fused_inp_queues := q, fetched_fused_inp_start := st\<rparr>"
proof (induction ms arbitrary: s)
  case Nil
  show ?case by (auto intro!: exI [of _ "fused_inp_queues s"] exI [of _ "fetched_fused_inp_start s"])
next
  case (Cons m ms)
  obtain st q where "reset_state_base_model m k s = s\<lparr>fused_inp_queues := q, fetched_fused_inp_start := st\<rparr>"
    unfolding reset_state_base_model_def Let_def by blast
  with Cons [of "reset_state_base_model m k s"] show ?case by force
qed

lemma restart_ok:
  assumes "comm_inv m N s dm" and "0 < k"
  shows "comm_inv m N (fold (\<lambda>m. reset_state_base_model m k) ms s) dm"
  using assms(1)
proof (induction ms arbitrary: s)
  case (Cons n ms)
  have "comm_inv m N (reset_state_base_model n k s) dm"
  proof (cases "n = m")
    case True
    have q: "queue_ok m s" using Cons.prems by (simp add: comm_inv_def)
    note r = reset_state_base_model_ok [OF q assms(2)]
    have "arrived m (reset_state_base_model m k s) = arrived m s"
      "reads_ok (reset_state_base_model m k s) = reads_ok s"
      "unavailable_req_nums (reset_state_base_model m k s) = unavailable_req_nums s"
      "one_source m (reset_state_base_model m k s) = one_source m s"
      using r(6) by (auto simp: arrived_def arrived_from_def targets_def reads_ok_def one_source_def cong: option.case_cong)
    then show ?thesis using Cons.prems True r(1,2) by (simp add: comm_inv_def)
  next
    case False
    obtain st q where e: "reset_state_base_model n k s = s\<lparr>fused_inp_queues := q, fetched_fused_inp_start := st\<rparr>"
      and "q m = fused_inp_queues s m" "st m = fetched_fused_inp_start s m"
      using False by (force simp: reset_state_base_model_def Let_def)
    then show ?thesis using Cons.prems
      by (simp add: comm_inv_def e pending_def arrived_def arrived_from_def targets_def queue_ok_def reads_ok_def one_source_def
          cong: option.case_cong)
  qed
  from Cons.IH [OF this] show ?case by simp
qed simp

lemma comm_run_inv:
  assumes "comm_run s0 s d" and "comm_start s0" and "one_source m s0" and "map_of (unavailable_req_nums s0) m = Some N"
  shows "comm_inv m N s (d m)"
  using assms(1)
proof (induction rule: comm_run.induct)
  case Start
  have "arrived m s0 = {#}" using assms(2) by (simp add: comm_start_def arrived_def arrived_from_def)
  then show ?case using assms(2-4) by (simp add: comm_inv_def comm_start_def queue_ok_def reads_ok_def pending_def)
next
  case (Add s d sh seqs s')
  have a: "adds s s'" by (rule add_seqs_adds [OF Add.hyps(2)])
  have r: "reads_ok s" using Add.IH by (simp add: comm_inv_def)
  note p = adds_props [OF a r]
  have "one_source m s' = one_source m s" using a one_source_setup by (simp add: adds_def)
  then show ?case using Add.IH p by (simp add: comm_inv_def)
next
  case (Restart s d k sh s')
  then obtain ms where "s' = fold (\<lambda>m. reset_state_base_model m k) ms s"
    by (auto simp: reset_state_for_model_def)
  then show ?case using restart_ok [OF Restart.IH Restart.hyps(2)] by simp
next
  case (Fetch s d sh n i ret p s')
  show ?case
  proof (cases "n = m")
    case True
    then show ?thesis using fetch_ok(1) [OF _ Fetch.IH] Fetch.hyps(2) by simp
  next
    case False
    have "other_models n s s'" by (rule get_seqs_base_model_others [OF Fetch.hyps(2)])
    then have o: "only_model n s s'" and r: "reads_ok s'"
      using Fetch.IH by (auto simp: other_models_def comm_inv_def)
    have "one_source m s' = one_source m s" by (rule one_source_only [OF o])
    then show ?thesis using Fetch.IH False r only_model_others [OF o, of m] by (simp add: comm_inv_def)
  qed
qed

end
