(* ===== verification/Comm_Join.thy ===== *)
theory Comm_Join
  imports Communicator
begin

text \<open>
  Putting together what several requests contribute: the parts of an output request
  (\<open>_process_outputs\<close>) and the sources of an input request (\<open>_get_fused_inp_queues\<close>). Both count the
  filled slots of a list; both are complete exactly when every slot has been filled, in whatever
  order the contributions come, provided none comes twice.
\<close>

section \<open>Slots\<close>

text \<open>The slots after contributions \<open>evs\<close> (slot number and content).\<close>

definition filled :: "nat \<Rightarrow> (nat \<times> content) list \<Rightarrow> content list" where
  "filled n evs = map (\<lambda>i. case map_of evs i of None \<Rightarrow> PyNone | Some c \<Rightarrow> c) [0..<n]"

lemma filled_Nil [simp]: "filled n [] = replicate n PyNone"
  by (simp add: filled_def map_replicate_const)

lemma length_filled [simp]: "length (filled n evs) = n"
  by (simp add: filled_def)

lemma filled_snoc:
  assumes "i < n" and "i \<notin> fst ` set evs"
  shows "filled n (evs @ [(i, c)]) = (filled n evs)[i := c]"
proof (rule nth_equalityI)
  fix j assume "j < length (filled n (evs @ [(i, c)]))"
  moreover have "map_of evs i = None" using assms(2) by (simp add: map_of_eq_None_iff)
  ultimately show "filled n (evs @ [(i, c)]) ! j = (filled n evs)[i := c] ! j"
    using assms(1) by (cases "j = i") (auto simp: filled_def map_add_def split: option.splits)
qed simp

lemma distinct_full:
  fixes xs :: "nat list"
  assumes "distinct xs" and "set xs \<subseteq> {..<n}"
  shows "length xs = n \<longleftrightarrow> set xs = {..<n}" and "length xs \<le> n"
  using assms card_mono [OF _ assms(2)] card_subset_eq [OF _ assms(2)] distinct_card [OF assms(1)] by auto

lemma filled_full:
  assumes "distinct (map fst evs)" and "fst ` set evs = {..<n}" and "i < n"
  shows "(i, filled n evs ! i) \<in> set evs"
proof -
  obtain c where "map_of evs i = Some c" using assms(2,3) by (metis lessThan_iff map_of_eq_None_iff not_None_eq)
  then show ?thesis using assms(3) by (auto simp: filled_def dest: map_of_SomeD)
qed

section \<open>The sources of an input request\<close>

text \<open>The contributions to request \<open>r\<close> among the events (source number, request).\<close>

definition sources_of :: "int \<Rightarrow> (nat \<times> request) list \<Rightarrow> (nat \<times> content) list" where
  "sources_of r evs = map (\<lambda>(i, q). (i, snd q)) (filter (\<lambda>(i, q). fst q = r) evs)"

definition all_sources :: "nat \<Rightarrow> int \<Rightarrow> (nat \<times> request) list \<Rightarrow> bool" where
  "all_sources n r evs \<longleftrightarrow> (\<forall>i < n. \<exists>c. (i, (r, c)) \<in> set evs)"

lemma sources_of_snoc: "sources_of r (evs @ [(i, (r', c))]) = (if r' = r then sources_of r evs @ [(i, c)] else sources_of r evs)"
  by (simp add: sources_of_def)

lemma sources_of_mem: "(i, c) \<in> set (sources_of r evs) \<longleftrightarrow> (i, (r, c)) \<in> set evs"
  by (force simp: sources_of_def)

lemma sources_of_idx: "fst ` set (sources_of r evs) = {i. \<exists>c. (i, (r, c)) \<in> set evs}"
  by (force simp: sources_of_def)

definition source_events :: "nat \<Rightarrow> (nat \<times> request) list \<Rightarrow> bool" where
  "source_events n evs \<longleftrightarrow> distinct (map (\<lambda>(i, r, _). (i, r)) evs) \<and> (\<forall>(i, q) \<in> set evs. i < n)"

lemma source_events_snoc:
  assumes "source_events n (evs @ [(i, (r, c))])"
  shows "source_events n evs" "i < n" "i \<notin> fst ` set (sources_of r evs)"
  using assms by (force simp: source_events_def sources_of_def)+

lemma sources_of_distinct: "source_events n evs \<Longrightarrow> distinct (map fst (sources_of r evs)) \<and> fst ` set (sources_of r evs) \<subseteq> {..<n}"
proof (induction evs rule: rev_induct)
  case Nil
  then show ?case by (simp add: sources_of_def)
next
  case (snoc x xs)
  obtain i r' c where x: "x = (i, (r', c))" by (cases x) auto
  note e = source_events_snoc [OF snoc.prems [unfolded x]]
  show ?case using snoc.IH [OF e(1)] e(2,3) by (auto simp: x sources_of_snoc)
qed

lemma all_sources_length: "source_events n evs \<Longrightarrow> all_sources n r evs \<longleftrightarrow> length (sources_of r evs) = n"
proof -
  assume e: "source_events n evs"
  note d = sources_of_distinct [OF e, of r]
  have "length (sources_of r evs) = n \<longleftrightarrow> set (map fst (sources_of r evs)) = {..<n}"
    using distinct_full(1) [of "map fst (sources_of r evs)" n] d by (simp add: image_image)
  then show ?thesis using d by (auto simp: all_sources_def sources_of_idx)
qed

lemma add_source_fold:
  assumes "source_events n evs" and "0 < n"
  shows "\<exists>avail complete. fold (\<lambda>(i, q). add_source n i q) evs ([], []) = (avail, complete) \<and>
    (\<forall>r. map_of avail r = (if sources_of r evs = [] then None else Some (length (sources_of r evs), filled n (sources_of r evs)))) \<and>
    distinct complete \<and> set complete = {r. all_sources n r evs}"
  using assms(1)
proof (induction evs rule: rev_induct)
  case Nil
  then show ?case using assms(2) by (auto simp: sources_of_def all_sources_def)
next
  case (snoc x xs)
  obtain i r c where x: "x = (i, (r, c))" by (cases x) auto
  note e = source_events_snoc [OF snoc.prems [unfolded x]]
  from snoc.IH [OF e(1)] obtain avail complete where
    f: "fold (\<lambda>(i, q). add_source n i q) xs ([], []) = (avail, complete)"
      "\<forall>r. map_of avail r = (if sources_of r xs = [] then None else Some (length (sources_of r xs), filled n (sources_of r xs)))"
      "distinct complete" "set complete = {r. all_sources n r xs}" by blast
  have cur: "ddict_get (0, replicate n PyNone) avail r = (length (sources_of r xs), filled n (sources_of r xs))"
    using f(2) by (simp add: ddict_get_def)
  have step: "fold (\<lambda>(i, q). add_source n i q) (xs @ [x]) ([], []) =
      (dict_set r (length (sources_of r xs) + 1, filled n (sources_of r (xs @ [x]))) avail,
       if length (sources_of r xs) + 1 = n then complete @ [r] else complete)"
    using f(1) cur filled_snoc [OF e(2,3)] by (simp add: x add_source_def sources_of_snoc)
  have other: "r' \<noteq> r \<Longrightarrow> all_sources n r' (xs @ [x]) = all_sources n r' xs" for r'
    by (auto simp: x all_sources_def)
  have full: "all_sources n r (xs @ [x]) \<longleftrightarrow> length (sources_of r xs) + 1 = n"
    using all_sources_length [OF snoc.prems, of r] by (simp add: x sources_of_snoc)
  have "\<not> all_sources n r xs"
    using e(2,3) by (auto simp: all_sources_def sources_of_idx)
  moreover have "r' \<in> {r. all_sources n r (xs @ [x])} \<longleftrightarrow> r' = r \<and> length (sources_of r xs) + 1 = n \<or> all_sources n r' xs" for r'
    using other [of r'] full \<open>\<not> all_sources n r xs\<close> by (cases "r' = r") auto
  ultimately have sc: "set (if length (sources_of r xs) + 1 = n then complete @ [r] else complete) = {r. all_sources n r (xs @ [x])}"
    using f(4) by (intro set_eqI) auto
  have "\<not> all_sources n r xs" by fact
  then have "distinct (if length (sources_of r xs) + 1 = n then complete @ [r] else complete)" using f(3,4) by auto
  moreover have "\<forall>r'. map_of (dict_set r (length (sources_of r xs) + 1, filled n (sources_of r (xs @ [x]))) avail) r' =
      (if sources_of r' (xs @ [x]) = [] then None
       else Some (length (sources_of r' (xs @ [x])), filled n (sources_of r' (xs @ [x]))))"
    using f(2) by (auto simp: update_conv' x sources_of_snoc)
  ultimately show ?case using step sc by blast
qed

lemma add_source_accumulates:
  "fold (\<lambda>(i, q). add_source n i q) evs (avail, c @ d) =
     (fst (fold (\<lambda>(i, q). add_source n i q) evs (avail, d)), c @ snd (fold (\<lambda>(i, q). add_source n i q) evs (avail, d)))"
proof (induction evs arbitrary: avail d)
  case (Cons x xs)
  obtain i r z where x: "x = (i, (r, z))" by (cases x) auto
  obtain a e where s: "add_source n i (r, z) (avail, d) = (a, e)" by force
  have "add_source n i (r, z) (avail, c @ d) = (a, c @ e)"
    using s by (auto simp: add_source_def Let_def split: prod.splits)
  then show ?case using Cons.IH [of a e] s by (simp add: x)
qed simp

section \<open>The parts of an output request\<close>

text \<open>The contributions to output request \<open>w\<close> among the outputs of a model, by the mapping of its request ids.\<close>

definition parts_of :: "(int, int \<times> nat) dict \<Rightarrow> int \<Rightarrow> request list \<Rightarrow> (nat \<times> content) list" where
  "parts_of mp w seqs = concat (map (\<lambda>(r, c). case map_of mp r of Some (w', i) \<Rightarrow> if w' = w then [(i, c)] else [] | None \<Rightarrow> []) seqs)"

definition part_outputs :: "(int, int \<times> nat) dict \<Rightarrow> (int, nat \<times> content list) dict \<Rightarrow> request list \<Rightarrow> bool" where
  "part_outputs mp pool seqs \<longleftrightarrow> distinct (map (\<lambda>(r, _). map_of mp r) seqs) \<and>
     (\<forall>(r, c) \<in> set seqs. \<exists>w i n t. map_of mp r = Some (w, i) \<and> map_of pool w = Some (0, replicate n PyNone) \<and>
        i < n \<and> c = Text t)"

lemma parts_of_mem: "(i, c) \<in> set (parts_of mp w seqs) \<longleftrightarrow> (\<exists>r. (r, c) \<in> set seqs \<and> map_of mp r = Some (w, i))"
proof (induction seqs)
  case (Cons q seqs)
  obtain r c' where "q = (r, c')" by force
  with Cons show ?case by (cases "map_of mp r") (auto simp: parts_of_def)
qed (simp add: parts_of_def)

lemma parts_of_snoc:
  "map_of mp r = Some (w', i) \<Longrightarrow> parts_of mp w (seqs @ [(r, c)]) = (if w' = w then parts_of mp w seqs @ [(i, c)] else parts_of mp w seqs)"
  by (simp add: parts_of_def)

lemma part_outputs_snoc:
  assumes "part_outputs mp pool (seqs @ [(r, c)])"
  obtains w i n t where "part_outputs mp pool seqs" "map_of mp r = Some (w, i)" "map_of pool w = Some (0, replicate n PyNone)"
    "i < n" "c = Text t" "i \<notin> fst ` set (parts_of mp w seqs)"
proof -
  obtain w i n t where r: "map_of mp r = Some (w, i)" "map_of pool w = Some (0, replicate n PyNone)" "i < n" "c = Text t"
    using assms by (auto simp: part_outputs_def)
  have "i \<notin> fst ` set (parts_of mp w seqs)"
  proof
    assume "i \<in> fst ` set (parts_of mp w seqs)"
    then obtain r' c' where "(r', c') \<in> set seqs" "map_of mp r' = Some (w, i)"
      by (auto simp: parts_of_mem)
    then have "map_of mp r \<in> set (map (\<lambda>(r, _). map_of mp r) seqs)" using r(1) by force
    then show False using assms by (auto simp: part_outputs_def)
  qed
  moreover have "part_outputs mp pool seqs" using assms by (auto simp: part_outputs_def)
  ultimately show thesis using that r by blast
qed

lemma parts_of_distinct:
  assumes "part_outputs mp pool seqs" and "map_of pool w = Some (0, replicate n PyNone)"
  shows "distinct (map fst (parts_of mp w seqs)) \<and> fst ` set (parts_of mp w seqs) \<subseteq> {..<n}"
  using assms(1)
proof (induction seqs rule: rev_induct)
  case Nil
  then show ?case by (simp add: parts_of_def)
next
  case (snoc x xs)
  obtain r c where x: "x = (r, c)" by force
  obtain w' i k t where e: "part_outputs mp pool xs" "map_of mp r = Some (w', i)" "map_of pool w' = Some (0, replicate k PyNone)"
    "i < k" "c = Text t" "i \<notin> fst ` set (parts_of mp w' xs)"
    using part_outputs_snoc [OF snoc.prems [unfolded x]] by blast
  have "w' = w \<Longrightarrow> k = n" using e(3) assms(2) by simp
  then show ?case using snoc.IH [OF e(1)] e(4,6) by (auto simp: x parts_of_snoc [OF e(2)])
qed

lemma fuse_texts: "ts \<noteq> [] \<Longrightarrow> fuse_inp_srcs (map Text ts) = Inr (Text (concat ts))"
proof -
  have "efold (\<lambda>src ret. content_add ret src) (map Text us) (Text t) = Inr (Text (t @ concat us))" for t us
    by (induction us arbitrary: t) (simp_all add: content_add_def)
  then show "ts \<noteq> [] \<Longrightarrow> ?thesis" by (cases ts) (simp_all add: fuse_inp_srcs_def)
qed

text \<open>All slots filled with texts.\<close>

lemma filled_texts:
  assumes "part_outputs mp pool seqs" and "map_of pool w = Some (0, replicate n PyNone)"
    and "length (parts_of mp w seqs) = n"
  obtains ts where "filled n (parts_of mp w seqs) = map Text ts" "length ts = n"
    "\<forall>i < n. \<exists>r. map_of mp r = Some (w, i) \<and> (r, Text (ts ! i)) \<in> set seqs"
proof -
  note d = parts_of_distinct [OF assms(1,2)]
  have full: "fst ` set (parts_of mp w seqs) = {..<n}"
    using distinct_full(1) [of "map fst (parts_of mp w seqs)" n] d assms(3) by simp
  have "\<exists>t. filled n (parts_of mp w seqs) ! i = Text t \<and> (\<exists>r. map_of mp r = Some (w, i) \<and> (r, Text t) \<in> set seqs)" if "i < n" for i
  proof -
    have "(i, filled n (parts_of mp w seqs) ! i) \<in> set (parts_of mp w seqs)" using d full that by (intro filled_full) auto
    then obtain r where "(r, filled n (parts_of mp w seqs) ! i) \<in> set seqs" "map_of mp r = Some (w, i)"
      by (auto simp: parts_of_mem)
    then show ?thesis using assms(1) unfolding part_outputs_def by fastforce
  qed
  then obtain f where f: "\<forall>i < n. filled n (parts_of mp w seqs) ! i = Text (f i) \<and> (\<exists>r. map_of mp r = Some (w, i) \<and> (r, Text (f i)) \<in> set seqs)"
    by metis
  have "filled n (parts_of mp w seqs) = map Text (map f [0..<n])"
    using f by (intro nth_equalityI) auto
  then show thesis using f by (intro that [of "map f [0..<n]"]) auto
qed

definition joined :: "(int, int \<times> nat) dict \<Rightarrow> int \<Rightarrow> nat \<Rightarrow> request list \<Rightarrow> content \<Rightarrow> bool" where
  "joined mp w n seqs x \<longleftrightarrow> (\<exists>ts. length ts = n \<and> x = Text (concat ts) \<and>
     (\<forall>i < n. \<exists>r. map_of mp r = Some (w, i) \<and> (r, Text (ts ! i)) \<in> set seqs))"

definition out_entry :: "(int, int \<times> nat) dict \<Rightarrow> (int, nat \<times> content list) dict \<Rightarrow> request list \<Rightarrow> int \<Rightarrow> (nat \<times> content list) option" where
  "out_entry mp pool seqs w = map_option (\<lambda>(k, ps). if parts_of mp w seqs = [] then (k, ps)
     else (length (parts_of mp w seqs), filled (length ps) (parts_of mp w seqs))) (map_of pool w)"

text \<open>Each output request whose parts have all come is returned once, joined in the order of the parts; no other is.\<close>

definition join_outcome :: "(int, int \<times> nat) dict \<Rightarrow> (int, nat \<times> content list) dict \<Rightarrow> request list \<Rightarrow> request list \<Rightarrow> bool" where
  "join_outcome mp pool seqs ret \<longleftrightarrow> (\<forall>w n. map_of pool w = Some (0, replicate n PyNone) \<longrightarrow> 0 < n \<longrightarrow>
     (if length (parts_of mp w seqs) = n then \<exists>x. filter (\<lambda>q. fst q = w) ret = [(w, x)] \<and> joined mp w n seqs x
      else filter (\<lambda>q. fst q = w) ret = []))"

lemma process_outputs_fold:
  assumes "map_of (out_req_id_mapping s) m = Some mp" and "map_of (meta_output_pool s) m = Some pool"
    and "part_outputs mp pool seqs"
  shows "\<exists>s' ret pool'. efold (process_output m) seqs (s, []) = Inr (s', ret) \<and>
    out_req_id_mapping s' = out_req_id_mapping s \<and> map_of (meta_output_pool s') m = Some pool' \<and>
    (\<forall>w. map_of pool' w = out_entry mp pool seqs w) \<and>
    join_outcome mp pool seqs ret"
  using assms(3)
proof (induction seqs rule: rev_induct)
  case Nil
  then show ?case using assms(1,2) by (auto simp: join_outcome_def out_entry_def parts_of_def option.map_id0 [unfolded fun_eq_iff] case_prod_beta split: option.splits)
next
  case (snoc q seqs)
  obtain r c where q: "q = (r, c)" by force
  obtain w i n t where e: "part_outputs mp pool seqs" "map_of mp r = Some (w, i)" "map_of pool w = Some (0, replicate n PyNone)"
    "i < n" "c = Text t" "i \<notin> fst ` set (parts_of mp w seqs)"
    using part_outputs_snoc [OF snoc.prems [unfolded q]] by blast
  from snoc.IH [OF e(1)] obtain s' ret pool' where
    ih: "efold (process_output m) seqs (s, []) = Inr (s', ret)" "out_req_id_mapping s' = out_req_id_mapping s"
      "map_of (meta_output_pool s') m = Some pool'" "\<forall>w. map_of pool' w = out_entry mp pool seqs w"
    and out: "join_outcome mp pool seqs ret" by blast
  note ret = out [unfolded join_outcome_def]
  define evs where "evs = parts_of mp w seqs"
  define evs' where "evs' = parts_of mp w (seqs @ [q])"
  have evs': "evs' = evs @ [(i, c)]" by (simp add: evs_def evs'_def q parts_of_snoc [OF e(2)])
  have entry: "map_of pool' w = Some (length evs, filled n evs)"
    using ih(4) e(3) by (auto simp: out_entry_def evs_def)
  have put: "meta_put i c (length evs, filled n evs) = Inr (length evs', filled n evs')"
    using e(4,6) by (simp add: meta_put_def evs' evs_def filled_snoc)
  define s'' where "s'' = s'\<lparr>meta_output_pool := dict_set m (dict_set w (length evs', filled n evs') pool') (meta_output_pool s')\<rparr>"
  have other: "v \<noteq> w \<Longrightarrow> parts_of mp v (seqs @ [q]) = parts_of mp v seqs" for v by (simp add: q parts_of_snoc [OF e(2)])
  have entries: "\<forall>v. map_of (dict_set w (length evs', filled n evs') pool') v = out_entry mp pool (seqs @ [q]) v"
  proof
    fix v
    have "out_entry mp pool (seqs @ [q]) v = out_entry mp pool seqs v" if "v \<noteq> w"
      unfolding out_entry_def other [OF that] by (rule refl)
    moreover have "out_entry mp pool (seqs @ [q]) w = Some (length evs', filled n evs')"
      using e(3) by (simp add: out_entry_def evs' flip: evs'_def)
    ultimately show "map_of (dict_set w (length evs', filled n evs') pool') v = out_entry mp pool (seqs @ [q]) v"
      using ih(4) by (cases "v = w") (simp_all add: update_conv')
  qed
  have mono: "joined mp v k seqs x \<Longrightarrow> joined mp v k (seqs @ [q]) x" for v k x
    by (fastforce simp: joined_def)
  have less: "length evs < n"
    using distinct_full(2) [of "map fst evs'" n] parts_of_distinct [OF snoc.prems e(3)] by (auto simp: evs'_def [symmetric] evs')
  have none: "filter (\<lambda>q. fst q = w) ret = []" using ret e(3) less by (auto simp: evs_def split: if_splits)
  have keep: "if length (parts_of mp v (seqs @ [q])) = k then \<exists>x. filter (\<lambda>q. fst q = v) ret = [(v, x)] \<and> joined mp v k (seqs @ [q]) x
      else filter (\<lambda>q. fst q = v) ret = []"
    if "v \<noteq> w" "map_of pool v = Some (0, replicate k PyNone)" "0 < k" for v k
  proof -
    have "if length (parts_of mp v seqs) = k then \<exists>x. filter (\<lambda>q. fst q = v) ret = [(v, x)] \<and> joined mp v k seqs x
      else filter (\<lambda>q. fst q = v) ret = []" using ret that(2,3) by blast
    then show ?thesis using mono unfolding other [OF that(1)] by (cases "length (parts_of mp v seqs) = k") auto
  qed
  have step: "efold (process_output m) (seqs @ [q]) (s, []) = process_output m q (s', ret)"
    by (simp add: efold_append ih(1)) (cases "process_output m q (s', ret)"; simp)
  have run: "process_output m q (s', ret) =
      (if length evs' = n then ebind (fuse_inp_srcs (filled n evs')) (\<lambda>x. Inr (s'', ret @ [(w, x)])) else Inr (s'', ret))"
    using ih(2,3) assms(1) e(2) entry put by (simp add: process_output_def q dict_get_def Let_def s''_def del: ebind_eq_Inr)
  have fields: "out_req_id_mapping s'' = out_req_id_mapping s"
    "map_of (meta_output_pool s'') m = Some (dict_set w (length evs', filled n evs') pool')"
    using ih(2) by (simp_all add: s''_def update_conv')
  show ?case
  proof (cases "length evs' = n")
    case False
    have "if length (parts_of mp v (seqs @ [q])) = k then \<exists>x. filter (\<lambda>q. fst q = v) ret = [(v, x)] \<and> joined mp v k (seqs @ [q]) x
        else filter (\<lambda>q. fst q = v) ret = []"
      if "map_of pool v = Some (0, replicate k PyNone)" "0 < k" for v k
    proof (cases "v = w")
      case True
      then have "k = n" using that e(3) by (metis length_replicate option.inject prod.inject)
      then show ?thesis using True none \<open>length evs' \<noteq> n\<close> by (simp add: evs'_def)
    next
      case False
      then show ?thesis using keep [OF False that] by simp
    qed
    then have "join_outcome mp pool (seqs @ [q]) ret" by (simp only: join_outcome_def) blast
    then show ?thesis using step run False fields entries by auto
  next
    case True
    obtain ts where ts: "filled n evs' = map Text ts" "length ts = n"
      "\<forall>i < n. \<exists>r. map_of mp r = Some (w, i) \<and> (r, Text (ts ! i)) \<in> set (seqs @ [q])"
      using filled_texts [OF snoc.prems e(3)] True by (auto simp: evs'_def)
    have x: "fuse_inp_srcs (filled n evs') = Inr (Text (concat ts))" "joined mp w n (seqs @ [q]) (Text (concat ts))"
    proof -
      have "ts \<noteq> []" using ts(2) e(4) by auto
      then show "fuse_inp_srcs (filled n evs') = Inr (Text (concat ts))" using ts(1) fuse_texts by simp
      show "joined mp w n (seqs @ [q]) (Text (concat ts))" using ts(2,3) by (auto simp: joined_def)
    qed
    have "if length (parts_of mp v (seqs @ [q])) = k
        then \<exists>x. filter (\<lambda>q. fst q = v) (ret @ [(w, Text (concat ts))]) = [(v, x)] \<and> joined mp v k (seqs @ [q]) x
        else filter (\<lambda>q. fst q = v) (ret @ [(w, Text (concat ts))]) = []"
      if "map_of pool v = Some (0, replicate k PyNone)" "0 < k" for v k
    proof (cases "v = w")
      case True
      then have "k = n" using that e(3) by (metis length_replicate option.inject prod.inject)
      then show ?thesis using True none x(2) \<open>length evs' = n\<close> by (simp add: evs'_def)
    next
      case False
      then show ?thesis using keep [OF False that] by simp
    qed
    then have "join_outcome mp pool (seqs @ [q]) (ret @ [(w, Text (concat ts))])" by (simp only: join_outcome_def) blast
    then show ?thesis using step run True x(1) fields entries by auto
  qed
qed

end
