(* ===== verification/Comm_Props.thy ===== *)
theory Comm_Props
  imports Comm_Delivery Comm_Join
begin

text \<open>
  The properties of the communicator, each with a witness at a small system: base model 0 reads the
  dummy source -1, and is run by two workers.
\<close>

section \<open>The example\<close>

definition ex_args :: template_args where
  "ex_args = \<lparr>ta_tokenizer = ''t'', ta_trust_remote_code = False, ta_template = None\<rparr>"

definition ex_comm :: communicator where
  "ex_comm = init_req_nums [(0, 2)] [(-1, 2), (0, 2)]
     (new_communicator [(0, [-1])] [(0, [0])] [] [] [] [(0, False)] [(0, ex_args)])"

definition ex_comm_full :: communicator where
  "ex_comm_full = ex_comm\<lparr>output_pool := (\<lambda>_. [])(-1 := [(1, Text ''a''), (2, Text ''b'')]),
     ungened_out_req_nums := [(-1, 0), (0, 2)], outlen_dict := [(-1, [(1, 1), (2, 1)])]\<rparr>"

definition ex_comm_ready :: communicator where
  "ex_comm_ready = ex_comm_full\<lparr>fetched_fused_inp_start := (\<lambda>_. [])(0 := [0, 1])\<rparr>"

lemma ex_comm_fields:
  "one_source 0 ex_comm" "comm_start ex_comm" "map_of (unavailable_req_nums ex_comm) 0 = Some 2"
  by (simp_all add: ex_comm_def new_communicator_def init_req_nums_def one_source_def comm_start_def dict_update_def)

lemmas ex_comm_defs = ex_comm_ready_def ex_comm_full_def ex_comm_def new_communicator_def init_req_nums_def
  dict_update_def init_reversed_def init_meta_output_pool_def

lemma ex_comm_add: "add_seqs (-1) [(1, Text ''a'', 1), (2, Text ''b'', 1)] ex_comm = Inr ex_comm_full"
  by (simp add: add_seqs_def add_seqs_base_model_def get_correct_lock_def ex_comm_defs dict_get_def ddict_get_def
      assert_no_exception_def fun_eq_iff)

lemma ex_comm_restart: "reset_state_for_model 0 2 ex_comm_full = Inr ex_comm_ready"
  by (simp add: reset_state_for_model_def reset_state_base_model_def ex_comm_defs dict_get_def fun_eq_iff upt_rec)

lemma ex_comm_run: "comm_run ex_comm ex_comm_ready (\<lambda>_. {#})"
  by (rule comm_run.Restart [OF comm_run.Add [OF comm_run.Start ex_comm_add] _ ex_comm_restart]) simp

text \<open>Worker 0 asks, then worker 1, then worker 0 again.\<close>

definition ex_comm_1 :: communicator where
  "ex_comm_1 = ex_comm_ready\<lparr>fused_inp_queues := (\<lambda>_. [])(0 := [(1, Text ''a''), (2, Text ''b'')]),
     read_output_nums := (\<lambda>_. 0)((-1, 0) := 2), unavailable_req_nums := [(0, 0)],
     fetched_fused_inp_start := (\<lambda>_. [])(0 := [2, 1])\<rparr>"

lemma ex_comm_fetch: "get_seqs_base_model 0 0 0 2 ex_comm_ready = Inr ([(1, Text ''a'')], True, ex_comm_1)"
  by (simp add: get_seqs_base_model_def get_correct_lock_def get_fused_inp_queues_def fetch_single_def get_selected_outputs_def
      apply_template_one_def enqueue_def take_share_def get_seqs_of_worker_def update_out_req_model_id_mapping_def
      ex_comm_1_def ex_comm_defs ex_args_def dict_get_def fun_eq_iff py_index_def numeral_2_eq_2 Let_def)

definition ex_comm_2 :: communicator where
  "ex_comm_2 = ex_comm_1\<lparr>fetched_fused_inp_start := (\<lambda>_. [])(0 := [2, 3])\<rparr>"

lemma ex_comm_fetch_2: "get_seqs_base_model 0 0 1 2 ex_comm_1 = Inr ([(2, Text ''b'')], True, ex_comm_2)"
  by (simp add: get_seqs_base_model_def get_correct_lock_def get_fused_inp_queues_def take_share_def
      get_seqs_of_worker_def update_out_req_model_id_mapping_def
      ex_comm_2_def ex_comm_1_def ex_comm_defs dict_get_def fun_eq_iff py_index_def numeral_2_eq_2 Let_def)

definition ex_comm_3 :: communicator where
  "ex_comm_3 = reset_state_base_model 0 2 ex_comm_2"

lemma ex_comm_fetch_3: "get_seqs_base_model 0 0 0 2 ex_comm_2 = Inr ([], False, ex_comm_3)"
  by (simp add: get_seqs_base_model_def get_correct_lock_def get_fused_inp_queues_def take_share_def
      get_seqs_of_worker_def reset_state_base_model_def ex_comm_3_def
      ex_comm_2_def ex_comm_1_def ex_comm_defs dict_get_def fun_eq_iff py_index_def numeral_2_eq_2 numeral_3_eq_3 Let_def)

lemma ex_comm_run_2: "\<exists>d. comm_run ex_comm ex_comm_2 d \<and> d 0 = {#1, 2#}"
proof -
  have "fetched_fused_inp_start ex_comm_ready 0 = [0, 1]" "fetched_fused_inp_start ex_comm_1 0 = [2, 1]"
    by (simp_all add: ex_comm_ready_def ex_comm_1_def)
  then have f: "get_seqs_base_model 0 0 0 (length (fetched_fused_inp_start ex_comm_ready 0)) ex_comm_ready = Inr ([(1, Text ''a'')], True, ex_comm_1)"
    "get_seqs_base_model 0 0 1 (length (fetched_fused_inp_start ex_comm_1 0)) ex_comm_1 = Inr ([(2, Text ''b'')], True, ex_comm_2)"
    using ex_comm_fetch ex_comm_fetch_2 by (simp_all add: numeral_2_eq_2)
  define d1 :: "int \<Rightarrow> int multiset" where "d1 = (\<lambda>_. {#})(0 := {#} + mset (map fst [(1, Text ''a'')]))"
  define d2 :: "int \<Rightarrow> int multiset" where "d2 = d1(0 := d1 0 + mset (map fst [(2, Text ''b'')]))"
  have "comm_run ex_comm ex_comm_1 d1" unfolding d1_def by (rule comm_run.Fetch [OF ex_comm_run f(1)])
  then have "comm_run ex_comm ex_comm_2 d2" unfolding d2_def by (rule comm_run.Fetch [OF _ f(2)])
  moreover have "d2 0 = {#1, 2#}" by (simp add: d2_def d1_def)
  ultimately show ?thesis by (intro exI [of _ d2] conjI)
qed

section \<open>Delivery\<close>

text \<open>C36: In every run of the communicator, for a model with one source or independent ones, each
  request that its sources have produced and that has been read is either handed out to exactly one
  worker, once, or still in the queue; and the count of requests to come is exact.\<close>

theorem delivered_exactly_once:
  assumes "comm_run s0 s d" and "comm_start s0" and "one_source m s0" and "map_of (unavailable_req_nums s0) m = Some N"
  shows "d m + pending m s = arrived m s \<and> map_of (unavailable_req_nums s) m = Some (N - int (size (arrived m s)))"
  using comm_run_inv [OF assms] by (simp add: comm_inv_def)

theorem delivered_exactly_once_witness: "\<exists>d :: int \<Rightarrow> int multiset. d 0 = {#1, 2#} \<and> d 0 + pending 0 ex_comm_2 = arrived 0 ex_comm_2"
proof -
  obtain d where d: "comm_run ex_comm ex_comm_2 d" "d 0 = {#1, 2#}" using ex_comm_run_2 by (elim exE conjE)
  have "d 0 + pending 0 ex_comm_2 = arrived 0 ex_comm_2"
    by (rule conjunct1 [OF delivered_exactly_once [OF d(1) ex_comm_fields(2,1,3)]])
  with d(2) show ?thesis by (intro exI [of _ d] conjI)
qed

text \<open>A worker is told that no more requests can come only when all have been handed out: its answer
  is empty, the queue is empty, and as many requests have been handed out as the model was announced.\<close>

theorem told_no_more_requests:
  assumes "comm_run s0 s d" and "comm_start s0" and "one_source m s0" and "map_of (unavailable_req_nums s0) m = Some N"
    and "get_seqs_base_model sh m i (length (fetched_fused_inp_start s m)) s = Inr (ret, False, s')"
  shows "pending m s' = {#} \<and> d m + mset (map fst ret) = arrived m s' \<and> int (size (arrived m s')) = N"
  using fetch_ok(1,3) [OF assms(5) comm_run_inv [OF assms(1-4)]] by (simp add: comm_inv_def)

theorem told_no_more_requests_witness: "pending 0 ex_comm_3 = {#} \<and> arrived 0 ex_comm_3 = {#1, 2#}"
proof -
  obtain d where d: "comm_run ex_comm ex_comm_2 d" "d 0 = {#1, 2#}" using ex_comm_run_2 by (elim exE conjE)
  have "get_seqs_base_model 0 0 0 (length (fetched_fused_inp_start ex_comm_2 0)) ex_comm_2 = Inr ([], False, ex_comm_3)"
    using ex_comm_fetch_3 by (simp add: ex_comm_2_def numeral_2_eq_2)
  from told_no_more_requests [OF d(1) ex_comm_fields(2,1,3) this] d(2) show ?thesis by simp
qed

lemma get_seqs_loop_step:
  "get_seqs_loop chat sh i k fused m (acc, p0, ids0, s) =
     ebind (get_seqs_base_model sh m i k s) (\<lambda>(new, p, s).
     ebind (apply_prompt_template chat m new s) (\<lambda>new.
       Inr (acc @ new, p0 \<or> p, if fused then ids0 @ replicate (length new) m else ids0, s)))"
  by (simp add: get_seqs_loop_def)

lemma get_seqs_loop_run:
  assumes "efold (get_seqs_loop chat sh i k fused) ms (acc, p0, ids0, s) = Inr (ret, p, ids, s')"
    and "comm_run s0 s d" and "distinct ms" and "\<forall>m \<in> set ms. length (fetched_fused_inp_start s m) = k"
  shows "\<exists>d' new. comm_run s0 s' d' \<and> ret = acc @ new \<and> (\<forall>m. m \<notin> set ms \<longrightarrow> d' m = d m) \<and>
    (\<Sum>m \<in> set ms. d' m) = (\<Sum>m \<in> set ms. d m) + mset (map fst new)"
  using assms
proof (induction ms arbitrary: acc p0 ids0 s d)
  case Nil
  then show ?case by auto
next
  case (Cons m ms)
  obtain r1 p1 s1 r2 where g: "get_seqs_base_model sh m i k s = Inr (r1, p1, s1)" "apply_prompt_template chat m r1 s1 = Inr r2"
    and rest: "efold (get_seqs_loop chat sh i k fused) ms (acc @ r2, p0 \<or> p1, if fused then ids0 @ replicate (length r2) m else ids0, s1) = Inr (ret, p, ids, s')"
    using Cons.prems(1) by (auto simp: get_seqs_loop_step)
  have ids: "map fst r2 = map fst r1"
    using g(2) by (auto simp: apply_prompt_template_def o_def case_prod_unfold split: option.splits)
  have o: "other_models m s s1" by (rule get_seqs_base_model_others [OF g(1)])
  let ?d = "d(m := d m + mset (map fst r1))"
  have run: "comm_run s0 s1 ?d"
    using comm_run.Fetch [OF Cons.prems(2)] g(1) Cons.prems(4) by (metis list.set_intros(1))
  have len: "\<forall>n \<in> set ms. length (fetched_fused_inp_start s1 n) = k"
    using o Cons.prems(3,4) by (auto simp: other_models_def only_model_def)
  have dist: "distinct ms" and m: "m \<notin> set ms" using Cons.prems(3) by auto
  from Cons.IH [OF rest run dist len] obtain d' new where
    d': "comm_run s0 s' d'" "ret = (acc @ r2) @ new" "\<forall>n. n \<notin> set ms \<longrightarrow> d' n = ?d n"
      "(\<Sum>n \<in> set ms. d' n) = (\<Sum>n \<in> set ms. ?d n) + mset (map fst new)" by blast
  have "(\<Sum>n \<in> set ms. ?d n) = (\<Sum>n \<in> set ms. d n)" using m by (intro sum.cong) auto
  moreover have "mset (map fst (r2 @ new)) = mset (map fst r1) + mset (map fst new)" using ids by (metis map_append mset_append)
  ultimately show ?case using d' m
    by (intro exI [of _ d'] exI [of _ "r2 @ new"]) (simp add: add_ac del: mset_map map_append)
qed

text \<open>A call of \<open>get_seqs\<close> by a worker of any model, fused from several base models or not, is a run:
  the requests it returns are those handed out for its base models, and no other model is touched.\<close>

lemma get_seqs_is_run:
  assumes "comm_run s0 s d" and "map_of (base_model_ids_dict s) sh = Some ms" and "distinct ms"
    and "\<forall>m \<in> set ms. length (fetched_fused_inp_start s m) = k"
    and "get_seqs_comm chat sh i k s = Inr (ret, p, ids, s')"
  shows "\<exists>d'. comm_run s0 s' d' \<and> (\<forall>m. m \<notin> set ms \<longrightarrow> d' m = d m) \<and>
    (\<Sum>m \<in> set ms. d' m) = (\<Sum>m \<in> set ms. d m) + mset (map fst ret)"
proof -
  obtain ids' where "efold (get_seqs_loop chat sh i k (length ms > 1)) ms ([], False, [], s) = Inr (ret, p, ids', s')"
    using assms(2,5) by (auto simp: get_seqs_comm_def assert_no_exception_def dict_get_def split: sum.splits)
  from get_seqs_loop_run [OF this assms(1,3,4)] show ?thesis by auto
qed

lemma get_seqs_is_run_witness:
  "\<exists>d' s'. comm_run ex_comm s' d' \<and> get_seqs_comm (\<lambda>_. None) 0 0 2 ex_comm_ready = Inr ([(1, Text ''a'')], True, [0], s') \<and> d' 0 = {#1#}"
proof -
  have fields: "map_of (base_model_ids_dict ex_comm_ready) 0 = Some [0]" "length (fetched_fused_inp_start ex_comm_ready 0) = 2"
    by (simp_all add: ex_comm_defs)
  have call: "get_seqs_comm (\<lambda>_. None) 0 0 2 ex_comm_ready = Inr ([(1, Text ''a'')], True, [0], ex_comm_1)"
    using ex_comm_fetch fields(1)
    by (simp add: get_seqs_comm_def get_seqs_loop_def apply_prompt_template_def dict_get_def assert_no_exception_def)
      (simp add: ex_comm_1_def ex_comm_defs)
  show ?thesis using get_seqs_is_run [OF ex_comm_run fields(1) _ _ call] fields(2) call by auto
qed

section \<open>Joining\<close>

text \<open>C37: An input request with several sources becomes complete in exactly the call in which the last of
  them comes, whatever the order, and then holds the content of source \<open>i\<close> in slot \<open>i\<close>.\<close>

theorem fan_in_completes_once:
  assumes "source_events n (evs1 @ evs2)" and "0 < n"
    and "fold (\<lambda>(i, q). add_source n i q) evs1 ([], []) = (avail1, c1)"
    and "fold (\<lambda>(i, q). add_source n i q) evs2 (avail1, []) = (avail2, c2)"
  shows "distinct c2 \<and> set c2 = {r. all_sources n r (evs1 @ evs2) \<and> \<not> all_sources n r evs1} \<and>
    (\<forall>r \<in> set c2. \<exists>srcs. map_of avail2 r = Some (n, srcs) \<and> (\<forall>i < n. (i, (r, srcs ! i)) \<in> set (evs1 @ evs2)))"
proof -
  have e1: "source_events n evs1" using assms(1) by (auto simp: source_events_def)
  have f1: "distinct c1" "set c1 = {r. all_sources n r evs1}"
    using add_source_fold [OF e1 assms(2)] assms(3) by auto
  have run: "fold (\<lambda>(i, q). add_source n i q) (evs1 @ evs2) ([], []) = (avail2, c1 @ c2)"
    using add_source_accumulates [of n evs2 avail1 c1 "[]"] assms(3,4) by simp
  have f2: "distinct (c1 @ c2)" "set (c1 @ c2) = {r. all_sources n r (evs1 @ evs2)}"
    "\<forall>r. map_of avail2 r = (if sources_of r (evs1 @ evs2) = [] then None
       else Some (length (sources_of r (evs1 @ evs2)), filled n (sources_of r (evs1 @ evs2))))"
    using add_source_fold [OF assms(1,2)] run by auto
  have c2: "set c2 = {r. all_sources n r (evs1 @ evs2) \<and> \<not> all_sources n r evs1}"
    using f1(2) f2(1,2) by auto
  have "\<exists>srcs. map_of avail2 r = Some (n, srcs) \<and> (\<forall>i < n. (i, (r, srcs ! i)) \<in> set (evs1 @ evs2))" if "r \<in> set c2" for r
  proof -
    let ?evs = "sources_of r (evs1 @ evs2)"
    have full: "all_sources n r (evs1 @ evs2)" using that c2 by blast
    note d = sources_of_distinct [OF assms(1), of r]
    have len: "length ?evs = n" using full all_sources_length [OF assms(1)] by blast
    have dom: "fst ` set ?evs = {..<n}"
      using distinct_full(1) [of "map fst ?evs" n] d len by simp
    have "\<forall>i < n. (i, (r, filled n ?evs ! i)) \<in> set (evs1 @ evs2)"
      using filled_full [OF _ dom] d by (simp only: sources_of_mem [symmetric]) blast
    then show ?thesis using f2(3) len assms(2) by (auto intro!: exI [of _ "filled n ?evs"])
  qed
  with c2 f2(1) show ?thesis by auto
qed

theorem fan_in_completes_once_witness:
  "\<exists>avail. fold (\<lambda>(i, q). add_source 2 i q) [(0, (7, Text ''x''))] (fst (add_source 2 1 (7, Text ''y'') ([], []))  , []) = (avail, [7]) \<and>
     map_of avail 7 = Some (2, [Text ''x'', Text ''y''])"
proof -
  have "source_events 2 ([(1, (7, Text ''y''))] @ [(0, (7, Text ''x''))])" by (simp add: source_events_def)
  from fan_in_completes_once [OF this] show ?thesis
    by (simp add: add_source_def ddict_get_def numeral_2_eq_2)
qed


definition ex_parts :: communicator where
  "ex_parts = ex_comm\<lparr>out_req_id_mapping := [(3, [(10, (0, 0)), (11, (0, 1))])],
     new_out_req_part_num := [(3, [(0, 2)])], meta_output_pool := init_meta_output_pool [(3, [(0, 2)])]\<rparr>"


text \<open>\<open>_init_inp_req_from_which_model_which_out_reqs_reversed\<close> inverts the mapping from input requests
  to output requests, keeping the order of the inputs that one output feeds.\<close>

lemma reverse_req_info_inverts:
  "ddict_get [] (reverse_req_info info) w = map fst (filter (\<lambda>(_, v). v = w) info)"
proof -
  have z: "ddict_get [] (fold (\<lambda>v d. dict_set v [] d) vs d) w = []" if "ddict_get [] d w = []" for vs and d :: "(int, int list) dict"
    using that by (induction vs arbitrary: d) (auto simp: ddict_get_def update_conv' split: option.splits)
  have "ddict_get [] (fold (\<lambda>(i, v) d. dict_set v (ddict_get [] d v @ [i]) d) info d) w =
      ddict_get [] d w @ map fst (filter (\<lambda>(_, v). v = w) info)" for d :: "(int, int list) dict"
    by (induction info arbitrary: d) (auto simp: ddict_get_def update_conv')
  then show ?thesis using z [of "[]" "dict_values info"] by (simp add: reverse_req_info_def ddict_get_def)
qed

end
