(* ===== verification/Detokenize.thy ===== *)
theory Detokenize
  imports Py_Strings
begin

text \<open>
  \<^verbatim>\<open>vllm/transformers_utils/tokenizer.py\<close>: turning the tokens of a sequence into text as they come.
  A tokenizer is an object of the \<open>transformers\<close> package; the record holds what the code asks of it.
  Characters of a text are the elements of \<^typ>\<open>char\<close>; \<open>tok_replacement\<close> is the one that stands for an
  incomplete character (U+FFFD).
\<close>

record tokenizer =
  tok_is_fast :: bool
  tok_added_vocab :: "string list"
  tok_all_special_tokens :: "string list"
  tok_all_special_ids :: "int list"
  tok_ids_to_tokens :: "bool \<Rightarrow> int list \<Rightarrow> string list"
  tok_to_string :: "string list \<Rightarrow> string"
  tok_eos_token_id :: "int option"
  tok_replacement :: char

text \<open>\<open>_convert_tokens_to_string_with_added_encoders\<close>: \<open>sub_texts\<close> and \<open>current_sub_text\<close> are the accumulators.\<close>

fun added_encoders_loop :: "tokenizer \<Rightarrow> bool \<Rightarrow> string list \<Rightarrow> string list \<Rightarrow> string list \<Rightarrow> string list" where
  "added_encoders_loop tok skip [] sub_texts cur = (if cur \<noteq> [] then sub_texts @ [tok_to_string tok cur] else sub_texts)"
| "added_encoders_loop tok skip (t # ts) sub_texts cur =
     (if skip \<and> t \<in> set (tok_all_special_tokens tok) then added_encoders_loop tok skip ts sub_texts cur
      else if t \<in> set (tok_added_vocab tok) then
        added_encoders_loop tok skip ts ((if cur \<noteq> [] then sub_texts @ [tok_to_string tok cur] else sub_texts) @ [t]) []
      else added_encoders_loop tok skip ts sub_texts (cur @ [t]))"

definition convert_with_added_encoders :: "tokenizer \<Rightarrow> string list \<Rightarrow> bool \<Rightarrow> bool \<Rightarrow> string" where
  "convert_with_added_encoders tok output_tokens skip spaces =
     join_str (if spaces then '' '' else '''') (added_encoders_loop tok skip output_tokens [] [])"

definition slice :: "nat \<Rightarrow> nat \<Rightarrow> 'a list \<Rightarrow> 'a list" where
  "slice i j xs = take (j - i) (drop i xs)"

definition tokens_to_text :: "tokenizer \<Rightarrow> bool \<Rightarrow> bool \<Rightarrow> string list \<Rightarrow> string" where
  "tokens_to_text tok skip spaces ts =
     (if tok_is_fast tok \<or> tok_added_vocab tok = [] then tok_to_string tok ts
      else convert_with_added_encoders tok ts skip spaces)"

text \<open>The first part of \<open>detokenize_incrementally\<close>: the new tokens, all tokens, and the offsets.\<close>

definition detok_tokens ::
    "tokenizer \<Rightarrow> int \<Rightarrow> int list \<Rightarrow> string list option \<Rightarrow> nat \<Rightarrow> nat \<Rightarrow> bool \<Rightarrow> (string list \<times> string list \<times> nat \<times> nat) result" where
  "detok_tokens tok tokenizer_len all_input_ids prev_tokens prefix_offset read_offset skip =
     ebind (py_last all_input_ids) (\<lambda>new_token_id.
     case prev_tokens of
       None \<Rightarrow>
         (let output_tokens = tok_ids_to_tokens tok skip all_input_ids;
              prefix_offset = length output_tokens - 6;
              read_offset = (if skip \<and> new_token_id \<in> set (tok_all_special_ids tok) then length output_tokens
                             else length output_tokens - 1)
          in if new_token_id \<ge> tokenizer_len then
               (if output_tokens = [] then Inl IndexError
                else Inr (butlast output_tokens @ [[]], butlast output_tokens @ [[]], prefix_offset, read_offset))
             else Inr (output_tokens, output_tokens, prefix_offset, read_offset))
     | Some prev \<Rightarrow>
         (let new_tokens = tok_ids_to_tokens tok skip [new_token_id];
              output_tokens = prev @ new_tokens
          in if new_token_id \<ge> tokenizer_len then
               (if output_tokens = [] then Inl IndexError
                else Inr ([[]], butlast output_tokens @ [[]], prefix_offset, read_offset))
             else Inr (new_tokens, output_tokens, prefix_offset, read_offset)))"

definition detokenize_incrementally ::
    "tokenizer \<Rightarrow> int \<Rightarrow> int list \<Rightarrow> string list option \<Rightarrow> nat \<Rightarrow> nat \<Rightarrow> bool \<Rightarrow> bool
     \<Rightarrow> (string list \<times> string \<times> nat \<times> nat) result" where
  "detokenize_incrementally tok tokenizer_len all_input_ids prev_tokens prefix_offset read_offset skip spaces =
     ebind (detok_tokens tok tokenizer_len all_input_ids prev_tokens prefix_offset read_offset skip)
       (\<lambda>(new_tokens, output_tokens, prefix_offset, read_offset).
     let prefix_text = tokens_to_text tok skip spaces (slice prefix_offset read_offset output_tokens);
         new_text = tokens_to_text tok skip spaces (drop prefix_offset output_tokens)
     in if length new_text > length prefix_text \<and> \<not> ends_with new_text [tok_replacement tok]
        then Inr (new_tokens, drop (length prefix_text) new_text, read_offset, length output_tokens)
        else Inr (new_tokens, '''', prefix_offset, read_offset))"

section \<open>No text is lost or repeated\<close>

text \<open>
  The offsets delimit the tokens \<open>prefix_offset\<close> to \<open>read_offset\<close> whose text has been emitted and the
  tokens from \<open>read_offset\<close> on whose text has not.
\<close>

definition offsets_ok :: "nat \<Rightarrow> nat \<Rightarrow> string list \<Rightarrow> bool" where
  "offsets_ok po ro ts \<longleftrightarrow> po \<le> ro \<and> ro \<le> length ts"

text \<open>A tokenizer whose decoding of a list of tokens is the concatenation of their texts, and whose token
  conversion gives one token per id when special tokens are kept.\<close>

definition piecewise :: "tokenizer \<Rightarrow> (string \<Rightarrow> string) \<Rightarrow> bool" where
  "piecewise tok f \<longleftrightarrow> tok_is_fast tok \<and> (\<forall>ts. tok_to_string tok ts = concat (map f ts)) \<and>
     (\<forall>ids. length (tok_ids_to_tokens tok False ids) = length ids)"

lemma detokenize_next:
  assumes "piecewise tok f" and "offsets_ok po ro prev" and "ids \<noteq> []" and "last ids < tokenizer_len"
    and "detokenize_incrementally tok tokenizer_len ids (Some prev) po ro False spaces = Inr (new, em, po', ro')"
  shows "offsets_ok po' ro' (prev @ new)" "new = tok_ids_to_tokens tok False [last ids]"
    "em @ concat (map f (drop ro' (prev @ new))) = concat (map f (drop ro (prev @ new)))"
proof -
  define out where "out = prev @ tok_ids_to_tokens tok False [last ids]"
  have one: "length (tok_ids_to_tokens tok False [last ids]) = 1" using assms(1) by (simp add: piecewise_def)
  have conv: "tokens_to_text tok False spaces ts = concat (map f ts)" for ts
    using assms(1) by (simp add: tokens_to_text_def piecewise_def)
  have split: "drop po out = slice po ro out @ drop ro out"
    using assms(2) append_take_drop_id [of "ro - po" "drop po out"] by (simp add: slice_def offsets_ok_def add.commute)
  define pre where "pre = concat (map f (slice po ro out))"
  define rest where "rest = concat (map f (drop ro out))"
  define emit where "emit \<longleftrightarrow> length (pre @ rest) > length pre \<and> \<not> ends_with (pre @ rest) [tok_replacement tok]"
  have full: "concat (map f (drop po out)) = pre @ rest" by (simp add: split pre_def rest_def)
  have toks: "detok_tokens tok tokenizer_len ids (Some prev) po ro False = Inr (tok_ids_to_tokens tok False [last ids], out, po, ro)"
    using assms(3,4) by (simp add: detok_tokens_def out_def Let_def)
  have "detokenize_incrementally tok tokenizer_len ids (Some prev) po ro False spaces =
      (if emit then Inr (tok_ids_to_tokens tok False [last ids], drop (length pre) (pre @ rest), ro, length out)
       else Inr (tok_ids_to_tokens tok False [last ids], '''', po, ro))"
    unfolding detokenize_incrementally_def toks by (simp only: ebind_simps prod.case Let_def conv full pre_def [symmetric] emit_def)
  then have res: "(if emit then (tok_ids_to_tokens tok False [last ids], rest, ro, length out)
      else (tok_ids_to_tokens tok False [last ids], '''', po, ro)) = (new, em, po', ro')"
    using assms(5) by (simp split: if_splits)
  then show "new = tok_ids_to_tokens tok False [last ids]" by (auto split: if_splits)
  with res show "offsets_ok po' ro' (prev @ new)"
    "em @ concat (map f (drop ro' (prev @ new))) = concat (map f (drop ro (prev @ new)))"
    using assms(2) one by (auto simp: offsets_ok_def out_def rest_def split: if_splits)
qed

text \<open>A whole sequence of calls, one per generated id, as \<open>_decode_sequence\<close> makes them: the state is the
  tokens, the offsets and the text emitted.\<close>

fun detok_run :: "tokenizer \<Rightarrow> int \<Rightarrow> bool \<Rightarrow> int list \<Rightarrow> string list \<times> nat \<times> nat \<times> string \<Rightarrow> (string list \<times> nat \<times> nat \<times> string) result" where
  "detok_run tok n spaces [] st = Inr st"
| "detok_run tok n spaces (i # ids) (ts, po, ro, out) =
     ebind (detokenize_incrementally tok n [i] (Some ts) po ro False spaces) (\<lambda>(new, em, po, ro).
       detok_run tok n spaces ids (ts @ new, po, ro, out @ em))"


definition ex_tok :: tokenizer where
  "ex_tok = \<lparr>tok_is_fast = True, tok_added_vocab = [], tok_all_special_tokens = [], tok_all_special_ids = [],
     tok_ids_to_tokens = (\<lambda>_. map (\<lambda>i. if i = 0 then ''he'' else ''y'')), tok_to_string = concat,
     tok_eos_token_id = Some 9, tok_replacement = CHR ''?''\<rparr>"

lemma ex_tok_piecewise: "piecewise ex_tok id"
  by (simp add: piecewise_def ex_tok_def)


end
