(* ===== verification/Engine.thy ===== *)
theory Engine
  imports Req_Scheduler Detokenize
begin

text \<open>
  \<^verbatim>\<open>vllm/engine/llm_engine.py\<close> and \<^verbatim>\<open>vllm/outputs.py\<close>: requests come in, a step schedules, runs the
  workers and processes what they sampled: beam search, detokenization, stopping, the outputs of
  the requests. A group that is being processed is the object in the running queue: the queue is
  updated with it. \<open>engine_env\<close> holds what is not in the repository: the tokenizers, the
  interpreter's \<^verbatim>\<open>hash\<close> and \<^verbatim>\<open>**\<close>; the model's samples are an argument. Left out: the start-up of the
  workers, the timing and the printing.
\<close>

record engine_env =
  ee_tokenizer :: "lora_request option \<Rightarrow> tokenizer"
  ee_tokenizer_len :: int
  ee_encode :: "string \<Rightarrow> lora_request option \<Rightarrow> int list"
  ee_pow :: "int \<Rightarrow> float64 \<Rightarrow> float64"
  ee_hash :: "int list \<times> int \<Rightarrow> int"

record llm_engine =
  le_scheduler :: scheduler
  le_seq_counter :: int
  le_block_size :: nat
  le_lora_enabled :: bool
  le_log_stats :: bool
  le_kv :: kv_per_layer_weight

text \<open>What the model sampled for a group (\<open>SequenceOutput\<close>, \<open>SequenceGroupOutput\<close>).\<close>

record sequence_output =
  so_parent_seq_id :: int
  so_output_token :: int
  so_logprobs :: logprob_dict

record sequence_group_output =
  go_samples :: "sequence_output list"
  go_prompt_logprobs :: "logprob_dict option list option"

section \<open>Adding and aborting requests\<close>

definition encode_request :: "engine_env \<Rightarrow> string option \<Rightarrow> int list option \<Rightarrow> lora_request option \<Rightarrow> int list result" where
  "encode_request env prompt token_ids lora =
     (case token_ids of
        Some ts \<Rightarrow> Inr ts
      | None \<Rightarrow> (case prompt of None \<Rightarrow> Inl AssertionError | Some p \<Rightarrow> Inr (ee_encode env p lora)))"

text \<open>The slice \<^verbatim>\<open>xs[:pos]\<close>.\<close>

definition slice_to :: "int \<Rightarrow> 'a list \<Rightarrow> 'a list" where
  "slice_to pos xs = take (if 0 \<le> pos then nat pos else nat (int (length xs) + pos)) xs"

definition add_request ::
    "engine_env \<Rightarrow> float64 \<Rightarrow> req_id \<Rightarrow> string option \<Rightarrow> sampling_params \<Rightarrow> int list option \<Rightarrow> float64 option
     \<Rightarrow> lora_request option \<Rightarrow> int option \<Rightarrow> llm_engine \<Rightarrow> llm_engine result" where
  "add_request env now rid prompt sp token_ids arrival lora prefix_pos e =
     (if lora \<noteq> None \<and> \<not> le_lora_enabled e then Inl (ValueError ''LoRA is not enabled'')
      else ebind (encode_request env prompt token_ids lora) (\<lambda>ts.
        let s = le_scheduler e; bm = sch_bm s in
        ebind (new_sequence (le_seq_counter e) prompt ts (le_block_size e) lora) (\<lambda>q.
        ebind (case prefix_pos of
                 None \<Rightarrow> Inr (None, sch_prefix_pool s, prefix_heap bm)
               | Some pos \<Rightarrow> add_or_get_prefix (ee_hash env) (slice_to pos ts)
                               (case lora of None \<Rightarrow> 0 | Some r \<Rightarrow> lr_lora_int_id r) (sch_prefix_pool s) (prefix_heap bm))
          (\<lambda>(prefix, pool, heap).
          let g = new_sequence_group rid [q] sp (case arrival of None \<Rightarrow> now | Some t \<Rightarrow> t) lora prefix
          in Inr (e\<lparr>le_seq_counter := le_seq_counter e + 1,
                    le_scheduler := add_seq_group g (s\<lparr>sch_prefix_pool := pool, sch_bm := bm\<lparr>prefix_heap := heap\<rparr>\<rparr>)\<rparr>)))))"

definition abort_request :: "req_id list \<Rightarrow> llm_engine \<Rightarrow> llm_engine result" where
  "abort_request ids e = ebind (abort_seq_group ids (le_scheduler e)) (\<lambda>s. Inr (e\<lparr>le_scheduler := s\<rparr>))"

definition get_num_unfinished_requests :: "llm_engine \<Rightarrow> nat" where
  "get_num_unfinished_requests e = get_num_unfinished_seq_groups (le_scheduler e)"

definition has_unfinished_requests :: "llm_engine \<Rightarrow> bool" where
  "has_unfinished_requests e = sch_has_unfinished_seqs (le_scheduler e)"

section \<open>Decoding and stopping\<close>

definition decode_sequence :: "engine_env \<Rightarrow> sampling_params \<Rightarrow> sequence \<Rightarrow> sequence result" where
  "decode_sequence env sp q =
     ebind (detokenize_incrementally (ee_tokenizer env (seq_lora_request q)) (ee_tokenizer_len env) (seq_get_token_ids q)
              (seq_tokens q) (prefix_offset q) (read_offset q) (skip_special_tokens sp) (spaces_between_special_tokens sp))
       (\<lambda>(new_tokens, new_output_text, po, ro).
       Inr (q\<lparr>seq_tokens := Some (case seq_tokens q of None \<Rightarrow> new_tokens | Some ts \<Rightarrow> ts @ new_tokens),
              prefix_offset := po, read_offset := ro, output_text := output_text q @ new_output_text\<rparr>))"

text \<open>
  The slice \<^verbatim>\<open>output_text[:-len(stop_str)]\<close>: with the empty stop string it is \<^verbatim>\<open>output_text[:0]\<close>, the
  empty text.
\<close>

definition strip_stop :: "string \<Rightarrow> string \<Rightarrow> string" where
  "strip_stop stop_str s = (if stop_str = [] then [] else take (length s - length stop_str) s)"

fun check_stop_strings :: "bool \<Rightarrow> string list \<Rightarrow> sequence \<Rightarrow> sequence option" where
  "check_stop_strings keep [] q = None"
| "check_stop_strings keep (s # ss) q =
     (if ends_with (output_text q) s then
        Some (q\<lparr>output_text := (if keep then output_text q else strip_stop s (output_text q)), status := FINISHED_STOPPED\<rparr>)
      else check_stop_strings keep ss q)"

definition check_stop :: "engine_env \<Rightarrow> nat \<Rightarrow> sampling_params \<Rightarrow> sequence \<Rightarrow> sequence result" where
  "check_stop env model_len sp q =
     (case check_stop_strings (include_stop_str_in_output sp) (stop sp) q of
        Some q \<Rightarrow> Inr q
      | None \<Rightarrow>
          ebind (seq_get_last_token_id q) (\<lambda>t.
            if t \<in> set (stop_token_ids sp) then Inr (q\<lparr>status := FINISHED_STOPPED\<rparr>)
            else if seq_get_len q > model_len then Inr (q\<lparr>status := FINISHED_LENGTH_CAPPED\<rparr>)
            else if Some (int (seq_get_output_len q)) = max_tokens sp then Inr (q\<lparr>status := FINISHED_LENGTH_CAPPED\<rparr>)
            else if \<not> ignore_eos sp \<and> Some t = tok_eos_token_id (ee_tokenizer env (seq_lora_request q))
              then Inr (q\<lparr>status := FINISHED_STOPPED\<rparr>)
            else Inr q))"

section \<open>Beam search\<close>

text \<open>The score with the end token of the sequence's tokenizer.\<close>

definition beam_score :: "engine_env \<Rightarrow> float64 \<Rightarrow> int option \<Rightarrow> sequence \<Rightarrow> float64 result" where
  "beam_score env lp seq_len q =
     get_beam_search_score (ee_pow env) lp seq_len (tok_eos_token_id (ee_tokenizer env (seq_lora_request q))) q"

definition check_beam_search_early_stopping ::
    "engine_env \<Rightarrow> nat \<Rightarrow> sampling_params \<Rightarrow> sequence \<Rightarrow> sequence \<Rightarrow> bool result" where
  "check_beam_search_early_stopping env model_len sp best_running_seq current_worst_seq =
     ebind (py_assert (use_beam_search sp)) (\<lambda>_.
     if early_stopping sp = ES_Bool True then Inr True
     else
       ebind (beam_score env (length_penalty sp) None current_worst_seq) (\<lambda>current_worst_score.
       ebind (if early_stopping sp = ES_Bool False then beam_score env (length_penalty sp) None best_running_seq
              else ebind (py_assert (early_stopping sp = ES_Str ''never'')) (\<lambda>_.
                if length_penalty sp > 0 then
                  (case max_tokens sp of
                     None \<Rightarrow> Inl TypeError
                   | Some m \<Rightarrow> beam_score env (length_penalty sp)
                                 (Some (max (int (seq_get_prompt_len best_running_seq) + m) (int model_len))) best_running_seq)
                else beam_score env (length_penalty sp) None best_running_seq))
         (\<lambda>highest_attainable_score. Inr (current_worst_score \<ge> highest_attainable_score))))"

text \<open>\<^verbatim>\<open>xs.sort(key=..., reverse=True)\<close>: the keys are computed first, equal elements keep their order.\<close>

definition sort_by_score :: "('a \<Rightarrow> float64 result) \<Rightarrow> 'a list \<Rightarrow> 'a list result" where
  "sort_by_score key xs =
     ebind (efold (\<lambda>x acc. ebind (key x) (\<lambda>k. Inr (acc @ [(k, x)]))) xs []) (\<lambda>ks.
       Inr (map snd (sort_key (\<lambda>(k, _). - k) ks)))"

section \<open>Processing the samples of a group\<close>

text \<open>A candidate: a sequence, its parent, and whether it is the parent itself (\<^verbatim>\<open>seq is parent\<close>).\<close>

record child_seq =
  cs_seq :: sequence
  cs_parent :: sequence
  cs_same :: bool

type_synonym group_state = "sequence_group \<times> scheduler"

definition group_samples :: "sequence list \<Rightarrow> sequence_output list \<Rightarrow> (int, sequence_output list) dict result" where
  "group_samples parent_seqs samples =
     efold (\<lambda>so d. ebind (dict_get d (so_parent_seq_id so)) (\<lambda>sos. Inr (dict_set (so_parent_seq_id so) (sos @ [so]) d)))
       samples (map (\<lambda>p. (seq_id p, [])) parent_seqs)"

definition fork_child :: "sequence \<Rightarrow> sequence_output \<Rightarrow> int \<times> child_seq list \<Rightarrow> (int \<times> child_seq list) result" where
  "fork_child parent so = (\<lambda>(counter, children).
     ebind (seq_append_token_id (so_output_token so) (so_logprobs so) (seq_fork counter parent)) (\<lambda>child.
       Inr (counter + 1, children @ [\<lparr>cs_seq = child, cs_parent = parent, cs_same = False\<rparr>])))"

definition process_parent ::
    "(int, sequence_output list) dict \<Rightarrow> sequence \<Rightarrow> group_state \<times> int \<times> child_seq list \<Rightarrow> (group_state \<times> int \<times> child_seq list) result" where
  "process_parent samples parent = (\<lambda>((g, s), counter, children).
     ebind (dict_get samples (seq_id parent)) (\<lambda>child_samples.
     if child_samples = [] then
       ebind (sg_remove (seq_id parent) g) (\<lambda>g.
       ebind (sch_free_seq (parent\<lparr>status := FINISHED_ABORTED\<rparr>) s) (\<lambda>s. Inr ((g, s), counter, children)))
     else
       ebind (efold (fork_child parent) (butlast child_samples) (counter, children)) (\<lambda>(counter, children).
       ebind (seq_append_token_id (so_output_token (last child_samples)) (so_logprobs (last child_samples)) parent) (\<lambda>p.
         Inr ((g, s), counter, children @ [\<lparr>cs_seq = p, cs_parent = parent, cs_same = True\<rparr>])))))"

definition finish_child :: "engine_env \<Rightarrow> nat \<Rightarrow> sampling_params \<Rightarrow> child_seq \<Rightarrow> child_seq list \<Rightarrow> child_seq list result" where
  "finish_child env model_len sp c done =
     ebind (decode_sequence env sp (cs_seq c)) (\<lambda>q.
     ebind (check_stop env model_len sp q) (\<lambda>q. Inr (done @ [c\<lparr>cs_seq := q\<rparr>])))"

text \<open>The parents are objects of the group: what was done to them is seen there.\<close>

definition update_parents :: "child_seq list \<Rightarrow> sequence_group \<Rightarrow> sequence_group" where
  "update_parents children g =
     g\<lparr>seqs_dict := fold (\<lambda>c d. if cs_same c then dict_set (seq_id (cs_seq c)) (cs_seq c) d else d) children (seqs_dict g)\<rparr>"

definition add_child :: "child_seq \<Rightarrow> group_state \<Rightarrow> group_state result" where
  "add_child c = (\<lambda>(g, s).
     if cs_same c then Inr (g, s)
     else ebind (sg_add (cs_seq c) g) (\<lambda>g.
       if seq_is_finished (cs_seq c) then Inr (g, s)
       else ebind (sch_fork_seq (cs_parent c) (cs_seq c) s) (\<lambda>s. Inr (g, s))))"

definition free_finished_parent :: "child_seq \<Rightarrow> group_state \<Rightarrow> group_state result" where
  "free_finished_parent c = (\<lambda>(g, s).
     if cs_same c \<and> seq_is_finished (cs_seq c) then ebind (sch_free_seq (cs_seq c) s) (\<lambda>s. Inr (g, s)) else Inr (g, s))"

definition drop_unselected :: "child_seq \<Rightarrow> group_state \<Rightarrow> group_state result" where
  "drop_unselected c = (\<lambda>(g, s).
     if cs_same c then
       ebind (sg_remove (seq_id (cs_seq c)) g) (\<lambda>g. ebind (sch_free_seq (cs_seq c) s) (\<lambda>s. Inr (g, s)))
     else Inr (g, s))"

text \<open>
  The choice of the beams: the finished sequences, old (\<open>Inl\<close>) and new (\<open>Inr\<close>), by score; the running
  ones by score; and whether the search stops. It returns the finished ones sorted, the running ones
  sorted, and the decision.
\<close>

definition seq_of :: "sequence + child_seq \<Rightarrow> sequence" where
  "seq_of x = (case x of Inl q \<Rightarrow> q | Inr c \<Rightarrow> cs_seq c)"

definition rank_beams ::
    "engine_env \<Rightarrow> nat \<Rightarrow> sampling_params \<Rightarrow> sequence list \<Rightarrow> child_seq list
     \<Rightarrow> ((sequence + child_seq) list \<times> child_seq list \<times> bool) result" where
  "rank_beams env model_len sp existing children =
     (let score = (\<lambda>q. beam_score env (length_penalty sp) None q) in
      ebind (sort_by_score (\<lambda>x. score (seq_of x))
               (map Inl existing @ map Inr (filter (\<lambda>c. seq_is_finished (cs_seq c)) children))) (\<lambda>finished.
      ebind (sort_by_score (\<lambda>c. score (cs_seq c)) (filter (\<lambda>c. \<not> seq_is_finished (cs_seq c)) children)) (\<lambda>running.
      ebind (if running = [] then Inr True
             else if int (length finished) < best_of sp then Inr False
             else check_beam_search_early_stopping env model_len sp (cs_seq (hd running)) (seq_of (finished ! nat (best_of sp - 1))))
        (\<lambda>stop_beam_search. Inr (finished, running, stop_beam_search)))))"

definition new_of :: "(sequence + child_seq) list \<Rightarrow> child_seq list" where
  "new_of xs = concat (map (\<lambda>x. case x of Inl _ \<Rightarrow> [] | Inr c \<Rightarrow> [c]) xs)"

definition old_of :: "(sequence + child_seq) list \<Rightarrow> sequence list" where
  "old_of xs = concat (map (\<lambda>x. case x of Inl q \<Rightarrow> [q] | Inr _ \<Rightarrow> []) xs)"

definition beam_search_step ::
    "engine_env \<Rightarrow> nat \<Rightarrow> sequence list \<Rightarrow> child_seq list \<Rightarrow> group_state \<Rightarrow> group_state result" where
  "beam_search_step env model_len existing children = (\<lambda>(g, s).
     let sp = sg_sampling_params g; k = nat (best_of sp) in
     ebind (rank_beams env model_len sp existing children) (\<lambda>(finished, running, stop_beam_search).
     ebind (efold (\<lambda>q. sg_remove (seq_id q)) (old_of (drop k finished)) g) (\<lambda>g.
     let selected = new_of (take k finished) @ (if stop_beam_search then [] else take k running);
         unselected = new_of (drop k finished) @ (if stop_beam_search then running else drop k running)
     in ebind (efold add_child selected (g, s)) (\<lambda>gs.
        ebind (efold free_finished_parent selected gs) (\<lambda>gs. efold drop_unselected unselected gs)))))"

definition process_sequence_group_outputs ::
    "engine_env \<Rightarrow> sequence_group_output \<Rightarrow> sequence_group \<times> scheduler \<times> int \<Rightarrow> (sequence_group \<times> scheduler \<times> int) result" where
  "process_sequence_group_outputs env outs = (\<lambda>(g, s, counter).
     let g = (case go_prompt_logprobs outs of None \<Rightarrow> g | Some l \<Rightarrow> g\<lparr>sg_prompt_logprobs := Some l\<rparr>);
         sp = sg_sampling_params g; model_len = max_model_len s;
         parent_seqs = get_seqs (Some RUNNING) g; existing = get_finished_seqs g in
     ebind (group_samples parent_seqs (go_samples outs)) (\<lambda>samples.
     ebind (efold (process_parent samples) parent_seqs ((g, s), counter, [])) (\<lambda>((g, s), counter, children).
     ebind (efold (finish_child env model_len sp) children []) (\<lambda>children.
     let g = update_parents children g in
     if \<not> use_beam_search sp then
       ebind (efold add_child children (g, s)) (\<lambda>gs.
       ebind (efold free_finished_parent children gs) (\<lambda>(g, s). Inr (g, s, counter)))
     else ebind (beam_search_step env model_len existing children (g, s)) (\<lambda>(g, s). Inr (g, s, counter))))))"

section \<open>The outputs of a request\<close>

record completion_output =
  co_index :: nat
  co_text :: string
  co_token_ids :: "int list"
  co_cumulative_logprob :: float64
  co_logprobs :: "logprob_dict list option"
  co_finish_reason :: "string option"

definition co_finished :: "completion_output \<Rightarrow> bool" where
  "co_finished c \<longleftrightarrow> co_finish_reason c \<noteq> None"

record request_output =
  ro_request_id :: req_id
  ro_prompt :: "string option"
  ro_prompt_token_ids :: "int list"
  ro_prompt_logprobs :: "logprob_dict option list option"
  ro_outputs :: "completion_output list"
  ro_finished :: bool
  ro_lora_request :: "lora_request option"

definition completion_of :: "sampling_params \<Rightarrow> nat \<times> sequence \<Rightarrow> completion_output" where
  "completion_of sp = (\<lambda>(i, q).
     \<lparr>co_index = i, co_text = output_text q, co_token_ids = output_token_ids (seq_data q),
      co_cumulative_logprob = cumulative_logprob (seq_data q),
      co_logprobs = (if logprobs sp = None then None else Some (output_logprobs q)),
      co_finish_reason = get_finished_reason (status q)\<rparr>)"

definition from_seq_group :: "engine_env \<Rightarrow> sequence_group \<Rightarrow> request_output result" where
  "from_seq_group env g =
     (let sp = sg_sampling_params g in
      ebind (sort_by_score (\<lambda>(_, q).
               if use_beam_search sp then get_beam_search_score (ee_pow env) (length_penalty sp) None None q
               else Inr (cumulative_logprob (seq_data q))) (enumerate 0 (get_seqs None g))) (\<lambda>sorted_seqs.
      ebind (sg_prompt g) (\<lambda>prompt.
      ebind (sg_prompt_token_ids g) (\<lambda>ts.
        Inr \<lparr>ro_request_id = request_id g, ro_prompt = prompt, ro_prompt_token_ids = ts,
             ro_prompt_logprobs = sg_prompt_logprobs g,
             ro_outputs = map (completion_of sp) (take (nat (sp_n sp)) sorted_seqs),
             ro_finished = sg_is_finished g, ro_lora_request = sg_lora_request g\<rparr>))))"

section \<open>Statistics\<close>

record stats =
  st_now :: float64
  num_running :: nat
  num_swapped :: nat
  num_waiting :: nat
  gpu_cache_usage :: float64
  cpu_cache_usage :: float64
  num_prompt_tokens :: nat
  num_generation_tokens :: nat
  time_to_first_tokens :: "float64 list"
  time_per_output_tokens :: "float64 list"
  time_e2e_requests :: "float64 list"

text \<open>\<^verbatim>\<open>1.0 - free / total\<close>.\<close>

definition cache_usage :: "nat \<Rightarrow> nat \<Rightarrow> float64 result" where
  "cache_usage free_blks total_blks = ebind (f64_div (of_nat free_blks) (of_nat total_blks)) (\<lambda>r. Inr (f64_sub 1 r))"

text \<open>\<open>_get_stats\<close> with the outputs of the step; reading the latency of a group sets its last token time.\<close>

definition get_stats :: "float64 \<Rightarrow> scheduler_outputs option \<Rightarrow> sequence_group list \<Rightarrow> scheduler \<Rightarrow> (stats \<times> sequence_group list) result" where
  "get_stats now out scheduled s =
     (let bm = sch_bm s in
      ebind (cache_usage (get_num_free_gpu_blocks bm) (num_total_gpu_blocks bm)) (\<lambda>gpu.
      ebind (if num_total_cpu_blocks bm > 0 then cache_usage (get_num_free_cpu_blocks bm) (num_total_cpu_blocks bm) else Inr 0) (\<lambda>cpu.
      let prompt = (case out of None \<Rightarrow> False | Some o' \<Rightarrow> prompt_run o');
          batched = (case out of None \<Rightarrow> 0 | Some o' \<Rightarrow> num_batched_tokens o');
          scheduled = (if out = None then [] else scheduled);
          lat = map (get_last_latency now) scheduled
      in Inr (\<lparr>st_now = now, num_running = length (running s), num_swapped = length (swapped s), num_waiting = length (waiting s),
               gpu_cache_usage = gpu, cpu_cache_usage = cpu,
               num_prompt_tokens = (if prompt then batched else 0),
               num_generation_tokens = (if out \<noteq> None \<and> \<not> prompt then batched else 0),
               time_to_first_tokens = (if prompt then map fst lat else []),
               time_per_output_tokens = (if prompt then [] else map fst lat),
               time_e2e_requests = map (\<lambda>g. f64_sub now (arrival_time g)) (filter sg_is_finished scheduled)\<rparr>,
              map snd lat))))"

section \<open>A step of the engine\<close>

text \<open>The running queue sees what was done to its groups: old and new value of each.\<close>

definition update_running :: "(sequence_group \<times> sequence_group) list \<Rightarrow> scheduler \<Rightarrow> scheduler" where
  "update_running gs s = s\<lparr>running := map (\<lambda>g. case map_of gs g of None \<Rightarrow> g | Some g' \<Rightarrow> g') (running s)\<rparr>"

definition mark_computed :: "sequence_group \<Rightarrow> block_manager \<Rightarrow> block_manager" where
  "mark_computed g bm =
     (case sg_prefix g of
        None \<Rightarrow> bm
      | Some r \<Rightarrow>
          let p = prefix_heap bm ! r in
          if prefix_allocated p \<and> \<not> pf_computed p then bm\<lparr>prefix_heap := (prefix_heap bm)[r := p\<lparr>pf_computed := True\<rparr>]\<rparr> else bm)"

definition process_group ::
    "engine_env \<Rightarrow> sequence_group \<times> sequence_group_output
     \<Rightarrow> (sequence_group \<times> sequence_group) list \<times> scheduler \<times> int \<Rightarrow> ((sequence_group \<times> sequence_group) list \<times> scheduler \<times> int) result" where
  "process_group env = (\<lambda>(g, outs) (done, s, counter).
     ebind (process_sequence_group_outputs env outs (g, s, counter)) (\<lambda>(g', s, counter). Inr (done @ [(g, g')], s, counter)))"

definition process_model_outputs ::
    "engine_env \<Rightarrow> float64 \<Rightarrow> sequence_group_output list \<Rightarrow> scheduler_outputs \<Rightarrow> llm_engine \<Rightarrow> (request_output list \<times> llm_engine) result" where
  "process_model_outputs env now output out e =
     (let scheduled = scheduled_seq_groups out in
      ebind (efold (process_group env) (zip scheduled output) ([], le_scheduler e, le_seq_counter e)) (\<lambda>(done, s, counter).
      let s = free_finished_seq_groups (update_running done s);
          scheduled = map snd done @ drop (length done) scheduled
      in ebind (efold (\<lambda>g acc. ebind (from_seq_group env g) (\<lambda>r. Inr (acc @ [r]))) (scheduled @ ignored_seq_groups out) []) (\<lambda>ros.
      let s = s\<lparr>sch_bm := fold mark_computed scheduled (sch_bm s)\<rparr> in
      ebind (if le_log_stats e then ebind (get_stats now (Some out) scheduled s) (\<lambda>(_, gs). Inr (update_running (zip scheduled gs) s))
             else Inr s) (\<lambda>s.
        Inr (ros, e\<lparr>le_scheduler := s, le_seq_counter := counter\<rparr>)))))"

text \<open>
  \<open>step\<close>: \<open>execute\<close> is \<open>execute_model\<close> of the driver worker. After the model has run, the number of layers
  that were loaded is set back.
\<close>

definition engine_step ::
    "engine_env \<Rightarrow> float64 \<Rightarrow> (sequence_group_metadata list \<Rightarrow> scheduler_outputs \<Rightarrow> sequence_group_output list)
     \<Rightarrow> llm_engine \<Rightarrow> (request_output list \<times> llm_engine) result" where
  "engine_step env now execute e =
     ebind (sch_schedule now (le_kv e) (le_scheduler e)) (\<lambda>(mds, out, kv, s).
     let output = (if outputs_is_empty out then [] else execute mds out);
         e = e\<lparr>le_scheduler := s, le_kv := kv\<lparr>load_more_layer_on_card_num := 0\<rparr>\<rparr>
     in process_model_outputs env now output out e)"

end
