(* ===== verification/Shared_Context.thy ===== *)
theory Shared_Context
  imports Block_Reorg Py_Strings
begin

text \<open>
  \<^verbatim>\<open>vllm/core/multimodel_scheduler.py\<close>, \<open>SHARED_CONTECT\<close>: the arrays and events that the scheduler process
  and the processes of the models share. One array holds the execution plan of every model: tensor
  parallel size, ten times the memory ratio, weight loading degree, number of data-parallel workers,
  then the order of the GPUs. An event is a flag; a method that waits is the condition under which
  it returns. The environment variables are a dictionary. Left out: the printing and the test methods.
\<close>

section \<open>State\<close>

type_synonym environ = "(string, string) dict"

record ('o, 'r, 'sp) shared_context =
  shared_setting :: "int list"
  shared_id :: nat
  dp_id :: nat
  events :: "bool list"
  started_status :: "bool list"
  gened_outputs :: "'o list"
  remaining_requests :: "'r list"
  shared_finish_status :: "bool list"
  execution_plan_size :: nat
  tot_req_num_remained :: int
  sampling_args_dict :: "(int, (int, 'sp) dict) dict"
  wait_stage_synchs :: "bool list option"
  stage1_started :: bool

definition execution_plan_non_gpu_para_num :: nat where
  "execution_plan_non_gpu_para_num = 4"

definition list_set :: "nat \<Rightarrow> 'a \<Rightarrow> 'a list \<Rightarrow> 'a list result" where
  "list_set i x xs = (if i < length xs then Inr (xs[i := x]) else Inl IndexError)"

definition run_multi_model :: "environ \<Rightarrow> bool result" where
  "run_multi_model env = ebind (dict_get env ''RUN_MULTI_MODEL'') (\<lambda>v. Inr (v = ''True''))"

section \<open>The execution plan\<close>

definition set_execution_plan_size :: "nat \<Rightarrow> ('o, 'r, 'sp) shared_context \<Rightarrow> ('o, 'r, 'sp) shared_context" where
  "set_execution_plan_size tot_gpu_num s = s\<lparr>execution_plan_size := tot_gpu_num + execution_plan_non_gpu_para_num\<rparr>"

definition plan_offset :: "('o, 'r, 'sp) shared_context \<Rightarrow> nat" where
  "plan_offset s = shared_id s * execution_plan_size s"

definition get_tp_size :: "('o, 'r, 'sp) shared_context \<Rightarrow> int result" where
  "get_tp_size s = py_index (shared_setting s) (int (plan_offset s))"

definition get_gpu_mem_utilization :: "('o, 'r, 'sp) shared_context \<Rightarrow> float64 result" where
  "get_gpu_mem_utilization s =
     ebind (py_index (shared_setting s) (int (plan_offset s + 1))) (\<lambda>v. f64_div (of_int v) 10)"

definition get_wldegree :: "('o, 'r, 'sp) shared_context \<Rightarrow> int result" where
  "get_wldegree s = py_index (shared_setting s) (int (plan_offset s + 2))"

definition get_dp_size :: "('o, 'r, 'sp) shared_context \<Rightarrow> int result" where
  "get_dp_size s = py_index (shared_setting s) (int (plan_offset s + 3))"

definition has_dp_parallel :: "('o, 'r, 'sp) shared_context \<Rightarrow> bool result" where
  "has_dp_parallel s =
     (if dp_id s > 0 then Inr True
      else ebind (py_index (shared_setting s) (int (plan_offset s + 3))) (\<lambda>v. Inr (v > 1)))"

definition get_gpus :: "('o, 'r, 'sp) shared_context \<Rightarrow> int list" where
  "get_gpus s =
     take (execution_plan_size s - execution_plan_non_gpu_para_num)
       (drop (plan_offset s + execution_plan_non_gpu_para_num) (shared_setting s))"

text \<open>The assignments \<^verbatim>\<open>for i, v in zip(iter_range, setting)\<close>; without ids the whole array is set.\<close>

definition plan_range :: "nat list \<Rightarrow> ('o, 'r, 'sp) shared_context \<Rightarrow> nat list" where
  "plan_range shared_ids s =
     (if shared_ids = [] then [0..<length (shared_setting s)]
      else concat (map (\<lambda>i. [execution_plan_size s * i..<execution_plan_size s * (i + 1)]) shared_ids))"

definition set_execution_plan :: "int list \<Rightarrow> nat list \<Rightarrow> ('o, 'r, 'sp) shared_context \<Rightarrow> ('o, 'r, 'sp) shared_context result" where
  "set_execution_plan setting shared_ids s =
     ebind (efold (\<lambda>(i, v). list_set i v) (zip (plan_range shared_ids s) setting) (shared_setting s)) (\<lambda>xs.
       Inr (s\<lparr>shared_setting := xs\<rparr>))"

text \<open>\<open>update_execution_plan\<close>: the plan of this model, and the environment variables it sets.\<close>

definition update_execution_plan ::
    "int \<Rightarrow> float64 \<Rightarrow> environ \<Rightarrow> ('o, 'r, 'sp) shared_context \<Rightarrow> (int \<times> float64 \<times> environ) result" where
  "update_execution_plan tp mem env s =
     ebind (run_multi_model env) (\<lambda>multi.
     if \<not> multi then Inr (tp, mem, env)
     else ebind (get_tp_size s) (\<lambda>tp.
          ebind (get_gpu_mem_utilization s) (\<lambda>mem.
          ebind (get_wldegree s) (\<lambda>wld.
            Inr (tp, mem, dict_set ''TOT_ORDERED_GPUS'' (join_str '','' (map int_str (get_gpus s)))
                            (dict_set ''WEIGHT_LOAD_DEGREE'' (int_str wld) env))))))"

text \<open>\<^verbatim>\<open>gpus[:n]\<close>; a negative \<open>n\<close> counts from the end.\<close>

definition get_gpus_used :: "environ \<Rightarrow> ('o, 'r, 'sp) shared_context \<Rightarrow> string list result" where
  "get_gpus_used env s =
     ebind (dict_get env ''TOT_ORDERED_GPUS'') (\<lambda>gpus.
     ebind (get_tp_size s) (\<lambda>n.
       let gpus = split_commas gpus
       in Inr (take (if 0 \<le> n then nat n else nat (int (length gpus) + n)) gpus)))"

definition get_sampling_args :: "int \<Rightarrow> int \<Rightarrow> ('o, 'r, 'sp) shared_context \<Rightarrow> 'sp result" where
  "get_sampling_args base_model_id req_id s =
     ebind (dict_get (sampling_args_dict s) base_model_id) (\<lambda>d.
       if length d = 1 then py_index (dict_values d) 0 else dict_get d req_id)"

section \<open>Finishing, starting and stopping models\<close>

definition sc_is_finished :: "('o, 'r, 'sp) shared_context \<Rightarrow> bool result" where
  "sc_is_finished s = py_index (shared_finish_status s) (int (shared_id s))"

definition set_finished :: "int \<Rightarrow> ('o, 'r, 'sp) shared_context \<Rightarrow> ('o, 'r, 'sp) shared_context result" where
  "set_finished gened_output_num s =
     (let s = s\<lparr>tot_req_num_remained := tot_req_num_remained s - gened_output_num\<rparr>
      in if tot_req_num_remained s = 0 then
           ebind (list_set (shared_id s) True (shared_finish_status s)) (\<lambda>fs. Inr (s\<lparr>shared_finish_status := fs\<rparr>))
         else Inr s)"

text \<open>\<open>set_finish_preparation_before_init_LLM\<close> and \<open>set_finish_preparation_for_reschedule\<close>.\<close>

definition set_event :: "('o, 'r, 'sp) shared_context \<Rightarrow> ('o, 'r, 'sp) shared_context result" where
  "set_event s = ebind (list_set (shared_id s + 2) True (events s)) (\<lambda>es. Inr (s\<lparr>events := es\<rparr>))"

definition set_finish_preparation :: "environ \<Rightarrow> ('o, 'r, 'sp) shared_context \<Rightarrow> ('o, 'r, 'sp) shared_context result" where
  "set_finish_preparation env s = ebind (run_multi_model env) (\<lambda>multi. if multi then set_event s else Inr s)"

text \<open>
  \<open>prepare_for_reschedule\<close>: outputs and remaining requests are kept for the next start, the layer
  weight numbers are reset. What it asks of the engine and of Ray is returned in order.
\<close>

datatype cleanup = Delete_Workers bool | Remove_Placement_Group string

definition prepare_for_reschedule ::
    "environ \<Rightarrow> int \<Rightarrow> 'o list \<Rightarrow> 'r list \<Rightarrow> bool \<Rightarrow> ('o, 'r, 'sp) shared_context
     \<Rightarrow> (cleanup list \<times> kv_per_layer_weight \<times> ('o, 'r, 'sp) shared_context) result" where
  "prepare_for_reschedule env world_size outputs remaining mark_finish s =
     (let s = s\<lparr>gened_outputs := gened_outputs s @ outputs, remaining_requests := remaining\<rparr> in
      ebind (dict_get env ''SOFT_RESCHEDULE'') (\<lambda>soft.
      let exit_actor = (soft = ''False'') in
      ebind (if exit_actor \<and> world_size > 1 then
               ebind (dict_get env ''DP_WORKER_I'') (\<lambda>i.
               ebind (dict_get env ''USE_VLLM'') (\<lambda>v.
                 Inr [Remove_Placement_Group (if v = ''True'' then ''vllm_pg'' else ''my_pg'' @ i)]))
             else Inr []) (\<lambda>effects.
      ebind (if mark_finish then set_event s else Inr s) (\<lambda>s.
        Inr (Delete_Workers exit_actor # effects, kv_reset, s)))))"

text \<open>\<open>wait_all_models_to_finish_prepare_for_reschedule\<close> and its twin before the models are built: when they return.\<close>

definition wait_all_returns :: "environ \<Rightarrow> nat list \<Rightarrow> ('o, 'r, 'sp) shared_context \<Rightarrow> bool result" where
  "wait_all_returns env shared_ids s =
     ebind (run_multi_model env) (\<lambda>multi. ebind (py_assert multi) (\<lambda>_.
       efold (\<lambda>i ok. ebind (py_index (events s) (int (2 + i))) (\<lambda>e. Inr (ok \<and> e))) shared_ids True))"

definition start_specific_models :: "environ \<Rightarrow> nat list \<Rightarrow> ('o, 'r, 'sp) shared_context \<Rightarrow> ('o, 'r, 'sp) shared_context result" where
  "start_specific_models env shared_ids s =
     ebind (run_multi_model env) (\<lambda>multi. ebind (py_assert multi) (\<lambda>_.
       efold (\<lambda>i s. ebind (list_set i True (started_status s)) (\<lambda>st.
                   ebind (list_set (2 + i) False (events s)) (\<lambda>es.
                     Inr (s\<lparr>started_status := st, events := es\<rparr>)))) shared_ids s))"

definition stop_specific_models :: "nat list \<Rightarrow> ('o, 'r, 'sp) shared_context \<Rightarrow> ('o, 'r, 'sp) shared_context result" where
  "stop_specific_models shared_ids s =
     efold (\<lambda>i s. ebind (list_set i False (started_status s)) (\<lambda>st. Inr (s\<lparr>started_status := st\<rparr>))) shared_ids s"

definition is_started :: "('o, 'r, 'sp) shared_context \<Rightarrow> bool result" where
  "is_started s = py_index (started_status s) (int (shared_id s))"

text \<open>When \<open>wait_to_be_started\<close> returns.\<close>

definition wait_to_be_started_returns :: "environ \<Rightarrow> ('o, 'r, 'sp) shared_context \<Rightarrow> bool result" where
  "wait_to_be_started_returns env s = ebind (run_multi_model env) (\<lambda>multi. if multi then is_started s else Inr True)"

definition query_finish_status :: "environ \<Rightarrow> nat \<Rightarrow> ('o, 'r, 'sp) shared_context \<Rightarrow> bool result" where
  "query_finish_status env i s =
     ebind (run_multi_model env) (\<lambda>multi. ebind (py_assert multi) (\<lambda>_. py_index (shared_finish_status s) (int i)))"

definition should_reschedule :: "environ \<Rightarrow> ('o, 'r, 'sp) shared_context \<Rightarrow> bool result" where
  "should_reschedule env s =
     ebind (run_multi_model env) (\<lambda>multi. if \<not> multi then Inr False else ebind (is_started s) (\<lambda>b. Inr (\<not> b)))"

text \<open>When \<open>wait_for_stage1_to_start\<close> returns.\<close>

definition wait_for_stage1_returns :: "('o, 'r, 'sp) shared_context \<Rightarrow> bool result" where
  "wait_for_stage1_returns s =
     (case wait_stage_synchs s of
        None \<Rightarrow> Inr True
      | Some ws \<Rightarrow> ebind (py_index ws (int (shared_id s))) (\<lambda>w. Inr (if w then stage1_started s else True)))"

text \<open>The loop of \<open>start_stage1_if_possible\<close>: it returns at the first model of stage 0 that is not finished.\<close>

fun stage1_loop :: "environ \<Rightarrow> bool list \<Rightarrow> nat list \<Rightarrow> ('o, 'r, 'sp) shared_context \<Rightarrow> ('o, 'r, 'sp) shared_context result" where
  "stage1_loop env ws [] s = Inr (s\<lparr>stage1_started := True\<rparr>)"
| "stage1_loop env ws (i # is') s =
     ebind (py_index ws (int i)) (\<lambda>w.
     if w then stage1_loop env ws is' s
     else ebind (query_finish_status env i s) (\<lambda>fin. if \<not> fin then Inr s else stage1_loop env ws is' s))"

definition start_stage1_if_possible :: "environ \<Rightarrow> ('o, 'r, 'sp) shared_context \<Rightarrow> ('o, 'r, 'sp) shared_context result" where
  "start_stage1_if_possible env s =
     (case wait_stage_synchs s of None \<Rightarrow> Inr s | Some ws \<Rightarrow> stage1_loop env ws [0..<length ws] s)"

definition init_shared_vars :: "int list \<Rightarrow> ('o, 'r, 'sp) shared_context \<Rightarrow> ('o, 'r, 'sp) shared_context" where
  "init_shared_vars model_setting s = s\<lparr>shared_setting := model_setting\<rparr>"

definition sc_increment :: "('o, 'r, 'sp) shared_context \<Rightarrow> ('o, 'r, 'sp) shared_context result" where
  "sc_increment s =
     ebind (py_index (shared_setting s) (int (shared_id s))) (\<lambda>v.
     ebind (list_set (shared_id s) (v + 1) (shared_setting s)) (\<lambda>xs. Inr (s\<lparr>shared_setting := xs\<rparr>)))"

section \<open>The plan that is set is the plan that is read\<close>

lemma plan_range_single: "plan_range [i] s = [execution_plan_size s * i..<execution_plan_size s * (i + 1)]"
  by (simp add: plan_range_def)

lemma set_range_ok:
  assumes "k + length vs \<le> length xs"
  shows "efold (\<lambda>(i, v). list_set i v) (zip [k..<k + length vs] vs) xs =
    Inr (take k xs @ vs @ drop (k + length vs) xs)"
  using assms
proof (induction vs arbitrary: k xs)
  case Nil
  then show ?case by simp
next
  case (Cons v vs)
  have r: "[k..<k + length (v # vs)] = k # [Suc k..<Suc k + length vs]" by (subst upt_rec) simp
  have "list_set k v xs = Inr (xs[k := v])" using Cons.prems by (simp add: list_set_def)
  moreover have "efold (\<lambda>(i, v). list_set i v) (zip [Suc k..<Suc k + length vs] vs) (xs[k := v]) =
      Inr (take (Suc k) (xs[k := v]) @ vs @ drop (Suc k + length vs) (xs[k := v]))"
    by (rule Cons.IH) (use Cons.prems in simp)
  ultimately show ?case using Cons.prems unfolding r
    by (simp add: take_Suc_conv_app_nth)
qed

lemma set_execution_plan_one:
  assumes "length setting = execution_plan_size s" and "execution_plan_size s * (i + 1) \<le> length (shared_setting s)"
  shows "set_execution_plan setting [i] s = Inr (s\<lparr>shared_setting :=
    take (i * execution_plan_size s) (shared_setting s) @ setting @ drop ((i + 1) * execution_plan_size s) (shared_setting s)\<rparr>)"
proof -
  let ?k = "i * execution_plan_size s"
  have "efold (\<lambda>(i, v). list_set i v) (zip [?k..<?k + length setting] setting) (shared_setting s) =
      Inr (take ?k (shared_setting s) @ setting @ drop (?k + length setting) (shared_setting s))"
    by (rule set_range_ok) (use assms in \<open>simp add: algebra_simps\<close>)
  moreover have "plan_range [i] s = [?k..<?k + length setting]"
    using assms(1) by (simp add: plan_range_single algebra_simps)
  ultimately show ?thesis using assms(1) by (simp add: set_execution_plan_def algebra_simps)
qed


definition ex_shared :: "(nat, nat, nat) shared_context" where
  "ex_shared = \<lparr>shared_setting = [1, 9, 0, 1, 0, 1, 1, 9, 0, 1, 0, 1], shared_id = 0, dp_id = 0, events = [False, False, True, True],
     started_status = [False, False], gened_outputs = [], remaining_requests = [],
     shared_finish_status = [True, False], execution_plan_size = 6, tot_req_num_remained = 5,
     sampling_args_dict = [], wait_stage_synchs = Some [False, True], stage1_started = False\<rparr>"


text \<open>The GPUs a model reports as used are the first of its plan, one per tensor-parallel worker: the list
  that \<open>update_execution_plan\<close> leaves in the environment is read back unchanged.\<close>

theorem gpus_used_are_planned:
  assumes "update_execution_plan tp0 mem0 env s = Inr (tp, mem, env')" and "run_multi_model env = Inr True"
    and "get_gpus s \<noteq> []" and "0 \<le> tp"
  shows "get_gpus_used env' s = Inr (take (nat tp) (map int_str (get_gpus s)))"
proof -
  obtain wld where tp: "get_tp_size s = Inr tp"
    and env': "env' = dict_set ''TOT_ORDERED_GPUS'' (join_str '','' (map int_str (get_gpus s))) (dict_set ''WEIGHT_LOAD_DEGREE'' (int_str wld) env)"
    using assms(1,2) by (auto simp: update_execution_plan_def)
  have "split_commas (join_str '','' (map int_str (get_gpus s))) = map int_str (get_gpus s)"
    by (rule split_join_commas) (use assms(3) int_str_no_comma in auto)
  then show ?thesis using tp assms(4) by (simp add: get_gpus_used_def env' update_conv' dict_get_def)
qed

theorem gpus_used_are_planned_witness:
  "\<exists>env'. get_gpus_used env' (ex_shared\<lparr>shared_id := 1\<rparr>) = Inr [int_str 0]"
proof -
  let ?s = "ex_shared\<lparr>shared_id := 1\<rparr>" and ?env = "[(''RUN_MULTI_MODEL'', ''True'')]"
  have multi: "run_multi_model ?env = Inr True" by (simp add: run_multi_model_def dict_get_def)
  have gpus: "get_gpus ?s = [0, 1]"
    by (simp add: ex_shared_def get_gpus_def plan_offset_def execution_plan_non_gpu_para_num_def)
  have tp: "get_tp_size ?s = Inr 1" "\<exists>mem. get_gpu_mem_utilization ?s = Inr mem" "\<exists>wld. get_wldegree ?s = Inr wld"
    by (simp_all add: ex_shared_def get_tp_size_def get_gpu_mem_utilization_def get_wldegree_def plan_offset_def py_index_def
        f64_div_def)
  then obtain mem env' where "update_execution_plan 0 0 ?env ?s = Inr (1, mem, env')"
    using multi by (auto simp: update_execution_plan_def)
  from gpus_used_are_planned [OF this multi] gpus show ?thesis by auto
qed

section \<open>Starting and stopping\<close>

lemma start_specific_models_fields:
  assumes "start_specific_models env ids s = Inr s'" and "i \<in> set ids"
  shows "py_index (started_status s') (int i) = Inr True \<and> py_index (events s') (int (2 + i)) = Inr False \<and> shared_id s' = shared_id s"
proof -
  define f where "f = (\<lambda>i (s :: ('a, 'b, 'c) shared_context). ebind (list_set i True (started_status s)) (\<lambda>st.
      ebind (list_set (2 + i) False (events s)) (\<lambda>es. Inr (s\<lparr>started_status := st, events := es\<rparr>))))"
  define P where "P = (\<lambda>t :: ('a, 'b, 'c) shared_context. i < length (started_status t) \<and> started_status t ! i \<and>
    2 + i < length (events t) \<and> \<not> events t ! (2 + i))"
  have run: "efold f ids s = Inr s'" using assms(1) by (auto simp: start_specific_models_def f_def split: if_splits)
  have sid: "shared_id s' = shared_id s"
    by (rule efold_invariant [OF run, where P = "\<lambda>t. shared_id t = shared_id s"])
      (auto simp: f_def list_set_def split: if_splits)
  have keep: "f j t = Inr u \<Longrightarrow> P t \<Longrightarrow> P u" for j t u
    by (auto simp: f_def P_def list_set_def nth_list_update split: if_splits)
  have set: "f i t = Inr u \<Longrightarrow> P u" for t u
    by (auto simp: f_def P_def list_set_def split: if_splits)
  have "P s'" by (rule efold_establish [OF run assms(2), where P = P, OF set keep])
  then show ?thesis using sid by (simp only: P_def py_index_of_nat) simp
qed

lemma stop_specific_models_fields:
  assumes "stop_specific_models ids s = Inr s'" and "i \<in> set ids"
  shows "py_index (started_status s') (int i) = Inr False"
proof -
  define f where "f = (\<lambda>i (s :: ('a, 'b, 'c) shared_context). ebind (list_set i False (started_status s)) (\<lambda>st.
      Inr (s\<lparr>started_status := st\<rparr>)))"
  define P where "P = (\<lambda>t :: ('a, 'b, 'c) shared_context. i < length (started_status t) \<and> \<not> started_status t ! i)"
  have run: "efold f ids s = Inr s'" using assms(1) by (simp add: stop_specific_models_def f_def)
  have keep: "f j t = Inr u \<Longrightarrow> P t \<Longrightarrow> P u" for j t u
    by (auto simp: f_def P_def list_set_def nth_list_update split: if_splits)
  have set: "f i t = Inr u \<Longrightarrow> P u" for t u
    by (auto simp: f_def P_def list_set_def split: if_splits)
  have "P s'" by (rule efold_establish [OF run assms(2), where P = P, OF set keep])
  then show ?thesis by (simp add: P_def py_index_of_nat)
qed

text \<open>A model that the scheduler starts is not told to reschedule, and the scheduler's next wait for it
  does not return before the model has announced itself again; once it is stopped it is told to reschedule.\<close>

theorem start_stop_handshake:
  assumes "run_multi_model env = Inr True" and "start_specific_models env ids s = Inr s1" and "i \<in> set ids"
    and "stop_specific_models stopped s1 = Inr s2" and "i \<in> set stopped"
  shows "should_reschedule env (s1\<lparr>shared_id := i\<rparr>) = Inr False \<and> wait_all_returns env [i] s1 = Inr False \<and>
    should_reschedule env (s2\<lparr>shared_id := i\<rparr>) = Inr True"
  using start_specific_models_fields [OF assms(2,3)] stop_specific_models_fields [OF assms(4,5)] assms(1)
  by (simp add: should_reschedule_def is_started_def wait_all_returns_def)

theorem start_stop_handshake_witness:
  "\<exists>s1 s2. start_specific_models [(''RUN_MULTI_MODEL'', ''True'')] [0, 1] ex_shared = Inr s1 \<and>
     stop_specific_models [1] s1 = Inr s2 \<and> should_reschedule [(''RUN_MULTI_MODEL'', ''True'')] (s2\<lparr>shared_id := 1\<rparr>) = Inr True"
proof -
  let ?env = "[(''RUN_MULTI_MODEL'', ''True'')]"
  have env: "run_multi_model ?env = Inr True" by (simp add: run_multi_model_def dict_get_def)
  then obtain s1 where s1: "start_specific_models ?env [0, 1] ex_shared = Inr s1" "started_status s1 = [True, True]"
    by (simp add: start_specific_models_def list_set_def ex_shared_def)
  then obtain s2 where s2: "stop_specific_models [1] s1 = Inr s2"
    by (simp add: stop_specific_models_def list_set_def)
  from start_stop_handshake [OF env s1(1) _ s2, of 1] show ?thesis using s1(1) s2 by auto
qed

text \<open>A model is marked finished exactly when the last of its requests has been counted.\<close>

lemma set_finished_at_zero:
  assumes "shared_id s < length (shared_finish_status s)" and "\<not> shared_finish_status s ! shared_id s"
    and "\<forall>n \<in> set ns. 0 < n" and "sum_list ns = tot_req_num_remained s"
  shows "\<forall>k \<le> length ns. \<exists>s'. efold set_finished (take k ns) s = Inr s' \<and> (sc_is_finished s' = Inr (0 < k \<and> k = length ns))"
proof (intro allI impI)
  fix k assume k: "k \<le> length ns"
  have "\<exists>s'. efold set_finished (take k ns) s = Inr s' \<and> shared_id s' = shared_id s \<and>
      tot_req_num_remained s' = tot_req_num_remained s - sum_list (take k ns) \<and>
      length (shared_finish_status s') = length (shared_finish_status s) \<and>
      (shared_finish_status s' ! shared_id s \<longleftrightarrow> 0 < k \<and> k = length ns)"
    using k
  proof (induction k)
    case 0
    then show ?case using assms(2) by simp
  next
    case (Suc k)
    then obtain t where t: "efold set_finished (take k ns) s = Inr t" "shared_id t = shared_id s"
      "tot_req_num_remained t = tot_req_num_remained s - sum_list (take k ns)"
      "length (shared_finish_status t) = length (shared_finish_status s)" "\<not> shared_finish_status t ! shared_id s"
      by auto
    have tk: "take (Suc k) ns = take k ns @ [ns ! k]" using Suc.prems by (simp add: take_Suc_conv_app_nth)
    have rest: "sum_list ns = sum_list (take (Suc k) ns) + sum_list (drop (Suc k) ns)"
      by (metis append_take_drop_id sum_list_append)
    have "0 < sum_list (drop (Suc k) ns) \<or> Suc k = length ns"
    proof (cases "drop (Suc k) ns")
      case (Cons x xs)
      then have "0 < x" "\<forall>y \<in> set xs. 0 < y" using assms(3) by (metis in_set_dropD list.set_intros)+
      then have "0 \<le> sum_list xs" by (intro sum_list_nonneg) auto
      with \<open>0 < x\<close> Cons show ?thesis by simp
    qed (use Suc.prems in simp)
    moreover have "Suc k = length ns \<Longrightarrow> sum_list (drop (Suc k) ns) = 0" by simp
    moreover have "tot_req_num_remained t - ns ! k = sum_list (drop (Suc k) ns)"
      using t(3) rest assms(4) unfolding tk by simp
    ultimately have zero: "tot_req_num_remained t - ns ! k = 0 \<longleftrightarrow> Suc k = length ns" by linarith
    define u where "u = t\<lparr>tot_req_num_remained := tot_req_num_remained t - ns ! k\<rparr>"
    define v where "v = (if Suc k = length ns then u\<lparr>shared_finish_status := (shared_finish_status t)[shared_id s := True]\<rparr> else u)"
    have "set_finished (ns ! k) t = Inr v"
      using zero t(2,4) assms(1) by (simp add: set_finished_def list_set_def v_def u_def)
    then have "efold set_finished (take (Suc k) ns) s = Inr v" using t(1) by (simp add: tk efold_append)
    moreover have "tot_req_num_remained v = tot_req_num_remained s - sum_list (take (Suc k) ns)"
      using t(3) by (simp add: v_def u_def tk)
    moreover have "shared_id v = shared_id s" "length (shared_finish_status v) = length (shared_finish_status s)"
      "shared_finish_status v ! shared_id s \<longleftrightarrow> Suc k = length ns"
      using t(2,4,5) assms(1) by (simp_all add: v_def u_def)
    ultimately show ?case by auto
  qed
  then show "\<exists>s'. efold set_finished (take k ns) s = Inr s' \<and> sc_is_finished s' = Inr (0 < k \<and> k = length ns)"
    using assms(1) by (auto simp: sc_is_finished_def py_index_of_nat)
qed

lemma set_finished_at_zero_witness:
  "\<exists>s'. efold set_finished [2, 3] (ex_shared\<lparr>shared_id := 1\<rparr>) = Inr s' \<and> sc_is_finished s' = Inr True"
  using set_finished_at_zero [of "ex_shared\<lparr>shared_id := 1\<rparr>" "[2, 3]"] by (force simp: ex_shared_def)

lemma stage1_loop_ok:
  assumes "run_multi_model env = Inr True" and "\<forall>i \<in> set is'. i < length ws \<and> i < length (shared_finish_status s)"
  shows "stage1_loop env ws is' s = Inr (s\<lparr>stage1_started := stage1_started s \<or> (\<forall>i \<in> set is'. ws ! i \<or> shared_finish_status s ! i)\<rparr>)"
  using assms by (induction is') (auto simp: query_finish_status_def py_index_of_nat)

text \<open>\<open>start_stage1_if_possible\<close> releases stage 1 exactly when every model of stage 0 is finished, and
  leaves everything else alone.\<close>

lemma stage1_starts_when_stage0_done:
  assumes "run_multi_model env = Inr True" and "wait_stage_synchs s = Some ws" and "length ws \<le> length (shared_finish_status s)"
  shows "start_stage1_if_possible env s =
    Inr (s\<lparr>stage1_started := stage1_started s \<or> (\<forall>i < length ws. \<not> ws ! i \<longrightarrow> shared_finish_status s ! i)\<rparr>)"
proof -
  have "stage1_loop env ws [0..<length ws] s =
      Inr (s\<lparr>stage1_started := stage1_started s \<or> (\<forall>i \<in> set [0..<length ws]. ws ! i \<or> shared_finish_status s ! i)\<rparr>)"
    by (rule stage1_loop_ok [OF assms(1)]) (use assms(3) in auto)
  moreover have "(\<forall>i \<in> set [0..<length ws]. ws ! i \<or> shared_finish_status s ! i) \<longleftrightarrow>
      (\<forall>i < length ws. \<not> ws ! i \<longrightarrow> shared_finish_status s ! i)" by auto
  ultimately show ?thesis by (simp add: start_stage1_if_possible_def assms(2))
qed

lemma stage1_starts_when_stage0_done_witness:
  "start_stage1_if_possible [(''RUN_MULTI_MODEL'', ''True'')] ex_shared = Inr (ex_shared\<lparr>stage1_started := True\<rparr>)"
proof -
  have "run_multi_model [(''RUN_MULTI_MODEL'', ''True'')] = Inr True" by (simp add: run_multi_model_def dict_get_def)
  from stage1_starts_when_stage0_done [OF this, of ex_shared "[False, True]"] show ?thesis
    by (simp add: ex_shared_def nth_Cons split: nat.splits)
qed

end
