(* ===== verification/Serve.thy ===== *)
theory Serve
  imports Engine Communicator Shared_Context
begin

text \<open>
  \<^verbatim>\<open>vllm/entrypoints/llm.py\<close>: an \<open>LLM\<close> object owns an engine; in a multi-model system its loop also takes
  inputs from the communicator, hands its outputs back and stops when the execution plan changes. The
  other processes act on the communicator and on the shared arrays at any time: \<open>se_world\<close> is what they
  do before this process looks at them for the \<open>t\<close>-th time. Left out: the printing, the profiling, the
  times in which nothing is computed, and the CUDA clean-up.
\<close>

type_synonym ctx = "(request_output, sequence_group, sampling_params) shared_context"

record serve_env =
  se_engine :: engine_env
  se_execute :: "sequence_group_metadata list \<Rightarrow> scheduler_outputs \<Rightarrow> sequence_group_output list"
  se_now :: "nat \<Rightarrow> float64"
  se_arrival :: "nat \<Rightarrow> float64"
  se_chat :: "int \<Rightarrow> (content \<Rightarrow> string) option"
  se_world :: "nat \<Rightarrow> communicator \<times> ctx \<Rightarrow> communicator \<times> ctx"
  se_environ :: environ
  se_return_str :: bool
  se_check_in_gap :: int
  se_check_out_gaps :: "int list"
  se_world_size :: int

text \<open>The object, with its request counter; the loop keeps its own variables beside it.\<close>

record llm =
  lm_engine :: llm_engine
  lm_counter :: counter

record serve_state = llm +
  sv_comm :: communicator
  sv_ctx :: ctx
  sv_outputs :: "request_output list"
  sv_step :: nat
  sv_sent :: nat
  sv_possible :: bool
  sv_tick :: nat
  sv_fetched :: "request list"

text \<open>
  \<open>sv_fetched\<close> are the requests that the loop has reported with its message \<^verbatim>\<open>GET SEQS\<close>, in order.
  Looking at the shared state: first the others act.
\<close>

definition look :: "serve_env \<Rightarrow> serve_state \<Rightarrow> serve_state" where
  "look env st =
     (let (c, x) = se_world env (sv_tick st) (sv_comm st, sv_ctx st)
      in st\<lparr>sv_comm := c, sv_ctx := x, sv_tick := sv_tick st + 1\<rparr>)"

section \<open>Adding requests\<close>

definition llm_add_request ::
    "engine_env \<Rightarrow> float64 \<Rightarrow> string option \<Rightarrow> sampling_params \<Rightarrow> int list option \<Rightarrow> lora_request option \<Rightarrow> int option
     \<Rightarrow> int option \<Rightarrow> 'a llm_scheme \<Rightarrow> 'a llm_scheme result" where
  "llm_add_request env now prompt sp token_ids lora prefix_pos req_id m =
     (let (rid, c) = (case req_id of
                        None \<Rightarrow> (let (n, c) = counter_next (lm_counter m) in (StrId (int_str n), c))
                      | Some i \<Rightarrow> (IntId i, lm_counter m))
      in ebind (add_request env now rid prompt sp token_ids None lora prefix_pos (lm_engine m)) (\<lambda>e.
           Inr (m\<lparr>lm_engine := e, lm_counter := c\<rparr>)))"

text \<open>\<^verbatim>\<open>len\<close> of a content.\<close>

definition content_len :: "content \<Rightarrow> nat result" where
  "content_len c = (case c of PyNone \<Rightarrow> Inl TypeError | Text s \<Rightarrow> Inr (length s) | Tokens ts \<Rightarrow> Inr (length ts))"

text \<open>\<^verbatim>\<open>sorted(..., key=lambda: len(..), reverse=True)\<close>: the lengths are read first, equal lengths keep their order.\<close>

definition longest_first :: "('a \<Rightarrow> content) \<Rightarrow> 'a list \<Rightarrow> 'a list result" where
  "longest_first content xs =
     ebind (efold (\<lambda>x acc. ebind (content_len (content x)) (\<lambda>n. Inr (acc @ [(n, x)]))) xs []) (\<lambda>ks.
       Inr (map snd (sort_key (\<lambda>(n, _). - int n) ks)))"

definition sort_inputs :: "request list \<Rightarrow> int list \<Rightarrow> (request list \<times> int list) result" where
  "sort_inputs new_inps ids =
     (if length ids = length new_inps then
        ebind (longest_first (\<lambda>i. snd (new_inps ! i)) [0..<length new_inps]) (\<lambda>order.
          Inr (map (\<lambda>i. new_inps ! i) order, map (\<lambda>i. ids ! i) order))
      else
        ebind (longest_first snd new_inps) (\<lambda>new_inps.
        ebind (py_assert (length ids = 1)) (\<lambda>_. Inr (new_inps, replicate (length new_inps) (hd ids)))))"

text \<open>
  One input. The kind of the first input decides how all are passed on; an input of the other kind is
  outside the model.
\<close>

definition add_input :: "serve_env \<Rightarrow> bool \<Rightarrow> request \<times> int \<Rightarrow> serve_state \<Rightarrow> serve_state result" where
  "add_input env as_text = (\<lambda>((req_id, c), base_model_id) st.
     ebind (get_sampling_args base_model_id req_id (sv_ctx st)) (\<lambda>sp.
     ebind (case c of
              Text s \<Rightarrow> if as_text then Inr (Some s, None) else Inl NotImplementedError
            | Tokens ts \<Rightarrow> if as_text then Inl NotImplementedError else Inr (None, Some ts)
            | PyNone \<Rightarrow> if as_text then Inl NotImplementedError else Inr (None, None)) (\<lambda>(prompt, token_ids).
       llm_add_request (se_engine env) (se_arrival env (sv_tick st)) prompt sp token_ids None None (Some req_id) st)))"

definition is_text :: "content \<Rightarrow> bool" where
  "is_text c \<longleftrightarrow> (\<exists>s. c = Text s)"

lemma is_text_simps [simp, code]: "is_text (Text s) = True" "is_text (Tokens ts) = False" "is_text PyNone = False"
  by (simp_all add: is_text_def)

definition add_new_available_reqs :: "serve_env \<Rightarrow> request list \<Rightarrow> bool \<Rightarrow> int list \<Rightarrow> serve_state \<Rightarrow> serve_state result" where
  "add_new_available_reqs env new_inps sort_inps ids st =
     (if new_inps = [] then Inr st
      else ebind (if sort_inps then sort_inputs new_inps ids else Inr (new_inps, ids)) (\<lambda>(new_inps, ids).
        efold (add_input env (is_text (snd (hd new_inps)))) (zip new_inps ids) st))"

section \<open>Handing the outputs back\<close>

definition output_entry :: "bool \<Rightarrow> request_output \<Rightarrow> (int \<times> content \<times> int) result" where
  "output_entry return_str ro =
     ebind (py_index (ro_outputs ro) 0) (\<lambda>c.
       case ro_request_id ro of
         IntId i \<Rightarrow> Inr (i, if return_str then Text (co_text c) else Tokens (co_token_ids c), int (length (co_token_ids c)))
       | StrId _ \<Rightarrow> Inl NotImplementedError)"

definition get_outputs_to_system_communicator ::
    "request_output list \<Rightarrow> nat \<Rightarrow> bool \<Rightarrow> (nat \<times> (int \<times> content \<times> int) list) result" where
  "get_outputs_to_system_communicator outputs output_num_sent_out return_str =
     ebind (efold (\<lambda>ro acc. ebind (output_entry return_str ro) (\<lambda>e. Inr (acc @ [e]))) (drop output_num_sent_out outputs) [])
       (\<lambda>new_outputs. Inr (length outputs, new_outputs))"

definition send_outputs :: "serve_env \<Rightarrow> serve_state \<Rightarrow> serve_state result" where
  "send_outputs env st =
     ebind (get_outputs_to_system_communicator (sv_outputs st) (sv_sent st) (se_return_str env)) (\<lambda>(n, new_outputs).
     let st = look env st in
     ebind (add_seqs (int (shared_id (sv_ctx st))) new_outputs (sv_comm st)) (\<lambda>c. Inr (st\<lparr>sv_comm := c, sv_sent := n\<rparr>)))"

section \<open>The sequences of a restarted model\<close>

text \<open>Requests that another worker has started come with its sequence ids: they get new ones.\<close>

definition renumber_seqs :: "sequence_group \<Rightarrow> counter \<Rightarrow> sequence_group \<times> counter" where
  "renumber_seqs g c =
     (let (d, c) = fold (\<lambda>q (d, c). let (k, c) = counter_next c in (dict_set k (q\<lparr>seq_id := k\<rparr>) d, c)) (dict_values (seqs_dict g)) ([], c)
      in (g\<lparr>seqs_dict := d\<rparr>, c))"

definition correct_seq_ids :: "llm_engine \<Rightarrow> llm_engine" where
  "correct_seq_ids e =
     (let (gs, c) = fold (\<lambda>g (gs, c). let (g, c) = renumber_seqs g c in (gs @ [g], c)) (waiting (le_scheduler e)) ([], le_seq_counter e)
      in e\<lparr>le_seq_counter := c, le_scheduler := (le_scheduler e)\<lparr>waiting := gs\<rparr>\<rparr>)"

section \<open>The loop of \<open>_run_engine\<close>\<close>

definition no_preempt_off :: "environ \<Rightarrow> bool result" where
  "no_preempt_off environ = ebind (dict_get environ ''NO_PREEMPT'') (\<lambda>v. Inr (v = ''False''))"

text \<open>\<^verbatim>\<open>should_reschedule() and (os.environ['NO_PREEMPT'] == 'False')\<close>, after a look at the shared state.\<close>

definition told_to_stop :: "serve_env \<Rightarrow> serve_state \<Rightarrow> bool result" where
  "told_to_stop env st =
     ebind (should_reschedule (se_environ env) (sv_ctx st)) (\<lambda>b. if b then no_preempt_off (se_environ env) else Inr False)"

definition py_mod :: "nat \<Rightarrow> int \<Rightarrow> int result" where
  "py_mod n k = (if k = 0 then Inl ZeroDivisionError else Inr (int n mod k))"

text \<open>One pass of the inner loop: whether it goes on to another one (after ten seconds of sleep).\<close>

definition fetch_turn :: "serve_env \<Rightarrow> bool \<Rightarrow> serve_state \<Rightarrow> (bool \<times> serve_state) result" where
  "fetch_turn env has_unfinished st =
     (let st = look env st in
      ebind (told_to_stop env st) (\<lambda>halted.
      if halted then Inr (False, st)
      else
        ebind (if has_unfinished then ebind (py_mod (sv_step st) (se_check_in_gap env)) (\<lambda>r. Inr (r \<noteq> 0)) else Inr False) (\<lambda>skip.
        if skip then Inr (False, st)
        else
          let st = look env st; x = sv_ctx st in
          ebind (get_dp_size x) (\<lambda>dp_size.
          ebind (get_seqs_comm (se_chat env) (int (shared_id x)) (dp_id x) (nat dp_size) (sv_comm st)) (\<lambda>(new_inps, possible, ids, c).
          ebind (add_new_available_reqs env new_inps (map_of (se_environ env) ''MY_SORT_INPS'' = Some ''True'') ids
                   (st\<lparr>sv_comm := c, sv_possible := possible, sv_fetched := sv_fetched st @ new_inps\<rparr>)) (\<lambda>st.
            Inr (possible \<and> new_inps = [] \<and> \<not> has_unfinished, st)))))))"

partial_function (option) fetch_loop :: "serve_env \<Rightarrow> bool \<Rightarrow> serve_state \<Rightarrow> serve_state result option" where
  "fetch_loop env has_unfinished st =
     (case fetch_turn env has_unfinished st of
        Inl x \<Rightarrow> Some (Inl x)
      | Inr (again, st) \<Rightarrow> if again then fetch_loop env has_unfinished st else Some (Inr st))"

definition fetch_phase :: "serve_env \<Rightarrow> serve_state \<Rightarrow> serve_state result option" where
  "fetch_phase env st =
     (case run_multi_model (se_environ env) of
        Inl x \<Rightarrow> Some (Inl x)
      | Inr multi \<Rightarrow>
          let s = le_scheduler (lm_engine st) in
          if multi \<and> sv_possible st \<and> waiting s = [] \<and> swapped s = [] then
            fetch_loop env (has_unfinished_requests (lm_engine st)) st
          else Some (Inr st))"

text \<open>The rest of an iteration: whether the loop goes on.\<close>

definition serve_turn :: "serve_env \<Rightarrow> serve_state \<Rightarrow> (bool \<times> serve_state) result" where
  "serve_turn env st =
     ebind (dict_get (se_environ env) ''RUN_MULTI_MODEL'') (\<lambda>v.
     let multi = (v = ''True''); unfinished = has_unfinished_requests (lm_engine st) in
     if multi \<and> \<not> sv_possible st \<and> \<not> unfinished then Inr (False, st)
     else if v = ''False'' \<and> \<not> unfinished then Inr (False, st)
     else
       let st = look env (st\<lparr>sv_step := sv_step st + 1\<rparr>) in
       ebind (told_to_stop env st) (\<lambda>halted.
       if halted then Inr (False, st)
       else
         ebind (engine_step (se_engine env) (se_now env (sv_step st)) (se_execute env) (lm_engine st)) (\<lambda>(step_outputs, e).
         let st = st\<lparr>lm_engine := e, sv_outputs := sv_outputs st @ filter ro_finished step_outputs\<rparr> in
         ebind (if multi then
                  ebind (py_index (se_check_out_gaps env) (int (shared_id (sv_ctx st)))) (\<lambda>gap.
                  ebind (py_mod (sv_step st) gap) (\<lambda>r. Inr (r = 0 \<or> \<not> has_unfinished_requests e)))
                else Inr False) (\<lambda>send.
         ebind (if send then send_outputs env st else Inr st) (\<lambda>st. Inr (True, st))))))"

partial_function (option) serve_loop :: "serve_env \<Rightarrow> serve_state \<Rightarrow> serve_state result option" where
  "serve_loop env st =
     Option.bind (fetch_phase env st) (\<lambda>r. case r of
         Inl x \<Rightarrow> Some (Inl x)
       | Inr st \<Rightarrow> (case serve_turn env st of
             Inl x \<Rightarrow> Some (Inl x)
           | Inr (go_on, st) \<Rightarrow> if go_on then serve_loop env st else Some (Inr st)))"

section \<open>After the loop\<close>

text \<open>\<^verbatim>\<open>int(request_id)\<close>: blanks around the number, a sign, digits with single underscores between them.\<close>

definition is_blank :: "char \<Rightarrow> bool" where
  "is_blank c \<longleftrightarrow> of_char c \<in> set ([9..<14] @ [28..<33] @ [133, 160 :: nat])"

fun int_digits :: "bool \<Rightarrow> int \<Rightarrow> string \<Rightarrow> int option" where
  "int_digits d acc [] = (if d then Some acc else None)"
| "int_digits d acc (c # cs) =
     (if of_char c \<in> {48..<58 :: nat} then int_digits True (10 * acc + (of_char c - 48)) cs
      else if c = CHR ''_'' \<and> d then int_digits False acc cs
      else None)"

definition int_of_str :: "string \<Rightarrow> int result" where
  "int_of_str s =
     (let s = rev (dropWhile is_blank (rev (dropWhile is_blank s)));
          (neg, s) = (case s of c # cs \<Rightarrow> if c = CHR ''-'' then (True, cs) else if c = CHR ''+'' then (False, cs) else (False, s) | [] \<Rightarrow> (False, s))
      in case int_digits False 0 s of
           None \<Rightarrow> Inl (ValueError ''invalid literal for int()'')
         | Some i \<Rightarrow> Inr (if neg then - i else i))"

definition req_int :: "req_id \<Rightarrow> int result" where
  "req_int r = (case r of IntId i \<Rightarrow> Inr i | StrId s \<Rightarrow> int_of_str s)"

definition sort_outputs :: "request_output list \<Rightarrow> request_output list result" where
  "sort_outputs outputs =
     ebind (efold (\<lambda>ro acc. ebind (req_int (ro_request_id ro)) (\<lambda>i. Inr (acc @ [(i, ro)]))) outputs []) (\<lambda>ks.
       Inr (map snd (sort_key fst ks)))"

text \<open>The last outputs go out; the requests that remain are kept for the next start of the model.\<close>

definition leave_for_reschedule :: "serve_env \<Rightarrow> serve_state \<Rightarrow> serve_state result" where
  "leave_for_reschedule env st =
     ebind (send_outputs env st) (\<lambda>st.
     ebind (has_dp_parallel (sv_ctx st)) (\<lambda>dp.
     ebind (sch_get_unfinished_seqs (le_scheduler (lm_engine st))) (\<lambda>(remaining, s).
     ebind (if dp then Inr (sv_ctx st) else set_finished (int (length (sv_outputs st))) (sv_ctx st)) (\<lambda>x.
     ebind (prepare_for_reschedule (se_environ env) (se_world_size env) (sv_outputs st) remaining False x) (\<lambda>(_, kv, x).
       Inr (st\<lparr>lm_engine := (lm_engine st)\<lparr>le_scheduler := s, le_kv := kv\<rparr>, sv_ctx := x\<rparr>))))))"

definition run_engine :: "serve_env \<Rightarrow> serve_state \<Rightarrow> (request_output list \<times> serve_state) result option" where
  "run_engine env st =
     (case run_multi_model (se_environ env) of
        Inl x \<Rightarrow> Some (Inl x)
      | Inr multi \<Rightarrow>
          let e = (if multi then correct_seq_ids (lm_engine st) else lm_engine st) in
          map_option (\<lambda>r. ebind r (\<lambda>st.
              ebind (if multi then leave_for_reschedule env st else Inr st) (\<lambda>st.
              ebind (sc_is_finished (sv_ctx st)) (\<lambda>_.
              ebind (sort_outputs (sv_outputs st)) (\<lambda>outputs. Inr (outputs, st))))))
            (serve_loop env (st\<lparr>lm_engine := e, sv_outputs := [], sv_step := 0, sv_sent := 0, sv_possible := True, sv_fetched := []\<rparr>)))"

section \<open>\<open>generate\<close>\<close>

text \<open>\<^verbatim>\<open>prefix_pos[i]\<close>, where a single position is not a list.\<close>

definition prefix_pos_of :: "(int + int list) option \<Rightarrow> nat \<Rightarrow> int option result" where
  "prefix_pos_of prefix_pos i =
     (case prefix_pos of
        None \<Rightarrow> Inr None
      | Some (Inl _) \<Rightarrow> Inl TypeError
      | Some (Inr ps) \<Rightarrow> ebind (py_index ps (int i)) (\<lambda>p. Inr (Some p)))"

definition add_prompt ::
    "serve_env \<Rightarrow> string list option \<Rightarrow> sampling_params \<Rightarrow> int list list option \<Rightarrow> (int + int list) option \<Rightarrow> lora_request option
     \<Rightarrow> nat \<Rightarrow> serve_state \<Rightarrow> serve_state result" where
  "add_prompt env prompts sp token_ids prefix_pos lora i st =
     ebind (prefix_pos_of prefix_pos i) (\<lambda>pos.
       llm_add_request (se_engine env) (se_arrival env (sv_tick st + i)) (map_option (\<lambda>ps. ps ! i) prompts) sp
         (map_option (\<lambda>ts. ts ! i) token_ids) lora pos None st)"

definition generate ::
    "serve_env \<Rightarrow> (string + string list) option \<Rightarrow> sampling_params option \<Rightarrow> int list list option \<Rightarrow> (int + int list) option
     \<Rightarrow> lora_request option \<Rightarrow> serve_state \<Rightarrow> (request_output list \<times> serve_state) result option" where
  "generate env prompts sampling_args token_ids prefix_pos lora st =
     (if prompts = None \<and> token_ids = None then
        Some (Inl (ValueError ''Either prompts or prompt_token_ids must be provided.''))
      else
        let prompts = map_option (\<lambda>p. case p of Inl s \<Rightarrow> [s] | Inr ss \<Rightarrow> ss) prompts in
        if prompts \<noteq> None \<and> token_ids \<noteq> None \<and> length (the prompts) \<noteq> length (the token_ids) then
          Some (Inl (ValueError ''The lengths of prompts and prompt_token_ids must be the same.''))
        else
          let n = (case prompts of Some ps \<Rightarrow> length ps | None \<Rightarrow> length (the token_ids)) in
          case ebind (case sampling_args of Some sp \<Rightarrow> Inr sp | None \<Rightarrow> new_sampling_params default_sampling_args None None None) (\<lambda>sp.
                 efold (add_prompt env prompts sp token_ids prefix_pos lora) [0..<n] st) of
            Inl x \<Rightarrow> Some (Inl x)
          | Inr st \<Rightarrow> run_engine env st)"

end
