(* ===== verification/Sched_Groups.thy ===== *)
theory Sched_Groups
  imports Sched_Props
begin

text \<open>
  What \<open>_schedule\<close> does to the groups themselves: it changes nothing but the status of their sequences,
  so what does not depend on the status holds of every group in the queues and the outputs; the groups
  it ignores are finished; the groups it schedules are running.
\<close>

section \<open>Properties that do not depend on the status\<close>

locale status_free =
  fixes P :: "sequence_group \<Rightarrow> bool"
  assumes status_change: "P g \<Longrightarrow> P (set_seqs_status a b g)"
begin

lemma admit_waiting_all:
  assumes "admit_waiting cfg gs st = Inr (st', rest)"
    and "list_all P (gs @ ps_leftover st @ ps_scheduled st @ ps_ignored st)"
  shows "list_all P (rest @ ps_leftover st' @ ps_scheduled st' @ ps_ignored st')"
  using assms
proof (induction gs arbitrary: st)
  case Nil
  then show ?case by simp
next
  case (Cons g gs)
  from Cons.prems(1) show ?case
  proof (cases rule: admit_waiting_cases)
    case Ignore
    show ?thesis by (rule Cons.IH [OF Ignore(1)]) (use Cons.prems(2) status_change in auto)
  next
    case Stop
    with Cons.prems show ?thesis by simp
  next
    case Leave
    show ?thesis by (rule Cons.IH [OF Leave(1)]) (use Cons.prems(2) in auto)
  next
    case (Admit q bm)
    show ?thesis by (rule Cons.IH [OF Admit(9)]) (use Cons.prems(2) status_change in auto)
  qed
qed

lemma preempt_all:
  assumes "preempt mode g st = Inr st'" and "P g"
    and "list_all P (ds_waiting st @ ds_swapped st)"
  shows "list_all P (ds_waiting st' @ ds_swapped st') \<and> ds_running st' = ds_running st"
  using assms status_change
  by (auto simp: preempt_def preempt_by_recompute_def sch_swap_out_def Let_def
      split: preemption_mode.splits option.splits if_splits)

lemma decode_loop_all:
  assumes "decode_loop gs st = Inr st'" and "list_all P (gs @ ds_running st @ ds_waiting st @ ds_swapped st)"
  shows "list_all P (ds_running st' @ ds_waiting st' @ ds_swapped st')"
  using assms
proof (induction gs st rule: decode_loop.induct)
  case (1 st)
  then show ?case by simp
next
  case (2 g gs st)
  show ?case
  proof (cases "can_append_slot g (ds_bm st)")
    case True
    then obtain bm copies where ap: "sch_append_slot g (ds_bm st, blocks_to_copy (ds_io st)) = Inr (bm, copies)"
      and rest: "decode_loop gs (st\<lparr>ds_bm := bm, ds_io := (ds_io st)\<lparr>blocks_to_copy := copies\<rparr>, ds_running := ds_running st @ [g]\<rparr>) = Inr st'"
      using "2.prems"(1) by auto
    show ?thesis by (rule "2.IH"(1) [OF True ap refl rest]) (use "2.prems"(2) in auto)
  next
    case False
    show ?thesis
    proof (cases "gs = []")
      case True
      with False "2.prems"(1) have "preempt None g st = Inr st'" by simp
      then show ?thesis using preempt_all [of None g st st'] "2.prems"(2) by auto
    next
      case ne: False
      with False "2.prems"(1) obtain u where u: "preempt None (last gs) st = Inr u" "decode_loop (g # butlast gs) u = Inr st'"
        by auto
      have "P (last gs)" "list_all P (butlast gs)"
        using "2.prems"(2) ne by (auto simp: list_all_iff dest: in_set_butlastD)
      then show ?thesis
        using "2.IH"(2) [OF False ne u] preempt_all [OF u(1)] "2.prems"(2) by auto
    qed
  qed
qed

lemma swap_in_loop_all:
  assumes "swap_in_loop cfg gs st = Inr (st', rest)" and "list_all P (gs @ ss_leftover st @ ss_running st)"
  shows "list_all P (rest @ ss_leftover st' @ ss_running st')"
  using assms
proof (induction gs arbitrary: st)
  case Nil
  then show ?case by simp
next
  case (Cons g gs)
  show ?case
    using Cons.prems Cons.IH status_change by (auto simp: Let_def sch_swap_in_def split: if_splits)
qed

lemma new_scheduler_outputs_all:
  assumes "new_scheduler_outputs gs p n io ign = Inr out"
  shows "list_all P (scheduled_seq_groups out) = list_all P gs"
  using new_scheduler_outputs_fields(4) [OF assms] by (metis list_all_iff set_mset_mset)

lemma sorted_all [simp]: "list_all P (sort_by_priority now gs) = list_all P gs"
  using fcfs.sort_by_mset [of now gs] by (metis list_all_iff set_mset_mset)

lemma schedule_prompts_all:
  assumes "schedule_prompts s = Inr (out, s')" and "list_all P (waiting s @ running s @ swapped s)"
  shows "list_all P (waiting s' @ running s' @ swapped s') \<and>
    (\<forall>out'. out = Some out' \<longrightarrow> list_all P (scheduled_seq_groups out' @ ignored_seq_groups out'))"
  using assms(1)
proof (cases rule: schedule_prompts_cases)
  case (1 st gs)
  have "list_all P (gs @ ps_leftover st @ ps_scheduled st @ ps_ignored st)"
    by (rule admit_waiting_all [OF 1(1)]) (use assms(2) in \<open>simp add: prompt_start_def\<close>)
  then show ?thesis
    using 1(2) assms(2) new_scheduler_outputs_all [OF 1(4)] new_scheduler_outputs_fields(1) [OF 1(4)] by auto
qed

lemma schedule_decode_all:
  assumes "schedule_decode now s = Inr (out, s')" and "list_all P (waiting s @ running s @ swapped s)"
  shows "list_all P (waiting s' @ running s' @ swapped s' @ scheduled_seq_groups out @ ignored_seq_groups out)"
  using assms(1)
proof (cases rule: schedule_decode_cases)
  case (1 st ss gs)
  have dec: "list_all P (ds_running st @ ds_waiting st @ ds_swapped st)"
    by (rule decode_loop_all [OF 1(1)]) (use assms(2) in \<open>simp add: decode_start_def\<close>)
  have "list_all P (gs @ ss_leftover ss @ ss_running ss)"
  proof (cases "ds_preempted st = []")
    case True
    show ?thesis by (rule swap_in_loop_all [OF 1(2) [OF True]]) (use dec in \<open>simp add: swap_in_start_def\<close>)
  next
    case False
    with 1(3) dec show ?thesis by (simp add: swap_in_start_def)
  qed
  then show ?thesis
    using 1(5) dec new_scheduler_outputs_all [OF 1(4)] new_scheduler_outputs_fields(1) [OF 1(4)] by simp
qed

lemma schedule_iter_all:
  assumes "sch_schedule_iter now s = Inr (out, s')" and "list_all P (waiting s @ running s @ swapped s)"
  shows "list_all P (waiting s' @ running s' @ swapped s' @ scheduled_seq_groups out @ ignored_seq_groups out)"
proof -
  obtain out1 s1 where o1: "(if swapped s = [] then schedule_prompts s else Inr (None, s)) = Inr (out1, s1)"
    and o2: "(case out1 of Some out \<Rightarrow> Inr (out, s1) | None \<Rightarrow> schedule_decode now s1) = Inr (out, s')"
    using assms(1) by (auto simp: sch_schedule_iter_def)
  have s1: "list_all P (waiting s1 @ running s1 @ swapped s1) \<and>
      (\<forall>out'. out1 = Some out' \<longrightarrow> list_all P (scheduled_seq_groups out' @ ignored_seq_groups out'))"
    using o1 assms(2) schedule_prompts_all by (auto split: if_splits)
  show ?thesis using o2 s1 schedule_decode_all by (cases out1) auto
qed

end

section \<open>Groups of one sequence\<close>

definition one_seq :: "sequence_group \<Rightarrow> bool" where
  "one_seq g \<longleftrightarrow> length (seqs_dict g) = 1"

interpretation one_seq: status_free one_seq
  by unfold_locales (simp add: one_seq_def set_seqs_status_def)

lemma ignored_finished:
  assumes "one_seq g" and "length (get_seqs (Some WAITING) g) = 1"
  shows "sg_is_finished (set_seqs_status WAITING FINISHED_IGNORED g)"
proof -
  obtain k q where d: "seqs_dict g = [(k, q)]"
    using assms(1) by (auto simp: one_seq_def length_Suc_conv)
  with assms(2) have "status q = WAITING" by (simp add: get_seqs_Some split: if_splits)
  with d show ?thesis by (simp add: sg_is_finished_def set_seqs_status_def seq_is_finished_def)
qed

lemma admit_waiting_ignored:
  assumes "admit_waiting cfg gs st = Inr (st', rest)" and "list_all one_seq gs" and "list_all sg_is_finished (ps_ignored st)"
  shows "list_all sg_is_finished (ps_ignored st')"
  using assms
proof (induction gs arbitrary: st)
  case Nil
  then show ?case by simp
next
  case (Cons g gs)
  from Cons.prems(1) show ?case
  proof (cases rule: admit_waiting_cases)
    case Ignore
    show ?thesis by (rule Cons.IH [OF Ignore(1)]) (use Cons.prems(2,3) ignored_finished [OF _ Ignore(2)] in auto)
  next
    case Stop
    with Cons.prems show ?thesis by simp
  next
    case Leave
    from Cons.IH [OF Leave(1)] Cons.prems show ?thesis by simp
  next
    case (Admit q bm)
    from Cons.IH [OF Admit(9)] Cons.prems show ?thesis by simp
  qed
qed

lemma schedule_iter_ignored:
  assumes "sch_schedule_iter now s = Inr (out, s')" and "list_all one_seq (waiting s)"
  shows "list_all sg_is_finished (ignored_seq_groups out)"
proof -
  obtain out1 s1 where o1: "(if swapped s = [] then schedule_prompts s else Inr (None, s)) = Inr (out1, s1)"
    and o2: "(case out1 of Some out \<Rightarrow> Inr (out, s1) | None \<Rightarrow> schedule_decode now s1) = Inr (out, s')"
    using assms(1) by (auto simp: sch_schedule_iter_def)
  show ?thesis
  proof (cases out1)
    case None
    with o2 have "schedule_decode now s1 = Inr (out, s')" by simp
    then show ?thesis by (cases rule: schedule_decode_cases) (simp add: new_scheduler_outputs_fields(1))
  next
    case (Some o')
    with o1 o2 have "schedule_prompts s = Inr (Some out, s')" by (auto split: if_splits)
    then show ?thesis
    proof (cases rule: schedule_prompts_cases)
      case (1 st gs)
      have "list_all sg_is_finished (ps_ignored st)"
        by (rule admit_waiting_ignored [OF 1(1) assms(2)]) (simp add: prompt_start_def)
      then show ?thesis using new_scheduler_outputs_fields(1) [OF 1(4) [OF refl]] by simp
    qed
  qed
qed

section \<open>The scheduled groups run\<close>

text \<open>The configuration, which no step changes.\<close>

definition sch_config :: "scheduler \<Rightarrow> nat \<times> int \<times> nat \<times> int \<times> nat option \<times> nat \<times> bool" where
  "sch_config s = (max_num_batched_tokens s, max_num_seqs s, max_model_len s, max_paddings s, max_loras s,
     prompt_limit s, dynamic_increase_oncard_weights s)"

lemma sch_config_updates [simp]:
  "sch_config (s\<lparr>sch_bm := bm\<rparr>) = sch_config s" "sch_config (s\<lparr>waiting := w\<rparr>) = sch_config s"
  "sch_config (s\<lparr>running := r\<rparr>) = sch_config s" "sch_config (s\<lparr>swapped := sw\<rparr>) = sch_config s"
  by (simp_all add: sch_config_def)

lemma schedule_iter_running:
  assumes "sch_schedule_iter now s = Inr (out, s')"
  shows "sch_config s' = sch_config s \<and> (\<exists>others. set others \<subseteq> set (running s) \<and> mset (running s') = mset (scheduled_seq_groups out @ others))"
proof -
  obtain out1 s1 where o1: "(if swapped s = [] then schedule_prompts s else Inr (None, s)) = Inr (out1, s1)"
    and o2: "(case out1 of Some out \<Rightarrow> Inr (out, s1) | None \<Rightarrow> schedule_decode now s1) = Inr (out, s')"
    using assms(1) by (auto simp: sch_schedule_iter_def)
  have p: "sch_config s1 = sch_config s \<and> (\<forall>o1. out1 = Some o1 \<longrightarrow> (\<exists>others. set others \<subseteq> set (running s) \<and> mset (running s1) = mset (scheduled_seq_groups o1 @ others)))"
  proof (cases "swapped s = []")
    case True
    with o1 have "schedule_prompts s = Inr (out1, s1)" by simp
    then show ?thesis
    proof (cases rule: schedule_prompts_cases)
      case (1 st gs)
      have "sch_config s1 = sch_config s" by (simp add: 1(2))
      then show ?thesis using 1(2) new_scheduler_outputs_fields(4) [OF 1(4)] by fastforce
    qed
  next
    case False
    with o1 show ?thesis by auto
  qed
  show ?thesis
  proof (cases out1)
    case (Some o')
    with o2 p show ?thesis by auto
  next
    case None
    with o2 have "schedule_decode now s1 = Inr (out, s')" by simp
    then show ?thesis
    proof (cases rule: schedule_decode_cases)
      case (1 st ss gs)
      have "sch_config s' = sch_config s" using p by (simp add: 1(5))
      moreover have "mset (running s') = mset (scheduled_seq_groups out @ [])"
        using 1(5) new_scheduler_outputs_fields(4) [OF 1(4)] by simp
      ultimately show ?thesis by (intro conjI exI [of _ "[]"]) auto
    qed
  qed
qed

end
