(* ===== verification/Sched_Pool.thy ===== *)
theory Sched_Pool
  imports Sched_Groups
begin

text \<open>
  What the steps of the scheduler leave alone in the block manager: a property kept by the steps on the
  pools, the counts, the tables and the prefixes is kept by \<open>_schedule\<close>. It is used for the sizes of
  the pools, and for the absence of prefixes.
\<close>

locale pool_kept =
  fixes P :: "block_manager \<Rightarrow> bool"
  assumes gpu_alloc_kept: "gpu_alloc s = Inr (b, t) \<Longrightarrow> P s \<Longrightarrow> P t"
    and cpu_alloc_kept: "cpu_alloc s = Inr (b, t) \<Longrightarrow> P s \<Longrightarrow> P t"
    and gpu_free_kept: "gpu_free b s = Inr t \<Longrightarrow> P s \<Longrightarrow> P t"
    and cpu_free_kept: "cpu_free b s = Inr t \<Longrightarrow> P s \<Longrightarrow> P t"
    and ref_count_kept: "P s \<Longrightarrow> P (s\<lparr>ref_count := h\<rparr>)"
    and tables_kept: "P s \<Longrightarrow> P (s\<lparr>block_tables := d\<rparr>)"
    and heap_kept: "P s \<Longrightarrow> prefix_heap s = ps \<Longrightarrow> P (s\<lparr>prefix_heap := ps[r := p]\<rparr>)"
begin

lemmas pool_steps = gpu_alloc_kept cpu_alloc_kept gpu_free_kept cpu_free_kept ref_count_kept tables_kept heap_kept

lemma incr_refs_kept: "P s \<Longrightarrow> P (incr_refs k t s)"
  by (simp add: incr_refs_def ref_count_kept)

lemma incr_refs_heap: "prefix_heap (incr_refs k t s) = prefix_heap s"
  by (simp add: incr_refs_def)

lemma dev_free_kept: "dev_free b s = Inr t \<Longrightarrow> P s \<Longrightarrow> P t"
  by (auto simp: dev_free_def intro: pool_steps split: if_splits)

lemma bm_free_kept:
  assumes "bm_free q s = Inr t" and "P s"
  shows "P t"
proof (cases "map_of (block_tables s) (seq_id q)")
  case None
  then show ?thesis using assms by (simp add: bm_free_def)
next
  case (Some tab)
  then obtain u where u: "efold dev_free tab s = Inr u" "t = u\<lparr>block_tables := dict_del (seq_id q) (block_tables u)\<rparr>"
    using assms(1) by (auto simp: bm_free_def free_block_table_def)
  have "P u" by (rule efold_invariant [OF u(1), of P]) (use assms(2) dev_free_kept in auto)
  then show ?thesis using u(2) by (simp add: tables_kept)
qed

lemma allocate_one_kept: "allocate_one k i (s, tab) = Inr (t, tab') \<Longrightarrow> P s \<Longrightarrow> P t"
  by (auto simp: allocate_one_def intro: pool_steps split: option.splits if_splits)

lemma bm_allocate_kept:
  assumes "bm_allocate g s = Inr t" and "P s"
  shows "P t"
proof -
  obtain q where q: "py_index (get_seqs (Some WAITING) g) 0 = Inr q"
    using assms(1) by (auto simp: bm_allocate_def)
  let ?k = "num_seqs None g" and ?n = "int (length (logical_token_blocks q))"
  obtain m t0 where mt: "(case sg_prefix_obj g s of None \<Rightarrow> (?n, []) | Some p \<Rightarrow> (case pf_block_table p of None \<Rightarrow> (?n, [])
      | Some t \<Rightarrow> (?n - int (prefix_get_num_blocks p), t))) = (m, t0)" by force
  obtain s2 t2 where f: "efold (allocate_one ?k) [0..<nat m] (incr_refs ?k t0 s, t0) = Inr (s2, t2)"
    using assms(1) unfolding bm_allocate_def q ebind_simps Let_def mt split_conv by auto
  have "P (fst (s2, t2))"
    by (rule efold_invariant [OF f, of "\<lambda>x. P (fst x)"]) (use assms(2) incr_refs_kept allocate_one_kept in auto)
  then have s2: "P s2" by simp
  show ?thesis
    using assms(1) s2 unfolding bm_allocate_def q ebind_simps Let_def mt split_conv f
    by (cases "sg_prefix g") (auto intro!: tables_kept heap_kept incr_refs_kept incr_refs_heap split: if_splits)
qed

lemma append_slot_last_kept: "append_slot_last k tab s = Inr (r, t) \<Longrightarrow> P s \<Longrightarrow> P t"
  by (auto simp: append_slot_last_def split: if_splits dest!: gpu_alloc_kept gpu_free_kept intro!: tables_kept)

lemma append_slot_kept:
  assumes "append_slot q s = Inr (r, t)" and "P s"
  shows "P t"
proof -
  obtain tab where tab: "map_of (block_tables s) (seq_id q) = Some tab" using assms(1) by (auto simp: append_slot_def)
  let ?new = "ebind (gpu_alloc s) (\<lambda>(b, s). Inr (None :: (nat \<times> nat) option, s\<lparr>block_tables := dict_set (seq_id q) (tab @ [b]) (block_tables s)\<rparr>))"
  have "?new = Inr (r, t) \<or> (\<exists>tab'. append_slot_last (seq_id q) tab' s = Inr (r, t))"
  proof (cases "length tab < length (logical_token_blocks q)")
    case True
    then show ?thesis using assms(1) tab
      by (cases "block_sliding_window s") (auto simp: append_slot_def dict_get_def split: if_splits)
  next
    case False
    then show ?thesis using assms(1) tab by (auto simp: append_slot_def)
  qed
  then show ?thesis
    using assms(2) append_slot_last_kept by (auto dest!: gpu_alloc_kept intro!: tables_kept)
qed

lemma swap_in_block_kept: "swap_in_block b (s, m, tab) = Inr (s', m', tab') \<Longrightarrow> P s \<Longrightarrow> P s'"
  by (auto simp: swap_in_block_def incr_refs_kept split: option.splits dest!: cpu_free_kept gpu_alloc_kept)

lemma swap_out_block_kept: "swap_out_block pfx b (s, m, tab) = Inr (s', m', tab') \<Longrightarrow> P s \<Longrightarrow> P s'"
  by (auto simp: swap_out_block_def incr_refs_kept split: option.splits if_splits dest!: gpu_free_kept cpu_alloc_kept)

lemma swap_in_seq_kept: "swap_in_seq pfx q (s, m) = Inr (s', m') \<Longrightarrow> P s \<Longrightarrow> P s'"
proof -
  assume a: "swap_in_seq pfx q (s, m) = Inr (s', m')" and "P s"
  then obtain tab pre s1 m1 t1 where f: "efold swap_in_block tab (incr_refs 1 pre s, m, pre) = Inr (s1, m1, t1)"
    and s': "s' = s1\<lparr>block_tables := dict_set (seq_id q) t1 (block_tables s1)\<rparr>"
    by (auto simp: swap_in_seq_def)
  have "P (fst (s1, m1, t1))"
    by (rule efold_invariant [OF f, of "\<lambda>x. P (fst x)"]) (use \<open>P s\<close> incr_refs_kept swap_in_block_kept in auto)
  then show "P s'" using s' by (simp add: tables_kept)
qed

lemma swap_out_seq_kept: "swap_out_seq pfx q (s, m) = Inr (s', m') \<Longrightarrow> P s \<Longrightarrow> P s'"
proof -
  assume a: "swap_out_seq pfx q (s, m) = Inr (s', m')" and "P s"
  then obtain tab s1 m1 t1 where f: "efold (swap_out_block pfx) tab (s, m, []) = Inr (s1, m1, t1)"
    and s': "s' = s1\<lparr>block_tables := dict_set (seq_id q) t1 (block_tables s1)\<rparr>"
    by (auto simp: swap_out_seq_def)
  have "P (fst (s1, m1, t1))"
    by (rule efold_invariant [OF f, of "\<lambda>x. P (fst x)"]) (use \<open>P s\<close> swap_out_block_kept in auto)
  then show "P s'" using s' by (simp add: tables_kept)
qed

lemma bm_swap_in_kept: "bm_swap_in g s = Inr (r, s') \<Longrightarrow> P s \<Longrightarrow> P s'"
proof -
  assume a: "bm_swap_in g s = Inr (r, s')" and "P s"
  then obtain m where f: "efold (swap_in_seq (sg_prefix_obj g s)) (get_seqs (Some SWAPPED) g) (s, []) = Inr (s', m)"
    by (auto simp: bm_swap_in_def)
  have "P (fst (s', m))"
    by (rule efold_invariant [OF f, of "\<lambda>x. P (fst x)"]) (use \<open>P s\<close> swap_in_seq_kept in auto)
  then show "P s'" by simp
qed

lemma bm_swap_out_kept: "bm_swap_out g s = Inr (r, s') \<Longrightarrow> P s \<Longrightarrow> P s'"
proof -
  assume a: "bm_swap_out g s = Inr (r, s')" and "P s"
  then obtain m where f: "efold (swap_out_seq (sg_prefix_obj g s)) (get_seqs (Some RUNNING) g) (s, []) = Inr (s', m)"
    by (auto simp: bm_swap_out_def)
  have "P (fst (s', m))"
    by (rule efold_invariant [OF f, of "\<lambda>x. P (fst x)"]) (use \<open>P s\<close> swap_out_seq_kept in auto)
  then show "P s'" by simp
qed

section \<open>The scheduler\<close>

lemma sch_append_slot_kept:
  assumes "sch_append_slot g (s, c) = Inr (s', c')" and "P s"
  shows "P s'"
proof -
  have "P (fst (s', c'))"
    by (rule efold_invariant [OF assms(1) [unfolded sch_append_slot_def], of "\<lambda>x. P (fst x)"])
      (use assms(2) append_slot_kept in auto)
  then show ?thesis by simp
qed

lemma preempt_kept:
  assumes "preempt mode g st = Inr st'" and "P (ds_bm st)"
  shows "P (ds_bm st')"
proof -
  have "P u" if f: "efold (\<lambda>q. bm_free (q\<lparr>status := WAITING\<rparr>)) qs (ds_bm st) = Inr u" for qs u
    by (rule efold_invariant [OF f, of P]) (use assms(2) bm_free_kept in auto)
  then show ?thesis
    using assms bm_swap_out_kept
    by (auto simp: preempt_def preempt_by_recompute_def sch_swap_out_def Let_def
        split: preemption_mode.splits option.splits if_splits)
qed

lemma admit_waiting_kept:
  assumes "admit_waiting cfg gs st = Inr (st', rest)" and "P (ps_bm st)"
  shows "P (ps_bm st')"
  using assms
proof (induction gs arbitrary: st)
  case Nil
  then show ?case by simp
next
  case (Cons g gs)
  from Cons.prems(1) show ?case
  proof (cases rule: admit_waiting_cases)
    case Ignore
    show ?thesis by (rule Cons.IH [OF Ignore(1)]) (use Cons.prems(2) in simp)
  next
    case Stop
    with Cons.prems(2) show ?thesis by simp
  next
    case Leave
    show ?thesis by (rule Cons.IH [OF Leave(1)]) (use Cons.prems(2) in simp)
  next
    case (Admit q bm)
    show ?thesis by (rule Cons.IH [OF Admit(9)]) (use Cons.prems(2) bm_allocate_kept [OF Admit(4)] in simp)
  qed
qed

lemma decode_loop_kept: "decode_loop gs st = Inr st' \<Longrightarrow> P (ds_bm st) \<Longrightarrow> P (ds_bm st')"
proof (induction gs st rule: decode_loop.induct)
  case (1 st)
  then show ?case by simp
next
  case (2 g gs st)
  show ?case
  proof (cases "can_append_slot g (ds_bm st)")
    case True
    then obtain bm copies where ap: "sch_append_slot g (ds_bm st, blocks_to_copy (ds_io st)) = Inr (bm, copies)"
      and rest: "decode_loop gs (st\<lparr>ds_bm := bm, ds_io := (ds_io st)\<lparr>blocks_to_copy := copies\<rparr>, ds_running := ds_running st @ [g]\<rparr>) = Inr st'"
      using "2.prems"(1) by auto
    show ?thesis by (rule "2.IH"(1) [OF True ap refl rest]) (use sch_append_slot_kept [OF ap "2.prems"(2)] in simp)
  next
    case False
    show ?thesis
    proof (cases "gs = []")
      case True
      with False "2.prems" show ?thesis using preempt_kept [of None g st st'] by simp
    next
      case ne: False
      with False "2.prems"(1) obtain u where u: "preempt None (last gs) st = Inr u" "decode_loop (g # butlast gs) u = Inr st'"
        by auto
      show ?thesis by (rule "2.IH"(2) [OF False ne u preempt_kept [OF u(1) "2.prems"(2)]])
    qed
  qed
qed

lemma swap_in_loop_kept: "swap_in_loop cfg gs st = Inr (st', rest) \<Longrightarrow> P (ss_bm st) \<Longrightarrow> P (ss_bm st')"
proof (induction gs arbitrary: st)
  case Nil
  then show ?case by simp
next
  case (Cons g gs)
  show ?case
    using Cons.prems Cons.IH
    by (auto simp: Let_def sch_swap_in_def split: if_splits dest!: bm_swap_in_kept sch_append_slot_kept)
qed

lemma schedule_iter_kept:
  assumes "sch_schedule_iter now s = Inr (out, s')" and "P (sch_bm s)"
  shows "P (sch_bm s')"
proof -
  obtain out1 s1 where o1: "(if swapped s = [] then schedule_prompts s else Inr (None, s)) = Inr (out1, s1)"
    and o2: "(case out1 of Some out \<Rightarrow> Inr (out, s1) | None \<Rightarrow> schedule_decode now s1) = Inr (out, s')"
    using assms(1) by (auto simp: sch_schedule_iter_def)
  have s1: "P (sch_bm s1)"
  proof (cases "swapped s = []")
    case True
    with o1 have "schedule_prompts s = Inr (out1, s1)" by simp
    then show ?thesis
    proof (cases rule: schedule_prompts_cases)
      case (1 st gs)
      then show ?thesis using admit_waiting_kept [OF 1(1)] assms(2) by (simp add: prompt_start_def)
    qed
  next
    case False
    with o1 assms(2) show ?thesis by simp
  qed
  show ?thesis
  proof (cases out1)
    case (Some o')
    with o2 s1 show ?thesis by simp
  next
    case None
    with o2 have "schedule_decode now s1 = Inr (out, s')" by simp
    then show ?thesis
    proof (cases rule: schedule_decode_cases)
      case (1 st ss gs)
      have ds: "P (ds_bm st)" using decode_loop_kept [OF 1(1)] s1 by (simp add: decode_start_def)
      have "P (ss_bm ss)"
      proof (cases "ds_preempted st = []")
        case True
        then show ?thesis using swap_in_loop_kept [OF 1(2) [OF True]] ds by (simp add: swap_in_start_def)
      next
        case False
        with 1(3) ds show ?thesis by (simp add: swap_in_start_def)
      qed
      then show ?thesis using 1(5) by simp
    qed
  qed
qed

end

text \<open>No prefix in use, and the pool as large as the manager takes it to be.\<close>

definition plain_pool :: "block_manager \<Rightarrow> bool" where
  "plain_pool s \<longleftrightarrow> prefix_heap s = [] \<and> num_total_gpu_blocks s = ba_num_blocks (gpu_allocator s)"

interpretation plain_pool: pool_kept plain_pool
  by unfold_locales
    (auto simp: plain_pool_def gpu_alloc_def cpu_alloc_def gpu_free_def cpu_free_def alloc_block_def free_block_def
       py_pop_def Let_def split: if_splits)

end
