(* ===== verification/Engine_Group.thy ===== *)
theory Engine_Group
  imports Sched_Inv Sched_Pool Engine
begin

text \<open>
  What processing the samples does to one group of a single sequence without beam search: the sequence
  grows by the sampled token and its text, the stop conditions are checked, and the blocks of a
  finished sequence go back to the pool.
\<close>

section \<open>Decoding and stopping keep the sequence\<close>

definition same_core :: "sequence \<Rightarrow> sequence \<Rightarrow> bool" where
  "same_core q q' \<longleftrightarrow> seq_id q' = seq_id q \<and> seq_block_size q' = seq_block_size q \<and> seq_data q' = seq_data q \<and>
     logical_token_blocks q' = logical_token_blocks q \<and> seq_prompt q' = seq_prompt q"

lemma same_core_trans: "same_core p q \<Longrightarrow> same_core q r \<Longrightarrow> same_core p r"
  by (simp add: same_core_def)

lemma same_core_simps:
  assumes "same_core q q'"
  shows "seq_id q' = seq_id q" "seq_ok q' = seq_ok q" "seq_get_output_len q' = seq_get_output_len q"
    "seq_get_token_ids q' = seq_get_token_ids q" "seq_block_size q' = seq_block_size q"
    "logical_token_blocks q' = logical_token_blocks q" "seq_data q' = seq_data q" "seq_get_len q' = seq_get_len q"
    "seq_prompt q' = seq_prompt q"
  using assms
  by (simp_all add: same_core_def seq_ok_def seq_get_output_len_def seq_get_token_ids_def seq_get_len_def)

lemma detok_tokens_returns:
  "py_last ns = Inr t \<Longrightarrow> t < n \<Longrightarrow> \<exists>r. detok_tokens tok n ns prev po ro skip = Inr r"
  by (cases prev) (auto simp: detok_tokens_def Let_def simp del: py_last_eq_Inr)

lemma detokenize_returns:
  assumes "py_last ns = Inr t" and "t < n"
  shows "\<exists>new text po' ro'. detokenize_incrementally tok n ns prev po ro skip spaces = Inr (new, text, po', ro')"
proof -
  obtain a b c d where "detok_tokens tok n ns prev po ro skip = Inr (a, b, c, d)"
    using detok_tokens_returns [OF assms] by force
  then show ?thesis by (simp add: detokenize_incrementally_def Let_def del: ebind_eq_Inr)
qed

lemma decode_sequence_ok:
  assumes "seq_get_token_ids q = ts @ [t]" and "t < ee_tokenizer_len env"
  shows "\<exists>q'. decode_sequence env sp q = Inr q' \<and> same_core q q' \<and> status q' = status q"
proof -
  have "py_last (seq_get_token_ids q) = Inr t" using assms(1) by simp
  from detokenize_returns [OF this assms(2)] obtain new txt0 po ro where
    "detokenize_incrementally (ee_tokenizer env (seq_lora_request q)) (ee_tokenizer_len env) (seq_get_token_ids q)
       (seq_tokens q) (prefix_offset q) (read_offset q) (skip_special_tokens sp) (spaces_between_special_tokens sp) =
     Inr (new, txt0, po, ro)" by metis
  then show ?thesis by (simp add: decode_sequence_def same_core_def del: ebind_eq_Inr)
qed

lemma check_stop_strings_status:
  "check_stop_strings keep ss q = Some q' \<Longrightarrow> same_core q q' \<and> status q' = FINISHED_STOPPED"
  by (induction ss) (auto simp: same_core_def split: if_splits)

text \<open>A sequence that has used up \<open>max_tokens\<close> is finished.\<close>

lemma check_stop_ok:
  assumes "seq_get_token_ids q = ts @ [t]"
  shows "\<exists>q'. check_stop env model_len sp q = Inr q' \<and> same_core q q' \<and>
    (status q' = status q \<and> Some (int (seq_get_output_len q)) \<noteq> max_tokens sp \<and> seq_get_len q \<le> model_len \<or>
     status q' \<in> {FINISHED_STOPPED, FINISHED_LENGTH_CAPPED})"
proof (cases "check_stop_strings (include_stop_str_in_output sp) (stop sp) q")
  case None
  have "seq_get_last_token_id q = Inr t"
    using assms by (simp add: seq_get_last_token_id_def data_get_last_token_id_eq seq_get_token_ids_def)
  then show ?thesis using None by (auto simp: check_stop_def same_core_def)
next
  case (Some q')
  then show ?thesis using check_stop_strings_status [OF Some] by (auto simp: check_stop_def)
qed

section \<open>Groups of one sequence\<close>

text \<open>The sequence may still grow.\<close>

definition has_room :: "sampling_params \<Rightarrow> sequence \<Rightarrow> bool" where
  "has_room sp q \<longleftrightarrow> (\<forall>m. max_tokens sp = Some m \<longrightarrow> int (seq_get_output_len q) < m)"

definition plain :: "nat \<Rightarrow> int \<Rightarrow> sequence_group \<Rightarrow> bool" where
  "plain bs n g \<longleftrightarrow> \<not> use_beam_search (sg_sampling_params g) \<and>
     (\<exists>q. seqs_dict g = [(seq_id q, q)] \<and> seq_ok q \<and> seq_block_size q = bs \<and> seq_id q < n \<and> has_room (sg_sampling_params g) q)"

lemma plain_status: "plain bs n g \<Longrightarrow> plain bs n (set_seqs_status a b g)"
  unfolding plain_def set_seqs_status_def
  by (auto simp: seq_ok_def has_room_def seq_get_output_len_def seq_get_token_ids_def)

lemma plain_sid: "plain bs n g \<Longrightarrow> sid g < n"
  by (auto simp: plain_def sid_def)

lemma plain_mono: "plain bs n g \<Longrightarrow> n \<le> m \<Longrightarrow> plain bs m g"
  by (auto simp: plain_def)

text \<open>
  The sampler's contract for a group: one sample for its running sequence, of a token of the
  vocabulary that is among the log probabilities it returns.
\<close>

definition sampled :: "int \<Rightarrow> sequence_group \<Rightarrow> sequence_group_output \<Rightarrow> bool" where
  "sampled vocab g outs \<longleftrightarrow> (\<forall>q. get_seqs (Some RUNNING) g = [q] \<longrightarrow>
     (\<exists>so. go_samples outs = [so] \<and> so_parent_seq_id so = seq_id q \<and>
        so_output_token so \<in> set (dict_keys (so_logprobs so)) \<and> so_output_token so < vocab))"

text \<open>The group has grown by one token.\<close>

definition grown :: "sequence_group \<Rightarrow> sequence_group \<Rightarrow> bool" where
  "grown g g' \<longleftrightarrow> request_id g' = request_id g \<and> sg_sampling_params g' = sg_sampling_params g \<and>
     sg_prefix g' = sg_prefix g \<and> (\<exists>k q q' t. seqs_dict g = [(k, q)] \<and> seqs_dict g' = [(k, q')] \<and> seq_id q' = seq_id q \<and>
        prompt_token_ids (seq_data q') = prompt_token_ids (seq_data q) \<and>
        output_token_ids (seq_data q') = output_token_ids (seq_data q) @ [t])"

lemma grown_sid: "grown g g' \<Longrightarrow> sid g' = sid g"
  by (auto simp: grown_def sid_def)

section \<open>Processing the sample\<close>

lemma has_room_grow:
  assumes "has_room sp q" and "seq_get_output_len q' = Suc (seq_get_output_len q)"
    and "Some (int (seq_get_output_len q')) \<noteq> max_tokens sp"
  shows "has_room sp q'"
  using assms by (fastforce simp: has_room_def)

lemma ceiling_grows: "(n + bs - 1) div bs \<le> (Suc n + bs - 1) div bs \<and> (Suc n + bs - 1) div bs \<le> Suc ((n + bs - 1) div (bs :: nat))"
proof (cases "bs = 0")
  case False
  have "(n + bs - 1) div bs \<le> (Suc n + bs - 1) div bs" by (intro div_le_mono) simp
  moreover have "(Suc n + bs - 1) div bs \<le> (n + bs - 1 + bs) div bs" using False by (intro div_le_mono) simp
  moreover have "(n + bs - 1 + bs) div bs = Suc ((n + bs - 1) div bs)" using False by (metis div_add_self2 Suc_eq_plus1)
  ultimately show ?thesis by linarith
qed simp

lemma process_single:
  assumes "single RUNNING g q" and "plain bs n g" and "sampled (ee_tokenizer_len env) g outs"
  shows "\<exists>g' q'. grown g g' \<and> seqs_dict g' = [(seq_id q, q')] \<and> seq_id q' = seq_id q \<and> sg_prefix g' = sg_prefix g \<and>
    length (logical_token_blocks q) \<le> length (logical_token_blocks q') \<and>
    length (logical_token_blocks q') \<le> Suc (length (logical_token_blocks q)) \<and>
    (status q' = RUNNING \<and> plain bs n g' \<or> status q' \<in> {FINISHED_STOPPED, FINISHED_LENGTH_CAPPED}) \<and>
    process_sequence_group_outputs env outs (g, s, c) =
      (if status q' = RUNNING then Inr (g', s, c) else ebind (sch_free_seq q' s) (\<lambda>s. Inr (g', s, c)))"
proof -
  let ?sp = "sg_sampling_params g"
  have d: "seqs_dict g = [(seq_id q, q)]" and q: "seq_ok q" "seq_block_size q = bs" "has_room ?sp q" "seq_id q < n"
    and nobeam: "\<not> use_beam_search ?sp" and run: "status q = RUNNING"
    using assms(1,2) by (auto simp: plain_def single_def)
  have rs: "get_seqs (Some RUNNING) g = [q]" using assms(1) by (rule single_get_seqs)
  obtain so where so: "go_samples outs = [so]" "so_parent_seq_id so = seq_id q"
    "so_output_token so \<in> set (dict_keys (so_logprobs so))" "so_output_token so < ee_tokenizer_len env"
    using assms(3) rs by (auto simp: sampled_def)
  let ?t = "so_output_token so"
  obtain q1 where q1: "seq_append_token_id ?t (so_logprobs so) q = Inr q1" "seq_ok q1"
    "seq_get_token_ids q1 = seq_get_token_ids q @ [?t]" "status q1 = RUNNING" "seq_id q1 = seq_id q"
    using seq_append_token_id_ok [OF q(1) so(3)] run by auto
  have q1f: "seq_block_size q1 = bs" "output_token_ids (seq_data q1) = output_token_ids (seq_data q) @ [?t]"
    "prompt_token_ids (seq_data q1) = prompt_token_ids (seq_data q)" "seq_prompt q1 = seq_prompt q"
    using q1(1) q(2) by (auto simp: seq_append_token_id_def data_append_token_id_def)
  obtain q2 where q2: "decode_sequence env ?sp q1 = Inr q2" "same_core q1 q2" "status q2 = RUNNING"
    using decode_sequence_ok [OF q1(3) so(4)] q1(4) by metis
  have t2: "seq_get_token_ids q2 = seq_get_token_ids q @ [?t]" using q1(3) same_core_simps(4) [OF q2(2)] by simp
  obtain q3 where q3: "check_stop env (max_model_len s) ?sp q2 = Inr q3" "same_core q2 q3"
    "status q3 = RUNNING \<and> Some (int (seq_get_output_len q2)) \<noteq> max_tokens ?sp \<or>
     status q3 \<in> {FINISHED_STOPPED, FINISHED_LENGTH_CAPPED}"
    using check_stop_ok [OF t2, of env "max_model_len s" ?sp] q2(3) by metis
  note core = same_core_simps [OF same_core_trans [OF q2(2) q3(2)]]
  let ?g = "case go_prompt_logprobs outs of None \<Rightarrow> g | Some l \<Rightarrow> g\<lparr>sg_prompt_logprobs := Some l\<rparr>"
  have g0: "seqs_dict ?g = [(seq_id q, q)]" "sg_sampling_params ?g = ?sp" "sg_prefix ?g = sg_prefix g" "request_id ?g = request_id g"
    using d by (simp_all split: option.split)
  then have gs: "get_seqs (Some RUNNING) ?g = [q]" "get_finished_seqs ?g = []"
    using run by (simp_all add: get_seqs_Some get_finished_seqs_def seq_is_finished_def)
  let ?g' = "?g\<lparr>seqs_dict := [(seq_id q, q3)]\<rparr>"
  have id3: "seq_id q3 = seq_id q" using core(1) q1(5) by simp
  have len: "seq_get_output_len q3 = Suc (seq_get_output_len q)"
    unfolding core(3) using q1f(2) by (simp add: seq_get_output_len_def)
  have fin: "seq_is_finished q3 = (status q3 \<noteq> RUNNING)"
    using q3(3) by (auto simp: seq_is_finished_def)
  have "process_sequence_group_outputs env outs (g, s, c) =
      (if status q3 = RUNNING then Inr (?g', s, c) else ebind (sch_free_seq q3 s) (\<lambda>s. Inr (?g', s, c)))"
    using nobeam so(1,2) q1(1) q2(1) q3(1) fin id3
    by (simp add: process_sequence_group_outputs_def g0 gs group_samples_def process_parent_def finish_child_def
        update_parents_def add_child_def free_finished_parent_def dict_get_def ebind_assoc Let_def del: ebind_eq_Inr)
  moreover have "grown g ?g'"
    using d q1f(2,3) core(7) id3 g0 by (auto simp: grown_def)
  moreover have "plain bs n ?g'" if st: "status q3 = RUNNING"
  proof -
    have "Some (int (seq_get_output_len q3)) \<noteq> max_tokens ?sp"
      using q3(3) st same_core_simps(3) [OF q3(2)] by auto
    then have "has_room ?sp q3" using has_room_grow [OF q(3) len] by blast
    then show ?thesis using nobeam g0 id3 core(2,5) q1(2) q1f(1) q(4) by (simp add: plain_def)
  qed
  moreover have "length (logical_token_blocks q) \<le> length (logical_token_blocks q3) \<and>
      length (logical_token_blocks q3) \<le> Suc (length (logical_token_blocks q))"
  proof -
    have "seq_get_len q1 = Suc (seq_get_len q)" using q1f(2,3) by (simp add: seq_get_len_def data_get_len_def)
    then show ?thesis
      unfolding core(6) seq_ok_length [OF q(1)] seq_ok_length [OF q1(2)] using q1f(1) q(2) ceiling_grows [of "seq_get_len q" bs] by simp
  qed
  ultimately show ?thesis using g0(3) id3 q3(3)
    by (intro exI [of _ ?g'] exI [of _ q3]) auto
qed

section \<open>The queues\<close>

lemma sched_ok_replace_head:
  assumes "sched_ok E bm w (g # r)" and "single RUNNING g q" and "single RUNNING g' q'" and "seq_id q' = seq_id q"
    and "sg_prefix g' = sg_prefix g" and "length (logical_token_blocks q) \<le> length (logical_token_blocks q')"
    and "length (logical_token_blocks q') \<le> Suc (length (logical_token_blocks q))"
    and "request_id g' = request_id g" and "covered bm g"
  shows "sched_ok E bm w (g' # r)"
proof -
  have id: "sid g' = sid g" using single_sid [OF assms(2)] single_sid [OF assms(3)] assms(4) by simp
  obtain q0 where q0: "single RUNNING g q0" "prefix_fits bm g q0" "runs bm g"
    using assms(1) by (auto simp: sched_ok_def queues_ok_def runs_def)
  have "q0 = q" using q0(1) assms(2) by (simp add: single_def)
  then have "prefix_fits bm g' q'" using q0(2) assms(5,6) by (auto simp: prefix_fits_def)
  moreover obtain t where "map_of (block_tables bm) (seq_id q) = Some t" "t \<noteq> []" "blk_device (last t) = GPU"
    using q0(3) assms(2) by (auto simp: runs_def single_def)
  moreover from this have "table_fits q' t" using assms(2,6,7,9) by (auto simp: covered_def single_def table_fits_def)
  ultimately have "runs bm g'" using assms(3,4) by (auto simp: runs_def)
  then show ?thesis using assms(1,8) id by (simp add: sched_ok_def queues_ok_def no_stray_def one_kind_def)
qed

lemma single_grow:
  assumes "single RUNNING g q" and "seqs_dict g' = [(seq_id q, q')]" and "sg_sampling_params g' = sg_sampling_params g"
    and "status q' = RUNNING" and "length (logical_token_blocks q) \<le> length (logical_token_blocks q')"
  shows "single RUNNING g' q'"
  using assms
  by (auto simp: single_def get_max_num_running_seqs_def num_seqs_def num_unfinished_seqs_def get_unfinished_seqs_def
      seq_is_finished_def split: if_splits)

lemma process_ok:
  assumes "sched_ok E (sch_bm s) w (g # r)" and "plain bs n g" and "sampled (ee_tokenizer_len env) g outs" and "covered (sch_bm s) g"
  shows "\<exists>g' bm'. process_sequence_group_outputs env outs (g, s, c) = Inr (g', s\<lparr>sch_bm := bm'\<rparr>, c) \<and> grown g g' \<and>
    (plain_pool (sch_bm s) \<longrightarrow> plain_pool bm') \<and> (\<forall>h. sid h \<noteq> sid g \<longrightarrow> covered (sch_bm s) h \<longrightarrow> covered bm' h) \<and>
    (sg_is_finished g' \<and> sched_ok E bm' w r \<or> \<not> sg_is_finished g' \<and> plain bs n g' \<and> sched_ok E bm' w (g' # r))"
proof -
  obtain q where q: "single RUNNING g q" using sched_ok_running_head [OF assms(1)] by metis
  from process_single [OF q assms(2,3)] obtain g' q' where p:
    "grown g g'" "seqs_dict g' = [(seq_id q, q')]" "seq_id q' = seq_id q" "sg_prefix g' = sg_prefix g"
    "length (logical_token_blocks q) \<le> length (logical_token_blocks q')"
    "length (logical_token_blocks q') \<le> Suc (length (logical_token_blocks q))"
    "status q' = RUNNING \<and> plain bs n g' \<or> status q' \<in> {FINISHED_STOPPED, FINISHED_LENGTH_CAPPED}"
    "process_sequence_group_outputs env outs (g, s, c) =
      (if status q' = RUNNING then Inr (g', s, c) else ebind (sch_free_seq q' s) (\<lambda>s. Inr (g', s, c)))" by metis
  have fin: "sg_is_finished g' = (status q' \<noteq> RUNNING)"
    using p(2,7) by (auto simp: sg_is_finished_def seq_is_finished_def)
  show ?thesis
  proof (cases "status q' = RUNNING")
    case True
    have "sg_sampling_params g' = sg_sampling_params g" using p(1) by (simp add: grown_def)
    then have "single RUNNING g' q'" using single_grow [OF q p(2) _ True p(5)] by simp
    then have "sched_ok E (sch_bm s) w (g' # r)"
      by (rule sched_ok_replace_head [OF assms(1) q _ p(3-6) _ assms(4)]) (use p(1) in \<open>simp add: grown_def\<close>)
    then show ?thesis using True p(1,7,8) fin by (intro exI [of _ g'] exI [of _ "sch_bm s"]) simp
  next
    case False
    obtain u where "bm_free q' (sch_bm s) = Inr u" "sched_ok E u w r" "\<forall>h. sid h \<noteq> sid g \<longrightarrow> covered (sch_bm s) h \<longrightarrow> covered u h"
      using free_head_ok [OF assms(1), of q'] p(3) single_sid [OF q] by auto
    then show ?thesis using False p(1,8) fin
      by (intro exI [of _ g'] exI [of _ u]) (simp add: sch_free_seq_def plain_pool.bm_free_kept del: ebind_eq_Inr)
  qed
qed

text \<open>All scheduled groups, one after the other.\<close>

lemma process_groups_ok:
  assumes "list_all2 (sampled (ee_tokenizer_len env)) gs outs" and "sched_ok E (sch_bm s) w (gs @ r)"
    and "\<forall>g \<in> set gs. plain bs n g \<and> covered (sch_bm s) g"
  shows "\<exists>dn bm'. efold (process_group env) (zip gs outs) (dn0, s, c) = Inr (dn0 @ dn, s\<lparr>sch_bm := bm'\<rparr>, c) \<and> map fst dn = gs \<and>
    (\<forall>(g, g') \<in> set dn. grown g g' \<and> (\<not> sg_is_finished g' \<longrightarrow> plain bs n g')) \<and>
    (plain_pool (sch_bm s) \<longrightarrow> plain_pool bm') \<and>
    sched_ok E bm' w (filter (\<lambda>g. \<not> sg_is_finished g) (map snd dn) @ r)"
  using assms
proof (induction gs outs arbitrary: s dn0 r rule: list_all2_induct)
  case Nil
  then show ?case by (intro exI [of _ "[]"] exI [of _ "sch_bm s"]) simp
next
  case (Cons g gs o1 outs)
  have head: "sched_ok E (sch_bm s) w (g # gs @ r)" using Cons.prems(1) by simp
  have "plain bs n g" "covered (sch_bm s) g" using Cons.prems(2) by auto
  from process_ok [OF head this(1) Cons.hyps(1) this(2)] obtain g' bm1 where g':
    "process_sequence_group_outputs env o1 (g, s, c) = Inr (g', s\<lparr>sch_bm := bm1\<rparr>, c)" "grown g g'"
    "plain_pool (sch_bm s) \<longrightarrow> plain_pool bm1"
    "sg_is_finished g' \<and> sched_ok E bm1 w (gs @ r) \<or> \<not> sg_is_finished g' \<and> plain bs n g' \<and> sched_ok E bm1 w (g' # gs @ r)"
    "\<forall>h. sid h \<noteq> sid g \<longrightarrow> covered (sch_bm s) h \<longrightarrow> covered bm1 h"
    by blast
  have "sid g \<notin> sid ` set gs" using head by (auto simp: sched_ok_def queues_ok_def)
  then have rest: "\<forall>h \<in> set gs. plain bs n h \<and> covered bm1 h" using g'(5) Cons.prems(2) by (metis imageI list.set_intros(2))
  let ?k = "if sg_is_finished g' then [] else [g']"
  have "sched_ok E (sch_bm (s\<lparr>sch_bm := bm1\<rparr>)) w (gs @ ?k @ r)"
    using g'(4) by (auto intro: sched_ok_mset)
  from Cons.IH [OF this, of "dn0 @ [(g, g')]"] rest obtain dn bm' where d:
    "efold (process_group env) (zip gs outs) (dn0 @ [(g, g')], s\<lparr>sch_bm := bm1\<rparr>, c) =
      Inr ((dn0 @ [(g, g')]) @ dn, s\<lparr>sch_bm := bm1\<rparr>\<lparr>sch_bm := bm'\<rparr>, c)" "map fst dn = gs"
    "\<forall>(g, g') \<in> set dn. grown g g' \<and> (\<not> sg_is_finished g' \<longrightarrow> plain bs n g')" "plain_pool bm1 \<longrightarrow> plain_pool bm'"
    "sched_ok E bm' w (filter (\<lambda>g. \<not> sg_is_finished g) (map snd dn) @ ?k @ r)"
    by (auto simp del: append_assoc)
  have "sched_ok E bm' w (filter (\<lambda>g. \<not> sg_is_finished g) (map snd ((g, g') # dn)) @ r)"
    by (rule sched_ok_mset [OF d(5)]) auto
  then show ?case using d(1-4) g'
    by (intro exI [of _ "(g, g') # dn"] exI [of _ bm']) (auto simp: process_group_def)
qed

end
