(* ===== verification/Engine_Inv.thy ===== *)
theory Engine_Inv
  imports Sched_Groups Engine_Group
begin

text \<open>
  The invariant of the engine on requests of a single sequence, and a step of the engine: it never
  raises, every scheduled sequence grows by one token, finished sequences give their blocks back, and a
  request leaves the engine with exactly the step that returns its finished output.
\<close>

section \<open>Scheduling\<close>

interpretation plain: status_free "plain bs n" for bs n
  by unfold_locales (rule plain_status)

lemma plain_one_seq: "plain bs n g \<Longrightarrow> one_seq g"
  by (auto simp: plain_def one_seq_def)

lemma metadata_returns:
  assumes "runs bm g"
  shows "\<exists>m. metadata_of p bm g = Inr m"
proof -
  obtain q t where q: "single RUNNING g q" "map_of (block_tables bm) (seq_id q) = Some t"
    using assms by (auto simp: runs_def)
  then show ?thesis using single_get_seqs [OF q(1)] by (simp add: metadata_of_def get_block_table_def dict_get_def)
qed

lemma schedule_ok:
  assumes "sched_ok E (sch_bm s) (waiting s) (running s)" and "swapped s = []" and "\<not> dynamic_increase_oncard_weights s"
    and "list_all (plain bs n) (waiting s @ running s)"
  shows "\<exists>mds out s' others. sch_schedule now kv s = Inr (mds, out, kv, s') \<and>
    sched_ok E (sch_bm s') (waiting s') (running s') \<and> swapped s' = [] \<and> sch_config s' = sch_config s \<and>
    list_all (plain bs n) (waiting s' @ running s' @ ignored_seq_groups out) \<and>
    list_all sg_is_finished (ignored_seq_groups out) \<and>
    mset (running s') = mset (scheduled_seq_groups out @ others) \<and>
    queued s' + ids (ignored_seq_groups out) = queued s \<and>
    (\<exists>it. sch_schedule_iter now s = Inr (it, s') \<and> out = it\<lparr>blocks_to_reorganize := []\<rparr>) \<and>
    (\<forall>g \<in> set (scheduled_seq_groups out). covered (sch_bm s') g)"
proof -
  obtain out s' where it: "sch_schedule_iter now s = Inr (out, s')" "sched_ok E (sch_bm s') (waiting s') (running s')" "swapped s' = []"
    "\<forall>g \<in> set (scheduled_seq_groups out). covered (sch_bm s') g"
    using schedule_iter_inv [OF assms(1,2)] by blast
  obtain others where others: "mset (running s') = mset (scheduled_seq_groups out @ others)" "sch_config s' = sch_config s"
    using schedule_iter_running [OF it(1)] by blast
  have all: "list_all (plain bs n) (waiting s' @ running s' @ ignored_seq_groups out)"
    using plain.schedule_iter_all [OF it(1)] assms(2,4) by simp
  have fin: "list_all sg_is_finished (ignored_seq_groups out)"
    using schedule_iter_ignored [OF it(1)] assms(4) plain_one_seq by (auto simp: list_all_iff)
  let ?out = "out\<lparr>blocks_to_reorganize := []\<rparr>"
  have "set (scheduled_seq_groups out) \<subseteq> set (running s')"
    using others(1) by (metis set_append set_mset_mset sup_ge1)
  then have "\<exists>m. metadata_of (prompt_run ?out) (sch_bm s') g = Inr m" if "g \<in> set (scheduled_seq_groups ?out)" for g
    using that it(2) by (intro metadata_returns) (auto simp: sched_ok_def queues_ok_def)
  from efold_collect [OF this] obtain mds where
    "efold (\<lambda>g mds. ebind (metadata_of (prompt_run ?out) (sch_bm s') g) (\<lambda>m. Inr (mds @ [m]))) (scheduled_seq_groups ?out) [] = Inr mds"
    by fastforce
  then have "sch_schedule now kv s = Inr (mds, ?out, kv, s')"
    using assms(3) it(1) by (simp add: sch_schedule_def)
  then show ?thesis using it(2-4) others all fin iter_ids [OF it(1)]
    by (intro exI [of _ mds] exI [of _ ?out] exI [of _ s'] exI [of _ others]) (simp add: it(1))
qed

section \<open>Replacing groups in the running queue\<close>

lemma update_running_mset:
  assumes "mset (running s) = mset (map fst dn @ others)" and "distinct (map fst dn @ others)"
  shows "mset (running (update_running dn s)) = mset (map snd dn @ others)"
proof -
  let ?u = "\<lambda>g. case map_of dn g of None \<Rightarrow> g | Some g' \<Rightarrow> g'"
  have d: "dict_ok dn" using assms(2) by simp
  have "?u (fst p) = snd p" if "p \<in> set dn" for p
    using map_of_is_SomeI [OF d, of "fst p" "snd p"] that by simp
  then have "map ?u (map fst dn) = map snd dn" by simp
  moreover have "map ?u others = others"
  proof (rule map_idI)
    fix g assume "g \<in> set others"
    then have "map_of dn g = None" using assms(2) by (auto simp: map_of_eq_None_iff)
    then show "?u g = g" by simp
  qed
  ultimately have "map ?u (map fst dn @ others) = map snd dn @ others" by (simp only: map_append)
  moreover have "mset (running (update_running dn s)) = image_mset ?u (mset (map fst dn @ others))"
    unfolding assms(1) [symmetric] by (simp add: update_running_def)
  ultimately show ?thesis by (simp only: mset_map [symmetric])
qed

text \<open>The time of the last token is no part of the invariant.\<close>

lemma last_token_time_simps [simp]:
  "sid (g\<lparr>last_token_time := x\<rparr>) = sid g" "runs bm (g\<lparr>last_token_time := x\<rparr>) = runs bm g"
  "plain bs n (g\<lparr>last_token_time := x\<rparr>) = plain bs n g"
  by (simp_all add: sid_def runs_def single_def prefix_fits_def get_max_num_running_seqs_def num_seqs_def
      num_unfinished_seqs_def get_unfinished_seqs_def plain_def)

definition retimed :: "sequence_group \<Rightarrow> sequence_group \<Rightarrow> bool" where
  "retimed g g' \<longleftrightarrow> (\<exists>x. g' = g\<lparr>last_token_time := x\<rparr>)"

lemma retimed_refl: "retimed g g"
  unfolding retimed_def by (rule exI [of _ "last_token_time g"]) simp

lemma sched_ok_retimed:
  assumes "list_all2 retimed r r'"
  shows "sched_ok E bm w r' = sched_ok E bm w r" "list_all (plain bs n) r' = list_all (plain bs n) r" "ids r' = ids r"
proof -
  have m: "map sid r' = map sid r" and i: "map request_id r' = map request_id r"
    using assms by (induction rule: list_all2_induct) (auto simp: retimed_def)
  have k: "list_all (\<lambda>g. Q (request_id g)) r' = list_all (\<lambda>g. Q (request_id g)) r" for Q
    using assms by (induction rule: list_all2_induct) (auto simp: retimed_def)
  have "(\<forall>g \<in> set r'. runs bm g) = (\<forall>g \<in> set r. runs bm g)"
    and p: "list_all (plain bs n) r' = list_all (plain bs n) r"
    using assms by (induction rule: list_all2_induct) (auto simp: retimed_def)
  moreover have "sid ` set r' = sid ` set r" using m by (metis list.set_map)
  moreover have "one_kind (w @ r') = one_kind (w @ r)"
    using k [of is_int_id] k [of "\<lambda>x. \<not> is_int_id x"] by (simp add: one_kind_def list_all_iff ball_Un)
  ultimately show "sched_ok E bm w r' = sched_ok E bm w r" using m by (simp add: sched_ok_def queues_ok_def no_stray_def)
  show "list_all (plain bs n) r' = list_all (plain bs n) r" by (rule p)
  show "ids r' = ids r" by (simp only: i)
qed

text \<open>Statistics.\<close>

lemma get_stats_returns:
  assumes "0 < num_total_gpu_blocks (sch_bm s)"
  shows "\<exists>st. get_stats now (Some out) gs s = Inr (st, map (\<lambda>g. g\<lparr>last_token_time := now\<rparr>) gs)"
  using assms by (auto simp: get_stats_def cache_usage_def f64_div_def get_last_latency_def o_def Let_def)

lemma update_running_retimed:
  "list_all2 retimed (running s) (running (update_running (zip gs (map (\<lambda>g. g\<lparr>last_token_time := now\<rparr>) gs)) s))"
  by (simp add: update_running_def list_all2_map2 list_all2_same map_of_zip_map retimed_refl) (auto simp: retimed_def)

text \<open>Marking a prefix as computed.\<close>

lemma map_update_same: "f y = f (xs ! k) \<Longrightarrow> map f (xs[k := y]) = map f xs"
  by (cases "k < length xs") (simp_all add: map_update list_update_same_conv list_update_beyond)

lemma mark_computed_ok:
  assumes "sched_ok E bm w r"
  shows "sched_ok E (mark_computed g bm) w r"
proof (cases "mark_computed g bm = bm")
  case True
  then show ?thesis using assms by simp
next
  case False
  then obtain k where k: "mark_computed g bm = bm\<lparr>prefix_heap := (prefix_heap bm)[k := (prefix_heap bm ! k)\<lparr>pf_computed := True\<rparr>]\<rparr>"
    by (auto simp: mark_computed_def Let_def split: option.splits if_splits)
  let ?bm = "bm\<lparr>prefix_heap := (prefix_heap bm)[k := (prefix_heap bm ! k)\<lparr>pf_computed := True\<rparr>]\<rparr>"
  have shape: "bm_shape ?bm = bm_shape bm"
    by (simp add: bm_shape_def map_update_same prefix_get_num_blocks_def)
  have "prefix_refs (prefix_heap ?bm) = prefix_refs (prefix_heap bm)"
    by (simp add: prefix_refs_def map_update_same prefix_table_refs_def)
  moreover have "prefix_ok p" if p: "p \<in> set (prefix_heap ?bm)" for p
  proof -
    have kl: "k < length (prefix_heap bm)"
      using False k by (metis list_update_beyond linorder_not_less block_manager.surjective block_manager.update_convs(12))
    have old: "\<forall>p \<in> set (prefix_heap bm). prefix_ok p" using assms by (simp add: sched_ok_def queues_ok_def bm_inv_def)
    then have "prefix_ok ((prefix_heap bm ! k)\<lparr>pf_computed := True\<rparr>)"
      using nth_mem [OF kl] by (simp add: prefix_ok_def prefix_get_num_blocks_def)
    then show ?thesis using old p set_update_subset_insert [of "prefix_heap bm" k] by auto
  qed
  moreover have "refs_ok M ?bm = refs_ok M bm" for M by (simp add: refs_ok_def)
  ultimately have "bm_inv E ?bm" using assms by (simp add: sched_ok_def queues_ok_def bm_inv_def held_def)
  then have "queues_ok E ?bm w r"
    using assms queues_ok_others [OF sched_ok_queues [OF assms] _ shape]
    by (auto simp: sched_ok_def queues_ok_def waits_def runs_def prefix_fits_shape [OF shape])
  then show ?thesis using assms k by (simp add: sched_ok_def no_stray_def)
qed

lemma mark_plain_pool [simp]: "plain_pool s \<Longrightarrow> mark_computed g s = s"
  by (auto simp: plain_pool_def mark_computed_def Let_def split: option.split)

lemma marks_plain_pool: "plain_pool s \<Longrightarrow> fold mark_computed gs s = s"
  by (induction gs) simp_all

lemma marks_computed_ok: "sched_ok E bm w r \<Longrightarrow> sched_ok E (fold mark_computed gs bm) w r"
  by (induction gs arbitrary: bm) (simp_all add: mark_computed_ok)

section \<open>The outputs\<close>

text \<open>What the output of a request says of its group.\<close>

definition answers :: "sequence_group \<Rightarrow> request_output \<Rightarrow> bool" where
  "answers g ro \<longleftrightarrow> one_seq g \<and> ro_request_id ro = request_id g \<and> ro_finished ro = sg_is_finished g \<and>
     (\<forall>k q. seqs_dict g = [(k, q)] \<longrightarrow> ro_prompt_token_ids ro = prompt_token_ids (seq_data q) \<and>
        ro_outputs ro = take (nat (sp_n (sg_sampling_params g))) [completion_of (sg_sampling_params g) (0, q)])"

lemma from_seq_group_returns:
  assumes "one_seq g" and "\<not> use_beam_search (sg_sampling_params g)"
  shows "\<exists>ro. from_seq_group env g = Inr ro \<and> answers g ro"
proof -
  obtain k q where d: "seqs_dict g = [(k, q)]" using assms(1) by (auto simp: one_seq_def length_Suc_conv)
  then show ?thesis
    using assms by (simp add: from_seq_group_def sort_by_score_def sg_prompt_def sg_prompt_token_ids_def answers_def
        Let_def take_Cons' del: ebind_eq_Inr)
qed

lemma grown_answerable:
  assumes "grown g g'" and "\<not> use_beam_search (sg_sampling_params g)"
  shows "one_seq g'" "\<not> use_beam_search (sg_sampling_params g')"
  using assms by (auto simp: grown_def one_seq_def)

section \<open>The step\<close>

definition engine_ok :: "block_id multiset \<Rightarrow> llm_engine \<Rightarrow> bool" where
  "engine_ok E e \<longleftrightarrow> (let s = le_scheduler e in
     sched_ok E (sch_bm s) (waiting s) (running s) \<and> swapped s = [] \<and> \<not> dynamic_increase_oncard_weights s \<and>
     0 < le_block_size e \<and> list_all (plain (le_block_size e) (le_seq_counter e)) (waiting s @ running s))"

text \<open>The requests whose finished outputs a step returns.\<close>

definition finished_ids :: "request_output list \<Rightarrow> req_id multiset" where
  "finished_ids ros = mset (map ro_request_id (filter ro_finished ros))"

lemma runs_unfinished: "runs bm g \<Longrightarrow> \<not> sg_is_finished g"
  by (auto simp: runs_def single_def sg_is_finished_def seq_is_finished_def)

text \<open>Freeing the finished groups: the queue after the groups have been processed.\<close>

lemma finished_groups_ok:
  assumes "mset (running s) = mset (map fst dn @ others)" and "distinct (map sid (running s))"
    and "\<forall>g \<in> set others. \<not> sg_is_finished g"
    and "sched_ok E bm' (waiting s) (filter (\<lambda>g. \<not> sg_is_finished g) (map snd dn) @ others)"
  shows "sched_ok E bm' (waiting s) (running (free_finished_seq_groups (update_running dn s)))"
    and "mset (running (free_finished_seq_groups (update_running dn s))) =
      mset (filter (\<lambda>g. \<not> sg_is_finished g) (map snd dn) @ others)"
proof -
  have "distinct (running s)" using assms(2) by (simp add: distinct_map)
  then have "distinct (map fst dn @ others)" using mset_eq_imp_distinct_iff [OF assms(1)] by simp
  note u = update_running_mset [OF assms(1) this]
  have "mset (running (free_finished_seq_groups (update_running dn s))) =
      filter_mset (\<lambda>g. \<not> sg_is_finished g) (mset (map snd dn @ others))"
    unfolding u [symmetric] by (simp add: free_finished_seq_groups_def)
  also have "\<dots> = mset (filter (\<lambda>g. \<not> sg_is_finished g) (map snd dn @ others))" by simp
  also have "\<dots> = mset (filter (\<lambda>g. \<not> sg_is_finished g) (map snd dn) @ others)"
    using assms(3) by (simp add: filter_id_conv)
  finally show m: "mset (running (free_finished_seq_groups (update_running dn s))) =
      mset (filter (\<lambda>g. \<not> sg_is_finished g) (map snd dn) @ others)" .
  show "sched_ok E bm' (waiting s) (running (free_finished_seq_groups (update_running dn s)))"
    by (rule sched_ok_mset [OF assms(4) refl m])
qed

text \<open>What is kept of an engine from step to step.\<close>

definition engine_config :: "llm_engine \<Rightarrow> (nat \<times> int \<times> nat \<times> int \<times> nat option \<times> nat \<times> bool) \<times> nat \<times> bool \<times> bool" where
  "engine_config e = (sch_config (le_scheduler e), le_block_size e, le_lora_enabled e, le_log_stats e)"

text \<open>
  The effect of processing the outputs: \<open>dn\<close> pairs each scheduled group with what became of it.
\<close>

definition processed :: "sequence_group list \<Rightarrow> sequence_group list \<Rightarrow> llm_engine \<Rightarrow> (sequence_group \<times> sequence_group) list
    \<Rightarrow> request_output list \<Rightarrow> llm_engine \<Rightarrow> bool" where
  "processed ignored others e dn ros e' \<longleftrightarrow>
     (\<forall>(g, g') \<in> set dn. grown g g') \<and> list_all2 answers (map snd dn @ ignored) ros \<and>
     (plain_pool (sch_bm (le_scheduler e)) \<longrightarrow> plain_pool (sch_bm (le_scheduler e'))) \<and>
     waiting (le_scheduler e') = waiting (le_scheduler e) \<and> le_seq_counter e' = le_seq_counter e \<and> engine_config e' = engine_config e \<and>
     (\<exists>r. mset r = mset (filter (\<lambda>g. \<not> sg_is_finished g) (map snd dn) @ others) \<and> list_all2 retimed r (running (le_scheduler e')))"

lemma log_stats_ok:
  assumes "sched_ok E (sch_bm s) (waiting s) (running s)"
  shows "\<exists>s'. (if logs then ebind (get_stats now (Some out) gs s) (\<lambda>(_, gs'). Inr (update_running (zip gs gs') s)) else Inr s) = Inr s' \<and>
    list_all2 retimed (running s) (running s') \<and> sch_bm s' = sch_bm s \<and> waiting s' = waiting s \<and> swapped s' = swapped s \<and>
    sch_config s' = sch_config s"
proof (cases logs)
  case True
  have "0 < num_total_gpu_blocks (sch_bm s)" using assms by (simp add: sched_ok_def queues_ok_def)
  from get_stats_returns [OF this] obtain st where "get_stats now (Some out) gs s = Inr (st, map (\<lambda>g. g\<lparr>last_token_time := now\<rparr>) gs)"
    by blast
  then show ?thesis using True update_running_retimed [of s gs now]
    by (intro exI [of _ "update_running (zip gs (map (\<lambda>g. g\<lparr>last_token_time := now\<rparr>) gs)) s"])
       (simp add: update_running_def del: ebind_eq_Inr)
next
  case False
  then show ?thesis using retimed_refl by (intro exI [of _ s]) (simp add: list_all2_same)
qed

lemma process_model_outputs_ok:
  assumes "engine_ok E e" and "list_all2 (sampled (ee_tokenizer_len env)) (scheduled_seq_groups out) outs"
    and "mset (running (le_scheduler e)) = mset (scheduled_seq_groups out @ others)"
    and "list_all (plain (le_block_size e) (le_seq_counter e)) (ignored_seq_groups out)"
    and "\<forall>g \<in> set (scheduled_seq_groups out). covered (sch_bm (le_scheduler e)) g"
  shows "\<exists>ros e' dn. process_model_outputs env now outs out e = Inr (ros, e') \<and> map fst dn = scheduled_seq_groups out \<and>
    processed (ignored_seq_groups out) others e dn ros e' \<and> engine_ok E e'"
proof -
  let ?s = "le_scheduler e" and ?gs = "scheduled_seq_groups out" and ?ign = "ignored_seq_groups out"
  let ?plain = "plain (le_block_size e) (le_seq_counter e)"
  have inv: "sched_ok E (sch_bm ?s) (waiting ?s) (running ?s)" "swapped ?s = []" "\<not> dynamic_increase_oncard_weights ?s"
    "0 < le_block_size e" "list_all ?plain (waiting ?s @ running ?s)"
    using assms(1) by (auto simp: engine_ok_def Let_def)
  have sub: "set ?gs \<subseteq> set (running ?s)" "set others \<subseteq> set (running ?s)"
    using assms(3) by (metis set_append set_mset_mset sup_ge1 sup_ge2)+
  have ok: "sched_ok E (sch_bm ?s) (waiting ?s) (?gs @ others)" by (rule sched_ok_mset [OF inv(1) refl]) (simp add: assms(3))
  have pl: "\<forall>g \<in> set ?gs. ?plain g" using inv(5) sub(1) by (auto simp: list_all_iff)
  then have "\<forall>g \<in> set ?gs. ?plain g \<and> covered (sch_bm ?s) g" using assms(5) by blast
  from process_groups_ok [OF assms(2) ok this, of "[]" "le_seq_counter e"] obtain dn bm' where dn:
    "efold (process_group env) (zip ?gs outs) ([], ?s, le_seq_counter e) = Inr (dn, ?s\<lparr>sch_bm := bm'\<rparr>, le_seq_counter e)"
    "map fst dn = ?gs" "\<forall>(g, g') \<in> set dn. grown g g' \<and> (\<not> sg_is_finished g' \<longrightarrow> ?plain g')"
    "sched_ok E bm' (waiting ?s) (filter (\<lambda>g. \<not> sg_is_finished g) (map snd dn) @ others)"
    "plain_pool (sch_bm ?s) \<longrightarrow> plain_pool bm'"
    unfolding append_Nil by blast
  let ?s1 = "?s\<lparr>sch_bm := bm'\<rparr>"
  have r1: "mset (running ?s1) = mset (map fst dn @ others)" using assms(3) dn(2) by simp
  have "distinct (map sid (running ?s1))" "\<forall>g \<in> set others. \<not> sg_is_finished g"
    using inv(1) sub(2) runs_unfinished [of "sch_bm ?s"] by (auto simp: sched_ok_def queues_ok_def subset_iff)
  note freed = finished_groups_ok [OF r1 this, of E bm']
  let ?s2 = "free_finished_seq_groups (update_running dn ?s1)"
  have fg: "sched_ok E bm' (waiting ?s) (running ?s2)"
    "mset (running ?s2) = mset (filter (\<lambda>g. \<not> sg_is_finished g) (map snd dn) @ others)"
    using freed dn(4) by simp_all
  let ?s3 = "?s2\<lparr>sch_bm := fold mark_computed (map snd dn) (sch_bm ?s2)\<rparr>"
  have s2: "sch_bm ?s2 = bm'" "waiting ?s2 = waiting ?s" "swapped ?s2 = swapped ?s" "sch_config ?s2 = sch_config ?s"
    by (simp_all add: free_finished_seq_groups_def update_running_def)
  have ok3: "sched_ok E (sch_bm ?s3) (waiting ?s3) (running ?s3)"
    using marks_computed_ok [OF fg(1)] s2 by simp
  have "\<exists>ro. from_seq_group env g = Inr ro \<and> answers g ro" if g: "g \<in> set (map snd dn @ ?ign)" for g
  proof (cases "g \<in> set ?ign")
    case True
    then show ?thesis using assms(4) plain_one_seq by (intro from_seq_group_returns) (auto simp: list_all_iff plain_def)
  next
    case False
    then obtain g0 where g0: "(g0, g) \<in> set dn" using g by auto
    then have "?plain g0" using pl dn(2) by (metis image_eqI fst_conv list.set_map)
    then show ?thesis using dn(3) g0 grown_answerable [of g0 g] by (intro from_seq_group_returns) (auto simp: plain_def)
  qed
  then have ret: "\<exists>ro. from_seq_group env g = Inr ro" and ans: "from_seq_group env g = Inr ro \<Longrightarrow> answers g ro"
    if "g \<in> set (map snd dn @ ?ign)" for g ro using that by force+
  from efold_collect [of "map snd dn @ ?ign" "from_seq_group env" "[]", OF ret] obtain ros where ros:
    "efold (\<lambda>g acc. ebind (from_seq_group env g) (\<lambda>r. Inr (acc @ [r]))) (map snd dn @ ?ign) [] = Inr ros"
    "list_all2 (\<lambda>g r. from_seq_group env g = Inr r) (map snd dn @ ?ign) ros" by fastforce
  have answers: "list_all2 answers (map snd dn @ ?ign) ros"
    by (rule list.rel_mono_strong [OF ros(2)]) (use ans in blast)
  from log_stats_ok [OF ok3, of "le_log_stats e" now out "map snd dn"] obtain s4 where s4:
    "(if le_log_stats e then ebind (get_stats now (Some out) (map snd dn) ?s3) (\<lambda>(_, gs'). Inr (update_running (zip (map snd dn) gs') ?s3)) else Inr ?s3) = Inr s4"
    "list_all2 retimed (running ?s3) (running s4)" "sch_bm s4 = sch_bm ?s3" "waiting s4 = waiting ?s3" "swapped s4 = swapped ?s3"
    "sch_config s4 = sch_config ?s3" by blast
  let ?e = "e\<lparr>le_scheduler := s4, le_seq_counter := le_seq_counter e\<rparr>"
  have rest: "drop (length dn) ?gs = []" using dn(2) by (metis drop_eq_Nil length_map order_refl)
  have run: "process_model_outputs env now outs out e = Inr (ros, ?e)"
    unfolding process_model_outputs_def Let_def dn(1) ebind_simps split_conv rest append_Nil2 ros(1) s4(1) ..
  have "list_all ?plain (running ?s2)"
  proof -
    have "list_all ?plain (filter (\<lambda>g. \<not> sg_is_finished g) (map snd dn) @ others)"
      using dn(3) inv(5) sub(2) by (auto simp: list_all_iff)
    then show ?thesis unfolding list_all_iff using mset_eq_setD [OF fg(2)] by simp
  qed
  then have "engine_ok E ?e"
    using ok3 s4(2-6) s2 inv sched_ok_retimed [OF s4(2)] by (auto simp: engine_ok_def Let_def sch_config_def)
  moreover have "processed ?ign others e dn ros ?e"
    using dn(3,5) marks_plain_pool s4(3) answers s4(2,4,6) s2 fg(2) by (auto simp: processed_def engine_config_def)
  ultimately show ?thesis using run dn(2) by blast
qed

text \<open>The model executor samples one token for each scheduled group.\<close>

definition samples_all :: "int \<Rightarrow> (sequence_group_metadata list \<Rightarrow> scheduler_outputs \<Rightarrow> sequence_group_output list) \<Rightarrow> bool" where
  "samples_all vocab execute \<longleftrightarrow> (\<forall>mds out. list_all2 (sampled vocab) (scheduled_seq_groups out) (execute mds out))"

lemma engine_step_details:
  assumes "engine_ok E e" and "samples_all (ee_tokenizer_len env) execute"
  shows "\<exists>mds out s1 others ros e' dn. sch_schedule now (le_kv e) (le_scheduler e) = Inr (mds, out, le_kv e, s1) \<and>
    engine_step env now execute e = Inr (ros, e') \<and> engine_ok E e' \<and>
    mset (running s1) = mset (scheduled_seq_groups out @ others) \<and> map fst dn = scheduled_seq_groups out \<and>
    processed (ignored_seq_groups out) others (e\<lparr>le_scheduler := s1, le_kv := (le_kv e)\<lparr>load_more_layer_on_card_num := 0\<rparr>\<rparr>) dn ros e' \<and>
    sch_config s1 = sch_config (le_scheduler e) \<and> swapped s1 = [] \<and> list_all sg_is_finished (ignored_seq_groups out) \<and>
    queued s1 + ids (ignored_seq_groups out) = queued (le_scheduler e) \<and>
    (\<exists>it. sch_schedule_iter now (le_scheduler e) = Inr (it, s1) \<and> out = it\<lparr>blocks_to_reorganize := []\<rparr>)"
proof -
  let ?s = "le_scheduler e"
  have inv: "sched_ok E (sch_bm ?s) (waiting ?s) (running ?s)" "swapped ?s = []" "\<not> dynamic_increase_oncard_weights ?s"
    "0 < le_block_size e" "list_all (plain (le_block_size e) (le_seq_counter e)) (waiting ?s @ running ?s)"
    using assms(1) by (auto simp: engine_ok_def Let_def)
  from schedule_ok [OF inv(1-3,5), of now "le_kv e"] obtain mds out s1 others where sc:
    "sch_schedule now (le_kv e) ?s = Inr (mds, out, le_kv e, s1)" "sched_ok E (sch_bm s1) (waiting s1) (running s1)"
    "swapped s1 = []" "sch_config s1 = sch_config ?s"
    "list_all (plain (le_block_size e) (le_seq_counter e)) (waiting s1 @ running s1 @ ignored_seq_groups out)"
    "list_all sg_is_finished (ignored_seq_groups out)"
    "mset (running s1) = mset (scheduled_seq_groups out @ others)" "queued s1 + ids (ignored_seq_groups out) = queued ?s"
    "\<exists>it. sch_schedule_iter now ?s = Inr (it, s1) \<and> out = it\<lparr>blocks_to_reorganize := []\<rparr>"
    "\<forall>g \<in> set (scheduled_seq_groups out). covered (sch_bm s1) g"
    by (elim exE conjE) (rule that; (assumption | blast))
  let ?e = "e\<lparr>le_scheduler := s1, le_kv := (le_kv e)\<lparr>load_more_layer_on_card_num := 0\<rparr>\<rparr>"
  let ?outs = "if outputs_is_empty out then [] else execute mds out"
  have ok: "engine_ok E ?e"
    using sc(2-5) inv(3,4) by (auto simp: engine_ok_def Let_def sch_config_def)
  have "list_all2 (sampled (ee_tokenizer_len env)) (scheduled_seq_groups out) ?outs"
    using assms(2) by (auto simp: samples_all_def outputs_is_empty_def)
  from process_model_outputs_ok [OF ok this, of others now] sc(5,7,10) obtain ros e' dn where p:
    "process_model_outputs env now ?outs out ?e = Inr (ros, e')" "map fst dn = scheduled_seq_groups out"
    "processed (ignored_seq_groups out) others ?e dn ros e'" "engine_ok E e'" by auto
  have "engine_step env now execute e = Inr (ros, e')"
    using p(1) by (simp add: engine_step_def sc(1) Let_def)
  then show ?thesis using sc p by blast
qed

section \<open>What a step answers\<close>

text \<open>
  A view of a group that processing keeps, and what an answer says of it: a step moves each view either to
  a finished answer or leaves it in the queues.
\<close>

locale kept_view = status_view view for view :: "sequence_group \<Rightarrow> 'v" +
  assumes view_grown: "grown g g' \<Longrightarrow> view g' = view g"
    and view_retimed: "retimed g g' \<Longrightarrow> view g' = view g"
begin

lemma retimed_bag: "list_all2 retimed r r' \<Longrightarrow> bag r' = bag r"
  by (induction rule: list_all2_induct) (auto simp: view_retimed)

text \<open>Processing makes no new views.\<close>

lemma processed_views:
  assumes "processed ignored others e dn ros e'" and "mset (running (le_scheduler e)) = mset (map fst dn @ others)"
  shows "view ` set (waiting (le_scheduler e') @ running (le_scheduler e')) \<subseteq>
    view ` set (waiting (le_scheduler e) @ running (le_scheduler e))"
proof -
  have p: "\<forall>(g, g') \<in> set dn. grown g g'" "waiting (le_scheduler e') = waiting (le_scheduler e)"
    using assms(1) by (auto simp: processed_def)
  obtain r where r: "mset r = mset (filter (\<lambda>g. \<not> sg_is_finished g) (map snd dn) @ others)" "list_all2 retimed r (running (le_scheduler e'))"
    using assms(1) by (auto simp: processed_def)
  have "view ` set (running (le_scheduler e')) = view ` set r"
    using arg_cong [OF retimed_bag [OF r(2)], of set_mset] by simp
  also have "\<dots> \<subseteq> view ` (set (map snd dn) \<union> set others)" using mset_eq_setD [OF r(1)] by auto
  also have "\<dots> = view ` (set (map fst dn) \<union> set others)"
  proof -
    have "map view (map snd dn) = map view (map fst dn)" using p(1) view_grown by auto
    then have "view ` set (map snd dn) = view ` set (map fst dn)" by (metis list.set_map)
    then show ?thesis by (simp only: image_Un)
  qed
  also have "\<dots> = view ` set (running (le_scheduler e))" using mset_eq_setD [OF assms(2)] by simp
  finally show ?thesis using p(2) by auto
qed

lemma iter_views:
  assumes "sch_schedule_iter now s = Inr (out, s')"
  shows "view ` set (waiting s' @ running s') \<subseteq> view ` set (waiting s @ running s @ swapped s)"
proof -
  have bag: "set_mset (all_bag t) = view ` set (waiting t @ running t @ swapped t)" for t :: scheduler
    by (simp add: image_Un Un_assoc)
  have "set_mset (all_bag s') \<subseteq> set_mset (all_bag s)"
    unfolding iter_bag [OF assms, symmetric] set_mset_union by blast
  then show ?thesis unfolding bag by auto
qed

end

locale answered_view = kept_view view for view :: "sequence_group \<Rightarrow> 'v" +
  fixes answer :: "request_output \<Rightarrow> 'v"
  assumes view_answer: "answers g ro \<Longrightarrow> answer ro = view g"
begin

abbreviation answered :: "request_output list \<Rightarrow> 'v multiset" where
  "answered ros \<equiv> mset (map answer (filter ro_finished ros))"

lemma answered_bag:
  assumes "list_all2 answers gs ros"
  shows "answered ros = bag (filter sg_is_finished gs)"
  using assms by (induction rule: list_all2_induct) (auto simp: view_answer, simp_all add: answers_def)

lemma filter_bag: "bag (filter P gs) + bag (filter (\<lambda>g. \<not> P g) gs) = bag gs"
  by (induction gs) auto

lemma processed_bag:
  assumes "processed ignored others e dn ros e'" and "list_all sg_is_finished ignored"
    and "mset (running (le_scheduler e)) = mset (map fst dn @ others)" and "swapped (le_scheduler e) = []" "swapped (le_scheduler e') = []"
  shows "answered ros + all_bag (le_scheduler e') = all_bag (le_scheduler e) + bag ignored"
proof -
  have p: "\<forall>(g, g') \<in> set dn. grown g g'" "list_all2 answers (map snd dn @ ignored) ros" "waiting (le_scheduler e') = waiting (le_scheduler e)"
    using assms(1) by (auto simp: processed_def)
  obtain r where r: "mset r = mset (filter (\<lambda>g. \<not> sg_is_finished g) (map snd dn) @ others)" "list_all2 retimed r (running (le_scheduler e'))"
    using assms(1) by (auto simp: processed_def)
  have "map view (map snd dn) = map view (map fst dn)" using p(1) view_grown by auto
  then have dn: "bag (map snd dn) = bag (map fst dn)" by (simp only:)
  have run: "bag (running (le_scheduler e)) = bag (map fst dn) + bag others"
    using assms(3) by (metis map_append mset_append mset_map)
  have "bag r = bag (filter (\<lambda>g. \<not> sg_is_finished g) (map snd dn) @ others)" using r(1) by (metis mset_map)
  then have "bag (running (le_scheduler e')) = bag (filter (\<lambda>g. \<not> sg_is_finished g) (map snd dn)) + bag others"
    unfolding retimed_bag [OF r(2)] by simp
  moreover have ign: "filter sg_is_finished ignored = ignored" using assms(2) by (simp add: list_all_iff)
  moreover have "answered ros = bag (filter sg_is_finished (map snd dn)) + bag ignored"
    using ign unfolding answered_bag [OF p(2)] filter_append by simp
  ultimately show ?thesis
    using filter_bag [of sg_is_finished "map snd dn"] run dn p(3) assms(4,5) by (simp add: ac_simps del: mset_map)
qed

lemma step_conserves:
  assumes "engine_ok E e" and "samples_all (ee_tokenizer_len env) execute" and "engine_step env now execute e = Inr (ros, e')"
  shows "answered ros + all_bag (le_scheduler e') = all_bag (le_scheduler e)"
proof -
  from engine_step_details [OF assms(1,2), of now] obtain mds out s1 others ros1 e1 dn where d:
    "engine_step env now execute e = Inr (ros1, e1)" "engine_ok E e1"
    "mset (running s1) = mset (scheduled_seq_groups out @ others)" "map fst dn = scheduled_seq_groups out"
    "processed (ignored_seq_groups out) others (e\<lparr>le_scheduler := s1, le_kv := (le_kv e)\<lparr>load_more_layer_on_card_num := 0\<rparr>\<rparr>) dn ros1 e1"
    "swapped s1 = []" "list_all sg_is_finished (ignored_seq_groups out)"
    "\<exists>it. sch_schedule_iter now (le_scheduler e) = Inr (it, s1) \<and> out = it\<lparr>blocks_to_reorganize := []\<rparr>"
    by blast
  then obtain it where it: "sch_schedule_iter now (le_scheduler e) = Inr (it, s1)" "out = it\<lparr>blocks_to_reorganize := []\<rparr>" by blast
  have "all_bag s1 + bag (ignored_seq_groups out) = all_bag (le_scheduler e)"
    using iter_bag [OF it(1)] by (simp add: it(2) del: mset_map)
  moreover have "answered ros1 + all_bag (le_scheduler e1) = all_bag s1 + bag (ignored_seq_groups out)"
    using processed_bag [OF d(5,7)] d by (simp add: engine_ok_def Let_def del: mset_map)
  ultimately show ?thesis using d(1) assms(3) by (simp del: mset_map)
qed

end

interpretation request_answers: answered_view request_id ro_request_id
  by unfold_locales (auto simp: grown_def retimed_def answers_def)

text \<open>What the model has to know of a request: how to sample, and the prefix.\<close>

interpretation request_kind: kept_view "\<lambda>g. (sg_sampling_params g, sg_prefix g)"
  by unfold_locales (auto simp: set_seqs_status_def grown_def retimed_def)

text \<open>The request together with its prompt.\<close>

definition prompt_of :: "sequence_group \<Rightarrow> req_id \<times> int list" where
  "prompt_of g = (request_id g, concat (map (\<lambda>q. prompt_token_ids (seq_data q)) (dict_values (seqs_dict g))))"

definition prompt_answer :: "request_output \<Rightarrow> req_id \<times> int list" where
  "prompt_answer ro = (ro_request_id ro, ro_prompt_token_ids ro)"

interpretation prompt_answers: answered_view prompt_of prompt_answer
  by unfold_locales
    (auto simp: prompt_of_def prompt_answer_def set_seqs_status_def grown_def retimed_def answers_def one_seq_def length_Suc_conv
      o_def case_prod_beta intro!: arg_cong [where f = concat])

lemma engine_step_conserves:
  assumes "engine_ok E e" and "samples_all (ee_tokenizer_len env) execute" and "engine_step env now execute e = Inr (ros, e')"
  shows "finished_ids ros + queued (le_scheduler e') = queued (le_scheduler e)"
  using request_answers.step_conserves [OF assms] by (simp only: finished_ids_def queued_def)

text \<open>C9: A step of the engine on single-sequence requests never raises and keeps the invariant, whatever the
  model samples: the queues and the block tables agree, only running requests hold blocks, and every
  sequence stores its tokens and is below its limit.\<close>

theorem engine_step_ok:
  assumes "engine_ok E e" and "samples_all (ee_tokenizer_len env) execute"
  shows "\<exists>ros e'. engine_step env now execute e = Inr (ros, e') \<and> engine_ok E e'"
  using engine_step_details [OF assms] by blast

text \<open>A request leaves the engine with exactly the step that returns its finished output, once: the requests of
  the finished outputs of a step and those still queued after it are those queued before it.\<close>

lemma engine_step_requests:
  assumes "engine_ok E e" and "samples_all (ee_tokenizer_len env) execute" and "engine_step env now execute e = Inr (ros, e')"
  shows "finished_ids ros + queued (le_scheduler e') = queued (le_scheduler e)"
  by (rule engine_step_conserves [OF assms])

end
