(* ===== verification/Engine_Runs.thy ===== *)
theory Engine_Runs
  imports Engine_Inv
begin

text \<open>
  Whole runs of the engine: requests are added, steps are made, requests are aborted, in any order.
  The invariant holds throughout, each request is accounted for, and when nothing is queued any more all
  blocks are back in the pool.
\<close>

section \<open>Adding a request\<close>

text \<open>Parameters with one output sequence, as the drivers of the repository use.\<close>

definition single_output :: "sampling_params \<Rightarrow> bool" where
  "single_output sp \<longleftrightarrow> best_of sp = 1 \<and> \<not> use_beam_search sp \<and> (\<forall>m. max_tokens sp = Some m \<longrightarrow> 0 < m)"

lemma new_sequence_id: "new_sequence k prompt ts bs lora = Inr q \<Longrightarrow> seq_id q = k"
  by (auto simp: new_sequence_def)

lemma new_group_waits:
  assumes "new_sequence k prompt ts bs lora = Inr q" and "0 < bs" and "ts \<noteq> []" and "single_output sp"
  shows "plain bs (k + 1) (new_sequence_group rid [q] sp t lora None)"
    "single WAITING (new_sequence_group rid [q] sp t lora None) q"
proof -
  have q: "seq_ok q" "seq_get_token_ids q = ts" "status q = WAITING" "seq_id q = k" "seq_block_size q = bs"
    "seq_get_output_len q = 0"
    using new_sequence_ok [OF assms(2), of k prompt ts lora] assms(1)
    by (auto simp: new_sequence_def seq_get_output_len_def new_sequence_data_def)
  let ?g = "new_sequence_group rid [q] sp t lora None"
  have d: "seqs_dict ?g = [(k, q)]" "sg_sampling_params ?g = sp"
    using q(4) by (simp_all add: new_sequence_group_def)
  show "plain bs (k + 1) ?g"
    unfolding plain_def d using q assms(4) by (simp add: has_room_def single_output_def)
  have "length (logical_token_blocks q) = (length ts + bs - 1) div bs"
    using seq_ok_length [OF q(1)] q(2,5) by (simp add: seq_get_len_def data_get_len_eq seq_get_token_ids_def)
  moreover have "0 < (length ts + bs - 1) div bs" using assms(2,3) by (cases ts) (simp_all add: div_greater_zero_iff)
  ultimately have "logical_token_blocks q \<noteq> []" by (metis length_greater_0_conv)
  moreover have "get_max_num_running_seqs ?g = 1"
    unfolding get_max_num_running_seqs_def num_seqs_def num_unfinished_seqs_def get_unfinished_seqs_def get_seqs_None d
    using q(3) assms(4) by (simp add: seq_is_finished_def single_output_def)
  ultimately show "single WAITING ?g q" using q(3) d by (simp add: single_def)
qed

lemma add_request_inv:
  assumes "engine_ok E e" and "encode_request env prompt token_ids lora = Inr ts" and "ts \<noteq> []" and "single_output sp"
    and "lora = None \<or> le_lora_enabled e"
    and "\<forall>g \<in> set (waiting (le_scheduler e) @ running (le_scheduler e)). is_int_id (request_id g) = is_int_id rid"
  shows "\<exists>g. add_request env now rid prompt sp token_ids arrival lora None e =
      Inr (e\<lparr>le_seq_counter := le_seq_counter e + 1, le_scheduler := add_seq_group g (le_scheduler e)\<rparr>) \<and>
    request_id g = rid \<and> sg_sampling_params g = sp \<and> sg_lora_request g = lora \<and> sg_prefix g = None \<and> sid g = le_seq_counter e \<and>
    (\<exists>q. single WAITING g q \<and> seq_get_output_len q = 0 \<and> prompt_token_ids (seq_data q) = ts) \<and>
    engine_ok E (e\<lparr>le_seq_counter := le_seq_counter e + 1, le_scheduler := add_seq_group g (le_scheduler e)\<rparr>)"
proof -
  let ?s = "le_scheduler e" and ?k = "le_seq_counter e"
  have inv: "sched_ok E (sch_bm ?s) (waiting ?s) (running ?s)" "swapped ?s = []" "\<not> dynamic_increase_oncard_weights ?s"
    "0 < le_block_size e" "list_all (plain (le_block_size e) ?k) (waiting ?s @ running ?s)"
    using assms(1) by (auto simp: engine_ok_def Let_def)
  obtain q where q: "new_sequence ?k prompt ts (le_block_size e) lora = Inr q"
    using new_sequence_ok [OF inv(4)] by blast
  let ?g = "new_sequence_group rid [q] sp (case arrival of None \<Rightarrow> now | Some t \<Rightarrow> t) lora None"
  let ?e = "e\<lparr>le_seq_counter := ?k + 1, le_scheduler := add_seq_group ?g ?s\<rparr>"
  note g = new_group_waits [OF q inv(4) assms(3,4), where rid = rid and t = "case arrival of None \<Rightarrow> now | Some t \<Rightarrow> t"]
  have "?s\<lparr>sch_prefix_pool := sch_prefix_pool ?s, sch_bm := sch_bm ?s\<lparr>prefix_heap := prefix_heap (sch_bm ?s)\<rparr>\<rparr> = ?s" by simp
  then have run: "add_request env now rid prompt sp token_ids arrival lora None e = Inr ?e"
    using assms(2,5) q by (simp add: add_request_def Let_def del: ebind_eq_Inr)
  have old: "sid h < ?k" if "h \<in> set (waiting ?s @ running ?s)" for h
    using inv(5) that plain_sid by (auto simp: list_all_iff)
  have sid: "sid ?g = ?k" using single_sid [OF g(2)] new_sequence_id [OF q] by simp
  have "?k \<notin> sid ` set (running ?s)" using old by force
  then have "map_of (block_tables (sch_bm ?s)) ?k = None"
    using inv(1) no_stray_key [of "sch_bm ?s" "running ?s" ?k] by (auto simp: sched_ok_def)
  then have "waits (sch_bm ?s) ?g"
    using g(2) new_sequence_id [OF q] by (auto simp: waits_def prefix_fits_def new_sequence_group_def)
  moreover have "sid ?g \<notin> sid ` set (waiting ?s @ running ?s)" using old sid by force
  ultimately have "sched_ok E (sch_bm ?s) (waiting ?s @ [?g]) (running ?s)"
    using inv(1) assms(6) by (auto simp: sched_ok_def queues_ok_def one_kind_def new_sequence_group_def)
  moreover have "list_all (plain (le_block_size e) (?k + 1)) (waiting ?s @ running ?s)"
    using inv(5) plain_mono by (fastforce simp: list_all_iff)
  ultimately have "engine_ok E ?e"
    using inv(2-4) g(1) by (auto simp: engine_ok_def Let_def add_seq_group_def)
  moreover have "seq_get_output_len q = 0 \<and> prompt_token_ids (seq_data q) = ts"
    using q by (auto simp: new_sequence_def new_sequence_data_def seq_get_output_len_def)
  ultimately show ?thesis using run sid g(2)
    by (intro exI [of _ ?g]) (auto simp: new_sequence_group_def)
qed

section \<open>Aborting\<close>

lemma abort_scan_mset:
  "abort_scan rs gs = (aborted, rest, rs') \<Longrightarrow> mset gs = mset (aborted @ rest)"
  by (induction rs gs arbitrary: aborted rest rule: abort_scan.induct) (auto split: if_splits prod.splits)

lemma abort_free_waiting:
  "\<forall>g \<in> set gs. waits bm g \<Longrightarrow> abort_free gs bm = Inr bm"
proof (induction gs)
  case Nil
  then show ?case by (simp add: abort_free_def)
next
  case (Cons g gs)
  obtain q where "single WAITING g q" "map_of (block_tables bm) (seq_id q) = None"
    using Cons.prems by (auto simp: waits_def)
  then show ?case using Cons by (simp add: abort_free_def single_def bm_free_def seq_is_finished_def)
qed

lemma abort_free_running:
  "sched_ok E bm w (gs @ r) \<Longrightarrow> \<exists>bm'. abort_free gs bm = Inr bm' \<and> sched_ok E bm' w r"
proof (induction gs arbitrary: bm)
  case Nil
  then show ?case by (simp add: abort_free_def)
next
  case (Cons g gs)
  have head: "sched_ok E bm w (g # gs @ r)" using Cons.prems by simp
  obtain q where q: "single RUNNING g q" using sched_ok_running_head [OF head] by metis
  obtain u where u: "bm_free (q\<lparr>status := FINISHED_ABORTED\<rparr>) bm = Inr u" "sched_ok E u w (gs @ r)"
    using free_head_ok [OF head, of "q\<lparr>status := FINISHED_ABORTED\<rparr>"] single_sid [OF q] by auto
  then show ?case using Cons.IH [OF u(2)] q by (auto simp: abort_free_def single_def seq_is_finished_def)
qed

lemma sched_ok_drops: "sched_ok E bm (a @ w) r \<Longrightarrow> sched_ok E bm w r"
  by (induction a) (auto dest: sched_ok_drop)

lemma abort_scan_distinct:
  assumes "abort_scan rs gs = (aborted, rest, rs')" and "distinct (map request_id gs)"
  shows "rest = filter (\<lambda>g. request_id g \<notin> set rs) gs \<and> set rs' = set rs - request_id ` set gs"
  using assms
proof (induction rs gs arbitrary: aborted rest rule: abort_scan.induct)
  case (1 rs)
  then show ?case by simp
next
  case (2 rs g gs)
  show ?case
  proof (cases "request_id g \<in> set rs")
    case True
    then have ne: "rs \<noteq> []" by auto
    obtain ab rest1 where sc: "abort_scan (removeAll (request_id g) rs) gs = (ab, rest1, rs')" "rest = rest1"
      using "2.prems"(1) True ne by (auto split: prod.splits)
    have d: "distinct (map request_id gs)" "request_id g \<notin> request_id ` set gs" using "2.prems"(2) by auto
    from "2.IH"(1) [OF ne True sc(1) d(1)] have
      "rest1 = filter (\<lambda>h. request_id h \<notin> set rs - {request_id g}) gs" "set rs' = set rs - {request_id g} - request_id ` set gs"
      by auto
    moreover have "filter (\<lambda>h. request_id h \<notin> set rs - {request_id g}) gs = filter (\<lambda>h. request_id h \<notin> set rs) gs"
      using d(2) by (intro filter_cong) (auto intro: rev_image_eqI)
    ultimately show ?thesis using sc(2) True by auto
  next
    case False
    show ?thesis
    proof (cases "rs = []")
      case True
      then show ?thesis using "2.prems"(1) by simp
    next
      case ne: False
      obtain ab rest1 where sc: "abort_scan rs gs = (ab, rest1, rs')" "rest = g # rest1"
        using "2.prems"(1) False ne by (auto split: prod.splits)
      from "2.IH"(2) [OF ne False sc(1)] "2.prems"(2) show ?thesis using sc(2) False by auto
    qed
  qed
qed

lemma abort_request_ok:
  assumes "engine_ok E e"
  shows "\<exists>e' aw ar rs1 rs2. abort_request rs e = Inr e' \<and> engine_ok E e' \<and>
    abort_scan (remdups rs) (waiting (le_scheduler e)) = (aw, waiting (le_scheduler e'), rs1) \<and>
    abort_scan rs1 (running (le_scheduler e)) = (ar, running (le_scheduler e'), rs2) \<and>
    mset (waiting (le_scheduler e)) = mset (aw @ waiting (le_scheduler e')) \<and>
    mset (running (le_scheduler e)) = mset (ar @ running (le_scheduler e'))"
proof -
  let ?s = "le_scheduler e"
  have inv: "sched_ok E (sch_bm ?s) (waiting ?s) (running ?s)" "swapped ?s = []" "\<not> dynamic_increase_oncard_weights ?s"
    "0 < le_block_size e" "list_all (plain (le_block_size e) (le_seq_counter e)) (waiting ?s @ running ?s)"
    using assms by (auto simp: engine_ok_def Let_def)
  obtain aw w rs1 where sw: "abort_scan (remdups rs) (waiting ?s) = (aw, w, rs1)" by (metis prod_cases3)
  obtain ar r rs2 where sr: "abort_scan rs1 (running ?s) = (ar, r, rs2)" by (metis prod_cases3)
  note m = abort_scan_mset [OF sw] abort_scan_mset [OF sr]
  have ok1: "sched_ok E (sch_bm ?s) (aw @ w) (ar @ r)" by (rule sched_ok_mset [OF inv(1)]) (simp_all add: m)
  then have "\<forall>g \<in> set aw. waits (sch_bm ?s) g" by (simp add: sched_ok_def queues_ok_def)
  note fw = abort_free_waiting [OF this]
  from abort_free_running [OF sched_ok_drops [OF ok1]] obtain bm where bm: "abort_free ar (sch_bm ?s) = Inr bm" "sched_ok E bm w r"
    by blast
  let ?e = "e\<lparr>le_scheduler := ?s\<lparr>waiting := w, running := r, swapped := [], sch_bm := bm\<rparr>\<rparr>"
  have "abort_free [] bm = Inr bm" by (simp add: abort_free_def)
  then have "abort_request rs e = Inr ?e"
    using sw sr fw bm(1) inv(2) by (simp add: abort_request_def abort_seq_group_def)
  moreover have "set w \<subseteq> set (waiting ?s)" "set r \<subseteq> set (running ?s)"
    using mset_eq_setD [OF m(1)] mset_eq_setD [OF m(2)] by auto
  then have "engine_ok E ?e"
    using bm(2) inv(3-5) by (auto simp: engine_ok_def Let_def list_all_iff)
  ultimately show ?thesis using sw sr m by (intro exI [of _ ?e] exI) auto
qed

lemma abort_request_filters:
  assumes "engine_ok E e" and "distinct (map request_id (waiting (le_scheduler e) @ running (le_scheduler e)))"
  shows "\<exists>e'. abort_request rs e = Inr e' \<and> engine_ok E e' \<and>
    waiting (le_scheduler e') = filter (\<lambda>g. request_id g \<notin> set rs) (waiting (le_scheduler e)) \<and>
    running (le_scheduler e') = filter (\<lambda>g. request_id g \<notin> set rs) (running (le_scheduler e))"
proof -
  let ?s = "le_scheduler e"
  obtain e' aw ar rs1 rs2 where a: "abort_request rs e = Inr e'" "engine_ok E e'"
    "abort_scan (remdups rs) (waiting ?s) = (aw, waiting (le_scheduler e'), rs1)"
    "abort_scan rs1 (running ?s) = (ar, running (le_scheduler e'), rs2)"
    using abort_request_ok [OF assms(1)] by blast
  have d: "distinct (map request_id (waiting ?s))" "distinct (map request_id (running ?s))"
    "request_id ` set (waiting ?s) \<inter> request_id ` set (running ?s) = {}" using assms(2) by auto
  note w = abort_scan_distinct [OF a(3) d(1)]
  have "filter (\<lambda>g. request_id g \<notin> set rs1) (running ?s) = filter (\<lambda>g. request_id g \<notin> set rs) (running ?s)"
    using w d(3) by (intro filter_cong) auto
  then show ?thesis using a(1,2) w abort_scan_distinct [OF a(4) d(2)] by auto
qed

text \<open>C12: Aborting takes exactly the requests with the given ids out of the queues, gives their blocks back, and
  never raises.\<close>

theorem abort_request_exact:
  assumes "engine_ok E e" and "distinct (map request_id (waiting (le_scheduler e) @ running (le_scheduler e)))"
  shows "\<exists>e'. abort_request rs e = Inr e' \<and> engine_ok E e' \<and>
    waiting (le_scheduler e') = filter (\<lambda>g. request_id g \<notin> set rs) (waiting (le_scheduler e)) \<and>
    running (le_scheduler e') = filter (\<lambda>g. request_id g \<notin> set rs) (running (le_scheduler e))"
  by (rule abort_request_filters [OF assms])

section \<open>Runs\<close>

text \<open>
  A run of the engine, with the requests added, returned finished and aborted so far. What is added has a
  non-empty prompt, one output, an id of the kind already in use, and no prefix position.
\<close>

inductive engine_run ::
    "engine_env \<Rightarrow> llm_engine \<Rightarrow> req_id multiset \<Rightarrow> req_id multiset \<Rightarrow> req_id multiset \<Rightarrow> llm_engine \<Rightarrow> bool"
  for env e0 where
  Start: "engine_run env e0 {#} {#} {#} e0"
| Add: "engine_run env e0 A F X e \<Longrightarrow> encode_request env prompt token_ids lora = Inr ts \<Longrightarrow> ts \<noteq> [] \<Longrightarrow> single_output sp \<Longrightarrow>
    lora = None \<or> le_lora_enabled e \<Longrightarrow>
    \<forall>g \<in> set (waiting (le_scheduler e) @ running (le_scheduler e)). is_int_id (request_id g) = is_int_id rid \<Longrightarrow>
    add_request env now rid prompt sp token_ids arrival lora None e = Inr e' \<Longrightarrow> engine_run env e0 (add_mset rid A) F X e'"
| Step: "engine_run env e0 A F X e \<Longrightarrow> samples_all (ee_tokenizer_len env) execute \<Longrightarrow> engine_step env now execute e = Inr (ros, e') \<Longrightarrow>
    engine_run env e0 A (F + finished_ids ros) X e'"
| Abort: "engine_run env e0 A F X e \<Longrightarrow> abort_request rs e = Inr e' \<Longrightarrow>
    engine_run env e0 A F (X + (queued (le_scheduler e) - queued (le_scheduler e'))) e'"

lemma engine_step_keeps:
  assumes "engine_ok E e" and "samples_all (ee_tokenizer_len env) execute" and "engine_step env now execute e = Inr (ros, e')"
  shows "engine_ok E e'" "finished_ids ros + queued (le_scheduler e') = queued (le_scheduler e)"
  using engine_step_details [OF assms(1,2), of now] engine_step_conserves [OF assms] assms(3) by auto

lemma abort_keeps:
  assumes "engine_ok E e" and "abort_request rs e = Inr e'"
  shows "engine_ok E e'" "queued (le_scheduler e') \<subseteq># queued (le_scheduler e)"
proof -
  obtain aw ar where a: "engine_ok E e'" "mset (waiting (le_scheduler e)) = mset (aw @ waiting (le_scheduler e'))"
    "mset (running (le_scheduler e)) = mset (ar @ running (le_scheduler e'))"
    using abort_request_ok [OF assms(1), of rs] assms(2) by auto
  then show "engine_ok E e'" by simp
  have "queued (le_scheduler e) = queued (le_scheduler e') + ids aw + ids ar"
    using a assms(1) by (simp add: queued_def engine_ok_def Let_def)
  then show "queued (le_scheduler e') \<subseteq># queued (le_scheduler e)" by (simp add: mset_subset_eq_add_left add.assoc)
qed

lemma engine_run_inv:
  assumes "engine_run env e0 A F X e" and "engine_ok E e0" and "queued (le_scheduler e0) = {#}"
  shows "engine_ok E e \<and> A = F + X + queued (le_scheduler e)"
  using assms(1)
proof (induction rule: engine_run.induct)
  case Start
  then show ?case using assms(2,3) by simp
next
  case (Add A F X e prompt token_ids lora ts sp rid now arrival e')
  from add_request_inv [of E e env prompt token_ids lora ts sp rid now arrival] Add obtain g where
    "e' = e\<lparr>le_seq_counter := le_seq_counter e + 1, le_scheduler := add_seq_group g (le_scheduler e)\<rparr>"
    "request_id g = rid" "engine_ok E e'" by auto
  then show ?case using Add.IH by (simp add: queued_def add_seq_group_def)
next
  case (Step A F X e execute now ros e')
  then show ?case using engine_step_keeps [of E e env execute now ros e'] by (simp add: ac_simps)
next
  case (Abort A F X e rs e')
  then have k: "engine_ok E e'" "queued (le_scheduler e') \<subseteq># queued (le_scheduler e)" using abort_keeps by blast+
  from k(2) obtain D where "queued (le_scheduler e) = queued (le_scheduler e') + D" by (metis mset_subset_eq_exists_conv)
  then show ?case using k(1) Abort.IH by (simp add: ac_simps)
qed

text \<open>C10: Along every run of an engine that starts idle, the invariant holds, and every added request is in exactly
  one place: returned finished, aborted, or still queued.\<close>

theorem engine_run_accounts:
  assumes "engine_run env e0 A F X e" and "engine_ok {#} e0" and "queued (le_scheduler e0) = {#}"
  shows "engine_ok {#} e \<and> A = F + X + queued (le_scheduler e)"
  by (rule engine_run_inv [OF assms])

text \<open>C11: When nothing is queued any more, no block table is left, and the free GPU blocks are all blocks but those a
  prefix of the pool holds: no run leaks blocks.\<close>

theorem engine_idle_frees_blocks:
  assumes "engine_run env e0 A F X e" and "engine_ok {#} e0" and "queued (le_scheduler e0) = {#}" and "\<not> has_unfinished_requests e"
  shows "block_tables (sch_bm (le_scheduler e)) = [] \<and>
    set (free_blocks (gpu_allocator (sch_bm (le_scheduler e)))) =
      {b. blk_device b = GPU \<and> blk_number b < ba_num_blocks (gpu_allocator (sch_bm (le_scheduler e))) \<and>
          b \<notin># prefix_refs (prefix_heap (sch_bm (le_scheduler e)))}"
proof -
  let ?bm = "sch_bm (le_scheduler e)"
  have ok: "sched_ok {#} ?bm (waiting (le_scheduler e)) (running (le_scheduler e))"
    using engine_run_inv [OF assms(1-3)] by (simp add: engine_ok_def Let_def)
  have "running (le_scheduler e) = []" using assms(4) by (simp add: has_unfinished_requests_def sch_has_unfinished_seqs_def)
  then have tabs: "block_tables ?bm = []" using ok by (simp add: sched_ok_def no_stray_def)
  then have "refs_ok (prefix_refs (prefix_heap ?bm)) ?bm"
    using ok by (simp add: sched_ok_def queues_ok_def bm_inv_def held_def table_refs_def)
  then show ?thesis using tabs by (auto simp: refs_ok_def alloc_ok_def not_in_iff)
qed

end
