(* ===== verification/Engine_Live.thy ===== *)
theory Engine_Live
  imports Engine_Runs
begin

text \<open>
  The engine drains: when every request has a token limit, the loop of \<open>LLM._run_engine\<close> that steps the
  engine while it has requests ends, and returns the finished output of every request. Each step
  produces a token, ignores a request, or empties the running queue by preemption, and then the next
  step can admit the first waiting request.
\<close>

section \<open>The work left\<close>

definition tokens_left :: "sequence_group \<Rightarrow> nat" where
  "tokens_left g = (case max_tokens (sg_sampling_params g) of
     None \<Rightarrow> 0
   | Some m \<Rightarrow> sum_list (map (\<lambda>q. nat m - seq_get_output_len q) (dict_values (seqs_dict g))))"

interpretation tokens_left: status_view tokens_left
  by unfold_locales
    (auto simp: tokens_left_def set_seqs_status_def o_def case_prod_beta seq_get_output_len_def split: option.split
       intro!: arg_cong [where f = sum_list])

definition limited :: "sequence_group \<Rightarrow> bool" where
  "limited g \<longleftrightarrow> max_tokens (sg_sampling_params g) \<noteq> None"

interpretation limited: status_free limited
  by unfold_locales (simp add: limited_def set_seqs_status_def)

lemma tokens_left_pos: "plain bs n g \<Longrightarrow> limited g \<Longrightarrow> 0 < tokens_left g"
  by (auto simp: plain_def limited_def tokens_left_def has_room_def)

lemma tokens_left_grown: "grown g g' \<Longrightarrow> tokens_left g' = tokens_left g - 1"
  by (auto simp: grown_def tokens_left_def seq_get_output_len_def split: option.split)

definition work :: "scheduler \<Rightarrow> nat" where
  "work s = sum_list (map tokens_left (waiting s @ running s @ swapped s))"

lemma work_bag: "work s = sum_mset (tokens_left.all_bag s)"
  by (simp add: work_def sum_mset_sum_list [symmetric])

section \<open>A step makes progress\<close>

text \<open>The configuration lets a request run alone: no LoRA, and the limits admit one prompt.\<close>

definition admits_one :: "scheduler \<Rightarrow> bool" where
  "admits_one s \<longleftrightarrow> max_loras s = None \<and> prompt_limit s \<le> max_num_batched_tokens s \<and> 1 \<le> max_num_seqs s \<and> 0 \<le> max_paddings s"

lemma admits_one_config: "sch_config s' = sch_config s \<Longrightarrow> admits_one s' = admits_one s"
  by (simp add: sch_config_def admits_one_def)

lemma admit_waiting_mono:
  "admit_waiting cfg gs st = Inr (st', rest) \<Longrightarrow> ps_scheduled st \<noteq> [] \<or> ps_ignored st \<noteq> [] \<Longrightarrow>
     ps_scheduled st' \<noteq> [] \<or> ps_ignored st' \<noteq> []"
proof (induction gs arbitrary: st)
  case Nil
  then show ?case by simp
next
  case (Cons g gs)
  from Cons.prems(1) show ?case
  proof (cases rule: admit_waiting_cases)
    case Ignore
    show ?thesis by (rule Cons.IH [OF Ignore(1)]) simp
  next
    case Stop
    with Cons.prems(2) show ?thesis by simp
  next
    case Leave
    show ?thesis by (rule Cons.IH [OF Leave(1)]) (use Cons.prems(2) in simp)
  next
    case (Admit q bm)
    show ?thesis by (rule Cons.IH [OF Admit(9)]) simp
  qed
qed

lemma all_free:
  assumes "sched_ok {#} bm w []" and "plain_pool bm"
  shows "get_num_free_blocks (gpu_allocator bm) = num_total_gpu_blocks bm"
proof -
  have "held bm = {#}"
    using assms by (simp add: sched_ok_def no_stray_def held_def table_refs_def plain_pool_def prefix_refs_def)
  then have "refs_ok {#} bm" using assms(1) by (simp add: sched_ok_def queues_ok_def bm_inv_def)
  then have "alloc_ok GPU (gpu_allocator bm) (count {#})" unfolding refs_ok_def by metis
  then have d: "distinct (free_blocks (gpu_allocator bm))"
    and s0: "set (free_blocks (gpu_allocator bm)) = {b. fst b = GPU \<and> snd b < ba_num_blocks (gpu_allocator bm) \<and> count {#} b = 0}"
    unfolding alloc_ok_def by blast+
  have s: "set (free_blocks (gpu_allocator bm)) = {GPU} \<times> {..< ba_num_blocks (gpu_allocator bm)}"
    unfolding s0 by auto
  have "length (free_blocks (gpu_allocator bm)) = card ({GPU} \<times> {..< ba_num_blocks (gpu_allocator bm)})"
    unfolding s [symmetric] by (rule distinct_card [OF d, symmetric])
  then show ?thesis using assms(2) by (simp add: get_num_free_blocks_def plain_pool_def)
qed

text \<open>An idle engine admits or ignores its first waiting request.\<close>

lemma admit_first:
  assumes "sched_ok {#} (sch_bm s) (g # gs) []" and "plain_pool (sch_bm s)" and "admits_one s" and "running s = []"
    and "admit_waiting s (g # gs) (prompt_start s) = Inr (st, rest)"
  shows "ps_scheduled st \<noteq> [] \<or> ps_ignored st \<noteq> []"
proof -
  let ?st = "prompt_start s"
  have st0: "ps_bm ?st = sch_bm s" "ps_seq_lens ?st = []" "ps_num_curr_seqs ?st = 0" "ps_scheduled ?st = []" "ps_ignored ?st = []"
    using assms(4) by (simp_all add: prompt_start_def running_seqs_bound_def)
  obtain q where q: "single WAITING g q" using assms(1) by (auto simp: sched_ok_def queues_ok_def waits_def)
  note qs = single_get_seqs [OF q]
  have max1: "get_max_num_running_seqs g = 1" using q by (simp add: single_def)
  let ?ign = "?st\<lparr>ps_ignored := ps_ignored ?st @ [set_seqs_status WAITING FINISHED_IGNORED g]\<rparr>"
  obtain status where status: "can_allocate g (sch_bm s) = Inr status" using can_allocate_returns [of "sch_bm s" g] assms(1)
    by (auto simp: sched_ok_def queues_ok_def)
  have nl: "status \<noteq> LATER"
    using status all_free [OF assms(1,2)] qs
    by (auto simp: can_allocate_def Let_def split: if_splits)
  have lora: "\<not> lora_full s l g" for l using assms(3) by (simp add: lora_full_def admits_one_def)
  show ?thesis
  proof (cases "seq_get_len q > prompt_limit s \<or> status = NEVER")
    case True
    then have "admit_waiting s gs ?ign = Inr (st, rest)"
      using assms(5) qs status st0(1) by (cases "prompt_limit s < seq_get_len q") (simp_all add: Let_def)
    then show ?thesis by (rule admit_waiting_mono) simp
  next
    case False
    then have ok: "seq_get_len q \<le> prompt_limit s" "status = OK" using nl by auto (cases status, auto)
    obtain bm' where bm': "bm_allocate g (sch_bm s) = Inr bm'"
      using admit_ok [OF assms(1)] status ok(2) by auto
    have "max_list [seq_get_len q] = seq_get_len q" by (simp add: max_list_def)
    then have "admit_waiting s gs (?st\<lparr>ps_bm := bm', ps_seq_lens := [seq_get_len q],
        ps_curr_loras := lora_add s g (ps_curr_loras ?st), ps_num_curr_seqs := 1,
        ps_scheduled := [set_seqs_status WAITING RUNNING g]\<rparr>) = Inr (st, rest)"
      using assms(3,5) qs status ok bm' st0 lora max1 by (simp add: Let_def sch_allocate_def admits_one_def)
    then show ?thesis by (rule admit_waiting_mono) simp
  qed
qed

lemma schedule_prompts_some:
  assumes "schedule_prompts s = Inr (Some out, s')"
  shows "scheduled_seq_groups out \<noteq> [] \<or> ignored_seq_groups out \<noteq> []"
proof -
  obtain st gs where a: "admit_waiting s (waiting s) (prompt_start s) = Inr (st, gs)"
    using assms by (auto simp: schedule_prompts_def)
  then have "ps_scheduled st \<noteq> [] \<or> ps_ignored st \<noteq> []" and "\<exists>n. new_scheduler_outputs (ps_scheduled st) True n no_io (ps_ignored st) = Inr out"
    using assms by (auto simp: schedule_prompts_def Let_def split: if_splits)
  then show ?thesis using new_scheduler_outputs_fields(1,4) by (metis mset_zero_iff)
qed

lemma iter_progress:
  assumes "sch_schedule_iter now s = Inr (out, s')" and "sched_ok {#} (sch_bm s) (waiting s) (running s)" and "swapped s = []"
    and "plain_pool (sch_bm s)" and "admits_one s" and "waiting s \<noteq> [] \<or> running s \<noteq> []"
  shows "scheduled_seq_groups out \<noteq> [] \<or> ignored_seq_groups out \<noteq> [] \<or> running s \<noteq> [] \<and> running s' = []"
proof -
  obtain out1 s1 where p: "schedule_prompts s = Inr (out1, s1)"
    and o2: "(case out1 of Some out \<Rightarrow> Inr (out, s1) | None \<Rightarrow> schedule_decode now s1) = Inr (out, s')"
    using assms(1,3) by (auto simp: sch_schedule_iter_def)
  show ?thesis
  proof (cases out1)
    case (Some o1)
    with o2 p show ?thesis using schedule_prompts_some by auto
  next
    case None
    have "running s \<noteq> []"
    proof
      assume idle: "running s = []"
      then obtain g gs where w: "waiting s = g # gs" using assms(6) by (cases "waiting s") auto
      obtain st rest where a: "admit_waiting s (waiting s) (prompt_start s) = Inr (st, rest)" "ps_scheduled st = []" "ps_ignored st = []"
        using p None by (cases rule: schedule_prompts_cases) auto
      have "ps_scheduled st \<noteq> [] \<or> ps_ignored st \<noteq> []"
        by (rule admit_first [OF _ assms(4,5) idle a(1) [unfolded w]]) (use assms(2) idle w in simp)
      then show False using a(2,3) by simp
    qed
    moreover have "mset (running s') = mset (scheduled_seq_groups out)"
    proof -
      have "schedule_decode now s1 = Inr (out, s')" using o2 None by simp
      then show ?thesis by (cases rule: schedule_decode_cases) (use new_scheduler_outputs_fields(4) in auto)
    qed
    ultimately show ?thesis by (cases "scheduled_seq_groups out = []") auto
  qed
qed

section \<open>The work decreases\<close>

text \<open>An engine that can drain: the invariant, no prefixes, a token limit for every request.\<close>

definition drains :: "llm_engine \<Rightarrow> bool" where
  "drains e \<longleftrightarrow> engine_ok {#} e \<and> plain_pool (sch_bm (le_scheduler e)) \<and> admits_one (le_scheduler e) \<and>
     list_all limited (waiting (le_scheduler e) @ running (le_scheduler e))"

definition potential :: "llm_engine \<Rightarrow> nat" where
  "potential e = 2 * work (le_scheduler e) + (if running (le_scheduler e) = [] then 0 else 1)"

lemma retimed_left: "retimed g g' \<Longrightarrow> tokens_left g' = tokens_left g \<and> limited g' = limited g"
  by (auto simp: retimed_def tokens_left_def limited_def split: option.split)

lemma sum_list_mset_eq:
  fixes f :: "'a \<Rightarrow> nat"
  assumes "mset xs = mset ys"
  shows "sum_list (map f xs) = sum_list (map f ys)"
proof -
  have "sum_mset (mset (map f xs)) = sum_mset (mset (map f ys))" using assms by simp
  then show ?thesis unfolding sum_mset_sum_list .
qed

lemma sum_list_unfinished:
  assumes "\<forall>(g, g') \<in> set dn. grown g g' \<and> 0 < tokens_left g"
  shows "sum_list (map tokens_left (filter P (map snd dn))) + length dn \<le> sum_list (map tokens_left (map fst dn))"
  using assms by (induction dn) (force simp: tokens_left_grown)+

lemma retimed_sum:
  "list_all2 retimed r r' \<Longrightarrow> sum_list (map tokens_left r') = sum_list (map tokens_left r) \<and> list_all limited r' = list_all limited r"
  by (induction rule: list_all2_induct) (auto simp: retimed_left)

lemma step_drains:
  assumes "drains e" and "samples_all (ee_tokenizer_len env) execute" and "has_unfinished_requests e"
  shows "\<exists>ros e'. engine_step env now execute e = Inr (ros, e') \<and> drains e' \<and> potential e' < potential e \<and>
    finished_ids ros + queued (le_scheduler e') = queued (le_scheduler e)"
proof -
  let ?s = "le_scheduler e"
  have ok: "engine_ok {#} e" and pool: "plain_pool (sch_bm ?s)" and one: "admits_one ?s"
    and lim: "list_all limited (waiting ?s @ running ?s)" using assms(1) by (auto simp: drains_def)
  have sw: "swapped ?s = []" and sok: "sched_ok {#} (sch_bm ?s) (waiting ?s) (running ?s)"
    and pl: "list_all (plain (le_block_size e) (le_seq_counter e)) (waiting ?s @ running ?s)"
    using ok by (auto simp: engine_ok_def Let_def)
  from engine_step_details [OF ok assms(2), of now] obtain mds out s1 others ros e' dn where d:
    "engine_step env now execute e = Inr (ros, e')" "engine_ok {#} e'"
    "mset (running s1) = mset (scheduled_seq_groups out @ others)" "map fst dn = scheduled_seq_groups out"
    "processed (ignored_seq_groups out) others (e\<lparr>le_scheduler := s1, le_kv := (le_kv e)\<lparr>load_more_layer_on_card_num := 0\<rparr>\<rparr>) dn ros e'"
    "sch_config s1 = sch_config ?s" "swapped s1 = []"
    "\<exists>it. sch_schedule_iter now ?s = Inr (it, s1) \<and> out = it\<lparr>blocks_to_reorganize := []\<rparr>"
    "sch_schedule now (le_kv e) ?s = Inr (mds, out, le_kv e, s1)" by blast
  obtain it where it: "sch_schedule_iter now ?s = Inr (it, s1)" "out = it\<lparr>blocks_to_reorganize := []\<rparr>" using d(8) by blast
  let ?gs = "scheduled_seq_groups out" and ?ign = "ignored_seq_groups out"
  obtain r where r: "mset r = mset (filter (\<lambda>g. \<not> sg_is_finished g) (map snd dn) @ others)" "list_all2 retimed r (running (le_scheduler e'))"
    using d(5) by (auto simp: processed_def)
  have p: "\<forall>(g, g') \<in> set dn. grown g g'" "waiting (le_scheduler e') = waiting s1" "engine_config e' = engine_config (e\<lparr>le_scheduler := s1\<rparr>)"
    "plain_pool (sch_bm s1) \<longrightarrow> plain_pool (sch_bm (le_scheduler e'))"
    using d(5) by (auto simp: processed_def engine_config_def)
  have all: "list_all (plain (le_block_size e) (le_seq_counter e)) (waiting s1 @ running s1 @ ?gs @ ?ign)"
    "list_all limited (waiting s1 @ running s1 @ ?gs @ ?ign)"
    using plain.schedule_iter_all [OF it(1)] limited.schedule_iter_all [OF it(1)] sw pl lim it(2) by auto
  have pos: "0 < tokens_left g" if "g \<in> set (?gs @ ?ign)" for g
    by (rule tokens_left_pos [of "le_block_size e" "le_seq_counter e"]) (use all that in \<open>auto simp: list_all_iff\<close>)
  have dnpos: "\<forall>(g, g') \<in> set dn. grown g g' \<and> 0 < tokens_left g"
  proof -
    have "0 < tokens_left (fst x)" if "x \<in> set dn" for x
      using pos d(4) that by (metis Un_iff image_eqI list.set_map set_append)
    then show ?thesis using p(1) by force
  qed
  have "sum_mset (tokens_left.all_bag s1 + tokens_left.bag ?ign) = sum_mset (tokens_left.all_bag ?s)"
    using tokens_left.iter_bag [OF it(1)] by (simp add: it(2) del: mset_map)
  then have w1: "work s1 + sum_list (map tokens_left ?ign) = work ?s"
    by (simp only: work_bag sum_mset.union sum_mset_sum_list)
  have w2: "work (le_scheduler e') = sum_list (map tokens_left (waiting s1)) + sum_list (map tokens_left r)"
    using retimed_sum [OF r(2)] p(2) d(2) by (simp add: work_def engine_ok_def Let_def)
  have "sum_list (map tokens_left r) + length dn \<le> sum_list (map tokens_left (map fst dn)) + sum_list (map tokens_left others)"
    using sum_list_unfinished [OF dnpos, of "\<lambda>g. \<not> sg_is_finished g"] sum_list_mset_eq [OF r(1), of tokens_left] by simp
  moreover have "sum_list (map tokens_left (running s1)) = sum_list (map tokens_left (map fst dn)) + sum_list (map tokens_left others)"
    using sum_list_mset_eq [OF d(3), of tokens_left] d(4) by simp
  ultimately have w3: "work (le_scheduler e') + length dn \<le> work s1"
    using w2 d(7) by (simp add: work_def)
  have w4: "length ?ign \<le> sum_list (map tokens_left ?ign)"
  proof -
    have "sum_list (map (\<lambda>g. 1) ?ign) \<le> sum_list (map tokens_left ?ign)"
      by (rule sum_list_mono) (use pos in \<open>simp add: Suc_leI\<close>)
    then show ?thesis by (simp add: sum_list_triv)
  qed
  have prog: "?gs \<noteq> [] \<or> ?ign \<noteq> [] \<or> running ?s \<noteq> [] \<and> running s1 = []"
    using iter_progress [OF it(1) sok sw pool one] assms(3) sw
    by (simp add: it(2) has_unfinished_requests_def sch_has_unfinished_seqs_def)
  have less: "potential e' < potential e"
  proof (cases "?gs = [] \<and> ?ign = []")
    case True
    then have run: "running ?s \<noteq> []" "running s1 = []" using prog by auto
    then have "r = []" using r(1) d(3) d(4) True by auto
    then have "running (le_scheduler e') = []" using r(2) by simp
    then show ?thesis using run w1 w3 by (simp add: potential_def)
  next
    case False
    then have "0 < length dn + length ?ign" using d(4) by auto
    then have "work (le_scheduler e') < work ?s" using w1 w3 w4 by linarith
    then show ?thesis by (simp add: potential_def)
  qed
  have "list_all limited (waiting (le_scheduler e') @ running (le_scheduler e'))"
  proof -
    have "limited g'" if "(g, g') \<in> set dn" for g g'
    proof -
      have "g \<in> set ?gs" using that d(4) by (metis fst_conv image_eqI list.set_map)
      then show ?thesis using all(2) that p(1) by (auto simp: list_all_iff limited_def grown_def)
    qed
    moreover have "set others \<subseteq> set (running s1)" using mset_eq_setD [OF d(3)] by simp
    ultimately have "list_all limited r" using all(2) mset_eq_setD [OF r(1)] by (auto simp: list_all_iff)
    then show ?thesis using retimed_sum [OF r(2)] p(2) all(2) by simp
  qed
  moreover have "plain_pool (sch_bm (le_scheduler e'))"
    using p(4) plain_pool.schedule_iter_kept [OF it(1) pool] by simp
  moreover have "admits_one (le_scheduler e')"
    using p(3) d(6) one admits_one_config [of "le_scheduler e'" ?s] by (simp add: engine_config_def)
  ultimately have "drains e'" using d(2) by (simp add: drains_def)
  then show ?thesis using d(1) less engine_step_conserves [OF ok assms(2) d(1)] by blast
qed

section \<open>The loop\<close>

text \<open>
  The loop of \<open>_run_engine\<close> without requests from other models: step while there are requests, unless
  the model is told to stop, and collect the finished outputs. \<open>now i\<close> is the time of step \<open>i\<close>, \<open>halt i\<close>
  what \<^verbatim>\<open>should_reschedule() and NO_PREEMPT == 'False'\<close> says before it. The loop may run forever, so it
  is partial. It returns the outputs, the engine and the number of steps.
\<close>

partial_function (option) run_engine_loop ::
    "engine_env \<Rightarrow> (sequence_group_metadata list \<Rightarrow> scheduler_outputs \<Rightarrow> sequence_group_output list) \<Rightarrow> (nat \<Rightarrow> float64)
     \<Rightarrow> (nat \<Rightarrow> bool) \<Rightarrow> nat \<Rightarrow> llm_engine \<Rightarrow> request_output list \<Rightarrow> (request_output list \<times> llm_engine \<times> nat) result option" where
  "run_engine_loop env execute now halt step_i e outputs =
     (if \<not> has_unfinished_requests e then Some (Inr (outputs, e, step_i))
      else if halt (Suc step_i) then Some (Inr (outputs, e, Suc step_i))
      else case engine_step env (now (Suc step_i)) execute e of
             Inl x \<Rightarrow> Some (Inl x)
           | Inr (step_outputs, e) \<Rightarrow>
               run_engine_loop env execute now halt (Suc step_i) e (outputs @ filter ro_finished step_outputs))"

lemma queued_none: "\<not> has_unfinished_requests e \<Longrightarrow> queued (le_scheduler e) = {#}"
  by (simp add: queued_def has_unfinished_requests_def sch_has_unfinished_seqs_def)

lemma run_engine_loop_ends:
  assumes "drains e" and "samples_all (ee_tokenizer_len env) execute"
  shows "\<exists>outs e' n. run_engine_loop env execute now halt i e outputs = Some (Inr (outputs @ outs, e', n)) \<and>
    (has_unfinished_requests e' \<longrightarrow> halt n) \<and> drains e' \<and> list_all ro_finished outs \<and>
    mset (map ro_request_id outs) + queued (le_scheduler e') = queued (le_scheduler e) \<and> n \<le> Suc (i + potential e)"
  using assms(1)
proof (induction "potential e" arbitrary: e i outputs rule: less_induct)
  case less
  consider "\<not> has_unfinished_requests e" | "has_unfinished_requests e" "halt (Suc i)" | "has_unfinished_requests e" "\<not> halt (Suc i)"
    by blast
  then show ?case
  proof cases
    case 1
    then show ?thesis using less.prems
      by (intro exI [of _ "[]"] exI [of _ e] exI [of _ i]) (simp add: run_engine_loop.simps [of _ _ _ _ _ e])
  next
    case 2
    then show ?thesis using less.prems
      by (intro exI [of _ "[]"] exI [of _ e] exI [of _ "Suc i"]) (simp add: run_engine_loop.simps [of _ _ _ _ _ e])
  next
    case 3
    obtain ros e1 where st: "engine_step env (now (Suc i)) execute e = Inr (ros, e1)" "drains e1" "potential e1 < potential e"
      "finished_ids ros + queued (le_scheduler e1) = queued (le_scheduler e)"
      using step_drains [OF less.prems assms(2) 3(1), of "now (Suc i)"] by blast
    from less.hyps [OF st(3,2), of "Suc i" "outputs @ filter ro_finished ros"] obtain outs e2 n where
      "run_engine_loop env execute now halt (Suc i) e1 (outputs @ filter ro_finished ros) = Some (Inr ((outputs @ filter ro_finished ros) @ outs, e2, n))"
      "has_unfinished_requests e2 \<longrightarrow> halt n" "drains e2" "list_all ro_finished outs"
      "mset (map ro_request_id outs) + queued (le_scheduler e2) = queued (le_scheduler e1)" "n \<le> Suc (Suc i + potential e1)"
      by blast
    then show ?thesis using 3 st(1,3,4)
      by (intro exI [of _ "filter ro_finished ros @ outs"] exI [of _ e2] exI [of _ n])
        (auto simp: run_engine_loop.simps [of _ _ _ _ _ e] finished_ids_def list_all_iff add.assoc)
  qed
qed

text \<open>What the loop returns and what stays queued are what was queued, view by view.\<close>

context answered_view
begin

lemma loop_answers:
  assumes "run_engine_loop env execute now halt i e outputs = Some (Inr (outs, e', n))" and "engine_ok E e"
    and "samples_all (ee_tokenizer_len env) execute"
  shows "mset (map answer outs) + all_bag (le_scheduler e') = mset (map answer outputs) + all_bag (le_scheduler e)"
proof -
  have "engine_ok E e \<longrightarrow> samples_all (ee_tokenizer_len env) execute \<longrightarrow> r = Inr (outs, e', n) \<longrightarrow>
      mset (map answer outs) + all_bag (le_scheduler e') = mset (map answer outputs) + all_bag (le_scheduler e)"
    if "run_engine_loop env execute now halt i e outputs = Some r" for r
    using that
  proof (induction rule: run_engine_loop.raw_induct [rotated 1, consumes 1])
    case (1 loop env execute now halt i e outputs r)
    show ?case
    proof (intro impI)
      assume a: "engine_ok E e" "samples_all (ee_tokenizer_len env) execute" "r = Inr (outs, e', n)"
      consider "outs = outputs \<and> e' = e" | ros e1 where "engine_step env (now (Suc i)) execute e = Inr (ros, e1)"
        "loop env execute now halt (Suc i) e1 (outputs @ filter ro_finished ros) = Some r"
        using "1.hyps" a(3) by (auto split: if_splits sum.splits)
      then show "mset (map answer outs) + all_bag (le_scheduler e') = mset (map answer outputs) + all_bag (le_scheduler e)"
      proof cases
        case 1
        then show ?thesis by simp
      next
        case (2 ros e1)
        have "engine_ok E e1" using engine_step_keeps(1) [OF a(1,2) 2(1)] .
        then have "mset (map answer outs) + all_bag (le_scheduler e') = mset (map answer (outputs @ filter ro_finished ros)) + all_bag (le_scheduler e1)"
          using "1.IH" [OF 2(2)] a(2,3) by blast
        then show ?thesis using step_conserves [OF a(1,2) 2(1)] by (simp add: add.assoc del: mset_map)
      qed
    qed
  qed
  then show ?thesis using assms by blast
qed

end

text \<open>C2: The engine drains: whatever the model samples and whatever preemption does, the loop that steps the engine
  while it has requests ends without an error after at most twice as many steps as tokens are allowed,
  with exactly one finished output for every queued request, and with no block table left.\<close>

theorem run_engine_drains:
  assumes "drains e" and "samples_all (ee_tokenizer_len env) execute"
  shows "\<exists>outs e' n. run_engine_loop env execute now (\<lambda>_. False) 0 e [] = Some (Inr (outs, e', n)) \<and> \<not> has_unfinished_requests e' \<and>
    list_all ro_finished outs \<and> mset (map ro_request_id outs) = queued (le_scheduler e) \<and>
    n \<le> 2 + 2 * work (le_scheduler e) \<and> block_tables (sch_bm (le_scheduler e')) = []"
proof -
  from run_engine_loop_ends [OF assms, of now "\<lambda>_. False" 0 "[]"] obtain outs e' n where l:
    "run_engine_loop env execute now (\<lambda>_. False) 0 e [] = Some (Inr (outs, e', n))" "\<not> has_unfinished_requests e'" "drains e'"
    "list_all ro_finished outs" "mset (map ro_request_id outs) + queued (le_scheduler e') = queued (le_scheduler e)"
    "n \<le> Suc (potential e)" by auto
  have "block_tables (sch_bm (le_scheduler e')) = []"
    using l(2,3) by (simp add: drains_def engine_ok_def Let_def sched_ok_def no_stray_def has_unfinished_requests_def
      sch_has_unfinished_seqs_def)
  moreover have "potential e \<le> Suc (2 * work (le_scheduler e))" by (simp add: potential_def)
  ultimately show ?thesis using l queued_none [OF l(2)] by fastforce
qed

text \<open>A model that is told to stop loses nothing: the finished outputs and the requests still queued in the engine are
  the requests it had.\<close>

lemma run_engine_stopped:
  assumes "drains e" and "samples_all (ee_tokenizer_len env) execute"
  shows "\<exists>outs e' n. run_engine_loop env execute now halt 0 e [] = Some (Inr (outs, e', n)) \<and> engine_ok {#} e' \<and>
    (has_unfinished_requests e' \<longrightarrow> halt n) \<and> mset (map ro_request_id outs) + queued (le_scheduler e') = queued (le_scheduler e)"
  using run_engine_loop_ends [OF assms, of now halt 0 "[]"] by (auto simp: drains_def)

end
