(* ===== verification/Serve_Props.thy ===== *)
theory Serve_Props
  imports Serve Engine_Live
begin

text \<open>
  The loop of the \<open>LLM\<close> object in single-model mode is the plain loop over the engine, and a restarted model
  takes over the unfinished requests of the workers of the previous plan.
\<close>

section \<open>Single-model mode\<close>

text \<open>What the plain loop returns, seen in the state of the full one.\<close>

definition loop_view :: "serve_state result \<Rightarrow> (request_output list \<times> llm_engine \<times> nat) result" where
  "loop_view r = (case r of Inl x \<Rightarrow> Inl x | Inr st \<Rightarrow> Inr (sv_outputs st, lm_engine st, sv_step st))"

lemma single_model:
  assumes "map_of (se_environ env) ''RUN_MULTI_MODEL'' = Some ''False''"
  shows "run_multi_model (se_environ env) = Inr False" "fetch_phase env st = Some (Inr st)"
    "told_to_stop env st = Inr False"
  using assms by (simp_all add: run_multi_model_def dict_get_def fetch_phase_def told_to_stop_def should_reschedule_def)

lemma serve_turn_single:
  assumes "map_of (se_environ env) ''RUN_MULTI_MODEL'' = Some ''False''"
  shows "serve_turn env st =
    (if \<not> has_unfinished_requests (lm_engine st) then Inr (False, st)
     else ebind (engine_step (se_engine env) (se_now env (Suc (sv_step st))) (se_execute env) (lm_engine st)) (\<lambda>(ros, e).
       Inr (True, (look env (st\<lparr>sv_step := Suc (sv_step st)\<rparr>))\<lparr>lm_engine := e, sv_outputs := sv_outputs st @ filter ro_finished ros\<rparr>)))"
  using assms single_model(3) [OF assms]
  by (simp add: serve_turn_def dict_get_def look_def Let_def split_beta)

lemma look_simps [simp]:
  "lm_engine (look env st) = lm_engine st" "sv_outputs (look env st) = sv_outputs st" "sv_step (look env st) = sv_step st"
  "sv_sent (look env st) = sv_sent st" "sv_possible (look env st) = sv_possible st" "sv_fetched (look env st) = sv_fetched st"
  "lm_counter (look env st) = lm_counter st" "sv_tick (look env st) = Suc (sv_tick st)"
  by (simp_all add: look_def split_beta)

lemma serve_loop_same:
  assumes "serve_loop env st = Some r"
  shows "map_of (se_environ env) ''RUN_MULTI_MODEL'' = Some ''False'' \<longrightarrow>
      run_engine_loop (se_engine env) (se_execute env) (se_now env) (\<lambda>_. False) (sv_step st) (lm_engine st) (sv_outputs st) =
      Some (loop_view r)"
  using assms
proof (induction rule: serve_loop.raw_induct [rotated 1, consumes 1])
  case (1 loop env st r)
  show ?case
  proof
    assume s: "map_of (se_environ env) ''RUN_MULTI_MODEL'' = Some ''False''"
    note step = "1"(2) [unfolded single_model(2) [OF s] serve_turn_single [OF s]]
    show "run_engine_loop (se_engine env) (se_execute env) (se_now env) (\<lambda>_. False) (sv_step st) (lm_engine st) (sv_outputs st) =
        Some (loop_view r)"
      using step s
      by (subst run_engine_loop.simps) (auto simp: ebind_def loop_view_def split: if_splits sum.splits dest!: "1"(1))
  qed
qed

lemma serve_loop_also_ends:
  assumes "run_engine_loop ee execute now halt i e outs = Some x" and "ee = se_engine env" "execute = se_execute env" "now = se_now env"
    "halt = (\<lambda>_. False)" "i = sv_step st" "e = lm_engine st" and "map_of (se_environ env) ''RUN_MULTI_MODEL'' = Some ''False''"
  shows "\<exists>r. serve_loop env st = Some r"
  using assms(1-7)
proof (induction arbitrary: st rule: run_engine_loop.raw_induct [rotated 1, consumes 1])
  case (1 loop ee execute now halt i e outs x)
  show ?case
  proof (cases "has_unfinished_requests e")
    case False
    then show ?thesis using "1.prems" 
      by (subst serve_loop.simps) (simp add: single_model(2) [OF assms(8)] serve_turn_single [OF assms(8)])
  next
    case True
    show ?thesis
    proof (cases "engine_step ee (now (Suc i)) execute e")
      case (Inl a)
      then show ?thesis using "1.prems" True
        by (subst serve_loop.simps) (simp add: single_model(2) [OF assms(8)] serve_turn_single [OF assms(8)])
    next
      case (Inr p)
      obtain ros e' where p: "p = (ros, e')" by (cases p)
      let ?st = "(look env (st\<lparr>sv_step := Suc (sv_step st)\<rparr>))\<lparr>lm_engine := e', sv_outputs := sv_outputs st @ filter ro_finished ros\<rparr>"
      have "loop ee execute now halt (Suc i) e' (outs @ filter ro_finished ros) = Some x"
        using "1.hyps" True Inr p "1.prems" by simp
      from "1.IH" [OF this "1.prems"(1-4), of ?st] obtain r where "serve_loop env ?st = Some r"
        using "1.prems" by auto
      then show ?thesis using "1.prems" True Inr p
        by (subst serve_loop.simps) (simp add: single_model(2) [OF assms(8)] serve_turn_single [OF assms(8)])
    qed
  qed
qed

text \<open>C20: In single-model mode the loop of \<open>_run_engine\<close>, with all its exits and exchanges, is the plain loop that
  steps the engine while it has requests: it ends in the same cases, with the same error or the same
  outputs, engine and number of steps.\<close>

theorem serve_loop_single:
  assumes "map_of (se_environ env) ''RUN_MULTI_MODEL'' = Some ''False''"
  shows "map_option loop_view (serve_loop env st) =
    run_engine_loop (se_engine env) (se_execute env) (se_now env) (\<lambda>_. False) (sv_step st) (lm_engine st) (sv_outputs st)"
proof (cases "serve_loop env st")
  case None
  then show ?thesis using serve_loop_also_ends [OF _ refl refl refl refl refl refl assms, of st "sv_outputs st"]
    by (cases "run_engine_loop (se_engine env) (se_execute env) (se_now env) (\<lambda>_. False) (sv_step st) (lm_engine st) (sv_outputs st)") auto
next
  case (Some r)
  then show ?thesis using serve_loop_same assms by simp
qed

section \<open>Restarting a model\<close>

text \<open>A request that can be queued in an engine of block size \<open>bs\<close> once its sequence has a fresh id.\<close>

definition restartable :: "nat \<Rightarrow> sequence_group \<Rightarrow> bool" where
  "restartable bs g \<longleftrightarrow> (\<exists>n q. plain bs n g \<and> single WAITING g q \<and> sg_prefix g = None)"

definition renumbered :: "int \<Rightarrow> sequence_group \<Rightarrow> sequence_group" where
  "renumbered c g = g\<lparr>seqs_dict := map (\<lambda>q. (c, q\<lparr>seq_id := c\<rparr>)) (dict_values (seqs_dict g))\<rparr>"

lemma renumber_one:
  assumes "seqs_dict g = [(k, q)]"
  shows "renumber_seqs g c = (renumbered c g, c + 1)"
  using assms by (simp add: renumber_seqs_def renumbered_def counter_next_def)

lemma renumbered_ok:
  assumes "restartable bs g"
  shows "plain bs (c + 1) (renumbered c g)" "\<exists>q. single WAITING (renumbered c g) q \<and> seq_id q = c" "request_id (renumbered c g) = request_id g"
    "sg_prefix (renumbered c g) = None" "sid (renumbered c g) = c"
proof -
  obtain n q q' where g: "plain bs n g" "single WAITING g q'" "sg_prefix g = None" "seqs_dict g = [(seq_id q, q)]"
    "seq_ok q" "seq_block_size q = bs" "has_room (sg_sampling_params g) q" "\<not> use_beam_search (sg_sampling_params g)"
    using assms by (auto simp: restartable_def plain_def)
  have d: "seqs_dict (renumbered c g) = [(c, q\<lparr>seq_id := c\<rparr>)]" using g(4) by (simp add: renumbered_def)
  have sp: "sg_sampling_params (renumbered c g) = sg_sampling_params g" by (simp add: renumbered_def)
  have "seq_ok (q\<lparr>seq_id := c\<rparr>)" using g(5) by (simp add: seq_ok_def seq_get_token_ids_def)
  moreover have "has_room (sg_sampling_params g) (q\<lparr>seq_id := c\<rparr>)" using g(7) by (simp add: has_room_def seq_get_output_len_def)
  ultimately show "plain bs (c + 1) (renumbered c g)" unfolding plain_def d sp using g(6,8) by simp
  have "q' = q" using g(2,4) by (simp add: single_def)
  then have q: "single WAITING g q" using g(2) by simp
  have "get_max_num_running_seqs (renumbered c g) = get_max_num_running_seqs g"
    unfolding get_max_num_running_seqs_def num_seqs_def num_unfinished_seqs_def get_unfinished_seqs_def get_seqs_None d sp g(4)
    by (simp add: seq_is_finished_def)
  then have "single WAITING (renumbered c g) (q\<lparr>seq_id := c\<rparr>)" using q d by (simp add: single_def)
  then show "\<exists>q. single WAITING (renumbered c g) q \<and> seq_id q = c" "sid (renumbered c g) = c"
    by (auto simp: single_sid)
qed (use assms in \<open>auto simp: renumbered_def restartable_def\<close>)

lemma correct_seq_ids_fold:
  assumes "list_all (restartable bs) gs"
  shows "fold (\<lambda>g (gs, c). let (g, c) = renumber_seqs g c in (gs @ [g], c)) gs (acc, c) =
    (acc @ map (\<lambda>(i, g). renumbered (c + int i) g) (enumerate 0 gs), c + int (length gs))"
  using assms
proof (induction gs arbitrary: acc c)
  case Nil
  then show ?case by simp
next
  case (Cons g gs)
  obtain k q where "seqs_dict g = [(k, q)]" using Cons.prems by (auto simp: restartable_def plain_def)
  note r = renumber_one [OF this, of c]
  have m: "map (\<lambda>(i, g). renumbered (c + 1 + int i) g) (enumerate 0 gs) = map (\<lambda>(i, g). renumbered (c + int i) g) (enumerate (Suc 0) gs)"
    by (rule nth_equalityI) (simp_all add: nth_enumerate_eq algebra_simps)
  show ?case using Cons.IH [of "acc @ [renumbered c g]" "c + 1"] Cons.prems by (simp add: r m)
qed

lemma correct_seq_ids_ok:
  assumes "engine_ok E e" and "waiting (le_scheduler e) = []" and "running (le_scheduler e) = []"
    and "list_all (restartable (le_block_size e)) gs" and "one_kind gs"
  shows "let e' = correct_seq_ids (e\<lparr>le_scheduler := (le_scheduler e)\<lparr>waiting := gs\<rparr>\<rparr>) in
    engine_ok E e' \<and> queued (le_scheduler e') = ids gs \<and>
    distinct (map sid (waiting (le_scheduler e')))"
proof -
  let ?c = "le_seq_counter e" and ?s = "le_scheduler e"
  let ?w = "map (\<lambda>(i, g). renumbered (?c + int i) g) (enumerate 0 gs)"
  let ?e = "e\<lparr>le_seq_counter := ?c + int (length gs), le_scheduler := ?s\<lparr>waiting := ?w\<rparr>\<rparr>"
  have run: "correct_seq_ids (e\<lparr>le_scheduler := ?s\<lparr>waiting := gs\<rparr>\<rparr>) = ?e"
    using correct_seq_ids_fold [OF assms(4), of "[]" ?c] by (simp add: correct_seq_ids_def)
  have inv: "sched_ok E (sch_bm ?s) [] []" "swapped ?s = []" "\<not> dynamic_increase_oncard_weights ?s" "0 < le_block_size e"
    using assms(1-3) by (auto simp: engine_ok_def Let_def)
  have nth: "i < length gs \<Longrightarrow> restartable (le_block_size e) (gs ! i)" for i using assms(4) by (simp add: list_all_iff)
  have tabs: "block_tables (sch_bm ?s) = []" using inv(1) by (simp add: sched_ok_def no_stray_def)
  have sids: "map sid ?w = map (\<lambda>i. ?c + int i) [0..<length gs]"
    by (rule nth_equalityI) (simp_all add: nth_enumerate_eq renumbered_ok(5) [OF nth])
  have w: "waits (sch_bm ?s) g \<and> plain (le_block_size e) (?c + int (length gs)) g" if "g \<in> set ?w" for g
  proof -
    from that obtain i where i: "i < length gs" "g = renumbered (?c + int i) (gs ! i)"
      unfolding in_set_conv_nth by (auto simp: nth_enumerate_eq)
    note r = renumbered_ok [OF nth [OF i(1)], of "?c + int i"]
    have "plain (le_block_size e) (?c + int (length gs)) g" unfolding i(2) by (rule plain_mono [OF r(1)]) (use i(1) in simp)
    then show ?thesis using r(2,4) tabs unfolding i(2) waits_def prefix_fits_def by auto
  qed
  have ids: "map request_id ?w = map request_id gs"
    by (rule nth_equalityI) (simp_all add: nth_enumerate_eq renumbered_ok(3) [OF nth])
  then have "request_id ` set ?w = request_id ` set gs" by (metis list.set_map)
  then have "one_kind ?w" using assms(5) unfolding one_kind_def by (metis (no_types, lifting) image_iff)
  moreover have fresh: "distinct (map sid ?w)" unfolding sids by (simp add: distinct_map inj_on_def)
  ultimately have "sched_ok E (sch_bm ?s) ?w []"
    using inv(1) w by (simp add: sched_ok_def queues_ok_def)
  then have "engine_ok E ?e" using inv(2-4) w assms(3) by (simp add: engine_ok_def Let_def list_all_iff)
  moreover have "queued (le_scheduler ?e) = ids gs" using inv(2) assms(3) ids by (simp add: queued_def del: map_map mset_map)
  ultimately show ?thesis unfolding run Let_def using fresh by simp
qed


lemma move_to_waiting_ok:
  assumes "\<And>g. g \<in> set gs \<Longrightarrow> num_seqs (Some RUNNING) g \<le> 1"
  shows "move_to_waiting gs = Inr (map (set_seqs_status RUNNING WAITING) gs)"
proof -
  have "efold (\<lambda>g acc. ebind (py_assert (num_seqs (Some RUNNING) g \<le> 1)) (\<lambda>_. Inr (acc @ [set_seqs_status RUNNING WAITING g]))) gs acc =
      Inr (acc @ map (set_seqs_status RUNNING WAITING) gs)" for acc
    using assms by (induction gs arbitrary: acc) (simp_all del: ebind_eq_Inr)
  then show ?thesis by (simp add: move_to_waiting_def)
qed

definition no_prefixes :: "llm_engine \<Rightarrow> bool" where
  "no_prefixes e \<longleftrightarrow> (\<forall>g \<in> set (waiting (le_scheduler e) @ running (le_scheduler e)). sg_prefix g = None)"

lemma set_status_core [simp]:
  "request_id (set_seqs_status a b g) = request_id g" "sg_prefix (set_seqs_status a b g) = sg_prefix g"
  by (simp_all add: set_seqs_status_def)

lemma waits_unmoved: "single WAITING g q \<Longrightarrow> set_seqs_status RUNNING WAITING g = g"
  unfolding set_seqs_status_def by (cases g) (auto simp: single_def intro!: map_idI)

lemma get_unfinished_returns:
  assumes "engine_ok E e"
  shows "sch_get_unfinished_seqs (le_scheduler e) =
    Inr (map (set_seqs_status RUNNING WAITING) (running (le_scheduler e)) @ waiting (le_scheduler e),
         (le_scheduler e)\<lparr>running := map (set_seqs_status RUNNING WAITING) (running (le_scheduler e))\<rparr>)"
proof -
  let ?s = "le_scheduler e"
  have inv: "sched_ok E (sch_bm ?s) (waiting ?s) (running ?s)" "swapped ?s = []" using assms by (auto simp: engine_ok_def Let_def)
  have r: "\<exists>q. single RUNNING g q" if "g \<in> set (running ?s)" for g
    using inv(1) that by (auto simp: sched_ok_def queues_ok_def runs_def)
  have w: "\<exists>q. single WAITING g q" if "g \<in> set (waiting ?s)" for g
    using inv(1) that by (auto simp: sched_ok_def queues_ok_def waits_def)
  have n1: "num_seqs (Some RUNNING) g \<le> 1" if "single st g q" for st g q
    using that by (auto simp: num_seqs_def single_def get_seqs_Some)
  have "move_to_waiting (running ?s) = Inr (map (set_seqs_status RUNNING WAITING) (running ?s))"
    by (rule move_to_waiting_ok) (use r n1 in blast)
  moreover have "move_to_waiting (waiting ?s) = Inr (map (set_seqs_status RUNNING WAITING) (waiting ?s))"
    by (rule move_to_waiting_ok) (use w n1 in blast)
  moreover have "map (set_seqs_status RUNNING WAITING) (waiting ?s) = waiting ?s"
    by (rule map_idI) (use w waits_unmoved in blast)
  moreover have "move_to_waiting [] = Inr []" by (simp add: move_to_waiting_def)
  ultimately show ?thesis using inv(2) by (simp add: sch_get_unfinished_seqs_def del: ebind_eq_Inr)
qed

lemma unfinished_restartable:
  assumes "engine_ok E e" and "no_prefixes e"
  shows "\<exists>gs s'. sch_get_unfinished_seqs (le_scheduler e) = Inr (gs, s') \<and> list_all (restartable (le_block_size e)) gs \<and>
    ids gs = queued (le_scheduler e)"
proof -
  let ?s = "le_scheduler e" and ?r = "map (set_seqs_status RUNNING WAITING) (running (le_scheduler e))"
  have inv: "sched_ok E (sch_bm ?s) (waiting ?s) (running ?s)" "swapped ?s = []"
    "list_all (plain (le_block_size e) (le_seq_counter e)) (waiting ?s @ running ?s)"
    using assms(1) by (auto simp: engine_ok_def Let_def)
  have "restartable (le_block_size e) (set_seqs_status RUNNING WAITING g)" if "g \<in> set (running ?s)" for g
  proof -
    from inv(1) that obtain q where q: "single RUNNING g q" by (auto simp: sched_ok_def queues_ok_def runs_def)
    have "plain (le_block_size e) (le_seq_counter e) (set_seqs_status RUNNING WAITING g)"
      by (rule plain_status) (use inv(3) that in \<open>simp add: list_all_iff\<close>)
    then show ?thesis using single_status [OF q, of WAITING] that assms(2)
      by (auto simp: restartable_def no_prefixes_def)
  qed
  moreover have "restartable (le_block_size e) g" if "g \<in> set (waiting ?s)" for g
  proof -
    from inv(1) that obtain q where "single WAITING g q" by (auto simp: sched_ok_def queues_ok_def waits_def)
    then show ?thesis using inv(3) that assms(2) by (auto simp: restartable_def no_prefixes_def list_all_iff)
  qed
  ultimately have "list_all (restartable (le_block_size e)) (?r @ waiting ?s)" by (auto simp: list_all_iff)
  moreover have "ids (?r @ waiting ?s) = queued ?s"
    using inv(2) by (simp add: queued_def o_def add.commute)
  ultimately show ?thesis using get_unfinished_returns [OF assms(1)] by blast
qed

lemma all_unfinished_restartable:
  assumes "list_all (\<lambda>w. engine_ok E w \<and> no_prefixes w \<and> le_block_size w = bs) ws"
  shows "\<exists>rs. list_all2 (\<lambda>w r. \<exists>s. sch_get_unfinished_seqs (le_scheduler w) = Inr (r, s)) ws rs \<and>
    list_all (restartable bs) (concat rs) \<and> ids (concat rs) = sum_list (map (\<lambda>w. queued (le_scheduler w)) ws)"
  using assms
proof (induction ws)
  case Nil
  then show ?case by simp
next
  case (Cons w ws)
  from Cons.IH Cons.prems obtain rs where rs: "list_all2 (\<lambda>w r. \<exists>s. sch_get_unfinished_seqs (le_scheduler w) = Inr (r, s)) ws rs"
    "list_all (restartable bs) (concat rs)" "ids (concat rs) = sum_list (map (\<lambda>w. queued (le_scheduler w)) ws)"
    by (auto simp del: mset_map)
  from Cons.prems obtain r s where r: "sch_get_unfinished_seqs (le_scheduler w) = Inr (r, s)" "list_all (restartable bs) r"
    "ids r = queued (le_scheduler w)"
    using unfinished_restartable [of E w] by (auto simp del: mset_map)
  show ?case using rs r by (intro exI [of _ "r # rs"]) (simp del: mset_map add: mset_map [of _ "r @ concat rs"] mset_map [symmetric])
qed

text \<open>C19: A rescheduled model loses no request: the workers of one plan stop with all their unfinished requests, and the
  worker of the next plan that takes these requests over renumbers their sequences into a sound engine that
  has exactly those requests queued, although the sequence ids of different workers clash.\<close>

theorem restart_keeps_requests:
  assumes "list_all (\<lambda>w. engine_ok E w \<and> no_prefixes w \<and> le_block_size w = le_block_size e) ws"
    and "engine_ok E' e" and "waiting (le_scheduler e) = []" and "running (le_scheduler e) = []"
    and "list_all (\<lambda>w. \<forall>r \<in># queued (le_scheduler w). is_int_id r) ws"
  shows "\<exists>rs. list_all2 (\<lambda>w r. \<exists>s. sch_get_unfinished_seqs (le_scheduler w) = Inr (r, s)) ws rs \<and>
    (let e' = correct_seq_ids (e\<lparr>le_scheduler := (le_scheduler e)\<lparr>waiting := concat rs\<rparr>\<rparr>) in
     engine_ok E' e' \<and> queued (le_scheduler e') = sum_list (map (\<lambda>w. queued (le_scheduler w)) ws) \<and>
     distinct (map sid (waiting (le_scheduler e'))))"
proof -
  obtain rs where rs: "list_all2 (\<lambda>w r. \<exists>s. sch_get_unfinished_seqs (le_scheduler w) = Inr (r, s)) ws rs"
    "list_all (restartable (le_block_size e)) (concat rs)" "ids (concat rs) = sum_list (map (\<lambda>w. queued (le_scheduler w)) ws)"
    using all_unfinished_restartable [OF assms(1)] by blast
  have "\<forall>r \<in># sum_list (map (\<lambda>w. queued (le_scheduler w)) ws). is_int_id r"
    using assms(5) by (induction ws) auto
  then have "\<forall>r \<in># ids (concat rs). is_int_id r" by (simp only: rs(3))
  then have "one_kind (concat rs)" by (simp add: one_kind_def)
  from correct_seq_ids_ok [OF assms(2-4) rs(2) this] show ?thesis using rs(1,3)
    by (intro exI [of _ rs]) (simp add: Let_def)
qed

end
