(* ===== verification/Serve_Runs.thy ===== *)
theory Serve_Runs
  imports Serve_Props
begin

text \<open>
  The loop of a model in a multi-model system: which of the fetched requests reach the engine, that every
  request is accounted for when the loop ends, and that the loop ends once the model is told to stop.
\<close>

section \<open>Adding fetched requests\<close>

text \<open>
  Inputs that can be served: sampling arguments with one output for each base model, prompts that are not
  empty, all texts or all token lists.
\<close>

definition int_ids :: "llm_engine \<Rightarrow> bool" where
  "int_ids e \<longleftrightarrow> (\<forall>r \<in># queued (le_scheduler e). is_int_id r)"

definition servable :: "serve_env \<Rightarrow> bool \<Rightarrow> content \<Rightarrow> bool" where
  "servable env as_text c \<longleftrightarrow> (if as_text then \<exists>s. c = Text s \<and> ee_encode (se_engine env) s None \<noteq> [] else \<exists>ts. c = Tokens ts \<and> ts \<noteq> [])"

definition good_inputs :: "serve_env \<Rightarrow> ctx \<Rightarrow> request list \<Rightarrow> int list \<Rightarrow> bool" where
  "good_inputs env x new_inps ms \<longleftrightarrow> (\<exists>b. \<forall>(r, c) \<in> set new_inps. servable env b c) \<and>
     (\<forall>(r, c) \<in> set new_inps. \<forall>m \<in> set ms. \<exists>sp. get_sampling_args m r x = Inr sp \<and> single_output sp)"

text \<open>The ids of inputs, as ids of requests.\<close>

definition req_ids :: "request list \<Rightarrow> req_id multiset" where
  "req_ids rs = mset (map (\<lambda>r. IntId (fst r)) rs)"

lemma req_ids_simps [simp]:
  "req_ids [] = {#}" "req_ids (r # rs) = add_mset (IntId (fst r)) (req_ids rs)" "req_ids (rs @ qs) = req_ids rs + req_ids qs"
  by (simp_all add: req_ids_def)

lemma add_input_ok:
  assumes "engine_ok E (lm_engine st)" and "int_ids (lm_engine st)" and "servable env as_text c"
    and "get_sampling_args m r (sv_ctx st) = Inr sp" and "single_output sp"
  shows "\<exists>e. add_input env as_text ((r, c), m) st = Inr (st\<lparr>lm_engine := e\<rparr>) \<and> engine_ok E e \<and> int_ids e \<and>
    queued (le_scheduler e) = add_mset (IntId r) (queued (le_scheduler (lm_engine st)))"
proof -
  let ?e = "lm_engine st"
  let ?p = "if as_text then (case c of Text s \<Rightarrow> Some s | _ \<Rightarrow> None) else None"
  let ?t = "if as_text then None else (case c of Tokens ts \<Rightarrow> Some ts | _ \<Rightarrow> None)"
  obtain ts where enc: "encode_request (se_engine env) ?p ?t None = Inr ts" "ts \<noteq> []"
    using assms(3) by (auto simp: servable_def encode_request_def split: if_splits)
  have kind: "\<forall>g \<in> set (waiting (le_scheduler ?e) @ running (le_scheduler ?e)). is_int_id (request_id g) = is_int_id (IntId r)"
    using assms(2) by (auto simp: int_ids_def queued_def is_int_id_def)
  from add_request_inv [OF assms(1) enc assms(5) _ kind] obtain g where g:
    "add_request (se_engine env) (se_arrival env (sv_tick st)) (IntId r) ?p sp ?t None None None ?e =
      Inr (?e\<lparr>le_seq_counter := le_seq_counter ?e + 1, le_scheduler := add_seq_group g (le_scheduler ?e)\<rparr>)"
    "request_id g = IntId r"
    "engine_ok E (?e\<lparr>le_seq_counter := le_seq_counter ?e + 1, le_scheduler := add_seq_group g (le_scheduler ?e)\<rparr>)"
    by (metis (full_types))
  let ?e' = "?e\<lparr>le_seq_counter := le_seq_counter ?e + 1, le_scheduler := add_seq_group g (le_scheduler ?e)\<rparr>"
  have "add_input env as_text ((r, c), m) st = Inr (st\<lparr>lm_engine := ?e'\<rparr>)"
    using g(1) assms(3,4) by (auto simp: add_input_def llm_add_request_def servable_def split: if_splits)
  moreover have q: "queued (le_scheduler ?e') = add_mset (IntId r) (queued (le_scheduler ?e))"
    using g(2) by (simp add: queued_def add_seq_group_def)
  moreover have "int_ids ?e'" using assms(2) unfolding int_ids_def q by (simp add: is_int_id_def)
  ultimately show ?thesis using g(3) by blast
qed

lemma add_inputs_ok:
  assumes "engine_ok E (lm_engine st)" and "int_ids (lm_engine st)" and "\<forall>((r, c), m) \<in> set ps. servable env as_text c"
    and "\<forall>((r, c), m) \<in> set ps. \<exists>sp. get_sampling_args m r (sv_ctx st) = Inr sp \<and> single_output sp"
  shows "\<exists>e. efold (add_input env as_text) ps st = Inr (st\<lparr>lm_engine := e\<rparr>) \<and> engine_ok E e \<and> int_ids e \<and>
    queued (le_scheduler e) = queued (le_scheduler (lm_engine st)) + req_ids (map fst ps)"
  using assms
proof (induction ps arbitrary: st)
  case Nil
  then show ?case by (intro exI [of _ "lm_engine st"]) simp
next
  case (Cons p ps)
  obtain r c m where p: "p = ((r, c), m)" by (metis prod.collapse)
  from Cons.prems p obtain sp where sp: "servable env as_text c" "get_sampling_args m r (sv_ctx st) = Inr sp" "single_output sp"
    by auto
  from add_input_ok [OF Cons.prems(1,2) sp] obtain e where e:
    "add_input env as_text p st = Inr (st\<lparr>lm_engine := e\<rparr>)" "engine_ok E e" "int_ids e"
    "queued (le_scheduler e) = add_mset (IntId r) (queued (le_scheduler (lm_engine st)))" unfolding p by blast
  from Cons.IH [of "st\<lparr>lm_engine := e\<rparr>"] e Cons.prems show ?case by (auto simp: p)
qed

lemma collect_keys:
  assumes "efold (\<lambda>x acc. ebind (f x) (\<lambda>n. Inr (acc @ [(n, x)]))) xs acc = Inr ks"
  shows "map snd ks = map snd acc @ xs"
  using assms by (induction xs arbitrary: acc) auto

lemma longest_first_mset:
  assumes "longest_first f xs = Inr ys"
  shows "mset ys = mset xs"
proof -
  obtain ks where ks: "efold (\<lambda>x acc. ebind (content_len (f x)) (\<lambda>n. Inr (acc @ [(n, x)]))) xs [] = Inr ks"
    "ys = map snd (sort_key (\<lambda>(n, _). - int n) ks)" using assms by (auto simp: longest_first_def)
  have "map snd ks = xs" using collect_keys [OF ks(1)] by simp
  then have "mset xs = mset (map snd ks)" by simp
  then show ?thesis unfolding ks(2) by simp
qed

lemma longest_first_returns:
  assumes "\<And>x. x \<in> set xs \<Longrightarrow> f x \<noteq> PyNone"
  shows "\<exists>ys. longest_first f xs = Inr ys"
proof -
  have "\<exists>ks. efold (\<lambda>x acc. ebind (content_len (f x)) (\<lambda>n. Inr (acc @ [(n, x)]))) xs acc = Inr ks" for acc
    using assms
  proof (induction xs arbitrary: acc)
    case (Cons x xs)
    have "\<exists>n. content_len (f x) = Inr n" using Cons.prems [of x] by (cases "f x") (simp_all add: content_len_def)
    then show ?case using Cons by auto
  qed simp
  then show ?thesis by (auto simp: longest_first_def)
qed

lemma map_nth_mset: "mset is = mset [0..<length xs] \<Longrightarrow> mset (map (\<lambda>i. xs ! i) is) = mset xs"
  by (metis map_nth mset_map)

lemma sort_inputs_ok:
  assumes "\<forall>(r, c) \<in> set new_inps. c \<noteq> PyNone" and "length ms = length new_inps \<or> length ms = 1" and "new_inps \<noteq> []"
  shows "\<exists>ns ks. sort_inputs new_inps ms = Inr (ns, ks) \<and> mset ns = mset new_inps \<and> length ks = length ns \<and> set ks \<subseteq> set ms"
proof (cases "length ms = length new_inps")
  case True
  obtain ord where o: "longest_first (\<lambda>i. snd (new_inps ! i)) [0..<length new_inps] = Inr ord"
  proof -
    have "snd (new_inps ! i) \<noteq> PyNone" if "i \<in> set [0..<length new_inps]" for i
      using assms(1) nth_mem [of i new_inps] that by (auto simp: case_prod_beta)
    then have "\<exists>ys. longest_first (\<lambda>i. snd (new_inps ! i)) [0..<length new_inps] = Inr ys" by (rule longest_first_returns)
    then show thesis using that by blast
  qed
  note m = longest_first_mset [OF o]
  have "set (map (\<lambda>i. ms ! i) ord) \<subseteq> set ms"
    using mset_eq_setD [OF m] True by (auto)
  moreover have "length ord = length new_inps" using m by (metis length_upt mset_eq_length diff_zero)
  ultimately show ?thesis using o True map_nth_mset [OF m] by (simp add: sort_inputs_def)
next
  case False
  then have one: "length ms = 1" using assms(2) by simp
  obtain ns where o: "longest_first snd new_inps = Inr ns"
    using longest_first_returns [of new_inps snd] assms(1) by (auto simp: case_prod_beta)
  have "hd ms \<in> set ms" using one by (cases ms) auto
  then show ?thesis using o one False longest_first_mset [OF o] by (auto simp: sort_inputs_def)
qed

text \<open>The inputs that are added: with \<open>zip\<close>, no more than there are base model ids, unless they are sorted.\<close>

definition added_inputs :: "bool \<Rightarrow> request list \<Rightarrow> int list \<Rightarrow> request list" where
  "added_inputs sort_inps new_inps ms = (if sort_inps then new_inps else take (length ms) new_inps)"

lemma add_new_ok:
  assumes "engine_ok E (lm_engine st)" and "int_ids (lm_engine st)" and "good_inputs env (sv_ctx st) new_inps ms"
    and "length ms = length new_inps \<or> length ms = 1"
  shows "\<exists>e. add_new_available_reqs env new_inps sort_inps ms st = Inr (st\<lparr>lm_engine := e\<rparr>) \<and> engine_ok E e \<and> int_ids e \<and>
    queued (le_scheduler e) = queued (le_scheduler (lm_engine st)) + req_ids (added_inputs sort_inps new_inps ms)"
proof (cases "new_inps = []")
  case True
  then show ?thesis using assms(1,2) by (intro exI [of _ "lm_engine st"]) (simp add: add_new_available_reqs_def added_inputs_def)
next
  case False
  obtain b where b: "\<forall>(r, c) \<in> set new_inps. servable env b c" using assms(3) by (auto simp: good_inputs_def)
  have "\<exists>ns ks. (if sort_inps then sort_inputs new_inps ms else Inr (new_inps, ms)) = Inr (ns, ks) \<and> mset ns = mset new_inps \<and>
    set ks \<subseteq> set ms \<and> req_ids (map fst (zip ns ks)) = req_ids (added_inputs sort_inps new_inps ms)"
  proof (cases sort_inps)
    case True
    have "\<forall>(r, c) \<in> set new_inps. c \<noteq> PyNone" using b by (auto simp: servable_def split: if_splits)
    from sort_inputs_ok [OF this assms(4) False] obtain ns ks where s: "sort_inputs new_inps ms = Inr (ns, ks)" "mset ns = mset new_inps"
      "length ks = length ns" "set ks \<subseteq> set ms" by blast
    have "req_ids (map fst (zip ns ks)) = req_ids new_inps"
      unfolding map_fst_zip [OF s(3) [symmetric]] using s(2) by (simp add: req_ids_def)
    then show ?thesis using True s by (simp add: added_inputs_def)
  next
    case False
    moreover have "take (min (length new_inps) (length ms)) new_inps = take (length ms) new_inps"
      by (simp add: min_def)
    ultimately show ?thesis by (auto simp: added_inputs_def map_fst_zip_take)
  qed
  then obtain ns ks where ns: "(if sort_inps then sort_inputs new_inps ms else Inr (new_inps, ms)) = Inr (ns, ks)" "mset ns = mset new_inps"
    "set ks \<subseteq> set ms" "req_ids (map fst (zip ns ks)) = req_ids (added_inputs sort_inps new_inps ms)" by blast
  have set_ns: "set ns = set new_inps" by (rule mset_eq_setD [OF ns(2)])
  then have "ns \<noteq> []" using False by auto
  then have h: "snd (hd ns) \<in> snd ` set new_inps" using set_ns by (metis image_eqI list.set_sel(1))
  then have "is_text (snd (hd ns)) = b" using b by (auto simp: servable_def split: if_splits)
  moreover have "\<forall>((r, c), m) \<in> set (zip ns ks). servable env b c"
    using b set_ns by (auto dest!: set_zip_leftD)
  moreover have "\<forall>((r, c), m) \<in> set (zip ns ks). \<exists>sp. get_sampling_args m r (sv_ctx st) = Inr sp \<and> single_output sp"
  proof (intro ballI, clarify)
    fix r c m assume "((r, c), m) \<in> set (zip ns ks)"
    then have "(r, c) \<in> set new_inps" "m \<in> set ms" using ns(3) set_ns by (auto dest: set_zip_leftD set_zip_rightD)
    then show "\<exists>sp. get_sampling_args m r (sv_ctx st) = Inr sp \<and> single_output sp" using assms(3) by (auto simp: good_inputs_def)
  qed
  ultimately obtain e where "efold (add_input env (is_text (snd (hd ns)))) (zip ns ks) st = Inr (st\<lparr>lm_engine := e\<rparr>)" "engine_ok E e"
    "int_ids e" "queued (le_scheduler e) = queued (le_scheduler (lm_engine st)) + req_ids (map fst (zip ns ks))"
    using add_inputs_ok [OF assms(1,2), of "zip ns ks" env b] by auto
  then show ?thesis using ns(1,4) False by (auto simp: add_new_available_reqs_def)
qed

text \<open>C21: Sorted, all fetched requests reach the engine. Not sorted, the requests are paired with the base model ids,
  and a base model has one id: all fetched requests but the first are lost.\<close>

theorem unsorted_requests_are_dropped:
  assumes "engine_ok E (lm_engine st)" and "int_ids (lm_engine st)" and "good_inputs env (sv_ctx st) (r # rs) [m]"
  shows "(\<exists>e. add_new_available_reqs env (r # rs) True [m] st = Inr (st\<lparr>lm_engine := e\<rparr>) \<and>
      queued (le_scheduler e) = queued (le_scheduler (lm_engine st)) + req_ids (r # rs)) \<and>
    (\<exists>e. add_new_available_reqs env (r # rs) False [m] st = Inr (st\<lparr>lm_engine := e\<rparr>) \<and>
      queued (le_scheduler e) = queued (le_scheduler (lm_engine st)) + req_ids [r])"
  using add_new_ok [OF assms, of True] add_new_ok [OF assms, of False] by (auto simp: added_inputs_def)

section \<open>What the loop keeps\<close>

text \<open>
  The hypotheses on the world: inputs are sorted, and what the communicator hands out can be served, with
  the sampling arguments that the shared context then has.
\<close>

definition feeds :: "serve_env \<Rightarrow> bool" where
  "feeds env \<longleftrightarrow> map_of (se_environ env) ''MY_SORT_INPS'' = Some ''True'' \<and>
     (\<forall>t p c x k new_inps possible ms c'. se_world env t p = (c, x) \<longrightarrow> get_dp_size x = Inr k \<longrightarrow>
        get_seqs_comm (se_chat env) (int (shared_id x)) (dp_id x) (nat k) c = Inr (new_inps, possible, ms, c') \<longrightarrow> good_inputs env x new_inps ms)"

text \<open>The requests \<open>Q\<close> that the engine had and the fetched ones are finished or queued.\<close>

definition served :: "block_id multiset \<Rightarrow> req_id multiset \<Rightarrow> serve_state \<Rightarrow> bool" where
  "served E Q st \<longleftrightarrow> engine_ok E (lm_engine st) \<and> int_ids (lm_engine st) \<and> list_all ro_finished (sv_outputs st) \<and>
     Q + req_ids (sv_fetched st) = mset (map ro_request_id (sv_outputs st)) + queued (le_scheduler (lm_engine st)) \<and>
     sv_sent st \<le> length (sv_outputs st)"

lemma served_look [simp]: "served E Q (look env st) = served E Q st"
  by (simp add: served_def)

lemma get_seqs_loop_lengths:
  assumes "efold (get_seqs_loop chat sh i k fused) ms (ret, p, ks, s) = Inr (ret', p', ks', s')"
    and "if fused then length ks = length ret else ks = []"
  shows "if fused then length ks' = length ret' else ks' = []"
  using assms
proof (induction ms arbitrary: ret p ks s)
  case (Cons m ms)
  from Cons.prems(1) obtain ret1 p1 ks1 s1 where one: "get_seqs_loop chat sh i k fused m (ret, p, ks, s) = Inr (ret1, p1, ks1, s1)"
    "efold (get_seqs_loop chat sh i k fused) ms (ret1, p1, ks1, s1) = Inr (ret', p', ks', s')"
    by (auto simp del: ebind_eq_Inr simp: ebind_def split: sum.splits)
  show ?case by (rule Cons.IH [OF one(2)]) (use one(1) Cons.prems(2) in \<open>auto simp: get_seqs_loop_def split: if_splits\<close>)
qed simp

lemma get_seqs_lengths:
  assumes "get_seqs_comm chat sh i k s = Inr (new_inps, possible, ms, c)"
  shows "length ms = length new_inps \<or> length ms = 1"
proof -
  obtain bs p ks where r: "efold (get_seqs_loop chat sh i k (length bs > 1)) bs ([], False, [], s) = Inr (new_inps, p, ks, c)"
    "ms = (if length bs = 1 then bs else ks)"
    using assms by (auto simp: get_seqs_comm_def assert_no_exception_def ebind_def split: sum.splits)
  from get_seqs_loop_lengths [OF r(1)] show ?thesis using r by (cases bs) (auto split: if_splits)
qed

lemma fetch_turn_cases:
  assumes "fetch_turn env u st = Inr (again, st')"
  obtains (Stay) "again = False" "st' = look env st"
  | (Fetch) c x k new_inps possible ms c' st1 where "se_world env (Suc (sv_tick st)) (sv_comm (look env st), sv_ctx (look env st)) = (c, x)"
      "get_seqs_comm (se_chat env) (int (shared_id x)) (dp_id x) (nat k) c = Inr (new_inps, possible, ms, c')"
      "st1 = (look env (look env st))\<lparr>sv_comm := c', sv_possible := possible, sv_fetched := sv_fetched st @ new_inps\<rparr>"
      "add_new_available_reqs env new_inps (map_of (se_environ env) ''MY_SORT_INPS'' = Some ''True'') ms st1 = Inr st'"
      "sv_ctx st1 = x" "again = (possible \<and> new_inps = [] \<and> \<not> u)" "told_to_stop env (look env st) = Inr False" "get_dp_size x = Inr k"
proof -
  let ?st = "look env st"
  obtain c x where w: "se_world env (sv_tick ?st) (sv_comm ?st, sv_ctx ?st) = (c, x)" by (metis prod.exhaust)
  then have l: "look env ?st = ?st\<lparr>sv_comm := c, sv_ctx := x, sv_tick := sv_tick ?st + 1\<rparr>" by (simp add: look_def)
  obtain h where h: "told_to_stop env ?st = Inr h" using assms by (auto simp: fetch_turn_def Let_def)
  show thesis
  proof (cases "again = False \<and> st' = look env st")
    case True
    then show ?thesis using Stay by blast
  next
    case False
    have "\<not> h" using assms h False by (auto simp: fetch_turn_def Let_def)
    then show ?thesis using assms False h w unfolding fetch_turn_def Let_def l
      by (auto split: if_splits intro!: Fetch [where c = c and x = x] simp: l)
  qed
qed

lemma fetch_turn_served:
  assumes "fetch_turn env u st = Inr (again, st')" and "served E Q st" and "feeds env"
  shows "served E Q st'"
  using assms(1)
proof (cases rule: fetch_turn_cases)
  case Stay
  then show ?thesis using assms(2) by simp
next
  case (Fetch c x k new_inps possible ms c' st1)
  have sorts: "map_of (se_environ env) ''MY_SORT_INPS'' = Some ''True''" using assms(3) by (simp add: feeds_def)
  have good: "good_inputs env (sv_ctx st1) new_inps ms"
    using assms(3) Fetch(1,2,5,8) unfolding feeds_def by blast
  have st1: "lm_engine st1 = lm_engine st" "sv_outputs st1 = sv_outputs st" "sv_fetched st1 = sv_fetched st @ new_inps" "sv_sent st1 = sv_sent st"
    unfolding Fetch(3) by simp_all
  have e: "engine_ok E (lm_engine st1)" "int_ids (lm_engine st1)" using assms(2) by (simp_all add: served_def st1)
  from add_new_ok [OF e good get_seqs_lengths [OF Fetch(2)], of True] obtain e' where e':
    "add_new_available_reqs env new_inps True ms st1 = Inr (st1\<lparr>lm_engine := e'\<rparr>)" "engine_ok E e'" "int_ids e'"
    "queued (le_scheduler e') = queued (le_scheduler (lm_engine st1)) + req_ids new_inps" by (auto simp: added_inputs_def)
  have "st' = st1\<lparr>lm_engine := e'\<rparr>" using e'(1) Fetch(4) by (simp add: sorts)
  then show ?thesis using assms(2) e' st1 by (simp add: served_def add.assoc [symmetric])
qed

lemma fetch_loop_served:
  assumes "fetch_loop env u st = Some (Inr st')" and "served E Q st" and "feeds env"
  shows "served E Q st'"
proof -
  have "served E Q st \<longrightarrow> feeds env \<longrightarrow> (\<forall>st'. r = Inr st' \<longrightarrow> served E Q st')" if "fetch_loop env u st = Some r" for r
    using that
  proof (induction rule: fetch_loop.raw_induct [rotated 1, consumes 1])
    case (1 loop env u st r)
    show ?case
    proof (intro impI allI)
      fix st' assume a: "served E Q st" "feeds env" "r = Inr st'"
      obtain again st1 where t: "fetch_turn env u st = Inr (again, st1)" using "1.hyps" a(3) by (auto split: sum.splits)
      note s1 = fetch_turn_served [OF t a(1,2)]
      show "served E Q st'"
      proof (cases again)
        case True
        then have "loop env u st1 = Some r" using "1.hyps" t by simp
        from "1.IH" [OF this] show ?thesis using s1 a(2,3) by blast
      next
        case False
        then show ?thesis using "1.hyps" t s1 a(3) by simp
      qed
    qed
  qed
  then show ?thesis using assms by blast
qed

lemma send_outputs_served:
  assumes "send_outputs env st = Inr st'" and "served E Q st"
  shows "served E Q st'" "sv_sent st' = length (sv_outputs st')" "lm_engine st' = lm_engine st" "sv_outputs st' = sv_outputs st"
    "sv_fetched st' = sv_fetched st"
  using assms by (auto simp: send_outputs_def get_outputs_to_system_communicator_def Let_def served_def)

lemma serve_turn_cases:
  assumes "serve_turn env st = Inr (go_on, st')"
  obtains (Idle) v where "go_on = False" "st' = st" "map_of (se_environ env) ''RUN_MULTI_MODEL'' = Some v"
      "v = ''True'' \<longrightarrow> \<not> sv_possible st" "\<not> has_unfinished_requests (lm_engine st)"
  | (Halted) "go_on = False" "st' = look env (st\<lparr>sv_step := sv_step st + 1\<rparr>)" "told_to_stop env st' = Inr True"
  | (Step) ros e st1 where "go_on = True" "told_to_stop env (look env (st\<lparr>sv_step := sv_step st + 1\<rparr>)) = Inr False"
      "engine_step (se_engine env) (se_now env (Suc (sv_step st))) (se_execute env) (lm_engine st) = Inr (ros, e)"
      "st1 = (look env (st\<lparr>sv_step := sv_step st + 1\<rparr>))\<lparr>lm_engine := e, sv_outputs := sv_outputs st @ filter ro_finished ros\<rparr>"
      "st' = st1 \<or> send_outputs env st1 = Inr st'"
proof -
  let ?st = "look env (st\<lparr>sv_step := sv_step st + 1\<rparr>)"
  obtain v where v: "map_of (se_environ env) ''RUN_MULTI_MODEL'' = Some v" using assms by (auto simp: serve_turn_def)
  then have d: "dict_get (se_environ env) ''RUN_MULTI_MODEL'' = Inr v" by simp
  show thesis
  proof (cases "(v = ''True'' \<and> \<not> sv_possible st \<or> v = ''False'') \<and> \<not> has_unfinished_requests (lm_engine st)")
    case True
    then show ?thesis using assms v by (intro Idle [of v]) (auto simp: serve_turn_def Let_def split: if_splits)
  next
    case False
    then have r: "ebind (told_to_stop env ?st) (\<lambda>halted. if halted then Inr (False, ?st)
       else ebind (engine_step (se_engine env) (se_now env (sv_step ?st)) (se_execute env) (lm_engine ?st)) (\<lambda>(step_outputs, e).
         let st = ?st\<lparr>lm_engine := e, sv_outputs := sv_outputs ?st @ filter ro_finished step_outputs\<rparr> in
         ebind (if v = ''True'' then
                  ebind (py_index (se_check_out_gaps env) (int (shared_id (sv_ctx st)))) (\<lambda>gap.
                  ebind (py_mod (sv_step st) gap) (\<lambda>r. Inr (r = 0 \<or> \<not> has_unfinished_requests e)))
                else Inr False) (\<lambda>send.
         ebind (if send then send_outputs env st else Inr st) (\<lambda>st. Inr (True, st))))) = Inr (go_on, st')"
      using assms unfolding serve_turn_def d ebind_simps Let_def by (simp only: refl if_False simp_thms split: if_splits)
    obtain h where h: "told_to_stop env ?st = Inr h" using r by auto
    show ?thesis
    proof (cases h)
      case True
      then show ?thesis using r h by (intro Halted) auto
    next
      case False
      obtain ros e where e: "engine_step (se_engine env) (se_now env (Suc (sv_step st))) (se_execute env) (lm_engine st) = Inr (ros, e)"
        using r h False by auto
      show ?thesis
        by (rule Step [OF _ _ e refl]) (use r h False e in \<open>auto simp: Let_def split: if_splits\<close>)
    qed
  qed
qed

lemma serve_turn_served:
  assumes "serve_turn env st = Inr (go_on, st')" and "served E Q st" and "samples_all (ee_tokenizer_len (se_engine env)) (se_execute env)"
  shows "served E Q st'"
  using assms(1)
proof (cases rule: serve_turn_cases)
  case (Idle v)
  then show ?thesis using assms(2) by simp
next
  case Halted
  then show ?thesis using assms(2) by (simp add: served_def)
next
  case (Step ros e st1)
  have ok: "engine_ok E (lm_engine st)" using assms(2) by (simp add: served_def)
  note k = engine_step_keeps [OF ok assms(3) Step(3)]
  have "int_ids e" using assms(2) unfolding served_def int_ids_def k(2) [symmetric] by auto
  then have "served E Q st1"
    using assms(2) k by (auto simp: served_def Step(4) finished_ids_def list_all_iff ac_simps)
  then show ?thesis using Step(5) send_outputs_served(1) by blast
qed

lemma serve_loop_served:
  assumes "serve_loop env st = Some (Inr st')" and "served E Q st" and "feeds env"
    and "samples_all (ee_tokenizer_len (se_engine env)) (se_execute env)"
  shows "served E Q st'"
proof -
  have "served E Q st \<longrightarrow> feeds env \<longrightarrow> samples_all (ee_tokenizer_len (se_engine env)) (se_execute env) \<longrightarrow>
      (\<forall>st'. r = Inr st' \<longrightarrow> served E Q st')" if "serve_loop env st = Some r" for r
    using that
  proof (induction rule: serve_loop.raw_induct [rotated 1, consumes 1])
    case (1 loop env st r)
    show ?case
    proof (intro impI allI)
      fix st' assume a: "served E Q st" "feeds env" "samples_all (ee_tokenizer_len (se_engine env)) (se_execute env)" "r = Inr st'"
      obtain st1 where f: "fetch_phase env st = Some (Inr st1)" using "1.hyps" a(4) by (auto split: Option.bind_splits sum.splits)
      then have s1: "served E Q st1"
        using a(1,2) fetch_loop_served by (auto simp: fetch_phase_def Let_def split: sum.splits if_splits)
      obtain go_on st2 where t: "serve_turn env st1 = Inr (go_on, st2)" using "1.hyps" f a(4) by (auto split: sum.splits)
      note s2 = serve_turn_served [OF t s1 a(3)]
      show "served E Q st'"
      proof (cases go_on)
        case True
        then have "loop env st2 = Some r" using "1.hyps" f t by simp
        from "1.IH" [OF this] show ?thesis using s2 a(2-4) by blast
      next
        case False
        then show ?thesis using "1.hyps" f t s2 a(4) by simp
      qed
    qed
  qed
  then show ?thesis using assms by blast
qed


section \<open>Leaving the loop\<close>

lemma sort_outputs_mset:
  assumes "sort_outputs outputs = Inr outs"
  shows "mset outs = mset outputs"
proof -
  obtain ks where ks: "efold (\<lambda>ro acc. ebind (req_int (ro_request_id ro)) (\<lambda>i. Inr (acc @ [(i, ro)]))) outputs [] = Inr ks"
    "outs = map snd (sort_key fst ks)" using assms by (auto simp: sort_outputs_def)
  have "map snd ks = outputs" using collect_keys [OF ks(1)] by simp
  then have "mset outputs = mset (map snd ks)" by simp
  then show ?thesis unfolding ks(2) by simp
qed

lemma get_unfinished_ids:
  assumes "sch_get_unfinished_seqs s = Inr (gs, s')"
  shows "ids gs = queued s"
proof -
  have m: "map request_id hs = map request_id gs" if "move_to_waiting gs = Inr hs" for gs hs
  proof -
    have "map request_id hs = map request_id acc @ map request_id gs"
      if "efold (\<lambda>g acc. ebind (py_assert (num_seqs (Some RUNNING) g \<le> 1)) (\<lambda>_. Inr (acc @ [set_seqs_status RUNNING WAITING g]))) gs acc = Inr hs" for acc
      using that by (induction gs arbitrary: acc) auto
    from this [of "[]"] that show ?thesis by (simp add: move_to_waiting_def)
  qed
  obtain r w sw where g: "move_to_waiting (running s) = Inr r" "move_to_waiting (waiting s) = Inr w" "move_to_waiting (swapped s) = Inr sw"
    "gs = r @ w @ sw" using assms by (auto simp: sch_get_unfinished_seqs_def)
  have "ids gs = ids r + ids w + ids sw" by (simp add: g(4) add.assoc)
  also have "\<dots> = queued s" unfolding m [OF g(1)] m [OF g(2)] m [OF g(3)] by (simp add: queued_def ac_simps)
  finally show ?thesis .
qed

lemma leave_served:
  assumes "leave_for_reschedule env st = Inr st'" and "served E Q st"
  shows "Q + req_ids (sv_fetched st') = mset (map ro_request_id (sv_outputs st')) + ids (remaining_requests (sv_ctx st'))"
    "list_all ro_finished (sv_outputs st')" "sv_sent st' = length (sv_outputs st')"
    "\<exists>old. gened_outputs (sv_ctx st') = old @ sv_outputs st'"
proof -
  obtain st1 dp gs s x fx kv x' where l: "send_outputs env st = Inr st1" "sch_get_unfinished_seqs (le_scheduler (lm_engine st1)) = Inr (gs, s)"
    "(if dp then Inr (sv_ctx st1) else set_finished (int (length (sv_outputs st1))) (sv_ctx st1)) = Inr x"
    "prepare_for_reschedule (se_environ env) (se_world_size env) (sv_outputs st1) gs False x = Inr (fx, kv, x')"
    "st' = st1\<lparr>lm_engine := (lm_engine st1)\<lparr>le_scheduler := s, le_kv := kv\<rparr>, sv_ctx := x'\<rparr>"
    using assms(1) by (auto simp: leave_for_reschedule_def)
  note s1 = send_outputs_served [OF l(1) assms(2)]
  have x': "remaining_requests x' = gs" "gened_outputs x' = gened_outputs x @ sv_outputs st1"
    using l(4) by (auto simp: prepare_for_reschedule_def Let_def)
  have "Q + req_ids (sv_fetched st1) = mset (map ro_request_id (sv_outputs st1)) + ids gs"
    using s1(1) unfolding served_def get_unfinished_ids [OF l(2)] by blast
  then show "Q + req_ids (sv_fetched st') = mset (map ro_request_id (sv_outputs st')) + ids (remaining_requests (sv_ctx st'))"
    using x' by (simp only: l(5)) simp
  show "list_all ro_finished (sv_outputs st')" "sv_sent st' = length (sv_outputs st')" using s1(1,2) by (simp_all add: l(5) served_def)
  show "\<exists>old. gened_outputs (sv_ctx st') = old @ sv_outputs st'" using x'(2) by (simp add: l(5))
qed


section \<open>Being told to stop\<close>

text \<open>From the look number \<open>T\<close> on the model's start flag is down, and preemption is on.\<close>

definition stops_at :: "nat \<Rightarrow> serve_env \<Rightarrow> bool" where
  "stops_at T env \<longleftrightarrow> map_of (se_environ env) ''NO_PREEMPT'' = Some ''False'' \<and>
     (\<forall>t p. T \<le> t \<longrightarrow> should_reschedule (se_environ env) (snd (se_world env t p)) = Inr True)"

lemma stops_told:
  assumes "stops_at T env" and "T \<le> sv_tick st"
  shows "told_to_stop env (look env st) = Inr True"
  using assms by (simp add: stops_at_def told_to_stop_def no_preempt_off_def look_def dict_get_def case_prod_beta)

lemma add_new_tick:
  assumes "add_new_available_reqs env new_inps sort_inps ms st = Inr st'"
  shows "sv_tick st' = sv_tick st \<and> sv_step st' = sv_step st"
proof -
  have one: "sv_tick t = sv_tick s \<and> sv_step t = sv_step s" if "add_input env b p s = Inr t" for b p s t
    using that by (cases p) (auto simp: add_input_def llm_add_request_def)
  have "sv_tick st' = sv_tick st \<and> sv_step st' = sv_step st" if "efold (add_input env b) ps st = Inr st'" for b ps
    by (rule efold_invariant [OF that, where P = "\<lambda>s. sv_tick s = sv_tick st \<and> sv_step s = sv_step st"]) (use one in auto)
  then show ?thesis using assms by (auto simp: add_new_available_reqs_def split: if_splits)
qed

lemma fetch_turn_tick:
  assumes "fetch_turn env u st = Inr (again, st')"
  shows "sv_tick st < sv_tick st' \<and> sv_step st' = sv_step st" "again \<Longrightarrow> told_to_stop env (look env st) = Inr False"
  using assms by (cases rule: fetch_turn_cases; force dest: add_new_tick)+

lemma fetch_loop_ends:
  assumes "stops_at T env"
  shows "\<exists>r. fetch_loop env u st = Some r \<and> (\<forall>st'. r = Inr st' \<longrightarrow> sv_tick st \<le> sv_tick st' \<and> sv_step st' = sv_step st)"
proof (induction "T - sv_tick st" arbitrary: st rule: less_induct)
  case less
  show ?case
  proof (cases "fetch_turn env u st")
    case (Inl x)
    then show ?thesis by (subst fetch_loop.simps) simp
  next
    case (Inr p)
    obtain again st1 where p: "p = (again, st1)" by (cases p)
    note t = fetch_turn_tick [OF Inr [unfolded p]]
    show ?thesis
    proof (cases again)
      case True
      then have "sv_tick st < T" using t(2) stops_told [OF assms] by (metis not_le sum.inject(2))
      then have "T - sv_tick st1 < T - sv_tick st" using t(1) by linarith
      from less [OF this] show ?thesis using Inr p True t(1) by (subst fetch_loop.simps) fastforce
    next
      case False
      then show ?thesis using Inr p t(1) by (subst fetch_loop.simps) simp
    qed
  qed
qed

lemma serve_turn_tick:
  assumes "serve_turn env st = Inr (go_on, st')"
  shows "go_on \<Longrightarrow> sv_tick st < sv_tick st' \<and> told_to_stop env (look env (st\<lparr>sv_step := sv_step st + 1\<rparr>)) = Inr False"
    "sv_step st' \<le> sv_step st + 1"
  using assms by (cases rule: serve_turn_cases; force simp: send_outputs_def Let_def)+

lemma serve_loop_ends:
  assumes "stops_at T env"
  shows "\<exists>r. serve_loop env st = Some r \<and> (\<forall>st'. r = Inr st' \<longrightarrow> sv_step st' \<le> sv_step st + Suc (T - sv_tick st))"
proof (induction "T - sv_tick st" arbitrary: st rule: less_induct)
  case less
  have "\<exists>r. fetch_phase env st = Some r \<and> (\<forall>st'. r = Inr st' \<longrightarrow> sv_tick st \<le> sv_tick st' \<and> sv_step st' = sv_step st)"
    using fetch_loop_ends [OF assms, of "has_unfinished_requests (lm_engine st)" st]
    by (cases "run_multi_model (se_environ env)") (simp_all add: fetch_phase_def Let_def)
  then obtain r where r: "fetch_phase env st = Some r" "\<forall>st'. r = Inr st' \<longrightarrow> sv_tick st \<le> sv_tick st' \<and> sv_step st' = sv_step st"
    by blast
  show ?case
  proof (cases r)
    case (Inl x)
    then show ?thesis using r(1) by (subst serve_loop.simps) simp
  next
    case (Inr st1)
    then have le: "sv_tick st \<le> sv_tick st1" "sv_step st1 = sv_step st" using r(2) by auto
    show ?thesis
    proof (cases "serve_turn env st1")
      case (Inl x)
      then show ?thesis using r(1) Inr by (subst serve_loop.simps) simp
    next
      case (Inr p)
      obtain go_on st2 where p: "p = (go_on, st2)" by (cases p)
      note t = serve_turn_tick [OF Inr [unfolded p]]
      show ?thesis
      proof (cases go_on)
        case True
        have "sv_tick st1 < T"
          using t(1) [OF True] stops_told [OF assms, of "st1\<lparr>sv_step := sv_step st1 + 1\<rparr>"] by (auto simp: not_le [symmetric])
        then have lt: "T - sv_tick st2 < T - sv_tick st" using t(1) [OF True] le(1) by linarith
        from less [OF lt] obtain r2 where r2: "serve_loop env st2 = Some r2"
          "\<forall>st'. r2 = Inr st' \<longrightarrow> sv_step st' \<le> sv_step st2 + Suc (T - sv_tick st2)" by blast
        have "sv_step st2 + Suc (T - sv_tick st2) \<le> sv_step st + Suc (T - sv_tick st)" using lt t(2) le(2) by linarith
        then show ?thesis using r(1) \<open>r = Inr st1\<close> Inr p True r2 by (subst serve_loop.simps) fastforce
      next
        case False
        then show ?thesis using r(1) \<open>r = Inr st1\<close> Inr p t(2) le(2) by (subst serve_loop.simps) simp
      qed
    qed
  qed
qed

text \<open>C6: A model that is told to stop, and keeps being told so, stops: the loop returns, at the latest after as many
  steps as it looks at the shared state before that moment, whatever the other processes do and even while
  it waits for inputs.\<close>

theorem serve_stops:
  assumes "stops_at T env"
  shows "\<exists>r. serve_loop env st = Some r \<and> (\<forall>st'. r = Inr st' \<longrightarrow> sv_step st' \<le> sv_step st + Suc (T - sv_tick st))"
  by (rule serve_loop_ends [OF assms])

end
