(* ===== verification/Serve_Generate.thy ===== *)
theory Serve_Generate
  imports Serve_Runs
begin

text \<open>
  \<open>LLM.generate\<close> from the prompts to the sorted outputs: one finished output per prompt, in the order of the
  prompts. Request ids are the decimal strings of a counter, and the outputs are sorted by their values.
\<close>

section \<open>Numbers as strings\<close>

lemma int_digits_append:
  "set s \<subseteq> char_of ` {48..<58 :: nat} \<Longrightarrow> s \<noteq> [] \<Longrightarrow>
     int_digits d acc (s @ t) = int_digits True (fold (\<lambda>c a. 10 * a + (of_char c - 48)) s acc) t"
proof (induction s arbitrary: d acc)
  case (Cons c s)
  have "of_char c \<in> {48..<58 :: nat}" using Cons.prems(1) by auto
  then show ?case using Cons by (cases "s = []") auto
qed simp

lemma nat_str_value: "fold (\<lambda>c a. 10 * a + (of_char c - 48)) (nat_str n) (0 :: int) = int n"
proof (induction n rule: nat_str.induct)
  case (1 n)
  have of_digit: "of_char (char_of (48 + k) :: char) = (48 + int k)" if "k < 10" for k
  proof -
    have "of_char (char_of (48 + k) :: char) = int (of_char (char_of (48 + k) :: char))" by (simp only: of_nat_of_char)
    then show ?thesis using that by simp
  qed
  show ?case
  proof (cases "n < 10")
    case True
    then show ?thesis using of_digit [OF True] by (subst nat_str.simps) simp
  next
    case False
    have "n mod 10 < 10" and "10 * int (n div 10) + int (n mod 10) = int n" by (simp, presburger)
    then show ?thesis using 1 [OF False] False of_digit [of "n mod 10"] by (subst nat_str.simps) simp
  qed
qed

lemma nat_str_ne: "nat_str n \<noteq> []"
  by (subst nat_str.simps) simp

lemma digit_not_blank:
  assumes "c \<in> char_of ` {48..<58 :: nat}"
  shows "\<not> is_blank c" "c \<noteq> CHR ''-''" "c \<noteq> CHR ''+''"
proof -
  obtain n :: nat where n: "c = char_of n" "48 \<le> n" "n < 58" using assms by auto
  then have oc: "of_char c = n" by simp
  show "\<not> is_blank c" using n(2,3) by (simp add: is_blank_def oc)
  have "of_char (CHR ''-'') = (45 :: nat)" "of_char (CHR ''+'') = (43 :: nat)" by simp_all
  then show "c \<noteq> CHR ''-''" "c \<noteq> CHR ''+''" using oc n(2) by auto
qed

lemma dropWhile_none: "\<forall>c \<in> set s. \<not> P c \<Longrightarrow> dropWhile P s = s"
  by (cases s) simp_all

lemma int_of_str_int_str: "int_of_str (int_str k) = Inr k"
proof -
  have dig: "set (nat_str n) \<subseteq> char_of ` {48..<58 :: nat}" for n by (rule nat_str_digits)
  have "\<not> is_blank (CHR ''-'')" by code_simp
  then have nb: "\<forall>c \<in> set (int_str k). \<not> is_blank c"
    using digit_not_blank(1) [OF subsetD [OF dig]] by (auto simp: int_str_def)
  have strip: "rev (dropWhile is_blank (rev (dropWhile is_blank (int_str k)))) = int_str k"
    using nb by (simp add: dropWhile_none)
  have val: "int_digits False 0 (nat_str n) = Some (int n)" for n
    using int_digits_append [OF dig nat_str_ne, of False 0 n "[]"] nat_str_value by simp
  show ?thesis
  proof (cases "k < 0")
    case True
    then have "int_str k = CHR ''-'' # nat_str (nat (- k))" by (simp add: int_str_def)
    then show ?thesis using True strip val [of "nat (- k)"] by (simp add: int_of_str_def Let_def)
  next
    case False
    obtain c cs where c: "nat_str (nat k) = c # cs" using nat_str_ne by (meson list.exhaust)
    then have "c \<in> char_of ` {48..<58 :: nat}" using dig [of "nat k"] by auto
    note digit_not_blank(2,3) [OF this]
    moreover have "int_str k = c # cs" using False c by (simp add: int_str_def)
    ultimately show ?thesis using False strip val [of "nat k"] c by (simp add: int_of_str_def Let_def)
  qed
qed

lemma req_int_str [simp]: "req_int (StrId (int_str k)) = Inr k"
  by (simp add: req_int_def int_of_str_int_str)

section \<open>Sorting the outputs\<close>

text \<open>Outputs for the ids \<open>c\<close>, \<open>c + 1\<close>, ... are put into this order.\<close>

lemma sort_outputs_ordered:
  assumes "mset (map f outputs) = mset (map (\<lambda>i. (StrId (int_str (c + int i)), p i)) [0..<n])" and "\<And>ro. fst (f ro) = ro_request_id ro"
  shows "\<exists>outs. sort_outputs outputs = Inr outs \<and> map f outs = map (\<lambda>i. (StrId (int_str (c + int i)), p i)) [0..<n] \<and> mset outs = mset outputs"
proof -
  let ?ids = "map (\<lambda>i. (StrId (int_str (c + int i)), p i)) [0..<n]"
  define key :: "request_output \<Rightarrow> int" where "key ro = (case req_int (ro_request_id ro) of Inr i \<Rightarrow> i | Inl _ \<Rightarrow> 0)" for ro
  have keyed: "req_int (ro_request_id ro) = Inr (key ro)" if "ro \<in> set outputs" for ro
  proof -
    have "f ro \<in> set ?ids" using mset_eq_setD [OF assms(1)] that by (metis image_eqI list.set_map)
    then obtain i where "f ro = (StrId (int_str (c + int i)), p i)" by auto
    then have "ro_request_id ro = StrId (int_str (c + int i))" using assms(2) [of ro] by simp
    then show ?thesis by (simp add: key_def)
  qed
  have "efold (\<lambda>ro acc. ebind (req_int (ro_request_id ro)) (\<lambda>i. Inr (acc @ [(i, ro)]))) outputs acc =
      Inr (acc @ map (\<lambda>ro. (key ro, ro)) outputs)" for acc
    using keyed by (induction outputs arbitrary: acc) simp_all
  from this [of "[]"] have so: "sort_outputs outputs = Inr (map snd (sort_key fst (map (\<lambda>ro. (key ro, ro)) outputs)))" (is "_ = Inr ?outs")
    by (simp add: sort_outputs_def)
  have outs: "mset ?outs = mset outputs" by (rule sort_outputs_mset [OF so])
  have sorted_keys: "sorted (map key ?outs)"
  proof -
    have "map (key \<circ> snd) (sort_key fst (map (\<lambda>ro. (key ro, ro)) outputs)) = map fst (sort_key fst (map (\<lambda>ro. (key ro, ro)) outputs))"
      by (rule map_cong) auto
    then have "map key ?outs = map fst (sort_key fst (map (\<lambda>ro. (key ro, ro)) outputs))" by (simp only: map_map)
    then show ?thesis by (simp only: sorted_sort_key)
  qed
  let ?k = "\<lambda>x. case req_int (fst x) of Inr i \<Rightarrow> i | Inl _ \<Rightarrow> 0"
  have kf: "?k (f ro) = key ro" for ro using assms(2) by (simp add: key_def)
  have sf: "sorted (map ?k (map f ?outs))" using sorted_keys kf by (simp add: o_def)
  have m: "mset (map f ?outs) = mset ?ids" using outs assms(1) by (metis mset_map)
  have si: "map ?k ?ids = map (\<lambda>i. c + int i) [0..<n]" by simp
  have s2: "sorted (map ?k ?ids)" unfolding si by (simp add: sorted_iff_nth_mono)
  have d2: "distinct (map ?k ?ids)" unfolding si by (simp add: distinct_map inj_on_def)
  have "mset (map ?k (map f ?outs)) = mset (map ?k ?ids)" using arg_cong [OF m, of "image_mset ?k"] by (simp only: mset_map)
  from mset_eq_imp_distinct_iff [OF this] d2 have d1: "distinct (map ?k (map f ?outs))" by blast
  have sets: "set (map f ?outs) = set ?ids" by (rule mset_eq_setD [OF m])
  have inj: "inj_on ?k (set (map f ?outs) \<union> set ?ids)" unfolding sets Un_absorb using d2 by (simp only: distinct_map)
  have "map f ?outs = ?ids" by (rule map_sorted_distinct_set_unique [OF inj sf d1 s2 d2 sets])
  then show ?thesis using so outs by blast
qed


section \<open>Adding the prompts\<close>

text \<open>An engine that has only requests of the counter, with token limits.\<close>

definition str_ids :: "llm_engine \<Rightarrow> bool" where
  "str_ids e \<longleftrightarrow> (\<forall>g \<in> set (waiting (le_scheduler e) @ running (le_scheduler e)). \<not> is_int_id (request_id g))"

lemma new_request_drains:
  assumes "drains e" and "str_ids e" and "encode_request env prompt token_ids None = Inr ts" and "ts \<noteq> []" and "single_output sp"
    and "max_tokens sp \<noteq> None"
  shows "\<exists>e'. add_request env now (StrId rid) prompt sp token_ids None None None e = Inr e' \<and> drains e' \<and> str_ids e' \<and>
    prompt_answers.all_bag (le_scheduler e') = add_mset (StrId rid, ts) (prompt_answers.all_bag (le_scheduler e))"
proof -
  let ?s = "le_scheduler e"
  have ok: "engine_ok {#} e" using assms(1) by (simp add: drains_def)
  have kind: "\<forall>g \<in> set (waiting ?s @ running ?s). is_int_id (request_id g) = is_int_id (StrId rid)"
    using assms(2) by (simp add: str_ids_def is_int_id_def)
  from add_request_inv [OF ok assms(3-5) _ kind, of now None] obtain g where g:
    "add_request env now (StrId rid) prompt sp token_ids None None None e =
      Inr (e\<lparr>le_seq_counter := le_seq_counter e + 1, le_scheduler := add_seq_group g ?s\<rparr>)"
    "request_id g = StrId rid" "sg_sampling_params g = sp"
    "engine_ok {#} (e\<lparr>le_seq_counter := le_seq_counter e + 1, le_scheduler := add_seq_group g ?s\<rparr>)"
    "\<exists>q. single WAITING g q \<and> prompt_token_ids (seq_data q) = ts" by auto
  have pr: "prompt_of g = (StrId rid, ts)" using g(2,5) by (auto simp: prompt_of_def single_def)
  let ?e = "e\<lparr>le_seq_counter := le_seq_counter e + 1, le_scheduler := add_seq_group g ?s\<rparr>"
  have "drains ?e"
    using assms(1,6) g(3,4) by (simp add: drains_def add_seq_group_def limited_def admits_one_def)
  moreover have "str_ids ?e" using assms(2) g(2) by (auto simp: str_ids_def add_seq_group_def is_int_id_def)
  ultimately show ?thesis using g(1) pr by (intro exI [of _ ?e]) (simp add: add_seq_group_def)
qed


lemma add_prompts_ok:
  assumes "drains (lm_engine st)" and "str_ids (lm_engine st)" and "single_output sp" and "max_tokens sp \<noteq> None"
    and "\<And>i. i \<in> set is \<Longrightarrow> encode_request (se_engine env) (map_option (\<lambda>ps. ps ! i) prompts) (map_option (\<lambda>t. t ! i) token_ids) None = Inr (ts i) \<and>
      ts i \<noteq> []"
  shows "\<exists>e. efold (add_prompt env prompts sp token_ids None None) is st = Inr (st\<lparr>lm_engine := e, lm_counter := lm_counter st + int (length is)\<rparr>) \<and>
    drains e \<and> str_ids e \<and> prompt_answers.all_bag (le_scheduler e) = prompt_answers.all_bag (le_scheduler (lm_engine st)) +
      mset (map (\<lambda>(k, i). (StrId (int_str (lm_counter st + int k)), ts i)) (enumerate 0 is))"
  using assms(1,2,5)
proof (induction "is" arbitrary: st)
  case Nil
  then show ?case by (intro exI [of _ "lm_engine st"]) simp
next
  case (Cons i rest)
  let ?p = "map_option (\<lambda>ps. ps ! i) prompts" and ?t = "map_option (\<lambda>t. t ! i) token_ids"
  have enc: "encode_request (se_engine env) ?p ?t None = Inr (ts i)" "ts i \<noteq> []" using Cons.prems(3) [of i] by simp_all
  from new_request_drains [OF Cons.prems(1,2) enc assms(3,4), of "se_arrival env (sv_tick st + i)" "int_str (lm_counter st)"] obtain e where e:
    "add_request (se_engine env) (se_arrival env (sv_tick st + i)) (StrId (int_str (lm_counter st))) ?p sp ?t None None None (lm_engine st) = Inr e"
    "drains e" "str_ids e"
    "prompt_answers.all_bag (le_scheduler e) = add_mset (StrId (int_str (lm_counter st)), ts i) (prompt_answers.all_bag (le_scheduler (lm_engine st)))"
    by blast
  let ?st = "st\<lparr>lm_engine := e, lm_counter := lm_counter st + 1\<rparr>"
  have one: "add_prompt env prompts sp token_ids None None i st = Inr ?st"
    using e(1) by (simp add: add_prompt_def prefix_pos_of_def llm_add_request_def counter_next_def)
  from Cons.IH [of ?st] e(2,3) Cons.prems(3) obtain e2 where e2:
    "efold (add_prompt env prompts sp token_ids None None) rest ?st = Inr (?st\<lparr>lm_engine := e2, lm_counter := lm_counter ?st + int (length rest)\<rparr>)"
    "drains e2" "str_ids e2" "prompt_answers.all_bag (le_scheduler e2) = prompt_answers.all_bag (le_scheduler (lm_engine ?st)) +
      mset (map (\<lambda>(k, i). (StrId (int_str (lm_counter ?st + int k)), ts i)) (enumerate 0 rest))" by auto
  have "map (\<lambda>(k, i). (StrId (int_str (lm_counter st + 1 + int k)), ts i)) (enumerate 0 rest) =
      map (\<lambda>(k, i). (StrId (int_str (lm_counter st + int k)), ts i)) (enumerate (Suc 0) rest)"
    by (rule nth_equalityI) (simp_all add: nth_enumerate_eq algebra_simps)
  then show ?case using one e2 e(4) by (intro exI [of _ e2]) (simp add: algebra_simps del: mset_map)
qed

text \<open>Without other processes the shared context stays as it is.\<close>

lemma serve_loop_ctx:
  assumes "serve_loop env st = Some (Inr st')" and "map_of (se_environ env) ''RUN_MULTI_MODEL'' = Some ''False''"
    and "se_world env = (\<lambda>_ p. p)"
  shows "sv_ctx st' = sv_ctx st"
proof -
  have "map_of (se_environ env) ''RUN_MULTI_MODEL'' = Some ''False'' \<longrightarrow> se_world env = (\<lambda>_ p. p) \<longrightarrow> r = Inr st' \<longrightarrow> sv_ctx st' = sv_ctx st"
    if "serve_loop env st = Some r" for r
    using that
  proof (induction rule: serve_loop.raw_induct [rotated 1, consumes 1])
    case (1 loop env st r)
    show ?case
    proof (intro impI)
      assume a: "map_of (se_environ env) ''RUN_MULTI_MODEL'' = Some ''False''" "se_world env = (\<lambda>_ p. p)" "r = Inr st'"
      have look: "sv_ctx (look env s) = sv_ctx s" for s using a(2) by (simp add: look_def)
      show "sv_ctx st' = sv_ctx st"
        using "1.hyps" a look unfolding single_model(2) [OF a(1)] serve_turn_single [OF a(1)]
        by (auto simp: ebind_def split: if_splits sum.splits dest!: "1.IH")
    qed
  qed
  then show ?thesis using assms by blast
qed

text \<open>C1: \<open>generate\<close> returns, for a list of non-empty prompts, exactly one finished output per prompt, in the order
  of the prompts, each with its prompt's token ids, and leaves the engine empty: from the counter of the
  requests through the scheduler and the processing of the samples to the sorted outputs.\<close>

theorem generate_in_order:
  assumes "map_of (se_environ env) ''RUN_MULTI_MODEL'' = Some ''False''" and "se_world env = (\<lambda>_ p. p)"
    and "samples_all (ee_tokenizer_len (se_engine env)) (se_execute env)"
    and "drains (lm_engine st)" and "\<not> has_unfinished_requests (lm_engine st)"
    and "shared_id (sv_ctx st) < length (shared_finish_status (sv_ctx st))"
    and "single_output sp" and "max_tokens sp \<noteq> None"
    and "\<And>i. i < n \<Longrightarrow> encode_request (se_engine env) (map_option (\<lambda>ps. ps ! i) prompts) (map_option (\<lambda>t. t ! i) token_ids) None = Inr (ts i) \<and>
      ts i \<noteq> []"
    and "case prompts of None \<Rightarrow> token_ids \<noteq> None | Some ps \<Rightarrow> length ps = n" and "case token_ids of None \<Rightarrow> True | Some t \<Rightarrow> length t = n"
  shows "\<exists>outs st'. generate env (map_option Inr prompts) (Some sp) token_ids None None st = Some (Inr (outs, st')) \<and>
    map (\<lambda>ro. (ro_request_id ro, ro_prompt_token_ids ro)) outs = map (\<lambda>i. (StrId (int_str (lm_counter st + int i)), ts i)) [0..<n] \<and>
    list_all ro_finished outs \<and> \<not> has_unfinished_requests (lm_engine st')"
proof -
  have idle: "waiting (le_scheduler (lm_engine st)) = []" "running (le_scheduler (lm_engine st)) = []" "swapped (le_scheduler (lm_engine st)) = []"
    using assms(5) by (simp_all add: has_unfinished_requests_def sch_has_unfinished_seqs_def)
  then have "str_ids (lm_engine st)" by (simp add: str_ids_def)
  from add_prompts_ok [OF assms(4) this assms(7,8), of "[0..<n]" env prompts token_ids ts] assms(9) obtain e where e:
    "efold (add_prompt env prompts sp token_ids None None) [0..<n] st = Inr (st\<lparr>lm_engine := e, lm_counter := lm_counter st + int n\<rparr>)"
    "drains e" "prompt_answers.all_bag (le_scheduler e) = mset (map (\<lambda>(k, i). (StrId (int_str (lm_counter st + int k)), ts i)) (enumerate 0 [0..<n]))"
    using idle by auto
  have "map (\<lambda>(k, i). (StrId (int_str (lm_counter st + int k)), ts i)) (enumerate 0 [0..<n]) =
      map (\<lambda>i. (StrId (int_str (lm_counter st + int i)), ts i)) [0..<n]"
    by (rule nth_equalityI) (simp_all add: nth_enumerate_eq)
  note bag = e(3) [unfolded this]
  let ?st = "st\<lparr>lm_engine := e, lm_counter := lm_counter st + int n\<rparr>"
  let ?start = "?st\<lparr>lm_engine := lm_engine ?st, sv_outputs := [], sv_step := 0, sv_sent := 0, sv_possible := True, sv_fetched := []\<rparr>"
  from run_engine_loop_ends [OF e(2) assms(3), of "se_now env" "\<lambda>_. False" 0 "[]"] obtain outs e' k where l:
    "run_engine_loop (se_engine env) (se_execute env) (se_now env) (\<lambda>_. False) 0 e [] = Some (Inr (outs, e', k))"
    "\<not> has_unfinished_requests e'" "list_all ro_finished outs" by auto
  have "map_option loop_view (serve_loop env ?start) = Some (Inr (outs, e', k))"
    unfolding serve_loop_single [OF assms(1)] using l(1) by simp
  then obtain r where r: "serve_loop env ?start = Some r" "loop_view r = Inr (outs, e', k)" by blast
  then obtain st1 where st1: "r = Inr st1" "sv_outputs st1 = outs" "lm_engine st1 = e'" by (cases r) (auto simp: loop_view_def)
  have ctx: "sv_ctx st1 = sv_ctx st" using serve_loop_ctx [OF r(1) [unfolded st1(1)] assms(1,2)] by simp
  have "engine_ok {#} e" using e(2) by (simp add: drains_def)
  from prompt_answers.loop_answers [OF l(1) this assms(3)] have
    "mset (map prompt_answer outs) = mset (map (\<lambda>i. (StrId (int_str (lm_counter st + int i)), ts i)) [0..<n])"
    using l(2) bag by (simp add: has_unfinished_requests_def sch_has_unfinished_seqs_def)
  from sort_outputs_ordered [OF this] obtain sorted_outs where so: "sort_outputs outs = Inr sorted_outs" "mset sorted_outs = mset outs"
    "map prompt_answer sorted_outs = map (\<lambda>i. (StrId (int_str (lm_counter st + int i)), ts i)) [0..<n]"
    by (auto simp: prompt_answer_def)
  have "\<exists>b. sc_is_finished (sv_ctx st) = Inr b" using assms(6) by (simp add: sc_is_finished_def py_index_of_nat)
  then have run: "run_engine env ?st = Some (Inr (sorted_outs, st1))"
    using r(1) st1 so(1) ctx single_model(1) [OF assms(1)] by (auto simp: run_engine_def)
  have len: "(case prompts of Some ps \<Rightarrow> length ps | None \<Rightarrow> length (the token_ids)) = n" "\<not> (prompts = None \<and> token_ids = None)"
    "\<not> (prompts \<noteq> None \<and> token_ids \<noteq> None \<and> length (the prompts) \<noteq> length (the token_ids))"
    using assms(10,11) by (auto split: option.splits)
  have "map_option (\<lambda>p. case p of Inl s \<Rightarrow> [s] | Inr ss \<Rightarrow> ss) (map_option Inr prompts) = prompts" by (cases prompts) simp_all
  then have "generate env (map_option Inr prompts) (Some sp) token_ids None None st = run_engine env ?st"
    using len e(1) by (auto simp: generate_def Let_def)
  moreover have "list_all ro_finished sorted_outs" using l(3) mset_eq_setD [OF so(2)] by (simp add: list_all_iff)
  moreover have "prompt_answer = (\<lambda>ro. (ro_request_id ro, ro_prompt_token_ids ro))" by (rule ext) (simp add: prompt_answer_def)
  ultimately show ?thesis using run so(3) st1(3) l(2) by auto
qed

end
