(* ===== verification/Engine_Examples.thy ===== *)
theory Engine_Examples
  imports Engine_Live Examples
begin

text \<open>
  A concrete engine for the witnesses of the properties of the engine: a tokenizer of two tokens, the
  scheduler with one waiting request, and a model that samples token 5 for every running sequence.
\<close>

definition ex_env :: engine_env where
  "ex_env = \<lparr>ee_tokenizer = (\<lambda>_. ex_tok), ee_tokenizer_len = 100, ee_encode = (\<lambda>s _. map (\<lambda>c. int (of_char c)) s),
     ee_pow = (\<lambda>_ _. 1), ee_hash = (\<lambda>_. 0)\<rparr>"

definition ex_execute :: "sequence_group_metadata list \<Rightarrow> scheduler_outputs \<Rightarrow> sequence_group_output list" where
  "ex_execute mds out = map (\<lambda>g. \<lparr>go_samples =
     map (\<lambda>q. \<lparr>so_parent_seq_id = seq_id q, so_output_token = 5, so_logprobs = [(5, 0)]\<rparr>) (get_seqs (Some RUNNING) g),
     go_prompt_logprobs = None\<rparr>) (scheduled_seq_groups out)"

lemma ex_samples_all: "samples_all (ee_tokenizer_len ex_env) ex_execute"
  by (simp add: samples_all_def ex_execute_def sampled_def list_all2_map2 list_all2_same ex_env_def)

definition ex_engine :: llm_engine where
  "ex_engine = \<lparr>le_scheduler = ex_sched\<lparr>dynamic_increase_oncard_weights := False\<rparr>, le_seq_counter = 5, le_block_size = 2,
     le_lora_enabled = False, le_log_stats = True, le_kv = kv_reset\<rparr>"

definition ex_idle :: llm_engine where
  "ex_idle = ex_engine\<lparr>le_scheduler := (le_scheduler ex_engine)\<lparr>waiting := []\<rparr>\<rparr>"

lemma ex_plain: "plain 2 5 (ex_group WAITING 1)"
proof -
  have "blocks_rep 2 [ex_block 0, ex_block 1] [5, 6, 5, 6]" by code_simp
  then have "seq_ok (ex_seq WAITING 1)" 
    by (simp add: seq_ok_def seq_get_token_ids_def data_get_token_ids_def ex_seq_def new_sequence_data_def)
  then show ?thesis
    by (simp add: plain_def has_room_def) (simp add: ex_group_def ex_sp_def default_sampling_args_def ex_seq_def 
      seq_get_output_len_def new_sequence_data_def)
qed

lemma ex_engine_ok: "engine_ok {#} ex_engine"
  using ex_sched_ok ex_plain by (simp add: engine_ok_def ex_engine_def) (simp add: ex_sched_def)

lemma ex_engine_drains: "drains ex_engine"
proof -
  have "limited (ex_group WAITING 1)" by (simp add: limited_def ex_group_def ex_sp_def default_sampling_args_def)
  moreover have "plain_pool ex_bm" by (simp add: plain_pool_def ex_bm_def new_block_allocator_def)
  ultimately show ?thesis using ex_engine_ok
    by (simp add: drains_def) (simp add: ex_engine_def ex_sched_def admits_one_def)
qed

lemma ex_idle_ok: "engine_ok {#} ex_idle" "queued (le_scheduler ex_idle) = {#}"
  using ex_bm_inv by (auto simp: engine_ok_def ex_idle_def ex_engine_def ex_sched_def sched_ok_def queues_ok_def one_kind_def
      no_stray_def queued_def)

lemma ex_queued: "queued (le_scheduler ex_engine) = {#StrId ''r''#}"
  by (simp add: queued_def ex_engine_def ex_sched_def)

theorem engine_step_ok_witness:
  "\<exists>ros e'. engine_step ex_env 3 ex_execute ex_engine = Inr (ros, e') \<and> engine_ok {#} e'"
  by (rule engine_step_ok [OF ex_engine_ok ex_samples_all])

lemma engine_step_requests_witness:
  "\<exists>ros e'. engine_step ex_env 3 ex_execute ex_engine = Inr (ros, e') \<and> finished_ids ros + queued (le_scheduler e') = {#StrId ''r''#}"
proof -
  obtain ros e' where s: "engine_step ex_env 3 ex_execute ex_engine = Inr (ros, e')"
    using step_drains [OF ex_engine_drains ex_samples_all, of 3]
    by (auto simp: has_unfinished_requests_def sch_has_unfinished_seqs_def ex_engine_def ex_sched_def)
  show ?thesis using engine_step_requests [OF ex_engine_ok ex_samples_all s] s by (simp add: ex_queued)
qed

theorem abort_request_exact_witness:
  "\<exists>e'. abort_request [StrId ''r'', StrId ''s''] ex_engine = Inr e' \<and> engine_ok {#} e' \<and> waiting (le_scheduler e') = [] \<and>
     running (le_scheduler e') = []"
  using abort_request_exact [OF ex_engine_ok, of "[StrId ''r'', StrId ''s'']"] by (simp add: ex_engine_def ex_sched_def)

lemma ex_tokens_left: "tokens_left (ex_group WAITING 1) = 16"
  by (simp add: tokens_left_def ex_group_def ex_sp_def default_sampling_args_def ex_seq_def seq_get_output_len_def new_sequence_data_def)

theorem run_engine_drains_witness:
  "\<exists>outs e' n. run_engine_loop ex_env ex_execute (\<lambda>i. of_nat i) (\<lambda>_. False) 0 ex_engine [] = Some (Inr (outs, e', n)) \<and>
     list_all ro_finished outs \<and> mset (map ro_request_id outs) = {#StrId ''r''#} \<and> n \<le> 34"
proof -
  have "work (le_scheduler ex_engine) = 16"
    using ex_tokens_left by (simp add: work_def ex_engine_def ex_sched_def)
  then show ?thesis
    using run_engine_drains [OF ex_engine_drains ex_samples_all, of "\<lambda>i. of_nat i"] by (force simp: ex_queued)
qed

lemma run_engine_stopped_witness:
  "\<exists>outs e' n. run_engine_loop ex_env ex_execute (\<lambda>i. of_nat i) (\<lambda>i. i = 3) 0 ex_engine [] = Some (Inr (outs, e', n)) \<and>
     engine_ok {#} e' \<and> mset (map ro_request_id outs) + queued (le_scheduler e') = {#StrId ''r''#}"
  using run_engine_stopped [OF ex_engine_drains ex_samples_all, of "\<lambda>i. of_nat i" "\<lambda>i. i = 3"] by (force simp: ex_queued)

text \<open>A run: request 7 comes in, the engine makes a step, the request is aborted.\<close>

lemma ex_single_output: "single_output ex_sp"
  by (simp add: single_output_def ex_sp_def default_sampling_args_def)

lemma ex_run_add:
  "\<exists>e. engine_run ex_env ex_idle {#IntId 7#} {#} {#} e \<and> queued (le_scheduler e) = {#IntId 7#} \<and> engine_ok {#} e"
proof -
  have idle: "waiting (le_scheduler ex_idle) = []" "running (le_scheduler ex_idle) = []"
    by (simp_all add: ex_idle_def ex_engine_def ex_sched_def)
  have enc: "encode_request ex_env None (Some [5]) None = Inr [5]" by (simp add: encode_request_def)
  obtain e where e: "add_request ex_env 0 (IntId 7) None ex_sp (Some [5]) None None None ex_idle = Inr e" "engine_ok {#} e"
    using add_request_inv [OF ex_idle_ok(1) enc _ ex_single_output, where rid = "IntId 7" and now = 0 and arrival = None] idle by auto
  have "engine_run ex_env ex_idle {#IntId 7#} {#} {#} e"
    by (rule engine_run.Add [OF engine_run.Start enc _ ex_single_output _ _ e(1)]) (simp_all add: idle)
  then show ?thesis using e(2) engine_run_inv [OF _ ex_idle_ok] by fastforce
qed

theorem engine_run_accounts_witness:
  "\<exists>F e. engine_run ex_env ex_idle {#IntId 7#} F {#} e \<and> engine_ok {#} e \<and> {#IntId 7#} = F + queued (le_scheduler e)"
proof -
  obtain e where e: "engine_run ex_env ex_idle {#IntId 7#} {#} {#} e" "engine_ok {#} e" using ex_run_add by blast
  obtain ros e' where s: "engine_step ex_env 3 ex_execute e = Inr (ros, e')"
    using engine_step_details [OF e(2) ex_samples_all, of 3] by blast
  from engine_run.Step [OF e(1) ex_samples_all s]
  have r: "engine_run ex_env ex_idle {#IntId 7#} (finished_ids ros) {#} e'" by simp
  from engine_run_accounts [OF r ex_idle_ok] r show ?thesis by auto
qed

theorem engine_idle_frees_blocks_witness:
  "\<exists>X e. engine_run ex_env ex_idle {#IntId 7#} {#} X e \<and> block_tables (sch_bm (le_scheduler e)) = []"
proof -
  obtain e where e: "engine_run ex_env ex_idle {#IntId 7#} {#} {#} e" "engine_ok {#} e" "queued (le_scheduler e) = {#IntId 7#}"
    using ex_run_add by blast
  then have sw: "swapped (le_scheduler e) = []" by (simp add: engine_ok_def Let_def)
  have m: "mset (map request_id (waiting (le_scheduler e) @ running (le_scheduler e))) = {#IntId 7#}"
    using e(3) sw by (simp add: queued_def)
  then obtain g where one: "waiting (le_scheduler e) = [g] \<and> running (le_scheduler e) = [] \<or>
      waiting (le_scheduler e) = [] \<and> running (le_scheduler e) = [g]" "request_id g = IntId 7"
    by (cases "waiting (le_scheduler e)"; cases "running (le_scheduler e)") auto
  obtain e' where a: "abort_request [IntId 7] e = Inr e'" "waiting (le_scheduler e') = []" "running (le_scheduler e') = []" "engine_ok {#} e'"
    using abort_request_ok [OF e(2), of "[IntId 7]"] one by auto
  then have "\<not> has_unfinished_requests e'"
    by (simp add: engine_ok_def Let_def has_unfinished_requests_def sch_has_unfinished_seqs_def)
  from engine_idle_frees_blocks [OF engine_run.Abort [OF e(1) a(1)] ex_idle_ok this]
  show ?thesis using engine_run.Abort [OF e(1) a(1)] by blast
qed

end
