(* ===== verification/Serve_Examples.thy ===== *)
theory Serve_Examples
  imports Serve_Generate Engine_Examples
begin

text \<open>
  Concrete objects for the witnesses of the properties of the \<open>LLM\<close> object: the example engine in
  single-model mode, and a model that fetches one request and is then told to stop.
\<close>

definition ex_ctx :: "bool \<Rightarrow> ctx" where
  "ex_ctx started = \<lparr>shared_setting = [1, 9, 0, 1, 0, 1, 1, 9, 0, 1, 0, 1], shared_id = 0, dp_id = 0, events = [False, False, True, True],
     started_status = [started, False], gened_outputs = [], remaining_requests = [],
     shared_finish_status = [False, False], execution_plan_size = 6, tot_req_num_remained = 5,
     sampling_args_dict = [(0, [(0, ex_sp)])], wait_stage_synchs = None, stage1_started = False\<rparr>"

definition ex_queue :: "request list" where
  "ex_queue = [(7, Tokens [5])]"

definition ex_served_comm :: communicator where
  "ex_served_comm = \<lparr>output_pool = (\<lambda>_. []), read_output_nums = (\<lambda>_. 0), available_srcs = (\<lambda>_. []),
      fused_inp_queues = (\<lambda>_. []) (0 := ex_queue), fetched_fused_inp_start = (\<lambda>_. [0]), in_edge_dict = [(0, [-1])],
      unavailable_req_nums = [(0, 0)], ungened_out_req_nums = [(0, 1)], base_model_ids_dict = [(0, [0])],
      out_reqs_reversed = [], out_req_id_mapping = [], new_out_req_part_num = [], meta_output_pool = [],
      independent_srcs = [(0, False)], out_req_model_id_mapping = (\<lambda>_. []),
      prompt_template_args = [(0, \<lparr>ta_tokenizer = ''t'', ta_trust_remote_code = False, ta_template = None\<rparr>)],
      outlen_dict = [], non_compute_ranges = []\<rparr>"

text \<open>The model is told to stop from the third look on.\<close>

definition ex_serve_env :: "bool \<Rightarrow> serve_env" where
  "ex_serve_env multi = \<lparr>se_engine = ex_env, se_execute = ex_execute, se_now = (\<lambda>i. of_nat i), se_arrival = (\<lambda>i. of_nat i), se_chat = (\<lambda>_. None),
     se_world = (if multi then (\<lambda>t _. (ex_served_comm, ex_ctx (t < 2))) else (\<lambda>_ p. p)),
     se_environ = [(''RUN_MULTI_MODEL'', if multi then ''True'' else ''False''), (''NO_PREEMPT'', ''False''), (''MY_SORT_INPS'', ''True''),
       (''SOFT_RESCHEDULE'', ''True''), (''USE_VLLM'', ''True'')],
     se_return_str = False, se_check_in_gap = 16, se_check_out_gaps = [1, 1], se_world_size = 1\<rparr>"

definition ex_serve :: "llm_engine \<Rightarrow> serve_state" where
  "ex_serve e = \<lparr>lm_engine = e, lm_counter = 0, sv_comm = ex_served_comm, sv_ctx = ex_ctx True, sv_outputs = [], sv_step = 0, sv_sent = 0,
     sv_possible = True, sv_tick = 0, sv_fetched = []\<rparr>"

lemma ex_serve_env_simps [simp]:
  "se_engine (ex_serve_env b) = ex_env" "se_execute (ex_serve_env b) = ex_execute"
  "map_of (se_environ (ex_serve_env b)) ''RUN_MULTI_MODEL'' = Some (if b then ''True'' else ''False'')"
  by (simp_all add: ex_serve_env_def)

theorem serve_loop_single_witness:
  "map_option loop_view (serve_loop (ex_serve_env False) (ex_serve ex_engine)) =
    run_engine_loop ex_env ex_execute (\<lambda>i. of_nat i) (\<lambda>_. False) 0 ex_engine []"
  using serve_loop_single [of "ex_serve_env False" "ex_serve ex_engine"] by (simp add: ex_serve_def) (simp add: ex_serve_env_def)

text \<open>Two workers with the same sequence id.\<close>

definition ex_worker :: "int \<Rightarrow> llm_engine" where
  "ex_worker r = ex_engine\<lparr>le_scheduler := (le_scheduler ex_engine)\<lparr>waiting := [(ex_group WAITING 1)\<lparr>request_id := IntId r\<rparr>]\<rparr>\<rparr>"

lemma ex_worker_ok: "engine_ok {#} (ex_worker r)" "no_prefixes (ex_worker r)" "le_block_size (ex_worker r) = 2"
  "queued (le_scheduler (ex_worker r)) = {#IntId r#}"
proof -
  let ?g = "(ex_group WAITING 1)\<lparr>request_id := IntId r\<rparr>"
  have "plain 2 5 ?g" using ex_plain by (simp add: plain_def)
  moreover have "get_max_num_running_seqs ?g = get_max_num_running_seqs (ex_group WAITING 1)"
    by (simp add: get_max_num_running_seqs_def num_seqs_def num_unfinished_seqs_def get_unfinished_seqs_def)
  then have "single WAITING ?g (ex_seq WAITING 1)" using ex_single [of WAITING 1] by (simp add: single_def)
  ultimately show "engine_ok {#} (ex_worker r)"
    using ex_bm_inv by (auto simp: engine_ok_def sched_ok_def queues_ok_def one_kind_def no_stray_def ex_worker_def ex_engine_def ex_sched_def waits_def prefix_fits_def
      intro!: exI [of _ "ex_seq WAITING 1"])
qed (simp_all add: ex_worker_def ex_engine_def ex_sched_def no_prefixes_def queued_def)

theorem restart_keeps_requests_witness:
  "\<exists>rs. list_all2 (\<lambda>w r. \<exists>s. sch_get_unfinished_seqs (le_scheduler w) = Inr (r, s)) [ex_worker 3, ex_worker 4] rs \<and>
    (let e' = correct_seq_ids (ex_idle\<lparr>le_scheduler := (le_scheduler ex_idle)\<lparr>waiting := concat rs\<rparr>\<rparr>) in
     engine_ok {#} e' \<and> queued (le_scheduler e') = {#IntId 3, IntId 4#} \<and> distinct (map sid (waiting (le_scheduler e'))))"
proof -
  have "waiting (le_scheduler ex_idle) = []" "running (le_scheduler ex_idle) = []" "le_block_size ex_idle = 2"
    by (simp_all add: ex_idle_def ex_engine_def ex_sched_def)
  then show ?thesis
    using restart_keeps_requests [of "{#}" ex_idle "[ex_worker 3, ex_worker 4]" "{#}"] ex_worker_ok ex_idle_ok(1)
    by (simp add: is_int_id_def add_mset_commute)
qed

text \<open>Fetching and stopping.\<close>

lemma ex_good_inputs: "good_inputs (ex_serve_env b) (ex_ctx c) [(7, Tokens [5]), (8, Tokens [6, 5])] [0]"
  by (auto simp: good_inputs_def servable_def ex_ctx_def get_sampling_args_def py_index_def ex_single_output intro!: exI [of _ False])

theorem unsorted_requests_are_dropped_witness:
  "(\<exists>e. add_new_available_reqs (ex_serve_env True) [(7, Tokens [5]), (8, Tokens [6, 5])] True [0] (ex_serve ex_idle) = Inr ((ex_serve ex_idle)\<lparr>lm_engine := e\<rparr>) \<and>
      queued (le_scheduler e) = {#IntId 7, IntId 8#}) \<and>
   (\<exists>e. add_new_available_reqs (ex_serve_env True) [(7, Tokens [5]), (8, Tokens [6, 5])] False [0] (ex_serve ex_idle) = Inr ((ex_serve ex_idle)\<lparr>lm_engine := e\<rparr>) \<and>
      queued (le_scheduler e) = {#IntId 7#})"
proof -
  have "int_ids ex_idle" "lm_engine (ex_serve ex_idle) = ex_idle" "sv_ctx (ex_serve ex_idle) = ex_ctx True"
    by (simp_all add: int_ids_def ex_idle_ok ex_serve_def)
  then show ?thesis using unsorted_requests_are_dropped [of "{#}" "ex_serve ex_idle" "ex_serve_env True" "(7, Tokens [5])" "[(8, Tokens [6, 5])]" 0]
    ex_good_inputs ex_idle_ok by (simp add: add_mset_commute)
qed

lemma ex_stops: "stops_at 2 (ex_serve_env True)"
  by (simp add: stops_at_def ex_serve_env_def should_reschedule_def run_multi_model_def dict_get_def is_started_def ex_ctx_def py_index_def)

theorem serve_stops_witness:
  "\<exists>r. serve_loop (ex_serve_env True) (ex_serve ex_idle) = Some r \<and> (\<forall>st'. r = Inr st' \<longrightarrow> sv_step st' \<le> 3)"
  using serve_stops [OF ex_stops, of "ex_serve ex_idle"] by (simp add: ex_serve_def numeral_3_eq_3)

lemma ex_get_seqs:
  "get_seqs_comm (\<lambda>_. None) 0 0 1 ex_served_comm = Inr (ex_queue, True, [0], ex_served_comm\<lparr>fetched_fused_inp_start := (\<lambda>_. [0]) (0 := [1])\<rparr>)"
  by (simp add: get_seqs_comm_def get_seqs_loop_def get_seqs_base_model_def get_correct_lock_def get_fused_inp_queues_def take_share_def
      get_seqs_of_worker_def update_out_req_model_id_mapping_def apply_prompt_template_def assert_no_exception_def
      ex_served_comm_def ex_queue_def dict_get_def py_index_def Let_def)


lemma ex_feeds: "feeds (ex_serve_env True)"
proof -
  have good: "good_inputs (ex_serve_env True) (ex_ctx b) ex_queue [0]" for b
    by (auto simp: good_inputs_def servable_def ex_ctx_def get_sampling_args_def py_index_def ex_single_output ex_queue_def intro!: exI [of _ False])
  have "get_dp_size (ex_ctx b) = Inr 1" for b by (simp add: get_dp_size_def plan_offset_def ex_ctx_def py_index_def numeral_3_eq_3)
  moreover have "shared_id (ex_ctx b) = 0" "dp_id (ex_ctx b) = 0" for b by (simp_all add: ex_ctx_def)
  ultimately show ?thesis using ex_get_seqs good by (auto simp: feeds_def ex_serve_env_def)
qed

text \<open>The run: the request is fetched, and kept for the next start.\<close>

lemma ex_told: "told_to_stop (ex_serve_env True) st = Inr (\<not> c)" if "sv_ctx st = ex_ctx c"
  using that by (simp add: told_to_stop_def should_reschedule_def run_multi_model_def no_preempt_off_def dict_get_def is_started_def
    ex_serve_env_def ex_ctx_def py_index_def)

lemma ex_look: "look (ex_serve_env True) st = st\<lparr>sv_comm := ex_served_comm, sv_ctx := ex_ctx (sv_tick st < 2), sv_tick := sv_tick st + 1\<rparr>"
  by (simp add: look_def ex_serve_env_def)

lemma ex_fetch:
  "\<exists>e. fetch_turn (ex_serve_env True) False (ex_serve ex_idle) = Inr (False, (ex_serve ex_idle)\<lparr>lm_engine := e, sv_tick := 2,
     sv_comm := ex_served_comm\<lparr>fetched_fused_inp_start := (\<lambda>_. [0]) (0 := [1])\<rparr>, sv_fetched := ex_queue\<rparr>) \<and> engine_ok {#} e"
proof -
  let ?st = "(ex_serve ex_idle)\<lparr>sv_comm := ex_served_comm\<lparr>fetched_fused_inp_start := (\<lambda>_. [0]) (0 := [1])\<rparr>, sv_tick := 2, sv_fetched := ex_queue\<rparr>"
  have good: "good_inputs (ex_serve_env True) (sv_ctx ?st) ex_queue [0]"
    by (auto simp: good_inputs_def servable_def ex_ctx_def ex_serve_def get_sampling_args_def py_index_def ex_single_output ex_queue_def intro!: exI [of _ False])
  have "engine_ok {#} (lm_engine ?st)" "int_ids (lm_engine ?st)" by (simp_all add: ex_serve_def int_ids_def ex_idle_ok)
  from add_new_ok [OF this good, of True] obtain e where e:
    "add_new_available_reqs (ex_serve_env True) ex_queue True [0] ?st = Inr (?st\<lparr>lm_engine := e\<rparr>)" "engine_ok {#} e" by auto
  let ?env = "ex_serve_env True" and ?s = "ex_serve ex_idle"
  let ?one = "?s\<lparr>sv_comm := ex_served_comm, sv_ctx := ex_ctx True, sv_tick := 1\<rparr>"
  let ?two = "?s\<lparr>sv_comm := ex_served_comm, sv_ctx := ex_ctx True, sv_tick := 2\<rparr>"
  have sel: "sv_tick ?s = 0" "sv_ctx ?two = ex_ctx True" "sv_comm ?two = ex_served_comm" "sv_fetched ?two = []" "se_chat ?env = (\<lambda>_. None)"
    "map_of (se_environ ?env) ''MY_SORT_INPS'' = Some ''True''" "shared_id (ex_ctx True) = 0" "dp_id (ex_ctx True) = 0"
    by (simp_all add: ex_serve_def ex_serve_env_def ex_ctx_def)
  have look: "look ?env ?s = ?one" "look ?env ?one = ?two" by (simp_all add: ex_look sel(1))
  have told: "told_to_stop ?env ?one = Inr False" using ex_told [of ?one True] by simp
  have dp: "get_dp_size (ex_ctx True) = Inr 1" by (simp add: get_dp_size_def plan_offset_def ex_ctx_def py_index_def numeral_3_eq_3)
  have same: "?two\<lparr>sv_comm := ex_served_comm\<lparr>fetched_fused_inp_start := (\<lambda>_. [0]) (0 := [1])\<rparr>, sv_possible := True, sv_fetched := [] @ ex_queue\<rparr> = ?st"
    by (simp add: ex_serve_def)
  have get: "get_seqs_comm (\<lambda>_. None) (int 0) 0 (nat 1) ex_served_comm =
      Inr (ex_queue, True, [0], ex_served_comm\<lparr>fetched_fused_inp_start := (\<lambda>_. [0]) (0 := [1])\<rparr>)" using ex_get_seqs by simp
  have "fetch_turn ?env False ?s = Inr (False, ?st\<lparr>lm_engine := e\<rparr>)"
    unfolding fetch_turn_def Let_def look told ebind_simps if_False sel dp get split_conv same simp_thms refl if_True e(1)
    by (simp add: ex_queue_def)
  then show ?thesis using e(2) by (intro exI [of _ e]) simp
qed


lemma ex_correct_ids: "correct_seq_ids ex_idle = ex_idle"
  by (simp add: correct_seq_ids_def ex_idle_def ex_engine_def ex_sched_def)

lemma ex_loop:
  "\<exists>e n. serve_loop (ex_serve_env True) (ex_serve ex_idle) = Some (Inr ((ex_serve ex_idle)\<lparr>lm_engine := e, sv_tick := n, sv_step := 1,
     sv_comm := ex_served_comm, sv_ctx := ex_ctx False, sv_fetched := ex_queue\<rparr>)) \<and> engine_ok {#} e"
proof -
  let ?env = "ex_serve_env True" and ?s = "ex_serve ex_idle"
  obtain e where e: "fetch_turn ?env False ?s = Inr (False, ?s\<lparr>lm_engine := e, sv_tick := 2,
     sv_comm := ex_served_comm\<lparr>fetched_fused_inp_start := (\<lambda>_. [0]) (0 := [1])\<rparr>, sv_fetched := ex_queue\<rparr>)" "engine_ok {#} e"
    using ex_fetch by blast
  let ?t = "?s\<lparr>lm_engine := e, sv_tick := 2, sv_comm := ex_served_comm\<lparr>fetched_fused_inp_start := (\<lambda>_. [0]) (0 := [1])\<rparr>, sv_fetched := ex_queue\<rparr>"
  have idle: "waiting (le_scheduler ex_idle) = []" "swapped (le_scheduler ex_idle) = []" "\<not> has_unfinished_requests ex_idle"
    by (simp_all add: has_unfinished_requests_def sch_has_unfinished_seqs_def ex_idle_def ex_engine_def ex_sched_def)
  have "lm_engine ?s = ex_idle" "sv_possible ?s" by (simp_all add: ex_serve_def)
  then have f: "fetch_phase ?env ?s = Some (Inr ?t)"
    using idle e(1) by (simp add: fetch_phase_def run_multi_model_def dict_get_def fetch_loop.simps [of ?env False ?s])
  let ?u = "?s\<lparr>lm_engine := e, sv_tick := 3, sv_step := 1, sv_comm := ex_served_comm, sv_ctx := ex_ctx False, sv_fetched := ex_queue\<rparr>"
  have "look ?env (?t\<lparr>sv_step := sv_step ?t + 1\<rparr>) = ?u" by (simp add: ex_look ex_serve_def)
  moreover have "told_to_stop ?env ?u = Inr True" using ex_told [of ?u False] by simp
  ultimately have "serve_turn ?env ?t = Inr (False, ?u)" by (simp add: serve_turn_def dict_get_def Let_def ex_serve_def)
  then have "serve_loop ?env ?s = Some (Inr ?u)" using f by (subst serve_loop.simps) simp
  then show ?thesis using e(2) by blast
qed

lemma ex_run_engine: "\<exists>st'. run_engine (ex_serve_env True) (ex_serve ex_idle) = Some (Inr ([], st')) \<and> sv_fetched st' = ex_queue"
proof -
  let ?env = "ex_serve_env True"
  obtain e n where l: "serve_loop ?env (ex_serve ex_idle) = Some (Inr ((ex_serve ex_idle)\<lparr>lm_engine := e, sv_tick := n, sv_step := 1,
     sv_comm := ex_served_comm, sv_ctx := ex_ctx False, sv_fetched := ex_queue\<rparr>))" "engine_ok {#} e" using ex_loop by blast
  let ?u = "(ex_serve ex_idle)\<lparr>lm_engine := e, sv_tick := n, sv_step := 1, sv_comm := ex_served_comm, sv_ctx := ex_ctx False, sv_fetched := ex_queue\<rparr>"
  have start: "(ex_serve ex_idle)\<lparr>lm_engine := correct_seq_ids (lm_engine (ex_serve ex_idle)), sv_outputs := [], sv_step := 0, sv_sent := 0,
      sv_possible := True, sv_fetched := []\<rparr> = ex_serve ex_idle" by (simp add: ex_serve_def ex_correct_ids)
  have "add_seqs 0 [] ex_served_comm = Inr (ex_served_comm\<lparr>outlen_dict := [(0, [])]\<rparr>)"
    by (simp add: add_seqs_def add_seqs_base_model_def get_correct_lock_def ex_served_comm_def dict_get_def ddict_get_def
      assert_no_exception_def dict_update_def fun_eq_iff)
  then obtain c where c: "send_outputs ?env ?u = Inr ((look ?env ?u)\<lparr>sv_comm := c, sv_sent := 0\<rparr>)"
    by (simp add: send_outputs_def get_outputs_to_system_communicator_def Let_def ex_look ex_serve_def ex_ctx_def)
  let ?v = "(look ?env ?u)\<lparr>sv_comm := c, sv_sent := 0\<rparr>"
  let ?x = "(ex_ctx (n < 2))\<lparr>tot_req_num_remained := 5\<rparr>"
  have v: "sv_ctx ?v = ex_ctx (n < 2)" "sv_outputs ?v = []" "lm_engine ?v = e" "sv_fetched ?v = ex_queue"
    by (simp_all add: ex_look ex_serve_def)
  have dp: "has_dp_parallel (ex_ctx (n < 2)) = Inr False"
    by (simp add: has_dp_parallel_def plan_offset_def ex_ctx_def py_index_def numeral_3_eq_3)
  have fin: "set_finished (int (length [])) (ex_ctx (n < 2)) = Inr ?x" by (simp add: set_finished_def ex_ctx_def)
  have prep: "prepare_for_reschedule (se_environ ?env) (se_world_size ?env) [] gs False ?x = Inr ([Delete_Workers False], kv_reset, ?x\<lparr>remaining_requests := gs\<rparr>)"
    for gs by (simp add: prepare_for_reschedule_def ex_serve_env_def dict_get_def ex_ctx_def Let_def)
  have "sc_is_finished (?x\<lparr>remaining_requests := gs\<rparr>) = Inr False" for gs by (simp add: sc_is_finished_def ex_ctx_def py_index_def)
  then have "\<exists>st'. leave_for_reschedule ?env ?u = Inr st' \<and> sv_fetched st' = ex_queue \<and> sv_outputs st' = [] \<and> sc_is_finished (sv_ctx st') = Inr False"
    unfolding leave_for_reschedule_def c ebind_simps v dp get_unfinished_returns [OF l(2)] split_conv if_False fin prep by (auto simp: v ex_serve_def)
  then show ?thesis using l(1) start by (auto simp: run_engine_def run_multi_model_def dict_get_def sort_outputs_def)
qed


theorem generate_in_order_witness:
  "\<exists>outs st'. generate (ex_serve_env False) None (Some ex_sp) (Some [[5], [6, 5]]) None None (ex_serve ex_idle) = Some (Inr (outs, st')) \<and>
     map (\<lambda>ro. (ro_request_id ro, ro_prompt_token_ids ro)) outs = [(StrId ''0'', [5]), (StrId ''1'', [6, 5])] \<and> list_all ro_finished outs"
proof -
  have idle: "\<not> has_unfinished_requests ex_idle" "lm_engine (ex_serve ex_idle) = ex_idle"
    by (simp_all add: has_unfinished_requests_def sch_has_unfinished_seqs_def ex_idle_def ex_engine_def ex_sched_def ex_serve_def)
  have "drains ex_idle"
    using ex_engine_drains ex_idle_ok(1) by (simp add: drains_def) (simp add: ex_idle_def admits_one_def)
  moreover have "max_tokens ex_sp \<noteq> None" by (simp add: ex_sp_def default_sampling_args_def)
  moreover have "shared_id (sv_ctx (ex_serve ex_idle)) < length (shared_finish_status (sv_ctx (ex_serve ex_idle)))"
    by (simp add: ex_serve_def ex_ctx_def)
  moreover have "se_world (ex_serve_env False) = (\<lambda>_ p. p)" by (simp add: ex_serve_env_def)
  moreover have "lm_counter (ex_serve ex_idle) = 0" by (simp add: ex_serve_def)
  moreover have "int_str 0 = ''0''" "int_str 1 = ''1''" by code_simp+
  moreover have "encode_request ex_env (map_option (\<lambda>ps. ps ! i) None) (map_option (\<lambda>t. t ! i) (Some [[5], [6, 5]])) None =
      Inr ([[5], [6, 5]] ! i) \<and> [[5], [6, 5]] ! i \<noteq> []" if "i < 2" for i
    using that by (auto simp: encode_request_def less_Suc_eq numeral_2_eq_2)
  ultimately show ?thesis
    using generate_in_order [of "ex_serve_env False" "ex_serve ex_idle" ex_sp 2 None "Some [[5], [6, 5]]" "\<lambda>i. [[5], [6, 5]] ! i"]
      ex_samples_all ex_single_output idle by (force simp: numeral_2_eq_2)
qed

end
