(* ===== verification/Async_Engine.thy ===== *)
theory Async_Engine
  imports Engine
begin

text \<open>
  \<^verbatim>\<open>vllm/engine/async_llm_engine.py\<close>: clients add requests at any time and read their outputs from streams;
  a background loop moves the new requests into the engine, aborts what is finished, steps the engine and
  sends the outputs to the streams. A stream is shared by the tracker and its client, so the streams live
  in a store and the tracker holds their addresses. The configuration is the one without Ray, where a
  coroutine gives way to others only while the model runs, in \<open>run_engine_loop\<close> between two turns, and when
  a client waits for its stream: a turn is two definitions, before and after the model, and what a client
  does in between is one definition each (a tokenizer that has to be fetched for a LoRA request also gives
  way: not modelled). Left out: the logging and the workers' start-up.
\<close>

section \<open>Streams\<close>

datatype stream_item = Item request_output | Raise py_error | Stop_Async_Iteration

record async_stream =
  as_request_id :: req_id
  as_queue :: "stream_item list"
  as_finished :: bool

definition new_async_stream :: "req_id \<Rightarrow> async_stream" where
  "new_async_stream rid = \<lparr>as_request_id = rid, as_queue = [], as_finished = False\<rparr>"

definition stream_put :: "stream_item \<Rightarrow> async_stream \<Rightarrow> async_stream" where
  "stream_put item s = (if as_finished s then s else s\<lparr>as_queue := as_queue s @ [item]\<rparr>)"

definition stream_finish :: "async_stream \<Rightarrow> async_stream" where
  "stream_finish s = s\<lparr>as_queue := as_queue s @ [Stop_Async_Iteration], as_finished := True\<rparr>"

section \<open>The request tracker\<close>

text \<open>The keyword arguments of a new request.\<close>

record new_request =
  nr_request_id :: req_id
  nr_prompt :: "string option"
  nr_sampling_params :: sampling_params
  nr_prompt_token_ids :: "int list option"
  nr_arrival_time :: float64
  nr_lora_request :: "lora_request option"
  nr_prefix_pos :: "int option"

record request_tracker =
  rt_store :: "async_stream list"
  rt_request_streams :: "(req_id, nat) dict"
  rt_finished_requests :: "req_id list"
  rt_new_requests :: "(nat \<times> new_request) list"
  rt_new_requests_event :: "bool option"

definition new_request_tracker :: request_tracker where
  "new_request_tracker = \<lparr>rt_store = [], rt_request_streams = [], rt_finished_requests = [], rt_new_requests = [],
     rt_new_requests_event = None\<rparr>"

definition init_event :: "request_tracker \<Rightarrow> request_tracker" where
  "init_event t = t\<lparr>rt_new_requests_event := Some False\<rparr>"

definition on_stream :: "nat \<Rightarrow> (async_stream \<Rightarrow> async_stream) \<Rightarrow> request_tracker \<Rightarrow> request_tracker" where
  "on_stream a f t = t\<lparr>rt_store := (rt_store t)[a := f (rt_store t ! a)]\<rparr>"

definition propagate_exception :: "py_error \<Rightarrow> req_id option \<Rightarrow> request_tracker \<Rightarrow> request_tracker result" where
  "propagate_exception exc rid t =
     (case rid of
        Some r \<Rightarrow> ebind (dict_get (rt_request_streams t) r) (\<lambda>a. Inr (on_stream a (stream_put (Raise exc)) t))
      | None \<Rightarrow> Inr (fold (\<lambda>a. on_stream a (stream_put (Raise exc))) (dict_values (rt_request_streams t)) t))"

definition tracker_abort_request :: "req_id \<Rightarrow> request_tracker \<Rightarrow> request_tracker" where
  "tracker_abort_request rid t =
     (let t = t\<lparr>rt_finished_requests := rt_finished_requests t @ [rid]\<rparr>
      in case map_of (rt_request_streams t) rid of
           None \<Rightarrow> t
         | Some a \<Rightarrow> if as_finished (rt_store t ! a) then t else on_stream a stream_finish t)"

definition process_request_output :: "request_output \<Rightarrow> request_tracker \<Rightarrow> request_tracker result" where
  "process_request_output ro t =
     ebind (dict_get (rt_request_streams t) (ro_request_id ro)) (\<lambda>a.
       let t = on_stream a (stream_put (Item ro)) t
       in Inr (if ro_finished ro then tracker_abort_request (ro_request_id ro) t else t))"

definition tracker_add_request :: "new_request \<Rightarrow> request_tracker \<Rightarrow> (nat \<times> request_tracker) result" where
  "tracker_add_request nr t =
     (if nr_request_id nr \<in> set (dict_keys (rt_request_streams t)) then Inl KeyError
      else let a = length (rt_store t);
               t = t\<lparr>rt_store := rt_store t @ [new_async_stream (nr_request_id nr)], rt_new_requests := rt_new_requests t @ [(a, nr)]\<rparr>
           in case rt_new_requests_event t of
                None \<Rightarrow> Inl AttributeError
              | Some _ \<Rightarrow> Inr (a, t\<lparr>rt_new_requests_event := Some True\<rparr>))"

text \<open>The set of finished requests is the list of its elements; the streams of the new requests are looked at in order.\<close>

definition take_new :: "req_id list \<Rightarrow> nat \<times> new_request \<Rightarrow> new_request list \<times> request_tracker \<Rightarrow> new_request list \<times> request_tracker" where
  "take_new finished = (\<lambda>(a, nr) (news, t).
     let rid = as_request_id (rt_store t ! a) in
     if rid \<in> set finished then (news, on_stream a stream_finish t)
     else (news @ [nr], t\<lparr>rt_request_streams := dict_set rid a (rt_request_streams t)\<rparr>))"

definition get_new_and_finished_requests :: "request_tracker \<Rightarrow> (new_request list \<times> req_id list \<times> request_tracker) result" where
  "get_new_and_finished_requests t =
     (let finished = remdups (rt_finished_requests t);
          t = t\<lparr>rt_finished_requests := [], rt_request_streams := fold dict_del finished (rt_request_streams t)\<rparr>;
          (news, t) = fold (take_new finished) (rt_new_requests t) ([], t);
          t = t\<lparr>rt_new_requests := []\<rparr>
      in case rt_new_requests_event t of
           None \<Rightarrow> Inl AttributeError
         | Some _ \<Rightarrow> Inr (news, finished, t\<lparr>rt_new_requests_event := Some False\<rparr>))"

section \<open>The engine below\<close>

text \<open>
  \<open>step_async\<close> up to the model, and after it. Unlike \<open>step\<close> it does not pass on the blocks to reorganize or
  the layers to load, and does not reset their number.
\<close>

definition step_async_begin ::
    "float64 \<Rightarrow> llm_engine \<Rightarrow> (sequence_group_metadata list \<times> scheduler_outputs \<times> llm_engine) result" where
  "step_async_begin now e =
     ebind (sch_schedule now (le_kv e) (le_scheduler e)) (\<lambda>(mds, out, kv, s). Inr (mds, out, e\<lparr>le_scheduler := s, le_kv := kv\<rparr>))"

definition step_async_end ::
    "engine_env \<Rightarrow> float64 \<Rightarrow> sequence_group_output list \<Rightarrow> scheduler_outputs \<Rightarrow> llm_engine \<Rightarrow> (request_output list \<times> llm_engine) result" where
  "step_async_end env now all_outputs out e =
     (let output = (if outputs_is_empty out then [] else all_outputs) in process_model_outputs env now output out e)"

definition add_request_async :: "engine_env \<Rightarrow> new_request \<Rightarrow> llm_engine \<Rightarrow> llm_engine result" where
  "add_request_async env nr e =
     (if nr_lora_request nr \<noteq> None \<and> \<not> le_lora_enabled e then Inl (ValueError ''LoRA is not enabled'')
      else ebind (encode_request env (nr_prompt nr) (nr_prompt_token_ids nr) (nr_lora_request nr)) (\<lambda>ts.
        add_request env (nr_arrival_time nr) (nr_request_id nr) (nr_prompt nr) (nr_sampling_params nr) (Some ts)
          (Some (nr_arrival_time nr)) (nr_lora_request nr) (nr_prefix_pos nr) e))"

section \<open>The asynchronous engine\<close>

record async_engine =
  ae_engine :: llm_engine
  ae_tracker :: request_tracker
  ae_running :: bool
  ae_start_engine_loop :: bool

definition new_async_engine :: "llm_engine \<Rightarrow> bool \<Rightarrow> async_engine" where
  "new_async_engine e start = \<lparr>ae_engine = e, ae_tracker = new_request_tracker, ae_running = False, ae_start_engine_loop = start\<rparr>"

definition dead_engine_error :: py_error where
  "dead_engine_error = RuntimeError ''AsyncEngineDeadError''"

definition start_background_loop :: "async_engine \<Rightarrow> async_engine result" where
  "start_background_loop a =
     (if ae_running a then Inl (RuntimeError ''Background loop is already running.'')
      else Inr (a\<lparr>ae_tracker := init_event (ae_tracker a), ae_running := True\<rparr>))"

text \<open>
  A turn of the loop up to the model: the requests given to the model and the new state; and after it, with
  what the model sampled: whether requests are in progress, and the new state.
\<close>

definition engine_step_begin ::
    "engine_env \<Rightarrow> float64 \<Rightarrow> async_engine \<Rightarrow> (sequence_group_metadata list \<times> scheduler_outputs \<times> async_engine) result" where
  "engine_step_begin env now a =
     ebind (get_new_and_finished_requests (ae_tracker a)) (\<lambda>(news, finished, t).
     ebind (efold (add_request_async env) news (ae_engine a)) (\<lambda>e.
     ebind (if finished \<noteq> [] then abort_request finished e else Inr e) (\<lambda>e.
     ebind (step_async_begin now e) (\<lambda>(mds, out, e). Inr (mds, out, a\<lparr>ae_engine := e, ae_tracker := t\<rparr>)))))"

definition engine_step_end ::
    "engine_env \<Rightarrow> float64 \<Rightarrow> sequence_group_output list \<Rightarrow> scheduler_outputs \<Rightarrow> async_engine \<Rightarrow> (bool \<times> async_engine) result" where
  "engine_step_end env now all_outputs out a =
     ebind (step_async_end env now all_outputs out (ae_engine a)) (\<lambda>(ros, e).
     ebind (efold process_request_output ros (ae_tracker a)) (\<lambda>t.
       Inr (ros \<noteq> [], a\<lparr>ae_engine := e, ae_tracker := t\<rparr>)))"

text \<open>The loop of \<open>run_engine_loop\<close> makes a turn when requests are in progress or new ones have come.\<close>

definition loop_may_step :: "bool \<Rightarrow> async_engine \<Rightarrow> bool" where
  "loop_may_step has_requests_in_progress a \<longleftrightarrow>
     ae_running a \<and> (has_requests_in_progress \<or> rt_new_requests_event (ae_tracker a) = Some True)"

text \<open>
  \<open>_raise_exception_on_finish\<close>: an exception ends the loop and is sent to all streams. The state of an
  engine whose step has raised is not modelled.
\<close>

definition raise_exception_on_finish :: "request_tracker \<Rightarrow> request_tracker result" where
  "raise_exception_on_finish t = propagate_exception dead_engine_error None t"

text \<open>
  What a client does. \<open>async_add_request\<close> returns the state also when it raises, since \<open>async_generate\<close>, the
  start of \<open>generate\<close>, catches every exception, aborts the request and raises it again.
\<close>

definition async_add_request :: "engine_env \<Rightarrow> new_request \<Rightarrow> async_engine \<Rightarrow> nat result \<times> async_engine" where
  "async_add_request env nr a =
     (case (if ae_running a then Inr a
            else if ae_start_engine_loop a then start_background_loop a else Inl dead_engine_error) of
        Inl x \<Rightarrow> (Inl x, a)
      | Inr a \<Rightarrow>
          (case ebind (encode_request env (nr_prompt nr) (nr_prompt_token_ids nr) (nr_lora_request nr)) (\<lambda>ts.
                  tracker_add_request (nr\<lparr>nr_prompt_token_ids := Some ts\<rparr>) (ae_tracker a)) of
             Inl x \<Rightarrow> (Inl x, a)
           | Inr (s, t) \<Rightarrow> (Inr s, a\<lparr>ae_tracker := t\<rparr>)))"

definition async_generate :: "engine_env \<Rightarrow> new_request \<Rightarrow> async_engine \<Rightarrow> nat result \<times> async_engine" where
  "async_generate env nr a =
     (case async_add_request env nr a of
        (Inr s, a) \<Rightarrow> (Inr s, a)
      | (Inl x, a) \<Rightarrow> (Inl x, a\<lparr>ae_tracker := tracker_abort_request (nr_request_id nr) (ae_tracker a)\<rparr>))"

definition async_abort :: "req_id \<Rightarrow> async_engine \<Rightarrow> async_engine result" where
  "async_abort rid a =
     (if \<not> ae_running a then Inl dead_engine_error
      else Inr (a\<lparr>ae_tracker := tracker_abort_request rid (ae_tracker a)\<rparr>))"

end
