(* ===== verification/Async_Tracker.thy ===== *)
theory Async_Tracker
  imports Async_Engine
begin

text \<open>
  The invariant of the request tracker: every stream follows the protocol (outputs of its own request, a
  finished one only as the last, then the end of the stream once), the registered and the new requests name
  their own streams, and a stream that is still open is registered or new. Every operation keeps it.
\<close>

section \<open>The protocol of a stream\<close>

definition stream_ok :: "async_stream \<Rightarrow> bool" where
  "stream_ok s \<longleftrightarrow> (\<exists>ros. as_queue s = map Item ros @ (if as_finished s then [Stop_Async_Iteration] else []) \<and>
     (\<forall>ro \<in> set ros. ro_request_id ro = as_request_id s) \<and> (\<forall>ro \<in> set (butlast ros). \<not> ro_finished ro) \<and>
     (as_finished s \<or> (\<forall>ro \<in> set ros. \<not> ro_finished ro)))"

lemma new_stream_ok: "stream_ok (new_async_stream rid)"
  by (simp add: stream_ok_def new_async_stream_def)

lemma finish_ok: "stream_ok s \<Longrightarrow> \<not> as_finished s \<Longrightarrow> stream_ok (stream_finish s)"
  by (auto simp: stream_ok_def stream_finish_def)

lemma put_ok:
  assumes "stream_ok s" and "ro_request_id ro = as_request_id s" and "\<not> ro_finished ro \<or> as_finished s"
  shows "stream_ok (stream_put (Item ro) s)"
proof (cases "as_finished s")
  case False
  then obtain ros where "as_queue s = map Item ros" "\<forall>ro \<in> set ros. ro_request_id ro = as_request_id s \<and> \<not> ro_finished ro"
    using assms(1) by (auto simp: stream_ok_def)
  then show ?thesis
    using assms(2,3) False by (auto simp: stream_ok_def stream_put_def intro!: exI [of _ "ros @ [ro]"])
qed (use assms(1) in \<open>simp add: stream_put_def\<close>)

lemma put_last_ok:
  assumes "stream_ok s" and "ro_request_id ro = as_request_id s" and "\<not> as_finished s"
  shows "stream_ok (stream_finish (stream_put (Item ro) s))"
proof -
  obtain ros where "as_queue s = map Item ros" "\<forall>ro \<in> set ros. ro_request_id ro = as_request_id s \<and> \<not> ro_finished ro"
    using assms(1,3) by (auto simp: stream_ok_def)
  then show ?thesis
    using assms(2,3) by (auto simp: stream_ok_def stream_put_def stream_finish_def intro!: exI [of _ "ros @ [ro]"])
qed

lemma stream_id_simps [simp]:
  "as_request_id (stream_put x s) = as_request_id s" "as_request_id (stream_finish s) = as_request_id s"
  "as_finished (stream_put x s) = as_finished s" "as_finished (stream_finish s)"
  "as_request_id (new_async_stream rid) = rid" "\<not> as_finished (new_async_stream rid)"
  by (simp_all add: stream_put_def stream_finish_def new_async_stream_def)

section \<open>The invariant of the tracker\<close>

abbreviation stream_at :: "request_tracker \<Rightarrow> nat \<Rightarrow> async_stream" where
  "stream_at t a \<equiv> rt_store t ! a"

abbreviation registered :: "request_tracker \<Rightarrow> req_id \<Rightarrow> nat option" where
  "registered t \<equiv> map_of (rt_request_streams t)"

abbreviation new_ids :: "request_tracker \<Rightarrow> req_id list" where
  "new_ids t \<equiv> map (\<lambda>(a, nr). nr_request_id nr) (rt_new_requests t)"

definition tracker_ok :: "request_tracker \<Rightarrow> bool" where
  "tracker_ok t \<longleftrightarrow> list_all stream_ok (rt_store t) \<and>
     (\<forall>r a. registered t r = Some a \<longrightarrow> a < length (rt_store t) \<and> as_request_id (stream_at t a) = r) \<and>
     (\<forall>(a, nr) \<in> set (rt_new_requests t). a < length (rt_store t) \<and> as_request_id (stream_at t a) = nr_request_id nr \<and>
        \<not> as_finished (stream_at t a) \<and> registered t (nr_request_id nr) = None) \<and>
     distinct (new_ids t) \<and>
     (\<forall>r \<in> set (rt_finished_requests t). \<forall>a. registered t r = Some a \<longrightarrow> as_finished (stream_at t a)) \<and>
     (\<forall>a < length (rt_store t). \<not> as_finished (stream_at t a) \<longrightarrow>
        a \<in> ran (registered t) \<or> a \<in> fst ` set (rt_new_requests t))"

text \<open>The requests the engine holds have streams, and an open stream is that of a request the engine holds.\<close>

definition serves :: "req_id set \<Rightarrow> request_tracker \<Rightarrow> bool" where
  "serves R t \<longleftrightarrow> R \<subseteq> dom (registered t) \<and> (\<forall>r a. registered t r = Some a \<and> \<not> as_finished (stream_at t a) \<longrightarrow> r \<in> R)"

text \<open>What a client or the outputs of a step may change of the tracker.\<close>

definition streams_moved :: "request_tracker \<Rightarrow> request_tracker \<Rightarrow> bool" where
  "streams_moved t t' \<longleftrightarrow> rt_request_streams t' = rt_request_streams t \<and> rt_new_requests t' = rt_new_requests t \<and>
     rt_new_requests_event t' = rt_new_requests_event t \<and> (\<forall>r a. registered t r = Some a \<and> as_finished (stream_at t a) \<longrightarrow> as_finished (stream_at t' a))"

lemma streams_moved_refl [simp]: "streams_moved t t"
  by (simp add: streams_moved_def)

lemma streams_moved_trans: "streams_moved t u \<Longrightarrow> streams_moved u v \<Longrightarrow> streams_moved t v"
  by (auto simp: streams_moved_def)

lemma serves_moved: "serves R t \<Longrightarrow> streams_moved t t' \<Longrightarrow> serves R t'"
  unfolding serves_def streams_moved_def by (elim conjE) (simp, blast)

lemma on_stream_simps [simp]:
  "rt_request_streams (on_stream a f t) = rt_request_streams t" "rt_new_requests (on_stream a f t) = rt_new_requests t"
  "rt_finished_requests (on_stream a f t) = rt_finished_requests t" "rt_new_requests_event (on_stream a f t) = rt_new_requests_event t"
  "length (rt_store (on_stream a f t)) = length (rt_store t)"
  by (simp_all add: on_stream_def)

lemma stream_at_on_stream:
  "b < length (rt_store t) \<Longrightarrow> stream_at (on_stream a f t) b = (if a = b then f (stream_at t b) else stream_at t b)"
  by (simp add: on_stream_def nth_list_update)

lemma tracker_okD:
  assumes "tracker_ok t"
  shows "a < length (rt_store t) \<Longrightarrow> stream_ok (stream_at t a)"
    "registered t r = Some a \<Longrightarrow> a < length (rt_store t)" "registered t r = Some a \<Longrightarrow> as_request_id (stream_at t a) = r"
    "(a, nr) \<in> set (rt_new_requests t) \<Longrightarrow> a < length (rt_store t) \<and> as_request_id (stream_at t a) = nr_request_id nr \<and>
        \<not> as_finished (stream_at t a) \<and> registered t (nr_request_id nr) = None"
    "distinct (new_ids t)"
    "r \<in> set (rt_finished_requests t) \<Longrightarrow> registered t r = Some a \<Longrightarrow> as_finished (stream_at t a)"
    "a < length (rt_store t) \<Longrightarrow> \<not> as_finished (stream_at t a) \<Longrightarrow> a \<in> ran (registered t) \<or> a \<in> fst ` set (rt_new_requests t)"
  using assms by (auto simp: tracker_ok_def list_all_length)

text \<open>A change of a registered stream that follows the protocol, keeps its id and does not open it again.\<close>

lemma on_registered:
  assumes "tracker_ok t" and "registered t r = Some a" and "stream_ok (f (stream_at t a))"
    and "as_request_id (f (stream_at t a)) = r" and "as_finished (stream_at t a) \<Longrightarrow> as_finished (f (stream_at t a))"
  shows "tracker_ok (on_stream a f t)" "streams_moved t (on_stream a f t)"
proof -
  note t = tracker_okD [OF assms(1)]
  have a: "a < length (rt_store t)" using t(2) assms(2) by blast
  have notnew: "a \<noteq> b" if "(b, nr) \<in> set (rt_new_requests t)" for b nr
    using t(4) [OF that] t(3) [OF assms(2)] assms(2) by auto
  show "tracker_ok (on_stream a f t)"
    unfolding tracker_ok_def
  proof (intro conjI)
    show "list_all stream_ok (rt_store (on_stream a f t))"
      using t(1) assms(3) by (auto simp: list_all_length stream_at_on_stream)
    show "\<forall>s b. registered (on_stream a f t) s = Some b \<longrightarrow>
        b < length (rt_store (on_stream a f t)) \<and> as_request_id (stream_at (on_stream a f t) b) = s"
      using t(2,3) t(3) [OF assms(2)] assms(4) by (auto simp: stream_at_on_stream)
    show "\<forall>(b, nr) \<in> set (rt_new_requests (on_stream a f t)). b < length (rt_store (on_stream a f t)) \<and>
        as_request_id (stream_at (on_stream a f t) b) = nr_request_id nr \<and> \<not> as_finished (stream_at (on_stream a f t) b) \<and>
        registered (on_stream a f t) (nr_request_id nr) = None"
      using t(4) notnew by (auto simp: stream_at_on_stream)
    show "\<forall>s \<in> set (rt_finished_requests (on_stream a f t)). \<forall>b. registered (on_stream a f t) s = Some b \<longrightarrow>
        as_finished (stream_at (on_stream a f t) b)"
      using t(2,6) assms(5) by (auto simp: stream_at_on_stream)
    show "\<forall>b < length (rt_store (on_stream a f t)). \<not> as_finished (stream_at (on_stream a f t) b) \<longrightarrow>
        b \<in> ran (registered (on_stream a f t)) \<or> b \<in> fst ` set (rt_new_requests (on_stream a f t))"
      using t(7) assms(2) by (auto simp: stream_at_on_stream intro: ranI)
  qed (use t(5) in auto)
  show "streams_moved t (on_stream a f t)"
    using t(2) assms(5) by (auto simp: streams_moved_def stream_at_on_stream)
qed

section \<open>Aborting and outputs\<close>

lemma note_finished_ok:
  assumes "tracker_ok t" and "\<And>a. registered t r = Some a \<Longrightarrow> as_finished (stream_at t a)"
  shows "tracker_ok (t\<lparr>rt_finished_requests := rt_finished_requests t @ [r]\<rparr>)"
  using assms by (auto simp: tracker_ok_def)

lemma abort_ok:
  assumes "tracker_ok t"
  shows "tracker_ok (tracker_abort_request r t)" "streams_moved t (tracker_abort_request r t)"
    "registered t r = Some a \<Longrightarrow> as_finished (stream_at (tracker_abort_request r t) a)"
proof -
  note t = tracker_okD [OF assms]
  have "tracker_ok (tracker_abort_request r t) \<and> streams_moved t (tracker_abort_request r t) \<and>
    (\<forall>a. registered t r = Some a \<longrightarrow> as_finished (stream_at (tracker_abort_request r t) a))"
  proof (cases "registered t r")
    case None
    then show ?thesis using note_finished_ok [OF assms, of r] by (simp add: tracker_abort_request_def Let_def streams_moved_def)
  next
    case (Some a)
    show ?thesis
    proof (cases "as_finished (stream_at t a)")
      case True
      then show ?thesis using Some note_finished_ok [OF assms, of r] by (simp add: tracker_abort_request_def Let_def streams_moved_def)
    next
      case False
      have "stream_ok (stream_finish (stream_at t a))" using finish_ok t(1,2) Some False by blast
      from on_registered [where f = stream_finish, OF assms Some this] t(3) [OF Some]
      have f: "tracker_ok (on_stream a stream_finish t)" "streams_moved t (on_stream a stream_finish t)" by simp_all
      have fin: "as_finished (stream_at (on_stream a stream_finish t) a)" using t(2) [OF Some] by (simp add: stream_at_on_stream)
      have eq: "tracker_abort_request r t = (on_stream a stream_finish t)\<lparr>rt_finished_requests := rt_finished_requests (on_stream a stream_finish t) @ [r]\<rparr>"
        using Some False by (simp add: tracker_abort_request_def on_stream_def)
      show ?thesis
        unfolding eq using note_finished_ok [OF f(1), of r] f(2) fin Some by (simp add: streams_moved_def)
    qed
  qed
  then show "tracker_ok (tracker_abort_request r t)" "streams_moved t (tracker_abort_request r t)"
    "registered t r = Some a \<Longrightarrow> as_finished (stream_at (tracker_abort_request r t) a)" by blast+
qed

text \<open>An output is put and, when it is the last, the stream ended: in between the protocol is open.\<close>

lemma output_ok:
  assumes "tracker_ok t" and "ro_request_id ro \<in> dom (registered t)"
  shows "\<exists>t'. process_request_output ro t = Inr t' \<and> tracker_ok t' \<and> streams_moved t t' \<and>
    (ro_finished ro \<longrightarrow> (\<forall>a. registered t' (ro_request_id ro) = Some a \<longrightarrow> as_finished (stream_at t' a)))"
proof -
  note t = tracker_okD [OF assms(1)]
  obtain a where a: "registered t (ro_request_id ro) = Some a" using assms(2) by blast
  have st: "stream_ok (stream_at t a)" "as_request_id (stream_at t a) = ro_request_id ro" "a < length (rt_store t)"
    using t(1-3) a by blast+
  let ?t = "on_stream a (stream_put (Item ro)) t"
  show ?thesis
  proof (cases "ro_finished ro \<and> \<not> as_finished (stream_at t a)")
    case True
    let ?u = "on_stream a (\<lambda>s. stream_finish (stream_put (Item ro) s)) t"
    have "stream_ok (stream_finish (stream_put (Item ro) (stream_at t a)))" using put_last_ok st True by simp
    from on_registered [where f = "\<lambda>s. stream_finish (stream_put (Item ro) s)", OF assms(1) a this] st
    have u: "tracker_ok ?u" "streams_moved t ?u" by simp_all
    have fin: "as_finished (stream_at ?u a)" using st(3) by (simp add: stream_at_on_stream)
    have "tracker_abort_request (ro_request_id ro) ?t = ?u\<lparr>rt_finished_requests := rt_finished_requests ?u @ [ro_request_id ro]\<rparr>"
      using True a st(3) by (simp add: tracker_abort_request_def on_stream_def)
    then have "process_request_output ro t = Inr (?u\<lparr>rt_finished_requests := rt_finished_requests ?u @ [ro_request_id ro]\<rparr>)"
      using True a by (simp add: process_request_output_def dict_get_def)
    moreover have "tracker_ok (?u\<lparr>rt_finished_requests := rt_finished_requests ?u @ [ro_request_id ro]\<rparr>)"
      by (rule note_finished_ok [OF u(1)]) (use a fin in simp)
    ultimately show ?thesis using u(2) a fin by (simp add: streams_moved_def)
  next
    case False
    have "stream_ok (stream_put (Item ro) (stream_at t a))" using put_ok st False by simp
    from on_registered [where f = "stream_put (Item ro)", OF assms(1) a this] st
    have u: "tracker_ok ?t" "streams_moved t ?t" by simp_all
    have "process_request_output ro t = Inr (if ro_finished ro then tracker_abort_request (ro_request_id ro) ?t else ?t)"
      using a by (simp add: process_request_output_def dict_get_def)
    moreover have reg: "registered ?t (ro_request_id ro) = Some a" using a by simp
    note ab = abort_ok(1,2) [OF u(1), of "ro_request_id ro"] abort_ok(3) [OF u(1) reg] streams_moved_trans [OF u(2) abort_ok(2) [OF u(1), of "ro_request_id ro"]]
    moreover have "registered (tracker_abort_request (ro_request_id ro) ?t) (ro_request_id ro) = Some a"
      using ab(4) a by (simp add: streams_moved_def)
    ultimately show ?thesis using u by (cases "ro_finished ro") simp_all
  qed
qed

lemma outputs_ok:
  assumes "tracker_ok t" and "ro_request_id ` set ros \<subseteq> dom (registered t)"
  shows "\<exists>t'. efold process_request_output ros t = Inr t' \<and> tracker_ok t' \<and> streams_moved t t' \<and>
    (\<forall>ro \<in> set ros. ro_finished ro \<longrightarrow> (\<forall>a. registered t' (ro_request_id ro) = Some a \<longrightarrow> as_finished (stream_at t' a)))"
  using assms
proof (induction ros arbitrary: t)
  case Nil
  then show ?case by simp
next
  case (Cons ro ros)
  obtain u where u: "process_request_output ro t = Inr u" "tracker_ok u" "streams_moved t u"
    "ro_finished ro \<longrightarrow> (\<forall>a. registered u (ro_request_id ro) = Some a \<longrightarrow> as_finished (stream_at u a))"
    using output_ok [OF Cons.prems(1), of ro] Cons.prems(2) by auto
  have "ro_request_id ` set ros \<subseteq> dom (registered u)" using u(3) Cons.prems(2) by (simp add: streams_moved_def)
  from Cons.IH [OF u(2) this] obtain v where v: "efold process_request_output ros u = Inr v" "tracker_ok v" "streams_moved u v"
    "\<forall>ro \<in> set ros. ro_finished ro \<longrightarrow> (\<forall>a. registered v (ro_request_id ro) = Some a \<longrightarrow> as_finished (stream_at v a))" by blast
  then show ?case using u streams_moved_trans [OF u(3) v(3)] by (auto simp: streams_moved_def)
qed

section \<open>New requests\<close>

lemma tracker_add_ok:
  assumes "tracker_ok t" and "nr_request_id nr \<notin> set (new_ids t)" and "registered t (nr_request_id nr) = None"
    and "rt_new_requests_event t \<noteq> None"
  shows "\<exists>t'. tracker_add_request nr t = Inr (length (rt_store t), t') \<and> tracker_ok t' \<and>
    rt_request_streams t' = rt_request_streams t \<and> rt_new_requests t' = rt_new_requests t @ [(length (rt_store t), nr)] \<and>
    rt_store t' = rt_store t @ [new_async_stream (nr_request_id nr)] \<and> rt_new_requests_event t' = Some True"
proof -
  note t = tracker_okD [OF assms(1)]
  let ?n = "length (rt_store t)"
  let ?t = "t\<lparr>rt_store := rt_store t @ [new_async_stream (nr_request_id nr)], rt_new_requests := rt_new_requests t @ [(?n, nr)],
    rt_new_requests_event := Some True\<rparr>"
  have "nr_request_id nr \<notin> set (dict_keys (rt_request_streams t))" using assms(3) by (simp add: map_of_eq_None_iff)
  then have "tracker_add_request nr t = Inr (?n, ?t)"
    using assms(4) by (auto simp: tracker_add_request_def Let_def)
  moreover have old: "stream_at ?t a = stream_at t a" if "a < ?n" for a
    using that by (simp add: nth_append)
  have "tracker_ok ?t"
    unfolding tracker_ok_def
  proof (intro conjI)
    show "list_all stream_ok (rt_store ?t)" using assms(1) new_stream_ok by (simp add: tracker_ok_def)
    show "\<forall>r a. registered ?t r = Some a \<longrightarrow> a < length (rt_store ?t) \<and> as_request_id (stream_at ?t a) = r"
      using t(2,3) by (fastforce simp: nth_append)
    show "\<forall>(a, nr) \<in> set (rt_new_requests ?t). a < length (rt_store ?t) \<and> as_request_id (stream_at ?t a) = nr_request_id nr \<and>
        \<not> as_finished (stream_at ?t a) \<and> registered ?t (nr_request_id nr) = None"
      using t(4) assms(3) by (fastforce simp: nth_append)
    show "distinct (new_ids ?t)" using t(5) assms(2) by simp
    show "\<forall>r \<in> set (rt_finished_requests ?t). \<forall>a. registered ?t r = Some a \<longrightarrow> as_finished (stream_at ?t a)"
      using t(2,6) by (fastforce simp: nth_append)
    show "\<forall>a < length (rt_store ?t). \<not> as_finished (stream_at ?t a) \<longrightarrow>
        a \<in> ran (registered ?t) \<or> a \<in> fst ` set (rt_new_requests ?t)"
      using t(7) by (auto simp: nth_append less_Suc_eq)
  qed
  ultimately show ?thesis by simp
qed

text \<open>The loop over the new requests, and the streams that are registered on the way.\<close>

definition kept_new :: "req_id list \<Rightarrow> (nat \<times> new_request) list \<Rightarrow> (nat \<times> new_request) list" where
  "kept_new finished news = filter (\<lambda>(a, nr). nr_request_id nr \<notin> set finished) news"

definition dropped :: "req_id list \<Rightarrow> (nat \<times> new_request) list \<Rightarrow> nat set" where
  "dropped finished news = {a. \<exists>nr. (a, nr) \<in> set news \<and> nr_request_id nr \<in> set finished}"

lemma take_new_all:
  assumes "\<forall>(a, nr) \<in> set news. a < length (rt_store t) \<and> as_request_id (stream_at t a) = nr_request_id nr"
    and "distinct (map fst news)"
  shows "\<exists>t'. fold (take_new finished) news (acc, t) = (acc @ map snd (kept_new finished news), t') \<and>
    rt_finished_requests t' = rt_finished_requests t \<and> rt_new_requests_event t' = rt_new_requests_event t \<and>
    length (rt_store t') = length (rt_store t) \<and>
    registered t' = registered t ++ map_of (rev (map (\<lambda>(a, nr). (nr_request_id nr, a)) (kept_new finished news))) \<and>
    (\<forall>a < length (rt_store t). stream_at t' a =
       (if a \<in> dropped finished news then stream_finish (stream_at t a) else stream_at t a))"
  using assms
proof (induction news arbitrary: acc t)
  case Nil
  then show ?case by (simp add: kept_new_def dropped_def)
next
  case (Cons x news)
  obtain a nr where x: "x = (a, nr)" by (cases x)
  have a: "a < length (rt_store t)" "as_request_id (stream_at t a) = nr_request_id nr" using Cons.prems x by auto
  have notin: "a \<notin> dropped finished news" using Cons.prems(2) by (force simp: x dropped_def)
  have d: "distinct (map fst news)" using Cons.prems(2) by simp
  show ?case
  proof (cases "nr_request_id nr \<in> set finished")
    case True
    let ?t = "on_stream a stream_finish t"
    have "\<forall>(a, nr) \<in> set news. a < length (rt_store ?t) \<and> as_request_id (stream_at ?t a) = nr_request_id nr"
      using Cons.prems by (auto simp: stream_at_on_stream)
    from Cons.IH [OF this d, of acc] obtain t' where t': "fold (take_new finished) news (acc, ?t) = (acc @ map snd (kept_new finished news), t')"
      "rt_finished_requests t' = rt_finished_requests t" "rt_new_requests_event t' = rt_new_requests_event t"
      "length (rt_store t') = length (rt_store t)"
      "registered t' = registered t ++ map_of (rev (map (\<lambda>(a, nr). (nr_request_id nr, a)) (kept_new finished news)))"
      "\<forall>b < length (rt_store t). stream_at t' b =
        (if b \<in> dropped finished news then stream_finish (stream_at ?t b) else stream_at ?t b)" by auto
    have "dropped finished (x # news) = insert a (dropped finished news)" using True by (auto simp: x dropped_def)
    moreover have "kept_new finished (x # news) = kept_new finished news" using True by (simp add: x kept_new_def)
    moreover have "take_new finished x (acc, t) = (acc, ?t)" using True a by (simp add: x take_new_def)
    ultimately show ?thesis using t' notin by (auto simp: stream_at_on_stream)
  next
    case False
    let ?t = "t\<lparr>rt_request_streams := dict_set (nr_request_id nr) a (rt_request_streams t)\<rparr>"
    have "\<forall>(a, nr) \<in> set news. a < length (rt_store ?t) \<and> as_request_id (stream_at ?t a) = nr_request_id nr"
      using Cons.prems by auto
    from Cons.IH [OF this d, of "acc @ [nr]"] obtain t' where
      t': "fold (take_new finished) news (acc @ [nr], ?t) = ((acc @ [nr]) @ map snd (kept_new finished news), t')"
      "rt_finished_requests t' = rt_finished_requests t" "rt_new_requests_event t' = rt_new_requests_event t"
      "length (rt_store t') = length (rt_store t)"
      "registered t' = registered ?t ++ map_of (rev (map (\<lambda>(a, nr). (nr_request_id nr, a)) (kept_new finished news)))"
      "\<forall>b < length (rt_store t). stream_at t' b =
        (if b \<in> dropped finished news then stream_finish (stream_at t b) else stream_at t b)" by auto
    have "dropped finished (x # news) = dropped finished news" using False by (auto simp: x dropped_def)
    moreover have "kept_new finished (x # news) = (a, nr) # kept_new finished news" using False by (simp add: x kept_new_def)
    moreover have "take_new finished x (acc, t) = (acc @ [nr], ?t)" using False a by (simp add: x take_new_def)
    moreover have "registered ?t = (registered t)(nr_request_id nr \<mapsto> a)" by (simp add: AList.update_conv')
    ultimately show ?thesis using t' by simp
  qed
qed

lemma dict_del_all: "map_of (fold dict_del ks d) = (\<lambda>k. if k \<in> set ks then None else map_of d k)"
  by (induction ks arbitrary: d) (auto simp: AList.delete_conv')

text \<open>The streams and who is registered after it.\<close>

lemma get_new_state:
  assumes "tracker_ok t" and "rt_new_requests_event t \<noteq> None"
  shows "\<exists>u. get_new_and_finished_requests t =
      Inr (map snd (kept_new (rt_finished_requests t) (rt_new_requests t)), remdups (rt_finished_requests t), u) \<and>
    rt_finished_requests u = [] \<and> rt_new_requests u = [] \<and> rt_new_requests_event u = Some False \<and>
    length (rt_store u) = length (rt_store t) \<and>
    (\<forall>r a. registered u r = Some a \<longleftrightarrow>
       (\<exists>nr. (a, nr) \<in> set (rt_new_requests t) \<and> nr_request_id nr = r \<and> r \<notin> set (rt_finished_requests t)) \<or>
       (registered t r = Some a \<and> r \<notin> set (rt_finished_requests t))) \<and>
    (\<forall>a < length (rt_store t). stream_at u a =
       (if a \<in> dropped (rt_finished_requests t) (rt_new_requests t) then stream_finish (stream_at t a) else stream_at t a))"
proof -
  note t = tracker_okD [OF assms(1)]
  let ?F = "rt_finished_requests t" and ?N = "rt_new_requests t"
  let ?K = "kept_new ?F ?N" and ?t = "t\<lparr>rt_finished_requests := [], rt_request_streams := fold dict_del (remdups ?F) (rt_request_streams t)\<rparr>"
  let ?M = "map_of (rev (map (\<lambda>(a, nr). (nr_request_id nr, a)) ?K))"
  have kept: "kept_new (remdups ?F) ?N = ?K" "dropped (remdups ?F) ?N = dropped ?F ?N" by (simp_all add: kept_new_def dropped_def)
  have "new_ids t = map (\<lambda>a. as_request_id (stream_at t a)) (map fst ?N)" using t(4) by (auto simp: o_def)
  then have addrs: "distinct (map fst ?N)" using t(5) by (metis distinct_map)
  have "\<forall>(a, nr) \<in> set ?N. a < length (rt_store ?t) \<and> as_request_id (stream_at ?t a) = nr_request_id nr" using t(4) by auto
  from take_new_all [OF this addrs, of "remdups ?F" "[]"] obtain u where u:
    "fold (take_new (remdups ?F)) ?N ([], ?t) = (map snd ?K, u)" "rt_finished_requests u = []"
    "rt_new_requests_event u = rt_new_requests_event t" "length (rt_store u) = length (rt_store t)"
    "registered u = (\<lambda>r. if r \<in> set ?F then None else registered t r) ++ ?M"
    "\<forall>a < length (rt_store t). stream_at u a = (if a \<in> dropped ?F ?N then stream_finish (stream_at t a) else stream_at t a)"
    by (auto simp: kept dict_del_all)
  let ?u = "u\<lparr>rt_new_requests := [], rt_new_requests_event := Some False\<rparr>"
  have run: "get_new_and_finished_requests t = Inr (map snd ?K, remdups ?F, ?u)"
    using u(1,3) assms(2) by (auto simp: get_new_and_finished_requests_def Let_def)
  have "distinct (map (\<lambda>(a, nr). nr_request_id nr) ?K)"
    unfolding kept_new_def using t(5) by (simp add: distinct_map_filter)
  then have "distinct (map fst (rev (map (\<lambda>(a, nr). (nr_request_id nr, a)) ?K)))"
    by (simp add: o_def case_prod_unfold flip: rev_map)
  then have M: "?M r = Some a \<longleftrightarrow> (\<exists>nr. (a, nr) \<in> set ?N \<and> nr_request_id nr = r \<and> r \<notin> set ?F)" for r a
    by (auto simp: kept_new_def map_of_eq_Some_iff)
  have reg: "registered ?u r = Some a \<longleftrightarrow> (\<exists>nr. (a, nr) \<in> set ?N \<and> nr_request_id nr = r \<and> r \<notin> set ?F) \<or>
      (registered t r = Some a \<and> r \<notin> set ?F)" for r a
  proof (cases "?M r")
    case None
    then show ?thesis using M [of r] u(5) by (auto simp: map_add_def)
  next
    case (Some b)
    then have "registered t r = None" using M [of r b] t(4) by auto
    moreover have "registered ?u r = Some b" using Some u(5) by simp
    moreover have "(\<exists>nr. (a, nr) \<in> set ?N \<and> nr_request_id nr = r \<and> r \<notin> set ?F) \<longleftrightarrow> a = b" using M [of r a] Some by auto
    ultimately show ?thesis by auto
  qed
  show ?thesis using run reg u(2,4,6) by (intro exI [of _ ?u]) simp
qed

text \<open>At the start of a turn the finished requests lose their streams and the new ones that are not finished get theirs.\<close>

lemma get_new_ok:
  assumes "tracker_ok t" and "rt_new_requests_event t \<noteq> None"
  shows "\<exists>t'. get_new_and_finished_requests t =
      Inr (map snd (kept_new (rt_finished_requests t) (rt_new_requests t)), remdups (rt_finished_requests t), t') \<and>
    tracker_ok t' \<and> rt_finished_requests t' = [] \<and> rt_new_requests t' = [] \<and> rt_new_requests_event t' = Some False \<and>
    dom (registered t') = (dom (registered t) - set (rt_finished_requests t)) \<union> (set (new_ids t) - set (rt_finished_requests t)) \<and>
    (\<forall>r a. registered t' r = Some a \<and> \<not> as_finished (stream_at t' a) \<longrightarrow>
       r \<in> set (new_ids t) - set (rt_finished_requests t) \<or>
       (registered t r = Some a \<and> \<not> as_finished (stream_at t a) \<and> r \<notin> set (rt_finished_requests t)))"
proof -
  note t = tracker_okD [OF assms(1)]
  let ?F = "rt_finished_requests t" and ?N = "rt_new_requests t"
  from get_new_state [OF assms] obtain u where run: "get_new_and_finished_requests t = Inr (map snd (kept_new ?F ?N), remdups ?F, u)"
    and u: "rt_finished_requests u = []" "rt_new_requests u = []" "rt_new_requests_event u = Some False" "length (rt_store u) = length (rt_store t)"
    and reg: "\<forall>r a. registered u r = Some a \<longleftrightarrow> (\<exists>nr. (a, nr) \<in> set ?N \<and> nr_request_id nr = r \<and> r \<notin> set ?F) \<or>
      (registered t r = Some a \<and> r \<notin> set ?F)"
    and at: "\<forall>a < length (rt_store t). stream_at u a = (if a \<in> dropped ?F ?N then stream_finish (stream_at t a) else stream_at t a)"
    by (elim exE conjE) rule
  have "tracker_ok u"
    unfolding tracker_ok_def
  proof (intro conjI)
    have "stream_ok (stream_at u a)" if "a < length (rt_store u)" for a
      using that at [rule_format, of a] t(1,4) u(4) finish_ok by (auto simp: dropped_def)
    then show "list_all stream_ok (rt_store u)" by (simp add: list_all_length)
    show "\<forall>r a. registered u r = Some a \<longrightarrow> a < length (rt_store u) \<and> as_request_id (stream_at u a) = r"
    proof (intro allI impI)
      fix r a assume "registered u r = Some a"
      then have "a < length (rt_store t) \<and> as_request_id (stream_at t a) = r" using t(2-4) unfolding reg [rule_format] by blast
      then show "a < length (rt_store u) \<and> as_request_id (stream_at u a) = r" using at u(4) by auto
    qed
    show "\<forall>a < length (rt_store u). \<not> as_finished (stream_at u a) \<longrightarrow>
        a \<in> ran (registered u) \<or> a \<in> fst ` set (rt_new_requests u)"
    proof (intro allI impI)
      fix a assume a: "a < length (rt_store u)" "\<not> as_finished (stream_at u a)"
      then have open_a: "a < length (rt_store t)" "\<not> as_finished (stream_at t a)" "a \<notin> dropped ?F ?N"
        using at [rule_format, of a] u(4) by (auto split: if_splits)
      from t(7) [OF open_a(1,2)] have "\<exists>r. registered u r = Some a"
      proof
        assume "a \<in> ran (registered t)"
        then obtain r where "registered t r = Some a" by (auto simp: ran_def)
        then show ?thesis using t(6) open_a(2) unfolding reg [rule_format] by blast
      next
        assume "a \<in> fst ` set ?N"
        then obtain nr where "(a, nr) \<in> set ?N" by auto
        then show ?thesis using open_a(3) unfolding reg [rule_format] dropped_def by blast
      qed
      then show "a \<in> ran (registered u) \<or> a \<in> fst ` set (rt_new_requests u)" by (auto simp: ran_def)
    qed
  qed (use u(1-3) in simp_all)
  moreover have "dom (registered u) = (dom (registered t) - set ?F) \<union> (set (new_ids t) - set ?F)"
  proof (rule set_eqI)
    fix r
    have "r \<in> dom (registered u) \<longleftrightarrow> (\<exists>a. registered u r = Some a)" by blast
    also have "\<dots> \<longleftrightarrow> r \<in> (dom (registered t) - set ?F) \<union> (set (new_ids t) - set ?F)" unfolding reg [rule_format] by force
    finally show "r \<in> dom (registered u) \<longleftrightarrow> r \<in> (dom (registered t) - set ?F) \<union> (set (new_ids t) - set ?F)" .
  qed
  moreover have "r \<in> set (new_ids t) - set ?F \<or> (registered t r = Some a \<and> \<not> as_finished (stream_at t a) \<and> r \<notin> set ?F)"
    if r: "registered u r = Some a" "\<not> as_finished (stream_at u a)" for r a
  proof -
    from r(1) consider nr where "(a, nr) \<in> set ?N" "nr_request_id nr = r" "r \<notin> set ?F" | "registered t r = Some a" "r \<notin> set ?F"
      unfolding reg [rule_format] by blast
    then show ?thesis
    proof cases
      case 1
      then show ?thesis by force
    next
      case 2
      then show ?thesis using r(2) at [rule_format, of a] t(2) by (auto split: if_splits)
    qed
  qed
  ultimately show ?thesis using run u(1-3) by (intro exI [of _ u]) simp
qed

end
