(* ===== verification/Async_Props.thy ===== *)
theory Async_Props
  imports Async_Tracker Engine_Runs
begin

text \<open>
  Runs of the asynchronous engine: clients generate and abort at any time, also while the model runs, and the
  loop makes its turns. In every reachable state the loop goes on, every stream follows its protocol, and a
  client that still waits is waiting for a request that is new or in the engine.
\<close>

section \<open>The engine behind the tracker\<close>

text \<open>A new request as the loop finds it: encoded, with one output and a string as its id, and no prefix position.\<close>

definition good_request :: "bool \<Rightarrow> new_request \<Rightarrow> bool" where
  "good_request lora_enabled nr \<longleftrightarrow> (\<exists>ts. nr_prompt_token_ids nr = Some ts \<and> ts \<noteq> []) \<and> single_output (nr_sampling_params nr) \<and>
     (nr_lora_request nr = None \<or> lora_enabled) \<and> nr_prefix_pos nr = None \<and> \<not> is_int_id (nr_request_id nr)"

definition engine_ids :: "llm_engine \<Rightarrow> req_id list" where
  "engine_ids e = map request_id (waiting (le_scheduler e) @ running (le_scheduler e))"

lemma engine_ids_queued: "engine_ok E e \<Longrightarrow> mset (engine_ids e) = queued (le_scheduler e)"
  by (simp add: engine_ids_def queued_def engine_ok_def Let_def)

text \<open>The requests of the engine are distinct and have strings as ids.\<close>

definition engine_holds :: "block_id multiset \<Rightarrow> bool \<Rightarrow> req_id set \<Rightarrow> llm_engine \<Rightarrow> bool" where
  "engine_holds E lora R e \<longleftrightarrow> engine_ok E e \<and> le_lora_enabled e = lora \<and> distinct (engine_ids e) \<and> set (engine_ids e) = R \<and>
     (\<forall>r \<in> R. \<not> is_int_id r)"

lemma add_async_holds:
  assumes "engine_holds E lora R e" and "good_request lora nr" and "nr_request_id nr \<notin> R"
  shows "\<exists>e'. add_request_async env nr e = Inr e' \<and> engine_holds E lora (insert (nr_request_id nr) R) e'"
proof -
  have e: "engine_ok E e" "le_lora_enabled e = lora" "distinct (engine_ids e)" "set (engine_ids e) = R" "\<forall>r \<in> R. \<not> is_int_id r"
    using assms(1) by (auto simp: engine_holds_def)
  obtain ts where nr: "nr_prompt_token_ids nr = Some ts" "ts \<noteq> []" "single_output (nr_sampling_params nr)"
    "nr_lora_request nr = None \<or> lora" "nr_prefix_pos nr = None" "\<not> is_int_id (nr_request_id nr)"
    using assms(2) by (auto simp: good_request_def)
  have kinds: "\<forall>g \<in> set (waiting (le_scheduler e) @ running (le_scheduler e)). is_int_id (request_id g) = is_int_id (nr_request_id nr)"
    using e(4,5) nr(6) unfolding engine_ids_def by auto
  have enc: "encode_request env (nr_prompt nr) (Some ts) (nr_lora_request nr) = Inr ts" by (simp add: encode_request_def)
  have lora: "nr_lora_request nr = None \<or> le_lora_enabled e" using nr(4) e(2) by simp
  from add_request_inv [OF e(1) enc nr(2,3) lora kinds, of "nr_arrival_time nr" "Some (nr_arrival_time nr)"] obtain g where g:
    "add_request env (nr_arrival_time nr) (nr_request_id nr) (nr_prompt nr) (nr_sampling_params nr) (Some ts) (Some (nr_arrival_time nr))
      (nr_lora_request nr) None e = Inr (e\<lparr>le_seq_counter := le_seq_counter e + 1, le_scheduler := add_seq_group g (le_scheduler e)\<rparr>)"
    "request_id g = nr_request_id nr"
    "engine_ok E (e\<lparr>le_seq_counter := le_seq_counter e + 1, le_scheduler := add_seq_group g (le_scheduler e)\<rparr>)" by blast
  have "add_request_async env nr e = Inr (e\<lparr>le_seq_counter := le_seq_counter e + 1, le_scheduler := add_seq_group g (le_scheduler e)\<rparr>)"
    using g(1) nr(1,5) lora enc by (auto simp: add_request_async_def)
  moreover have "engine_holds E lora (insert (nr_request_id nr) R)
      (e\<lparr>le_seq_counter := le_seq_counter e + 1, le_scheduler := add_seq_group g (le_scheduler e)\<rparr>)"
    using g(2,3) e nr(6) assms(3) by (auto simp: engine_holds_def engine_ids_def add_seq_group_def)
  ultimately show ?thesis by blast
qed

lemma add_news_holds:
  assumes "engine_holds E lora R e" and "\<forall>nr \<in> set news. good_request lora nr \<and> nr_request_id nr \<notin> R"
    and "distinct (map nr_request_id news)"
  shows "\<exists>e'. efold (add_request_async env) news e = Inr e' \<and> engine_holds E lora (R \<union> nr_request_id ` set news) e'"
  using assms
proof (induction news arbitrary: e R)
  case Nil
  then show ?case by simp
next
  case (Cons nr news)
  obtain u where u: "add_request_async env nr e = Inr u" "engine_holds E lora (insert (nr_request_id nr) R) u"
    using add_async_holds [OF Cons.prems(1), of nr env] Cons.prems(2) by auto
  have "\<forall>n \<in> set news. good_request lora n \<and> nr_request_id n \<notin> insert (nr_request_id nr) R"
    using Cons.prems(2,3) by (auto intro: rev_image_eqI)
  from Cons.IH [OF u(2) this] Cons.prems(3) u(1) show ?case by auto
qed

lemma abort_holds:
  assumes "engine_holds E lora R e"
  shows "\<exists>e'. (if finished \<noteq> [] then abort_request finished e else Inr e) = Inr e' \<and> engine_holds E lora (R - set finished) e'"
proof (cases "finished = []")
  case False
  have e: "engine_ok E e" "le_lora_enabled e = lora" "distinct (engine_ids e)" "set (engine_ids e) = R" "\<forall>r \<in> R. \<not> is_int_id r"
    using assms by (auto simp: engine_holds_def)
  obtain e' where a: "abort_request finished e = Inr e'" "engine_ok E e'"
    "waiting (le_scheduler e') = filter (\<lambda>g. request_id g \<notin> set finished) (waiting (le_scheduler e))"
    "running (le_scheduler e') = filter (\<lambda>g. request_id g \<notin> set finished) (running (le_scheduler e))"
    using abort_request_filters [OF e(1), of finished] e(3) by (auto simp: engine_ids_def)
  have "le_lora_enabled e' = lora" using a(1) e(2) by (auto simp: abort_request_def)
  moreover have ids: "engine_ids e' = filter (\<lambda>r. r \<notin> set finished) (engine_ids e)"
    unfolding engine_ids_def using a(3,4) by (simp add: filter_map o_def)
  moreover have "distinct (engine_ids e')" using ids e(3) by simp
  ultimately show ?thesis using False a(1,2) e(4,5) by (auto simp: engine_holds_def)
qed (use assms in simp)

text \<open>While the model runs: the scheduled groups are running, the ignored ones have left the queues.\<close>

definition model_runs_ok :: "block_id multiset \<Rightarrow> bool \<Rightarrow> req_id set \<Rightarrow> scheduler_outputs \<Rightarrow> llm_engine \<Rightarrow> bool" where
  "model_runs_ok E lora R out e \<longleftrightarrow> engine_ok E e \<and> le_lora_enabled e = lora \<and>
     (\<exists>others. mset (running (le_scheduler e)) = mset (scheduled_seq_groups out @ others)) \<and>
     list_all (plain (le_block_size e) (le_seq_counter e)) (ignored_seq_groups out) \<and> list_all sg_is_finished (ignored_seq_groups out) \<and>
     (\<forall>g \<in> set (scheduled_seq_groups out). covered (sch_bm (le_scheduler e)) g) \<and>
     distinct (engine_ids e @ map request_id (ignored_seq_groups out)) \<and>
     set (engine_ids e @ map request_id (ignored_seq_groups out)) = R \<and> (\<forall>r \<in> R. \<not> is_int_id r)"

lemma step_begin_holds:
  assumes "engine_holds E lora R e"
  shows "\<exists>mds out e'. step_async_begin now e = Inr (mds, out, e') \<and> model_runs_ok E lora R out e'"
proof -
  let ?s = "le_scheduler e"
  have e: "engine_ok E e" "le_lora_enabled e = lora" "distinct (engine_ids e)" "set (engine_ids e) = R" "\<forall>r \<in> R. \<not> is_int_id r"
    using assms by (auto simp: engine_holds_def)
  have inv: "sched_ok E (sch_bm ?s) (waiting ?s) (running ?s)" "swapped ?s = []" "\<not> dynamic_increase_oncard_weights ?s"
    "0 < le_block_size e" "list_all (plain (le_block_size e) (le_seq_counter e)) (waiting ?s @ running ?s)"
    using e(1) by (auto simp: engine_ok_def Let_def)
  from schedule_ok [OF inv(1-3,5), of now "le_kv e"] obtain mds out s1 others where sc:
    "sch_schedule now (le_kv e) ?s = Inr (mds, out, le_kv e, s1)" "sched_ok E (sch_bm s1) (waiting s1) (running s1)"
    "swapped s1 = []" "sch_config s1 = sch_config ?s"
    "list_all (plain (le_block_size e) (le_seq_counter e)) (waiting s1 @ running s1 @ ignored_seq_groups out)"
    "list_all sg_is_finished (ignored_seq_groups out)"
    "mset (running s1) = mset (scheduled_seq_groups out @ others)" "queued s1 + ids (ignored_seq_groups out) = queued ?s"
    "\<exists>it. sch_schedule_iter now ?s = Inr (it, s1) \<and> out = it\<lparr>blocks_to_reorganize := []\<rparr>"
    "\<forall>g \<in> set (scheduled_seq_groups out). covered (sch_bm s1) g"
    by (elim exE conjE) (rule that; (assumption | blast))
  let ?e = "e\<lparr>le_scheduler := s1, le_kv := le_kv e\<rparr>" and ?ids = "\<lambda>e. engine_ids e @ map request_id (ignored_seq_groups out)"
  have ok: "engine_ok E ?e" using sc(2-5) inv(3,4) by (auto simp: engine_ok_def Let_def sch_config_def)
  have "mset (?ids ?e) = mset (engine_ids e)"
    using sc(8) engine_ids_queued [OF e(1)] engine_ids_queued [OF ok] by simp
  then have "distinct (?ids ?e)" "set (?ids ?e) = R"
    using e(3,4) mset_eq_imp_distinct_iff mset_eq_setD by blast+
  moreover have "step_async_begin now e = Inr (mds, out, ?e)" by (simp add: step_async_begin_def sc(1))
  ultimately show ?thesis using ok e(2,5) sc(5-7,10) by (intro exI [of _ mds] exI [of _ out] exI [of _ ?e]) (auto simp: model_runs_ok_def)
qed

lemma list_all2_right: "list_all2 P xs ys \<Longrightarrow> y \<in> set ys \<Longrightarrow> \<exists>x \<in> set xs. P x y"
  by (induction rule: list_all2_induct) auto

lemma step_end_holds:
  assumes "model_runs_ok E lora R out e" and "list_all2 (sampled (ee_tokenizer_len env)) (scheduled_seq_groups out) outs"
  shows "\<exists>ros e'. step_async_end env now outs out e = Inr (ros, e') \<and> engine_holds E lora (set (engine_ids e')) e' \<and>
    ro_request_id ` set ros \<subseteq> R \<and> set (engine_ids e') \<subseteq> R \<and>
    R \<subseteq> set (engine_ids e') \<union> ro_request_id ` {ro \<in> set ros. ro_finished ro}"
proof -
  let ?ign = "ignored_seq_groups out"
  obtain others where e: "engine_ok E e" "le_lora_enabled e = lora" "mset (running (le_scheduler e)) = mset (scheduled_seq_groups out @ others)"
    "list_all (plain (le_block_size e) (le_seq_counter e)) ?ign" "list_all sg_is_finished ?ign"
    "distinct (engine_ids e @ map request_id ?ign)" "set (engine_ids e @ map request_id ?ign) = R" "\<forall>r \<in> R. \<not> is_int_id r"
    "\<forall>g \<in> set (scheduled_seq_groups out). covered (sch_bm (le_scheduler e)) g"
    using assms(1) by (auto simp: model_runs_ok_def)
  from process_model_outputs_ok [OF e(1) assms(2) e(3,4,9), of now] obtain ros e' dn where p:
    "process_model_outputs env now outs out e = Inr (ros, e')" "map fst dn = scheduled_seq_groups out"
    "processed ?ign others e dn ros e'" "engine_ok E e'" by blast
  have "outs = []" if "outputs_is_empty out" using assms(2) that by (auto simp: outputs_is_empty_def)
  then have run: "step_async_end env now outs out e = Inr (ros, e')" using p(1) by (auto simp: step_async_end_def Let_def)
  have "swapped (le_scheduler e) = []" "swapped (le_scheduler e') = []" using e(1) p(4) by (auto simp: engine_ok_def Let_def)
  from request_answers.processed_bag [OF p(3) e(5) _ this] e(3) p(2)
  have "finished_ids ros + queued (le_scheduler e') = queued (le_scheduler e) + ids ?ign" by (simp add: finished_ids_def queued_def)
  then have "mset (map ro_request_id (filter ro_finished ros) @ engine_ids e') = mset (engine_ids e @ map request_id ?ign)"
    using engine_ids_queued [OF e(1)] engine_ids_queued [OF p(4)] by (simp add: finished_ids_def)
  from mset_eq_setD [OF this] mset_eq_imp_distinct_iff [OF this] e(6,7)
  have ids: "ro_request_id ` {ro \<in> set ros. ro_finished ro} \<union> set (engine_ids e') = R" "distinct (engine_ids e')" by auto
  have "list_all2 answers (map snd dn @ ?ign) ros" "\<forall>(g, g') \<in> set dn. grown g g'" using p(3) by (auto simp: processed_def)
  moreover have "request_id g \<in> R" if "g \<in> set (map snd dn @ ?ign)" for g
  proof (cases "g \<in> set ?ign")
    case True
    then show ?thesis using e(7) by auto
  next
    case False
    then have "g \<in> set (map snd dn)" using that by simp
    then obtain g0 where g0: "(g0, g) \<in> set dn" by auto
    then have "g0 \<in> set (running (le_scheduler e))"
      using p(2) mset_eq_setD [OF e(3)] by (metis Un_iff fst_conv image_eqI list.set_map set_append)
    then have "request_id g0 \<in> R" using e(7) by (auto simp: engine_ids_def)
    then show ?thesis using p(3) g0 by (auto simp: processed_def grown_def)
  qed
  ultimately have "ro_request_id ro \<in> R" if "ro \<in> set ros" for ro
    using list_all2_right [of answers "map snd dn @ ?ign" ros, OF _ that] unfolding answers_def by metis
  then have "ro_request_id ` set ros \<subseteq> R" by blast
  moreover have "le_lora_enabled e' = lora" using p(3) e(2) by (simp add: processed_def engine_config_def)
  ultimately show ?thesis using run ids p(4) e(8) by (intro exI [of _ ros] exI [of _ e']) (auto simp: engine_holds_def)
qed

section \<open>The reachable states\<close>

text \<open>
  The loop is between two turns, knowing whether requests are in progress, or the model runs. A client's
  request has a string as its id, one output, and an id that no other request has which is still new: two
  new requests of the same id are not noticed by the tracker.
\<close>

datatype loop_state = Idle bool | Model_Runs "sequence_group_metadata list" scheduler_outputs

inductive async_run :: "engine_env \<Rightarrow> async_engine \<Rightarrow> async_engine \<Rightarrow> loop_state \<Rightarrow> bool" for env a0 where
  Start: "async_run env a0 a0 (Idle False)"
| Generate: "async_run env a0 a p \<Longrightarrow>
    \<forall>ts. encode_request env (nr_prompt nr) (nr_prompt_token_ids nr) (nr_lora_request nr) = Inr ts \<longrightarrow>
      good_request (le_lora_enabled (ae_engine a)) (nr\<lparr>nr_prompt_token_ids := Some ts\<rparr>) \<Longrightarrow>
    nr_request_id nr \<notin> set (new_ids (ae_tracker a)) \<Longrightarrow> async_generate env nr a = (res, a') \<Longrightarrow> async_run env a0 a' p"
| Abort: "async_run env a0 a p \<Longrightarrow> async_abort rid a = Inr a' \<Longrightarrow> async_run env a0 a' p"
| Begin: "async_run env a0 a (Idle b) \<Longrightarrow> loop_may_step b a \<Longrightarrow> engine_step_begin env now a = Inr (mds, out, a') \<Longrightarrow>
    async_run env a0 a' (Model_Runs mds out)"
| Finish: "async_run env a0 a (Model_Runs mds out) \<Longrightarrow> list_all2 (sampled (ee_tokenizer_len env)) (scheduled_seq_groups out) outs \<Longrightarrow>
    engine_step_end env now outs out a = Inr (b, a') \<Longrightarrow> async_run env a0 a' (Idle b)"

text \<open>The requests the engine answers for in a state, and the invariant.\<close>

definition in_engine :: "block_id multiset \<Rightarrow> loop_state \<Rightarrow> req_id set \<Rightarrow> llm_engine \<Rightarrow> bool" where
  "in_engine E p R e \<longleftrightarrow> (case p of Idle _ \<Rightarrow> engine_holds E (le_lora_enabled e) R e
     | Model_Runs _ out \<Rightarrow> model_runs_ok E (le_lora_enabled e) R out e)"

definition async_ok :: "block_id multiset \<Rightarrow> async_engine \<Rightarrow> loop_state \<Rightarrow> bool" where
  "async_ok E a p \<longleftrightarrow> tracker_ok (ae_tracker a) \<and> (ae_running a \<longrightarrow> rt_new_requests_event (ae_tracker a) \<noteq> None) \<and>
     (rt_new_requests (ae_tracker a) \<noteq> [] \<longrightarrow> ae_running a \<and> rt_new_requests_event (ae_tracker a) = Some True) \<and>
     (\<forall>(_, nr) \<in> set (rt_new_requests (ae_tracker a)). good_request (le_lora_enabled (ae_engine a)) nr) \<and>
     (\<exists>R. serves R (ae_tracker a) \<and> in_engine E p R (ae_engine a))"

lemma async_ok_moved:
  assumes "async_ok E a p" and "tracker_ok t" and "streams_moved (ae_tracker a) t"
  shows "async_ok E (a\<lparr>ae_tracker := t\<rparr>) p"
  using assms serves_moved [OF _ assms(3)] by (auto simp: async_ok_def streams_moved_def)

lemma tracker_abort_async_ok:
  assumes "async_ok E a p"
  shows "async_ok E (a\<lparr>ae_tracker := tracker_abort_request rid (ae_tracker a)\<rparr>) p"
  by (rule async_ok_moved [OF assms]; rule abort_ok; use assms in \<open>simp add: async_ok_def\<close>)

lemma generate_async_ok:
  assumes "async_ok E a p"
    and "\<forall>ts. encode_request env (nr_prompt nr) (nr_prompt_token_ids nr) (nr_lora_request nr) = Inr ts \<longrightarrow>
      good_request (le_lora_enabled (ae_engine a)) (nr\<lparr>nr_prompt_token_ids := Some ts\<rparr>)"
    and "nr_request_id nr \<notin> set (new_ids (ae_tracker a))" and "async_generate env nr a = (res, a')"
  shows "async_ok E a' p"
proof -
  have started: "async_ok E b p \<and> ae_running b \<and> ae_engine b = ae_engine a \<and> new_ids (ae_tracker b) = new_ids (ae_tracker a)"
    if b: "(if ae_running a then Inr a else if ae_start_engine_loop a then start_background_loop a else Inl dead_engine_error) = Inr b" for b
  proof (cases "ae_running a")
    case True
    then show ?thesis using b assms(1) by simp
  next
    case False
    then have eq: "b = a\<lparr>ae_tracker := init_event (ae_tracker a), ae_running := True\<rparr>"
      using b by (simp add: start_background_loop_def split: if_splits)
    have "rt_new_requests (ae_tracker a) = []" using False assms(1) by (auto simp: async_ok_def)
    moreover have "tracker_ok (init_event (ae_tracker a))"
      using assms(1) unfolding async_ok_def tracker_ok_def init_event_def by simp
    moreover have "serves R (init_event (ae_tracker a)) = serves R (ae_tracker a)" for R by (simp add: serves_def init_event_def)
    ultimately have "async_ok E b p" using assms(1) unfolding eq async_ok_def by (simp add: init_event_def)
    then show ?thesis by (simp add: eq init_event_def)
  qed
  have added: "async_ok E (b\<lparr>ae_tracker := t\<rparr>) p"
    if b: "async_ok E b p" "ae_running b" "ae_engine b = ae_engine a" "new_ids (ae_tracker b) = new_ids (ae_tracker a)"
      and ts: "encode_request env (nr_prompt nr) (nr_prompt_token_ids nr) (nr_lora_request nr) = Inr ts"
      and t: "tracker_add_request (nr\<lparr>nr_prompt_token_ids := Some ts\<rparr>) (ae_tracker b) = Inr (s, t)" for b ts s t
  proof -
    let ?nr = "nr\<lparr>nr_prompt_token_ids := Some ts\<rparr>" and ?t = "ae_tracker b"
    have ok: "tracker_ok ?t" "rt_new_requests_event ?t \<noteq> None" using b(1,2) by (auto simp: async_ok_def)
    have reg: "registered ?t (nr_request_id ?nr) = None"
      using t by (auto simp: tracker_add_request_def map_of_eq_None_iff split: if_splits)
    have "nr_request_id ?nr \<notin> set (new_ids ?t)" using assms(3) b(4) by simp
    from tracker_add_ok [OF ok(1) this reg ok(2)] t have t': "tracker_ok t" "rt_request_streams t = rt_request_streams ?t"
      "rt_new_requests t = rt_new_requests ?t @ [(length (rt_store ?t), ?nr)]"
      "rt_store t = rt_store ?t @ [new_async_stream (nr_request_id ?nr)]" "rt_new_requests_event t = Some True" by auto
    have "serves R t" if "serves R ?t" for R
      using that tracker_okD(2) [OF ok(1)] t'(2,4) by (fastforce simp: serves_def nth_append)
    moreover have "good_request (le_lora_enabled (ae_engine b)) ?nr" using assms(2) ts b(3) by simp
    ultimately show ?thesis using b(1,2) t' unfolding async_ok_def by auto
  qed
  show ?thesis
  proof (cases "async_add_request env nr a")
    case (Pair r b)
    have "async_ok E b p"
    proof (cases "if ae_running a then Inr a else if ae_start_engine_loop a then start_background_loop a else Inl dead_engine_error")
      case (Inl x)
      then show ?thesis using Pair assms(1) by (simp add: async_add_request_def)
    next
      case c: (Inr c)
      note st = started [OF c]
      show ?thesis
      proof (cases "ebind (encode_request env (nr_prompt nr) (nr_prompt_token_ids nr) (nr_lora_request nr)) (\<lambda>ts.
          tracker_add_request (nr\<lparr>nr_prompt_token_ids := Some ts\<rparr>) (ae_tracker c))")
        case (Inl x)
        then show ?thesis using Pair c st by (simp add: async_add_request_def)
      next
        case (Inr y)
        then have "b = c\<lparr>ae_tracker := snd y\<rparr>" using Pair c
          by (simp add: async_add_request_def split: prod.splits del: ebind_eq_Inr)
        then show ?thesis using Inr added [of c _ "fst y" "snd y"] st by auto
      qed
    qed
    then show ?thesis using assms(4) Pair tracker_abort_async_ok by (auto simp: async_generate_def split: sum.splits)
  qed
qed

lemma begin_async_ok:
  assumes "async_ok E a (Idle b)" and "ae_running a"
  shows "\<exists>mds out a'. engine_step_begin env now a = Inr (mds, out, a') \<and> async_ok E a' (Model_Runs mds out)"
proof -
  let ?t = "ae_tracker a" and ?lora = "le_lora_enabled (ae_engine a)"
  let ?F = "rt_finished_requests ?t" and ?N = "rt_new_requests ?t"
  obtain R where R: "serves R ?t" "engine_holds E ?lora R (ae_engine a)" using assms(1) by (auto simp: async_ok_def in_engine_def)
  have t: "tracker_ok ?t" "rt_new_requests_event ?t \<noteq> None" "\<forall>(_, nr) \<in> set ?N. good_request ?lora nr"
    using assms by (auto simp: async_ok_def)
  let ?news = "map snd (kept_new ?F ?N)"
  from get_new_ok [OF t(1,2)] obtain u where u: "get_new_and_finished_requests ?t = Inr (?news, remdups ?F, u)" "tracker_ok u"
    "rt_new_requests u = []" "rt_new_requests_event u = Some False"
    "dom (registered u) = (dom (registered ?t) - set ?F) \<union> (set (new_ids ?t) - set ?F)"
    "\<forall>r a. registered u r = Some a \<and> \<not> as_finished (stream_at u a) \<longrightarrow>
      r \<in> set (new_ids ?t) - set ?F \<or> (registered ?t r = Some a \<and> \<not> as_finished (stream_at ?t a) \<and> r \<notin> set ?F)" by blast
  have ids: "nr_request_id ` set ?news = set (new_ids ?t) - set ?F"
    by (force simp: kept_new_def)
  have fresh: "nr_request_id nr \<notin> R" if "nr \<in> set ?news" for nr
    using that R(1) tracker_okD(4) [OF t(1)] by (fastforce simp: kept_new_def serves_def)
  have good: "\<forall>nr \<in> set ?news. good_request ?lora nr \<and> nr_request_id nr \<notin> R"
    using t(3) fresh by (auto simp: kept_new_def)
  have "distinct (map nr_request_id ?news)"
    using tracker_okD(5) [OF t(1)] by (simp add: kept_new_def distinct_map_filter o_def case_prod_unfold)
  from add_news_holds [OF R(2) good this, of env] obtain e1 where
    e1: "efold (add_request_async env) ?news (ae_engine a) = Inr e1" "engine_holds E ?lora (R \<union> (set (new_ids ?t) - set ?F)) e1"
    unfolding ids by blast
  from abort_holds [OF e1(2), of "remdups ?F"] obtain e2 where
    e2: "(if remdups ?F \<noteq> [] then abort_request (remdups ?F) e1 else Inr e1) = Inr e2"
    "engine_holds E ?lora (R \<union> (set (new_ids ?t) - set ?F) - set ?F) e2" by auto
  from step_begin_holds [OF e2(2), of now] obtain mds out e3 where
    e3: "step_async_begin now e2 = Inr (mds, out, e3)" "model_runs_ok E ?lora (R \<union> (set (new_ids ?t) - set ?F) - set ?F) out e3" by blast
  have run: "engine_step_begin env now a = Inr (mds, out, a\<lparr>ae_engine := e3, ae_tracker := u\<rparr>)"
    using u(1) e1(1) e2(1) e3(1) by (simp add: engine_step_begin_def del: ebind_eq_Inr)
  have "le_lora_enabled e3 = ?lora" using e3(2) by (simp add: model_runs_ok_def)
  moreover have "serves (R \<union> (set (new_ids ?t) - set ?F) - set ?F) u"
    using R(1) u(5,6) unfolding serves_def by blast
  ultimately show ?thesis
    using run u(2-4) e3(2) by (intro exI [of _ mds] exI [of _ out] exI [of _ "a\<lparr>ae_engine := e3, ae_tracker := u\<rparr>"])
      (auto simp: async_ok_def in_engine_def)
qed

lemma finish_async_ok:
  assumes "async_ok E a (Model_Runs mds out)" and "list_all2 (sampled (ee_tokenizer_len env)) (scheduled_seq_groups out) outs"
  shows "\<exists>b a'. engine_step_end env now outs out a = Inr (b, a') \<and> async_ok E a' (Idle b)"
proof -
  let ?t = "ae_tracker a"
  obtain R where R: "serves R ?t" "model_runs_ok E (le_lora_enabled (ae_engine a)) R out (ae_engine a)"
    using assms(1) by (auto simp: async_ok_def in_engine_def)
  from step_end_holds [OF R(2) assms(2), of now] obtain ros e' where
    e': "step_async_end env now outs out (ae_engine a) = Inr (ros, e')"
    "engine_holds E (le_lora_enabled (ae_engine a)) (set (engine_ids e')) e'"
    "ro_request_id ` set ros \<subseteq> R" "set (engine_ids e') \<subseteq> R" "R \<subseteq> set (engine_ids e') \<union> ro_request_id ` {ro \<in> set ros. ro_finished ro}"
    by blast
  have t: "tracker_ok ?t" using assms(1) by (simp add: async_ok_def)
  have "ro_request_id ` set ros \<subseteq> dom (registered ?t)" using e'(3) R(1) by (auto simp: serves_def)
  from outputs_ok [OF t this] obtain t' where t': "efold process_request_output ros ?t = Inr t'" "tracker_ok t'" "streams_moved ?t t'"
    "\<forall>ro \<in> set ros. ro_finished ro \<longrightarrow> (\<forall>a. registered t' (ro_request_id ro) = Some a \<longrightarrow> as_finished (stream_at t' a))" by blast
  have "serves (set (engine_ids e')) t'"
    using serves_moved [OF R(1) t'(3)] e'(4,5) t'(4) unfolding serves_def by blast
  moreover have "le_lora_enabled e' = le_lora_enabled (ae_engine a)" using e'(2) by (simp add: engine_holds_def)
  moreover have "engine_step_end env now outs out a = Inr (ros \<noteq> [], a\<lparr>ae_engine := e', ae_tracker := t'\<rparr>)"
    using e'(1) t'(1) by (simp add: engine_step_end_def del: ebind_eq_Inr)
  ultimately show ?thesis
    using e'(2) t'(2,3) assms(1) by (intro exI [of _ "ros \<noteq> []"] exI [of _ "a\<lparr>ae_engine := e', ae_tracker := t'\<rparr>"])
      (auto simp: async_ok_def in_engine_def streams_moved_def)
qed

lemma abort_ok_eq: "async_abort rid a = Inr a' \<Longrightarrow> a' = a\<lparr>ae_tracker := tracker_abort_request rid (ae_tracker a)\<rparr>"
  by (simp add: async_abort_def split: if_splits)

lemma async_run_ok:
  assumes "async_run env a0 a p" and "async_ok E a0 (Idle False)"
  shows "async_ok E a p"
  using assms(1)
proof (induction rule: async_run.induct)
  case Start
  then show ?case by (rule assms(2))
next
  case (Generate a p nr res a')
  show ?case by (rule generate_async_ok [OF Generate.IH Generate.hyps(2-4)])
next
  case (Abort a p rid a')
  then show ?case using tracker_abort_async_ok abort_ok_eq by blast
next
  case (Begin a b now mds out a')
  then show ?case using begin_async_ok [OF Begin.IH, of env now] by (auto simp: loop_may_step_def)
next
  case (Finish a mds out outs now b a')
  then show ?case using finish_async_ok [OF Finish.IH Finish.hyps(2), of now] by auto
qed

text \<open>An engine that holds no request starts in the invariant.\<close>

lemma new_async_ok:
  assumes "engine_ok E e" and "queued (le_scheduler e) = {#}"
  shows "async_ok E (new_async_engine e start) (Idle False)"
proof -
  have "engine_ids e = []" using engine_ids_queued [OF assms(1)] assms(2) by (metis mset_zero_iff)
  then have "in_engine E (Idle False) {} e" using assms(1) by (simp add: in_engine_def engine_holds_def)
  moreover have "serves {} new_request_tracker" by (simp add: serves_def new_request_tracker_def)
  ultimately show ?thesis by (auto simp: async_ok_def new_async_engine_def new_request_tracker_def tracker_ok_def)
qed




text \<open>C18: A request whose id is in use is rejected with a \<open>KeyError\<close>, and the handler of \<open>generate\<close> then aborts the
  request that has the id: the stream of the other client ends and its request is on the list to be aborted.\<close>

theorem duplicate_request_aborts_the_first:
  assumes "registered (ae_tracker a) (nr_request_id nr) = Some i" and "ae_running a"
    and "encode_request env (nr_prompt nr) (nr_prompt_token_ids nr) (nr_lora_request nr) = Inr ts"
    and "i < length (rt_store (ae_tracker a))" and "\<not> as_finished (stream_at (ae_tracker a) i)"
  shows "\<exists>t. async_generate env nr a = (Inl KeyError, a\<lparr>ae_tracker := t\<rparr>) \<and>
    stream_at t i = stream_finish (stream_at (ae_tracker a) i) \<and> nr_request_id nr \<in> set (rt_finished_requests t)"
proof -
  have "nr_request_id nr \<in> set (dict_keys (rt_request_streams (ae_tracker a)))"
    using assms(1) by (metis map_of_eq_None_iff list.set_map option.distinct(1))
  then have "async_add_request env nr a = (Inl KeyError, a)"
    using assms(2,3) by (simp add: async_add_request_def tracker_add_request_def)
  then show ?thesis
    using assms(1,4,5) by (auto simp: async_generate_def tracker_abort_request_def Let_def on_stream_def)
qed

end
