(* ===== verification/Async_Examples.thy ===== *)
theory Async_Examples
  imports Async_Props Engine_Examples
begin

text \<open>
  Concrete runs of the asynchronous engine: the witnesses of its properties, and two runs that end badly: the
  loop goes to sleep with a request in the engine, and a client waits forever because another one took the
  same id.
\<close>

definition ex_request :: "string \<Rightarrow> int list \<Rightarrow> new_request" where
  "ex_request s ts = \<lparr>nr_request_id = StrId s, nr_prompt = None, nr_sampling_params = ex_sp, nr_prompt_token_ids = Some ts,
     nr_arrival_time = 0, nr_lora_request = None, nr_prefix_pos = None\<rparr>"

lemma ex_request_good: "ts \<noteq> [] \<Longrightarrow> good_request lora ((ex_request s ts)\<lparr>nr_prompt_token_ids := Some ts\<rparr>)"
  by (simp add: good_request_def ex_request_def is_int_id_def ex_single_output)

definition ex_generate :: "string \<Rightarrow> int list \<Rightarrow> async_engine \<Rightarrow> async_engine" where
  "ex_generate s ts a = snd (async_generate ex_env (ex_request s ts) a)"

text \<open>A whole turn with the example model.\<close>

definition ex_turn :: "async_engine \<Rightarrow> (bool \<times> async_engine) option" where
  "ex_turn a = (case engine_step_begin ex_env 0 a of Inl _ \<Rightarrow> None
     | Inr (mds, out, a) \<Rightarrow> (case engine_step_end ex_env 0 (ex_execute mds out) out a of Inl _ \<Rightarrow> None | Inr r \<Rightarrow> Some r))"

lemma ex_generate_run:
  assumes "async_run ex_env a0 a p" and "StrId s \<notin> set (new_ids (ae_tracker a))" and "ts \<noteq> []"
  shows "async_run ex_env a0 (ex_generate s ts a) p"
proof (rule async_run.Generate [OF assms(1)])
  show "async_generate ex_env (ex_request s ts) a = (fst (async_generate ex_env (ex_request s ts) a), ex_generate s ts a)"
    by (simp add: ex_generate_def)
qed (use assms(2) ex_request_good [OF assms(3)] in \<open>auto simp: encode_request_def ex_request_def\<close>)

lemma ex_turn_run:
  assumes "async_run ex_env a0 a (Idle c)" and "loop_may_step c a" and "ex_turn a = Some (b, a')"
  shows "async_run ex_env a0 a' (Idle b)"
proof -
  obtain mds out a1 where s: "engine_step_begin ex_env 0 a = Inr (mds, out, a1)"
    "engine_step_end ex_env 0 (ex_execute mds out) out a1 = Inr (b, a')"
    using assms(3) by (auto simp: ex_turn_def split: sum.splits)
  have "list_all2 (sampled (ee_tokenizer_len ex_env)) (scheduled_seq_groups out) (ex_execute mds out)"
    using ex_samples_all by (simp add: samples_all_def)
  then show ?thesis by (rule async_run.Finish [OF async_run.Begin [OF assms(1,2) s(1)] _ s(2)])
qed

text \<open>The engine with one client, before and after the first turn.\<close>

definition ex_async :: async_engine where
  "ex_async = ex_generate ''r'' [5, 6, 5, 6] (new_async_engine ex_idle True)"

definition ex_async1 :: async_engine where
  "ex_async1 = snd (the (ex_turn ex_async))"

lemma ex_async_run: "async_run ex_env (new_async_engine ex_idle True) ex_async (Idle False)"
  unfolding ex_async_def by (rule ex_generate_run [OF async_run.Start]) (simp_all add: new_async_engine_def new_request_tracker_def)

lemma ex_async_eval:
  "ae_running ex_async" "loop_may_step False ex_async" "map as_finished (rt_store (ae_tracker ex_async)) = [False]"
  "new_ids (ae_tracker ex_async) = [StrId ''r'']"
  by code_simp+

lemma ex_async1_eval:
  "fst (the (ex_turn ex_async))" "ex_turn ex_async \<noteq> None" "ae_running ex_async1" "registered (ae_tracker ex_async1) (StrId ''r'') = Some 0"
  "map as_finished (rt_store (ae_tracker ex_async1)) = [False]" "map (\<lambda>s. length (as_queue s)) (rt_store (ae_tracker ex_async1)) = [1]"
  by code_simp+

lemma ex_async1_run: "async_run ex_env (new_async_engine ex_idle True) ex_async1 (Idle True)"
proof -
  have "ex_turn ex_async = Some (True, ex_async1)" using ex_async1_eval(1,2) by (auto simp: ex_async1_def)
  then show ?thesis by (rule ex_turn_run [OF ex_async_run ex_async_eval(2)])
qed




theorem duplicate_request_aborts_the_first_witness:
  "\<exists>t. async_generate ex_env (ex_request ''r'' [5]) ex_async1 = (Inl KeyError, ex_async1\<lparr>ae_tracker := t\<rparr>) \<and>
    as_finished (stream_at t 0) \<and> StrId ''r'' \<in> set (rt_finished_requests t)"
proof -
  have st: "length (rt_store (ae_tracker ex_async1)) = 1" using ex_async1_eval(5) by (metis length_map One_nat_def length_Cons list.size(3))
  then have "\<not> as_finished (stream_at (ae_tracker ex_async1) 0)" using ex_async1_eval(5) by (cases "rt_store (ae_tracker ex_async1)") auto
  moreover have "registered (ae_tracker ex_async1) (nr_request_id (ex_request ''r'' [5])) = Some 0"
    using ex_async1_eval(4) by (simp add: ex_request_def)
  moreover have "encode_request ex_env (nr_prompt (ex_request ''r'' [5])) (nr_prompt_token_ids (ex_request ''r'' [5]))
      (nr_lora_request (ex_request ''r'' [5])) = Inr [5]" by (simp add: encode_request_def ex_request_def)
  ultimately show ?thesis
    using duplicate_request_aborts_the_first [of ex_async1 "ex_request ''r'' [5]" 0 ex_env "[5]"] ex_async1_eval(3) st
    by (auto simp: ex_request_def)
qed

section \<open>The loop goes to sleep with a request in the engine\<close>

text \<open>A pool with just the two blocks of the prompt: the request has to be preempted for its next token.\<close>

definition ex_tight :: llm_engine where
  "ex_tight = ex_idle\<lparr>le_scheduler := (le_scheduler ex_idle)\<lparr>sch_bm := ex_bm\<lparr>num_total_gpu_blocks := 2,
     gpu_allocator := new_block_allocator GPU 2 2, actual_gpu_blk_rng_end := 2\<rparr>\<rparr>\<rparr>"

definition ex_tight1 :: async_engine where
  "ex_tight1 = ex_generate ''r'' [5, 6, 5, 6] (new_async_engine ex_tight True)"

definition ex_tight2 :: async_engine where
  "ex_tight2 = snd (the (ex_turn ex_tight1))"

definition ex_tight3 :: async_engine where
  "ex_tight3 = snd (the (ex_turn ex_tight2))"

lemma ex_tight_eval:
  "loop_may_step False ex_tight1" "map_option fst (ex_turn ex_tight1) = Some True" "loop_may_step True ex_tight2"
  "map_option fst (ex_turn ex_tight2) = Some False" "\<not> loop_may_step False ex_tight3"
  "engine_ids (ae_engine ex_tight3) = [StrId ''r'']" "map as_finished (rt_store (ae_tracker ex_tight3)) = [False]"
  by code_simp+

lemma ex_tight_run: "async_run ex_env (new_async_engine ex_tight True) ex_tight3 (Idle False)"
proof -
  have r1: "async_run ex_env (new_async_engine ex_tight True) ex_tight1 (Idle False)"
    unfolding ex_tight1_def by (rule ex_generate_run [OF async_run.Start]) (simp_all add: new_async_engine_def new_request_tracker_def)
  have t: "ex_turn ex_tight1 = Some (True, ex_tight2)" "ex_turn ex_tight2 = Some (False, ex_tight3)"
    using ex_tight_eval(2,4) by (auto simp: ex_tight2_def ex_tight3_def)
  show ?thesis by (rule ex_turn_run [OF ex_turn_run [OF r1 ex_tight_eval(1) t(1)] ex_tight_eval(3) t(2)])
qed


section \<open>Two new requests with the same id\<close>

text \<open>
  The tracker compares a new id only with the registered ones, so the second stream takes the place of the
  first: after the turn both groups have sent their outputs to the second stream.
\<close>

definition ex_twins :: async_engine where
  "ex_twins = snd (the (ex_turn (ex_generate ''r'' [6] (ex_generate ''r'' [5, 6, 5, 6] (new_async_engine ex_idle True)))))"

theorem twins_share_a_stream:
  "map (\<lambda>s. length (as_queue s)) (rt_store (ae_tracker ex_twins)) = [0, 2]"
  "engine_ids (ae_engine ex_twins) = [StrId ''r'', StrId ''r'']" "registered (ae_tracker ex_twins) (StrId ''r'') = Some 1"
  by code_simp+

end
