(* ===== verification/Model_Inputs.thy ===== *)
theory Model_Inputs
  imports Req_Scheduler
begin

text \<open>
  \<^verbatim>\<open>vllm/worker/model_runner.py\<close>: the inputs of the model for the groups of a step. A tensor is the list of
  its rows. The driver worker without pipeline stages is modelled; the metadata always has block tables
  (only the memory profiling has none). Left out: the CUDA graphs themselves, profiling, timing and the
  broadcast to the other workers.
\<close>

section \<open>Padding\<close>

definition py_repeat :: "'a \<Rightarrow> int \<Rightarrow> 'a list" where
  "py_repeat x n = replicate (nat n) x"

definition pad_to_max :: "int \<Rightarrow> 'a \<Rightarrow> 'a list \<Rightarrow> 'a list result" where
  "pad_to_max max_len pad x =
     ebind (py_assert (int (length x) \<le> max_len)) (\<lambda>_. Inr (x @ py_repeat pad (max_len - int (length x))))"

fun emap :: "('a \<Rightarrow> 'b result) \<Rightarrow> 'a list \<Rightarrow> 'b list result" where
  "emap f [] = Inr []"
| "emap f (x # xs) = ebind (f x) (\<lambda>y. ebind (emap f xs) (\<lambda>ys. Inr (y # ys)))"

definition make_tensor_with_pad :: "'a list list \<Rightarrow> int \<Rightarrow> 'a \<Rightarrow> 'a list list result" where
  "make_tensor_with_pad x max_len pad = emap (pad_to_max max_len pad) x"

definition py_max :: "int list \<Rightarrow> int result" where
  "py_max xs = (case xs of [] \<Rightarrow> Inl (ValueError ''max() arg is an empty sequence'') | y # ys \<Rightarrow> Inr (fold max ys y))"

definition pad_slot_id :: int where
  "pad_slot_id = - 1"

definition batch_sizes_to_capture :: "nat list" where
  "batch_sizes_to_capture = [1, 2, 4] @ map (\<lambda>i. 8 * i) [1..<33]"

text \<open>The maximum of \<^verbatim>\<open>_BATCH_SIZES_TO_CAPTURE\<close>.\<close>

definition max_captured_batch :: nat where
  "max_captured_batch = 256"

definition get_graph_batch_size :: "nat \<Rightarrow> nat" where
  "get_graph_batch_size n = (if n \<le> 2 then n else if n \<le> 4 then 4 else (n + 7) div 8 * 8)"

text \<open>The sizes for which \<open>capture_model\<close> records a CUDA graph.\<close>

definition batch_size_capture_list :: "nat \<Rightarrow> nat list" where
  "batch_size_capture_list max_seqs = filter (\<lambda>bs. bs \<le> get_graph_batch_size max_seqs) batch_sizes_to_capture"

section \<open>The runner\<close>

record model_runner =
  mr_block_size :: nat
  mr_sliding_window :: "nat option"
  mr_enforce_eager :: bool
  mr_max_context_len_to_capture :: nat
  mr_kv_cache_dtype :: string
  mr_lora_enabled :: bool
  mr_graph_block_tables :: "nat list list"
  mr_graph_runners :: "nat list"

definition set_block_size :: "nat \<Rightarrow> model_runner \<Rightarrow> model_runner result" where
  "set_block_size bs r =
     (if bs = 0 then Inl ZeroDivisionError
      else let max_num_blocks = (mr_max_context_len_to_capture r + bs - 1) div bs
           in Inr (r\<lparr>mr_block_size := bs, mr_graph_block_tables := replicate max_captured_batch (replicate max_num_blocks 0)\<rparr>))"

text \<open>The graphs themselves are opaque: the runner keeps the batch sizes that have one.\<close>

definition capture_model :: "nat \<Rightarrow> model_runner \<Rightarrow> model_runner result" where
  "capture_model max_seqs r =
     ebind (py_assert (\<not> mr_enforce_eager r)) (\<lambda>_.
       Inr (r\<lparr>mr_graph_runners := remdups (mr_graph_runners r @ rev (batch_size_capture_list max_seqs))\<rparr>))"

record input_metadata =
  im_is_prompt :: bool
  im_slot_mapping :: "int list list"
  im_prompt_lens :: "nat list option"
  im_max_seq_len :: "int option"
  im_start_loc :: "int list option"
  im_max_context_len :: "int option"
  im_context_lens :: "nat list"
  im_block_tables :: "nat list list"
  im_use_cuda_graph :: bool
  im_kv_cache_dtype :: string

text \<open>The slot of the token at a position, found through the block table.\<close>

definition slot_of :: "nat \<Rightarrow> nat list \<Rightarrow> nat \<Rightarrow> int result" where
  "slot_of bs block_table i =
     (if bs = 0 then Inl ZeroDivisionError
      else ebind (py_index block_table (int (i div bs))) (\<lambda>block_number. Inr (int (block_number * bs + i mod bs))))"

definition md_lora_int_id :: "sequence_group_metadata \<Rightarrow> int" where
  "md_lora_int_id m = (case md_lora_request m of None \<Rightarrow> 0 | Some r \<Rightarrow> lr_lora_int_id r)"

text \<open>\<^verbatim>\<open>lora_requests.add(...)\<close>: LoRA requests are equal when their ids are.\<close>

definition add_lora_request :: "lora_request option \<Rightarrow> lora_request list \<Rightarrow> lora_request list" where
  "add_lora_request l rs =
     (case l of None \<Rightarrow> rs | Some r \<Rightarrow> if lr_lora_int_id r \<in> lr_lora_int_id ` set rs then rs else rs @ [r])"

section \<open>Prompts\<close>

record prompt_inputs =
  pr_tokens :: "int list"
  pr_positions :: "nat list"
  pr_slots :: "int list"
  pr_prompt_len :: nat
  pr_context_len :: nat
  pr_subquery_len :: int
  pr_prefix_blocks :: "nat list"
  pr_lora_index :: "int list"
  pr_lora_prompt :: "int list"

text \<open>The tokens that the prefix already covers, and its blocks.\<close>

definition computed_prefix :: "prefix_heap \<Rightarrow> sequence_group_metadata \<Rightarrow> (nat \<times> nat list) result" where
  "computed_prefix heap m =
     (case md_prefix m of
        None \<Rightarrow> Inr (0, [])
      | Some r \<Rightarrow> if pf_computed (heap ! r)
                  then ebind (prefix_get_block_numbers (heap ! r)) (\<lambda>bs. Inr (pf_length (heap ! r), bs))
                  else Inr (0, []))"

definition only_seq :: "sequence_group_metadata \<Rightarrow> (int \<times> sequence_data) result" where
  "only_seq m = ebind (py_assert (length (md_seq_data m) = 1)) (\<lambda>_. Inr (hd (md_seq_data m)))"

definition prompt_slots :: "model_runner \<Rightarrow> nat list \<Rightarrow> nat \<Rightarrow> nat \<Rightarrow> int list result" where
  "prompt_slots r block_table prefix_len prompt_len =
     ebind (case mr_sliding_window r of None \<Rightarrow> Inr 0
            | Some w \<Rightarrow> ebind (py_assert (prefix_len = 0)) (\<lambda>_. Inr (prompt_len - w))) (\<lambda>start_idx.
       emap (\<lambda>i. if i < start_idx then Inr pad_slot_id else slot_of (mr_block_size r) block_table i)
         [prefix_len..<prompt_len])"

definition prompt_row :: "model_runner \<Rightarrow> prefix_heap \<Rightarrow> sequence_group_metadata \<Rightarrow> prompt_inputs result" where
  "prompt_row r heap m =
     ebind (py_assert (md_is_prompt m)) (\<lambda>_.
     ebind (only_seq m) (\<lambda>(sid, d).
     ebind (computed_prefix heap m) (\<lambda>(prefix_len, prefix_blocks).
     let all_tokens = data_get_token_ids d; prompt_len = length all_tokens; tokens = drop prefix_len all_tokens;
         subquery_len = int prompt_len - int prefix_len; lora_id = md_lora_int_id m
     in ebind (dict_get (md_block_tables m) sid) (\<lambda>block_table.
        ebind (prompt_slots r block_table prefix_len prompt_len) (\<lambda>slots.
          Inr \<lparr>pr_tokens = tokens, pr_positions = [prefix_len..<prefix_len + length tokens], pr_slots = slots,
               pr_prompt_len = prompt_len, pr_context_len = prefix_len, pr_subquery_len = subquery_len,
               pr_prefix_blocks = prefix_blocks, pr_lora_index = py_repeat lora_id subquery_len,
               pr_lora_prompt = py_repeat lora_id
                 (if prompt_logprobs (md_sampling_params m) \<notin> {None, Some 0} then subquery_len else 1)\<rparr>)))))"

text \<open>
  \<open>_prepare_prompt\<close> returns tokens, positions, the metadata, the prompt and query lengths and the LoRA
  mappings. \<^verbatim>\<open>torch.arange\<close> rejects a step of 0.
\<close>

record model_input =
  mi_tokens :: "int list list"
  mi_positions :: "nat list list"
  mi_metadata :: input_metadata
  mi_prompt_lens :: "nat list"
  mi_subquery_lens :: "int list option"
  mi_lora_index :: "int list list"
  mi_lora_prompt :: "int list"
  mi_lora_requests :: "lora_request list"

definition lora_requests_of :: "sequence_group_metadata list \<Rightarrow> lora_request list" where
  "lora_requests_of mds = fold (\<lambda>m rs. if md_lora_int_id m > 0 then add_lora_request (md_lora_request m) rs else rs) mds []"

definition prepare_prompt :: "model_runner \<Rightarrow> prefix_heap \<Rightarrow> sequence_group_metadata list \<Rightarrow> model_input result" where
  "prepare_prompt r heap mds =
     ebind (py_assert (mds \<noteq> [])) (\<lambda>_.
     ebind (emap (prompt_row r heap) mds) (\<lambda>rows.
     ebind (py_max (map pr_subquery_len rows)) (\<lambda>max_prompt_len.
     ebind (make_tensor_with_pad (map pr_tokens rows) max_prompt_len 0) (\<lambda>tokens.
     ebind (make_tensor_with_pad (map pr_positions rows) max_prompt_len 0) (\<lambda>positions.
     ebind (make_tensor_with_pad (map pr_slots rows) max_prompt_len pad_slot_id) (\<lambda>slots.
     ebind (emap (pad_to_max max_prompt_len 0) (map pr_lora_index rows)) (\<lambda>lora_index.
     ebind (py_max (map (\<lambda>p. int (length (pr_prefix_blocks p))) rows)) (\<lambda>max_table.
     ebind (make_tensor_with_pad (map pr_prefix_blocks rows) max_table 0) (\<lambda>tables.
     ebind (if max_prompt_len = 0 then Inl (RuntimeError ''step must be nonzero'')
            else Inr (map (\<lambda>i. int i * max_prompt_len) [0..<length rows])) (\<lambda>start_loc.
       Inr \<lparr>mi_tokens = tokens, mi_positions = positions,
            mi_metadata = \<lparr>im_is_prompt = True, im_slot_mapping = slots, im_prompt_lens = Some (map pr_prompt_len rows),
              im_max_seq_len = Some max_prompt_len, im_start_loc = Some start_loc, im_max_context_len = None,
              im_context_lens = map pr_context_len rows, im_block_tables = tables, im_use_cuda_graph = False,
              im_kv_cache_dtype = mr_kv_cache_dtype r\<rparr>,
            mi_prompt_lens = map pr_prompt_len rows, mi_subquery_lens = Some (map pr_subquery_len rows),
            mi_lora_index = lora_index, mi_lora_prompt = concat (map pr_lora_prompt rows),
            mi_lora_requests = lora_requests_of mds\<rparr>))))))))))"

section \<open>Decoding\<close>

record decode_inputs =
  dr_token :: int
  dr_position :: nat
  dr_context_len :: nat
  dr_slot :: int
  dr_block_table :: "nat list"
  dr_lora_id :: int

text \<open>The last \<open>n\<close> elements, \<^verbatim>\<open>xs[-n:]\<close>: with \<open>n = 0\<close> all of them.\<close>

definition last_n :: "nat \<Rightarrow> 'a list \<Rightarrow> 'a list" where
  "last_n n xs = (if n = 0 then xs else drop (length xs - n) xs)"

definition decode_row :: "model_runner \<Rightarrow> sequence_group_metadata \<Rightarrow> int \<times> sequence_data \<Rightarrow> decode_inputs result" where
  "decode_row r m = (\<lambda>(sid, d).
     ebind (data_get_last_token_id d) (\<lambda>generation_token.
     let seq_len = data_get_len d; position = seq_len - 1 in
     ebind (dict_get (md_block_tables m) sid) (\<lambda>block_table.
     ebind (slot_of (mr_block_size r) block_table position) (\<lambda>slot.
       Inr \<lparr>dr_token = generation_token, dr_position = position,
            dr_context_len = (case mr_sliding_window r of None \<Rightarrow> seq_len | Some w \<Rightarrow> min seq_len w),
            dr_slot = slot,
            dr_block_table = (case mr_sliding_window r of None \<Rightarrow> block_table
                              | Some w \<Rightarrow> last_n (w div mr_block_size r) block_table),
            dr_lora_id = md_lora_int_id m\<rparr>))))"

definition decode_rows :: "model_runner \<Rightarrow> sequence_group_metadata \<Rightarrow> decode_inputs list result" where
  "decode_rows r m = ebind (py_assert (\<not> md_is_prompt m)) (\<lambda>_. emap (decode_row r m) (md_seq_data m))"

text \<open>
  The rows of the array the CUDA graphs read: \<^verbatim>\<open>input_block_tables[i, :len(block_table)] = block_table\<close>. It is a
  view of \<^verbatim>\<open>graph_block_tables\<close>, so what earlier steps wrote beyond a table stays there.
\<close>

definition write_row :: "nat list \<Rightarrow> nat list \<Rightarrow> nat list result" where
  "write_row row table = (if length table \<le> length row then Inr (table @ drop (length table) row)
     else Inl (ValueError ''could not broadcast input array''))"

definition write_graph_tables :: "nat list list \<Rightarrow> nat list list \<Rightarrow> nat list list result" where
  "write_graph_tables graph tables =
     ebind (emap (\<lambda>(row, t). write_row row t) (zip graph tables)) (\<lambda>rows. Inr (rows @ drop (length tables) graph))"

text \<open>
  \<open>_prepare_decode\<close>. Rows added to reach the batch size of a captured graph have no token and no table, and a
  context of length 1.
\<close>

definition prepare_decode :: "model_runner \<Rightarrow> sequence_group_metadata list \<Rightarrow> (model_input \<times> model_runner) result" where
  "prepare_decode r mds =
     ebind (py_assert (mds \<noteq> [])) (\<lambda>_.
     ebind (emap (decode_rows r) mds) (\<lambda>rowss.
     let rows = concat rowss; batch_size = length rows in
     ebind (py_max (map (\<lambda>d. int (dr_context_len d)) rows)) (\<lambda>max_context_len.
     let use_graph = (\<not> mr_enforce_eager r \<and> batch_size \<le> max_captured_batch \<and>
           max_context_len \<le> int (mr_max_context_len_to_capture r));
         extra = (if use_graph then get_graph_batch_size batch_size - batch_size else 0)
     in
     ebind (py_assert (use_graph \<longrightarrow> batch_size \<le> get_graph_batch_size batch_size)) (\<lambda>_.
     ebind (make_tensor_with_pad (map (\<lambda>d. [dr_token d]) rows @ replicate extra []) 1 0) (\<lambda>tokens.
     ebind (make_tensor_with_pad (map (\<lambda>d. [dr_position d]) rows @ replicate extra []) 1 0) (\<lambda>positions.
     ebind (make_tensor_with_pad (map (\<lambda>d. [dr_slot d]) rows @ replicate extra []) 1 pad_slot_id) (\<lambda>slots.
     let context_lens = map dr_context_len rows @ replicate extra 1;
         tables = map dr_block_table rows @ replicate extra []
     in
     ebind (if use_graph then
              ebind (write_graph_tables (mr_graph_block_tables r) tables) (\<lambda>graph.
                Inr (take (batch_size + extra) graph, r\<lparr>mr_graph_block_tables := graph\<rparr>))
            else
              ebind (py_max (map (\<lambda>t. int (length t)) tables)) (\<lambda>max_table.
              ebind (make_tensor_with_pad tables max_table 0) (\<lambda>t. Inr (t, r)))) (\<lambda>(block_tables, r).
     ebind (emap (pad_to_max 1 0) (map (\<lambda>d. [dr_lora_id d]) rows)) (\<lambda>lora_index.
       Inr (\<lparr>mi_tokens = tokens, mi_positions = positions,
             mi_metadata = \<lparr>im_is_prompt = False, im_slot_mapping = slots, im_prompt_lens = None,
               im_max_seq_len = None, im_start_loc = None, im_max_context_len = Some max_context_len,
               im_context_lens = context_lens, im_block_tables = block_tables, im_use_cuda_graph = use_graph,
               im_kv_cache_dtype = mr_kv_cache_dtype r\<rparr>,
             mi_prompt_lens = [], mi_subquery_lens = None,
             mi_lora_index = lora_index, mi_lora_prompt = map dr_lora_id rows,
             mi_lora_requests = lora_requests_of mds\<rparr>, r))))))))))"

section \<open>Sampling\<close>

record sampling_metadata =
  sm_seq_groups :: "(int list \<times> sampling_params) list"
  sm_seq_data :: "(int, sequence_data) dict"
  sm_prompt_lens :: "nat list"
  sm_selected_token_indices :: "int list"
  sm_categorized_sample_indices :: "(sampling_type, int list) dict"

definition sm_num_prompts :: "sampling_metadata \<Rightarrow> nat" where
  "sm_num_prompts sm = length (sm_prompt_lens sm)"

record sample_cursor =
  sc_selected :: "int list"
  sc_selected_start :: int
  sc_categorized :: "(sampling_type, int list) dict"
  sc_categorized_start :: int

definition categorize :: "sampling_type \<Rightarrow> int list \<Rightarrow> sample_cursor \<Rightarrow> sample_cursor" where
  "categorize ty is c = c\<lparr>sc_categorized := map (\<lambda>(t, js). (t, if t = ty then js @ is else js)) (sc_categorized c)\<rparr>"

definition prepare_sample_group ::
    "int list option \<Rightarrow> int \<Rightarrow> nat \<times> sequence_group_metadata \<Rightarrow> sample_cursor \<Rightarrow> sample_cursor result" where
  "prepare_sample_group subquery_lens max_subquery_len = (\<lambda>(i, m) c.
     let sp = md_sampling_params m; seq_ids = dict_keys (md_seq_data m); ty = get_sampling_type sp in
     if md_is_prompt m then
       ebind (py_assert (length seq_ids = 1)) (\<lambda>_.
       ebind (case subquery_lens of None \<Rightarrow> Inl AssertionError | Some ls \<Rightarrow> py_index ls (int i)) (\<lambda>subquery_len.
       let c = (if prompt_logprobs sp \<noteq> None then c\<lparr>sc_categorized_start := sc_categorized_start c + (subquery_len - 1)\<rparr> else c);
           c = categorize ty [sc_categorized_start c] c;
           c = c\<lparr>sc_categorized_start := sc_categorized_start c + 1\<rparr>;
           start = sc_selected_start c;
           before = (if prompt_logprobs sp \<noteq> None then [start..start + subquery_len - 2] else [])
       in Inr (c\<lparr>sc_selected := sc_selected c @ before @ [start + subquery_len - 1], sc_selected_start := start + max_subquery_len\<rparr>)))
     else
       let n = int (length seq_ids); s = sc_selected_start c; k = sc_categorized_start c;
           c = categorize ty [k..k + n - 1] c
       in Inr (c\<lparr>sc_selected := sc_selected c @ [s..s + n - 1], sc_selected_start := s + n, sc_categorized_start := k + n\<rparr>))"

definition prepare_sample ::
    "sequence_group_metadata list \<Rightarrow> nat list \<Rightarrow> int list option \<Rightarrow> sampling_metadata result" where
  "prepare_sample mds prompt_lens subquery_lens =
     ebind (case subquery_lens of None \<Rightarrow> Inr 1 | Some [] \<Rightarrow> Inr 1 | Some ls \<Rightarrow> py_max ls) (\<lambda>max_subquery_len.
     ebind (efold (prepare_sample_group subquery_lens max_subquery_len) (enumerate 0 mds)
              \<lparr>sc_selected = [], sc_selected_start = 0, sc_categorized = [(GREEDY, []), (RANDOM, []), (BEAM, [])],
               sc_categorized_start = 0\<rparr>) (\<lambda>c.
       Inr \<lparr>sm_seq_groups = map (\<lambda>m. (dict_keys (md_seq_data m), md_sampling_params m)) mds,
            sm_seq_data = fold (\<lambda>m d. dict_update d (md_seq_data m)) mds [],
            sm_prompt_lens = prompt_lens, sm_selected_token_indices = sc_selected c,
            sm_categorized_sample_indices = sc_categorized c\<rparr>))"

section \<open>All inputs\<close>

text \<open>\<open>prepare_input_tensors\<close> in the driver worker.\<close>

definition prepare_input_tensors ::
    "model_runner \<Rightarrow> prefix_heap \<Rightarrow> sequence_group_metadata list
     \<Rightarrow> (model_input \<times> sampling_metadata \<times> (int list \<times> int list) option \<times> model_runner) result" where
  "prepare_input_tensors r heap mds =
     ebind (py_index mds 0) (\<lambda>m.
     ebind (if md_is_prompt m then ebind (prepare_prompt r heap mds) (\<lambda>i. Inr (i, r)) else prepare_decode r mds) (\<lambda>(i, r).
     ebind (prepare_sample mds (mi_prompt_lens i) (mi_subquery_lens i)) (\<lambda>sm.
       Inr (i, sm, if mr_lora_enabled r then Some (concat (mi_lora_index i), mi_lora_prompt i) else None, r))))"

end
