(* ===== verification/Sampler.thy ===== *)
theory Sampler
  imports Model_Inputs Engine
begin

text \<open>
  \<^verbatim>\<open>vllm/model_executor/layers/sampler.py\<close> from the probabilities on: choosing the next tokens of every group,
  the log probabilities that are returned with them, and the output. A matrix is the list of its rows.
  \<open>torch_ops\<close> holds the operations of torch that choose: \<^verbatim>\<open>argmax\<close> and \<^verbatim>\<open>topk\<close> of a row, the random choice
  of \<^verbatim>\<open>_multinomial\<close>, and the addition of its floats. What turns hidden states into probabilities (logits,
  penalties, temperature, top-p and top-k) is arithmetic of torch and part of the model, \<open>model_env\<close>.
\<close>

record torch_ops =
  t_argmax :: "float64 list \<Rightarrow> nat"
  t_topk :: "float64 list \<Rightarrow> nat \<Rightarrow> (float64 \<times> nat) list"
  t_multinomial :: "float64 list list \<Rightarrow> nat \<Rightarrow> nat list list"
  t_add :: "float64 \<Rightarrow> float64 \<Rightarrow> float64"

text \<open>\<^verbatim>\<open>torch.topk\<close> raises when the row is shorter than \<open>k\<close>; \<^verbatim>\<open>index_select\<close> and indexing by a list raise outside.\<close>

definition topk :: "torch_ops \<Rightarrow> float64 list \<Rightarrow> int \<Rightarrow> (float64 \<times> nat) list result" where
  "topk ops row k =
     (if 0 \<le> k \<and> nat k \<le> length row then Inr (t_topk ops row (nat k)) else Inl (RuntimeError ''selected index k out of range''))"

definition select_rows :: "'a list \<Rightarrow> int list \<Rightarrow> 'a list result" where
  "select_rows rows is = emap (py_index rows) is"

section \<open>Choosing tokens\<close>

type_synonym seq_group_ids = "int list \<times> sampling_params"
type_synonym sample_result = "int list \<times> nat list"

definition greedy_sample :: "seq_group_ids list \<Rightarrow> nat list \<Rightarrow> sample_result list result" where
  "greedy_sample groups samples =
     ebind (efold (\<lambda>(seq_ids, sp) (sample_idx, results).
         ebind (py_assert (length seq_ids = 1)) (\<lambda>_.
         ebind (py_index samples (int sample_idx)) (\<lambda>t. Inr (sample_idx + length seq_ids, results @ [([int t], [0..<length seq_ids])]))))
       groups (0, [])) (\<lambda>(_, results). Inr results)"

definition random_sample :: "(seq_group_ids \<times> bool) list \<Rightarrow> nat list list \<Rightarrow> sample_result list result" where
  "random_sample groups samples =
     ebind (efold (\<lambda>((seq_ids, sp), is_prompt) (sample_idx, results).
         let n = length seq_ids in
         if is_prompt then
           ebind (py_index samples (int sample_idx)) (\<lambda>row.
             Inr (sample_idx + n, results @ [(map int (slice_to (best_of sp) row), py_repeat 0 (best_of sp))]))
         else
           ebind (emap (\<lambda>row. py_index row 0) (take n (drop sample_idx samples))) (\<lambda>ts.
             Inr (sample_idx + n, results @ [(map int ts, [0..<n])])))
       groups (0, [])) (\<lambda>(_, results). Inr results)"

text \<open>The two choices of beam search: among the tokens of the prompt's row, and among all rows of the group.\<close>

definition beam_search_group :: "torch_ops \<Rightarrow> (int, sequence_data) dict \<Rightarrow> seq_group_ids \<Rightarrow> bool \<Rightarrow> float64 list list \<Rightarrow> sample_result result" where
  "beam_search_group ops data g is_prompt rows =
     (let (seq_ids, sp) = g; beam_width = best_of sp in
      if is_prompt then
        ebind (py_assert (length seq_ids = 1)) (\<lambda>_.
        ebind (py_index rows 0) (\<lambda>row.
        ebind (topk ops row (2 * beam_width)) (\<lambda>best. Inr (map (int \<circ> snd) best, py_repeat 0 (2 * beam_width)))))
      else
        ebind (emap (\<lambda>sid. ebind (dict_get data sid) (\<lambda>d. Inr (cumulative_logprob d))) seq_ids) (\<lambda>cumulative.
        ebind (if length rows = length cumulative then Inr () else Inl (RuntimeError ''sizes do not match'')) (\<lambda>_.
        let scored = map2 (\<lambda>row c. map (\<lambda>x. t_add ops x c) row) rows cumulative; vocab_size = length (hd scored) in
        ebind (topk ops (concat scored) (2 * beam_width)) (\<lambda>best.
          Inr (map (\<lambda>(_, i). int (i mod vocab_size)) best, map (\<lambda>(_, i). i div vocab_size) best)))))"

definition beam_search_sample ::
    "torch_ops \<Rightarrow> (int, sequence_data) dict \<Rightarrow> (seq_group_ids \<times> bool) list \<Rightarrow> float64 list list \<Rightarrow> sample_result list result" where
  "beam_search_sample ops data groups lps =
     ebind (efold (\<lambda>(g, is_prompt) (sample_idx, results).
         let n = length (fst g) in
         ebind (beam_search_group ops data g is_prompt (take n (drop sample_idx lps))) (\<lambda>res.
           Inr (sample_idx + n, results @ [res])))
       groups (0, [])) (\<lambda>(sample_idx, results).
     ebind (py_assert (sample_idx = length lps)) (\<lambda>_. Inr results))"

definition max_best_of :: "(seq_group_ids \<times> bool) list \<Rightarrow> int" where
  "max_best_of groups = fold (\<lambda>((_, sp), is_prompt) m. if is_prompt then max m (best_of sp) else m) groups 1"

text \<open>The groups of one sampling type, with their numbers.\<close>

definition groups_of_type :: "sampling_metadata \<Rightarrow> sampling_type \<Rightarrow> (nat \<times> seq_group_ids \<times> bool) list" where
  "groups_of_type sm ty =
     map (\<lambda>(i, g). (i, g, i < sm_num_prompts sm))
       (filter (\<lambda>(i, g). get_sampling_type (snd g) = ty) (enumerate 0 (sm_seq_groups sm)))"

definition sample_type ::
    "torch_ops \<Rightarrow> float64 list list \<Rightarrow> float64 list list \<Rightarrow> sampling_metadata \<Rightarrow> sampling_type
     \<Rightarrow> (nat, sample_result) dict \<Rightarrow> (nat, sample_result) dict result" where
  "sample_type ops probs lps sm ty results =
     ebind (dict_get (sm_categorized_sample_indices sm) ty) (\<lambda>is.
     if is = [] then Inr results
     else
       let gs = groups_of_type sm ty; groups = map snd gs in
       ebind (case ty of
                GREEDY \<Rightarrow> ebind (select_rows lps is) (\<lambda>rows. greedy_sample (map fst groups) (map (t_argmax ops) rows))
              | RANDOM \<Rightarrow> ebind (select_rows probs is) (\<lambda>rows.
                  random_sample groups (t_multinomial ops rows (nat (max_best_of groups))))
              | BEAM \<Rightarrow> ebind (select_rows lps is) (\<lambda>rows. beam_search_sample ops (sm_seq_data sm) groups rows))
         (\<lambda>rs. Inr (dict_update results (zip (map fst gs) rs))))"

definition sample :: "torch_ops \<Rightarrow> float64 list list \<Rightarrow> float64 list list \<Rightarrow> sampling_metadata \<Rightarrow> sample_result list result" where
  "sample ops probs lps sm =
     ebind (efold (sample_type ops probs lps sm) [GREEDY, RANDOM, BEAM] []) (\<lambda>results.
       emap (dict_get results) [0..<length (sm_seq_groups sm)])"

section \<open>The log probabilities that are returned\<close>

text \<open>Whether the group is a prompt with \<^verbatim>\<open>prompt_logprobs\<close>, and then how many are wanted.\<close>

definition wants_prompt_logprobs :: "sampling_metadata \<Rightarrow> nat \<Rightarrow> sampling_params \<Rightarrow> int option" where
  "wants_prompt_logprobs sm i sp = (if i < sm_num_prompts sm then prompt_logprobs sp else None)"

definition prompt_tokens_of :: "sampling_metadata \<Rightarrow> int list \<Rightarrow> int list result" where
  "prompt_tokens_of sm seq_ids =
     ebind (py_index seq_ids 0) (\<lambda>sid. ebind (dict_get (sm_seq_data sm) sid) (\<lambda>d. Inr (prompt_token_ids d)))"

record logprob_query =
  lq_rows :: "nat list"
  lq_tokens :: "int list"
  lq_largest :: int
  lq_idx :: nat

definition query_group :: "sampling_metadata \<Rightarrow> nat \<times> seq_group_ids \<times> sample_result \<Rightarrow> logprob_query \<Rightarrow> logprob_query result" where
  "query_group sm = (\<lambda>(i, (seq_ids, sp), (next_token_ids, parent_ids)) q.
     ebind (case wants_prompt_logprobs sm i sp of
              None \<Rightarrow> Inr q
            | Some n \<Rightarrow>
                ebind (py_index (sm_prompt_lens sm) (int i)) (\<lambda>prompt_len.
                ebind (prompt_tokens_of sm seq_ids) (\<lambda>prompt_tokens.
                  Inr (q\<lparr>lq_rows := lq_rows q @ map (\<lambda>j. lq_idx q + j) [0..<prompt_len - 1],
                         lq_tokens := lq_tokens q @ drop 1 prompt_tokens,
                         lq_largest := max (lq_largest q) n,
                         lq_idx := lq_idx q + (prompt_len - 1)\<rparr>)))) (\<lambda>q.
     Inr (q\<lparr>lq_rows := lq_rows q @ map (\<lambda>p. lq_idx q + p) parent_ids, lq_tokens := lq_tokens q @ next_token_ids,
            lq_largest := (case logprobs sp of None \<Rightarrow> lq_largest q | Some n \<Rightarrow> max (lq_largest q) n),
            lq_idx := lq_idx q + length seq_ids\<rparr>)))"

text \<open>
  \<^verbatim>\<open>logprobs[[rows, tokens]]\<close>: the two index lists are paired; one of length 1 is repeated, other lengths
  must agree.
\<close>

definition index_pairs :: "nat list \<Rightarrow> int list \<Rightarrow> (nat \<times> int) list result" where
  "index_pairs rows tokens =
     (if length rows = length tokens then Inr (zip rows tokens)
      else if length rows = 1 then Inr (map (\<lambda>t. (hd rows, t)) tokens)
      else if length tokens = 1 then Inr (map (\<lambda>r. (r, hd tokens)) rows)
      else Inl IndexError)"

definition query_logprobs :: "float64 list list \<Rightarrow> logprob_query \<Rightarrow> float64 list result" where
  "query_logprobs lps q =
     ebind (index_pairs (lq_rows q) (lq_tokens q)) (\<lambda>ps.
       emap (\<lambda>(r, t). ebind (py_index lps (int r)) (\<lambda>row. py_index row t)) ps)"

text \<open>The dictionary of a token: its own log probability, then the \<open>n\<close> best ones of the row.\<close>

definition logprobs_dict :: "(float64 \<times> nat) list list \<Rightarrow> nat \<Rightarrow> int \<Rightarrow> int \<Rightarrow> float64 \<Rightarrow> logprob_dict result" where
  "logprobs_dict best row n token lp =
     (if n > 0 then
        ebind (py_index best (int row)) (\<lambda>ts. Inr (dict_update [(token, lp)] (map (\<lambda>(x, i). (int i, x)) (slice_to n ts))))
      else Inr [(token, lp)])"

record logprob_results =
  lr_prompt :: "logprob_dict option list option list"
  lr_sample :: "logprob_dict list list"
  lr_idx :: nat
  lr_query_idx :: nat

definition collect_prompt_logprobs ::
    "(float64 \<times> nat) list list \<Rightarrow> float64 list \<Rightarrow> int \<Rightarrow> int list \<Rightarrow> nat \<times> nat \<Rightarrow> (logprob_dict option list \<times> nat \<times> nat) result" where
  "collect_prompt_logprobs best query n tokens pos =
     efold (\<lambda>token (ds, idx, query_idx).
         ebind (py_index query (int query_idx)) (\<lambda>lp.
         ebind (logprobs_dict best idx n token lp) (\<lambda>d. Inr (ds @ [Some d], idx + 1, query_idx + 1))))
       tokens ([None], pos)"

definition collect_sample_logprobs ::
    "(float64 \<times> nat) list list \<Rightarrow> float64 list \<Rightarrow> int \<Rightarrow> nat \<Rightarrow> (int \<times> nat) list \<Rightarrow> nat \<Rightarrow> (logprob_dict list \<times> nat) result" where
  "collect_sample_logprobs best query n idx samples query_idx =
     efold (\<lambda>(token, parent) (ds, query_idx).
         ebind (py_index query (int query_idx)) (\<lambda>lp.
         ebind (logprobs_dict best (idx + parent) n token lp) (\<lambda>d. Inr (ds @ [d], query_idx + 1))))
       samples ([], query_idx)"

definition collect_group ::
    "sampling_metadata \<Rightarrow> (float64 \<times> nat) list list \<Rightarrow> float64 list \<Rightarrow> nat \<times> seq_group_ids \<times> sample_result \<Rightarrow> logprob_results
     \<Rightarrow> logprob_results result" where
  "collect_group sm best query = (\<lambda>(i, (seq_ids, sp), (next_token_ids, parent_ids)) r.
     ebind (case wants_prompt_logprobs sm i sp of
              None \<Rightarrow> Inr (None, lr_idx r, lr_query_idx r)
            | Some n \<Rightarrow>
                ebind (prompt_tokens_of sm seq_ids) (\<lambda>prompt_tokens.
                ebind (collect_prompt_logprobs best query n (drop 1 prompt_tokens) (lr_idx r, lr_query_idx r)) (\<lambda>(ds, idx, query_idx).
                  Inr (Some ds, idx, query_idx)))) (\<lambda>(prompt, idx, query_idx).
     ebind (collect_sample_logprobs best query (case logprobs sp of None \<Rightarrow> 0 | Some n \<Rightarrow> n) idx (zip next_token_ids parent_ids) query_idx)
       (\<lambda>(ds, query_idx).
       Inr \<lparr>lr_prompt = lr_prompt r @ [prompt], lr_sample = lr_sample r @ [ds],
            lr_idx = idx + length seq_ids, lr_query_idx = query_idx\<rparr>)))"

definition get_logprobs ::
    "torch_ops \<Rightarrow> float64 list list \<Rightarrow> sampling_metadata \<Rightarrow> sample_result list
     \<Rightarrow> (logprob_dict option list option list \<times> logprob_dict list list) result" where
  "get_logprobs ops lps sm results =
     (let groups = enumerate 0 (zip (sm_seq_groups sm) results) in
      ebind (efold (query_group sm) groups \<lparr>lq_rows = [], lq_tokens = [], lq_largest = 0, lq_idx = 0\<rparr>) (\<lambda>q.
      ebind (py_assert (lq_idx q = length lps)) (\<lambda>_.
      ebind (query_logprobs lps q) (\<lambda>query.
      ebind (if lq_largest q > 0 then emap (\<lambda>row. topk ops row (lq_largest q)) lps else Inr []) (\<lambda>best.
      ebind (efold (collect_group sm best query) groups \<lparr>lr_prompt = [], lr_sample = [], lr_idx = 0, lr_query_idx = 0\<rparr>) (\<lambda>r.
        Inr (lr_prompt r, lr_sample r)))))))"

section \<open>The output\<close>

definition build_group_output ::
    "int list \<Rightarrow> sample_result \<Rightarrow> logprob_dict option list option \<Rightarrow> logprob_dict list \<Rightarrow> sequence_group_output result" where
  "build_group_output seq_ids res prompt lps =
     (let (next_token_ids, parent_ids) = res in
      ebind (emap (\<lambda>(parent_id, next_token_id, lp).
               ebind (py_index seq_ids (int parent_id)) (\<lambda>sid.
                 Inr \<lparr>so_parent_seq_id = sid, so_output_token = next_token_id, so_logprobs = lp\<rparr>))
             (zip parent_ids (zip next_token_ids lps))) (\<lambda>samples.
        Inr \<lparr>go_samples = samples, go_prompt_logprobs = prompt\<rparr>))"

definition build_sampler_output ::
    "sample_result list \<Rightarrow> sampling_metadata \<Rightarrow> logprob_dict option list option list \<Rightarrow> logprob_dict list list
     \<Rightarrow> sequence_group_output list result" where
  "build_sampler_output results sm prompts lps =
     emap (\<lambda>((seq_ids, _), res, prompt, lp). build_group_output seq_ids res prompt lp)
       (zip (sm_seq_groups sm) (zip results (zip prompts lps)))"

text \<open>
  The model: it reads and writes the KV cache \<open>'c\<close> and gives the hidden states of all positions, row by row;
  then the probabilities and log probabilities of the rows that sampling needs.
\<close>

record ('h, 'c) model_env =
  me_forward :: "'c \<Rightarrow> int list list \<Rightarrow> nat list list \<Rightarrow> input_metadata \<Rightarrow> 'h list \<times> 'c"
  me_probs :: "'h list \<Rightarrow> sampling_metadata \<Rightarrow> float64 list list"
  me_logprobs :: "'h list \<Rightarrow> sampling_metadata \<Rightarrow> float64 list list"
  me_ops :: torch_ops

definition prune_hidden_states :: "'h list \<Rightarrow> sampling_metadata \<Rightarrow> 'h list result" where
  "prune_hidden_states hidden sm = select_rows hidden (sm_selected_token_indices sm)"

definition sampler_forward :: "('h, 'c) model_env \<Rightarrow> 'h list \<Rightarrow> sampling_metadata \<Rightarrow> sequence_group_output list result" where
  "sampler_forward env hidden sm =
     ebind (prune_hidden_states hidden sm) (\<lambda>rows.
     let probs = me_probs env rows sm; lps = me_logprobs env rows sm in
     ebind (sample (me_ops env) probs lps sm) (\<lambda>results.
     ebind (get_logprobs (me_ops env) lps sm results) (\<lambda>(prompts, sample_lps).
       build_sampler_output results sm prompts sample_lps)))"

section \<open>A step of the model runner\<close>

text \<open>\<^verbatim>\<open>self.graph_runners[graph_batch_size]\<close> for a batch that is to run as a CUDA graph.\<close>

definition check_graph :: "model_runner \<Rightarrow> model_input \<Rightarrow> unit result" where
  "check_graph r i =
     (if im_use_cuda_graph (mi_metadata i) \<and> length (mi_tokens i) \<notin> set (mr_graph_runners r) then Inl KeyError else Inr ())"

definition runner_execute_model ::
    "('h, 'c) model_env \<Rightarrow> prefix_heap \<Rightarrow> sequence_group_metadata list \<Rightarrow> model_runner \<times> 'c
     \<Rightarrow> (sequence_group_output list \<times> model_runner \<times> 'c) result" where
  "runner_execute_model env heap mds = (\<lambda>(r, caches).
     ebind (prepare_input_tensors r heap mds) (\<lambda>(i, sm, _, r).
     ebind (check_graph r i) (\<lambda>_.
     let (hidden, caches) = me_forward env caches (mi_tokens i) (mi_positions i) (mi_metadata i) in
     ebind (sampler_forward env hidden sm) (\<lambda>out. Inr (out, r, caches)))))"

end
