(* ===== verification/Worker.thy ===== *)
theory Worker
  imports Sampler Async_Engine
begin

text \<open>
  \<^verbatim>\<open>vllm/worker/cache_engine.py\<close> and \<^verbatim>\<open>vllm/worker/worker.py\<close>: the KV cache on both devices, the copies the
  scheduler asks for, and \<open>execute_model\<close> of the driver worker; then the two halves of the engine with it.
  The copy kernels of \<^verbatim>\<open>csrc/cache_kernels.cu\<close> write to raw addresses, so a memory is a function. Its unit is
  one block of keys or of values of one layer. Left out: the devices, streams and events, and profiling.
\<close>

section \<open>The KV cache\<close>

type_synonym 'b memory = "int \<Rightarrow> 'b"

text \<open>
  \<^verbatim>\<open>gpu_cache\<close> is a view of the memory: for each layer the key blocks and then the value blocks,
  \<^verbatim>\<open>len(gpu_cache[0][0])\<close> of them. The CPU cache has the same layout. Only with dynamic weight loading is the
  whole GPU cache one tensor, \<^verbatim>\<open>continuous_gpu_cache\<close>.
\<close>

record 'b cache_engine =
  ce_num_layers :: nat
  ce_num_gpu_blocks :: int
  ce_num_cpu_blocks :: int
  ce_continuous :: bool
  ce_gpu :: "'b memory"
  ce_cpu :: "'b memory"

text \<open>The planes of a cache are the keys of layer 0, the values of layer 0, the keys of layer 1 and so on.\<close>

definition cache_unit :: "int \<Rightarrow> nat \<Rightarrow> int \<Rightarrow> int" where
  "cache_unit num_blocks plane blk = int plane * num_blocks + blk"

text \<open>\<^verbatim>\<open>swap_blocks\<close>: the mapping becomes a \<^verbatim>\<open>std::map\<close>, whose keys are in order.\<close>

definition swap_blocks :: "int \<Rightarrow> int \<Rightarrow> (nat, nat) dict \<Rightarrow> 'b memory \<Rightarrow> 'b memory \<Rightarrow> 'b memory" where
  "swap_blocks src_offset dst_offset mapping src dst =
     fold (\<lambda>(s, d) m. m(dst_offset + int d := src (src_offset + int s))) (sort_key fst mapping) dst"

text \<open>\<open>_swap\<close>: keys and values of every layer.\<close>

definition swap_planes :: "nat \<Rightarrow> int \<Rightarrow> int \<Rightarrow> (nat, nat) dict \<Rightarrow> 'b memory \<Rightarrow> 'b memory \<Rightarrow> 'b memory" where
  "swap_planes layers num_src num_dst mapping src dst =
     fold (\<lambda>p. swap_blocks (cache_unit num_src p 0) (cache_unit num_dst p 0) mapping src) [0..<2 * layers] dst"

definition cache_swap_in :: "(nat, nat) dict \<Rightarrow> 'b cache_engine \<Rightarrow> 'b cache_engine" where
  "cache_swap_in src_to_dst ce =
     ce\<lparr>ce_gpu := swap_planes (ce_num_layers ce) (ce_num_cpu_blocks ce) (ce_num_gpu_blocks ce) src_to_dst (ce_cpu ce) (ce_gpu ce)\<rparr>"

definition cache_swap_out :: "(nat, nat) dict \<Rightarrow> 'b cache_engine \<Rightarrow> 'b cache_engine" where
  "cache_swap_out src_to_dst ce =
     ce\<lparr>ce_cpu := swap_planes (ce_num_layers ce) (ce_num_gpu_blocks ce) (ce_num_cpu_blocks ce) src_to_dst (ce_gpu ce) (ce_cpu ce)\<rparr>"

text \<open>\<^verbatim>\<open>copy_blocks\<close>: one GPU thread block for each layer and pair.\<close>

definition copy_pairs :: "(nat, nat list) dict \<Rightarrow> (nat \<times> nat) list" where
  "copy_pairs src_to_dsts = concat (map (\<lambda>(s, ds). map (Pair s) ds) (sort_key fst src_to_dsts))"

definition cache_copy :: "(nat, nat list) dict \<Rightarrow> 'b cache_engine \<Rightarrow> 'b cache_engine" where
  "cache_copy src_to_dsts ce =
     (let n = ce_num_gpu_blocks ce in
      ce\<lparr>ce_gpu := fold (\<lambda>p m. fold (\<lambda>(s, d) m. m(cache_unit n p (int d) := m (cache_unit n p (int s)))) (copy_pairs src_to_dsts) m)
           [0..<2 * ce_num_layers ce] (ce_gpu ce)\<rparr>)"

text \<open>
  \<^verbatim>\<open>reorganize_blocks_kernel\<close>: one GPU thread block for each chain, which it copies from its end. The chains
  are run in their order here; \<open>chains_disjoint\<close> shows that they do not share an address.
\<close>

definition kernel_chain :: "int list \<Rightarrow> nat \<Rightarrow> nat \<Rightarrow> 'b memory \<Rightarrow> 'b memory" where
  "kernel_chain cs lo hi m = fold (\<lambda>i m. m(cs ! i := m (cs ! (i - 1)))) (rev [Suc lo..<hi]) m"

definition reorganize_kernel :: "int list \<Rightarrow> int list \<Rightarrow> 'b memory \<Rightarrow> 'b memory" where
  "reorganize_kernel cs chain_lens m =
     fold (\<lambda>(lo, hi). kernel_chain cs (nat lo) (nat hi)) (zip chain_lens (tl chain_lens)) m"

text \<open>\<open>update_KV_cache_organization\<close> narrows the view; \<^verbatim>\<open>torch.narrow\<close> rejects a negative length.\<close>

definition update_KV_cache_organization :: "int \<Rightarrow> 'b cache_engine \<Rightarrow> int result" where
  "update_KV_cache_organization block_num_reduced ce =
     (let new_block_num = ce_num_gpu_blocks ce - block_num_reduced in
      if \<not> ce_continuous ce then Inl AttributeError
      else if new_block_num < 0 then Inl (RuntimeError ''narrow(): length must be non-negative.'')
      else Inr new_block_num)"

definition cache_reorganize :: "(nat, int list) dict \<Rightarrow> int \<Rightarrow> 'b cache_engine \<Rightarrow> 'b cache_engine result" where
  "cache_reorganize src_to_dsts block_num_reduced ce =
     ebind (update_KV_cache_organization block_num_reduced ce) (\<lambda>new_block_num.
     ebind (dict_get src_to_dsts 0) (\<lambda>cs.
     ebind (dict_get src_to_dsts 1) (\<lambda>chain_lens.
       Inr (ce\<lparr>ce_num_gpu_blocks := new_block_num, ce_gpu := reorganize_kernel cs chain_lens (ce_gpu ce)\<rparr>))))"

section \<open>The worker\<close>

record 'b worker =
  wk_runner :: model_runner
  wk_cache :: "'b cache_engine"

definition cache_swap ::
    "(nat, nat) dict \<Rightarrow> (nat, nat) dict \<Rightarrow> (nat, nat list) dict \<Rightarrow> (nat, int list) dict \<Rightarrow> int \<Rightarrow> 'b cache_engine \<Rightarrow> 'b cache_engine result" where
  "cache_swap swap_in swap_out copies reorganize blk_num_reduced ce =
     (let ce = (if swap_in \<noteq> [] then cache_swap_in swap_in ce else ce);
          ce = (if swap_out \<noteq> [] then cache_swap_out swap_out ce else ce);
          ce = (if copies \<noteq> [] then cache_copy copies ce else ce)
      in if reorganize \<noteq> [] then cache_reorganize reorganize blk_num_reduced ce else Inr ce)"

text \<open>The keyword arguments of \<open>execute_model\<close>, with their defaults.\<close>

record worker_args =
  wa_metadata :: "sequence_group_metadata list option"
  wa_swap_in :: "(nat, nat) dict option"
  wa_swap_out :: "(nat, nat) dict option"
  wa_copy :: "(nat, nat list) dict option"
  wa_load_more :: int
  wa_reorganize :: "(nat, int list) dict option"

definition no_args :: worker_args where
  "no_args = \<lparr>wa_metadata = None, wa_swap_in = None, wa_swap_out = None, wa_copy = None, wa_load_more = 0, wa_reorganize = None\<rparr>"

definition assert_not_none :: "'a option \<Rightarrow> 'a result" where
  "assert_not_none x = (case x of None \<Rightarrow> Inl AssertionError | Some y \<Rightarrow> Inr y)"

text \<open>
  \<open>KVBlkPerLayerWeight\<close> belongs to the process, so the driver worker shares it with the engine. The prefixes of
  the metadata are objects of the block manager, \<open>heap\<close>.
\<close>

definition worker_execute_model ::
    "('h, 'b cache_engine) model_env \<Rightarrow> prefix_heap \<Rightarrow> worker_args \<Rightarrow> kv_per_layer_weight \<times> 'b worker
     \<Rightarrow> (sequence_group_output list \<times> kv_per_layer_weight \<times> 'b worker) result" where
  "worker_execute_model env heap args = (\<lambda>(kv, w).
     ebind (assert_not_none (wa_metadata args)) (\<lambda>mds.
     ebind (assert_not_none (wa_swap_in args)) (\<lambda>swap_in.
     ebind (assert_not_none (wa_swap_out args)) (\<lambda>swap_out.
     ebind (assert_not_none (wa_copy args)) (\<lambda>copies.
     ebind (assert_not_none (wa_reorganize args)) (\<lambda>reorganize.
     let kv = kv\<lparr>load_more_layer_on_card_num := wa_load_more args\<rparr>;
         blk_num_reduced = blk_num_per_layer kv * wa_load_more args
     in
     ebind (cache_swap swap_in swap_out copies reorganize blk_num_reduced (wk_cache w)) (\<lambda>ce.
     if mds = [] then Inr ([], kv, w\<lparr>wk_cache := ce\<rparr>)
     else ebind (runner_execute_model env heap mds (wk_runner w, ce)) (\<lambda>(output, r, ce).
            Inr (output, kv, w\<lparr>wk_runner := r, wk_cache := ce\<rparr>)))))))))"

section \<open>The engine with its worker\<close>

definition step_args :: "kv_per_layer_weight \<Rightarrow> sequence_group_metadata list \<Rightarrow> scheduler_outputs \<Rightarrow> worker_args" where
  "step_args kv mds out = \<lparr>wa_metadata = Some mds, wa_swap_in = Some (blocks_to_swap_in (out_io out)),
     wa_swap_out = Some (blocks_to_swap_out (out_io out)), wa_copy = Some (blocks_to_copy (out_io out)),
     wa_load_more = load_more_layer_on_card_num kv, wa_reorganize = Some (blocks_to_reorganize out)\<rparr>"

text \<open>\<open>LLMEngine.step\<close> with one worker.\<close>

definition engine_worker_step ::
    "engine_env \<Rightarrow> ('h, 'b cache_engine) model_env \<Rightarrow> float64 \<Rightarrow> llm_engine \<times> 'b worker
     \<Rightarrow> (request_output list \<times> llm_engine \<times> 'b worker) result" where
  "engine_worker_step env menv now = (\<lambda>(e, w).
     ebind (sch_schedule now (le_kv e) (le_scheduler e)) (\<lambda>(mds, out, kv, s).
     ebind (if outputs_is_empty out then Inr ([], kv, w)
            else worker_execute_model menv (prefix_heap (sch_bm s)) (step_args kv mds out) (kv, w)) (\<lambda>(output, kv, w).
     let e = e\<lparr>le_scheduler := s, le_kv := kv\<lparr>load_more_layer_on_card_num := 0\<rparr>\<rparr> in
     ebind (process_model_outputs env now output out e) (\<lambda>(ros, e). Inr (ros, e, w)))))"

text \<open>The call of \<open>step_async\<close> passes four of the arguments.\<close>

definition step_async_args :: "sequence_group_metadata list \<Rightarrow> scheduler_outputs \<Rightarrow> worker_args" where
  "step_async_args mds out = no_args\<lparr>wa_metadata := Some mds, wa_swap_in := Some (blocks_to_swap_in (out_io out)),
     wa_swap_out := Some (blocks_to_swap_out (out_io out)), wa_copy := Some (blocks_to_copy (out_io out))\<rparr>"

definition async_worker_step ::
    "engine_env \<Rightarrow> ('h, 'b cache_engine) model_env \<Rightarrow> float64 \<Rightarrow> llm_engine \<times> 'b worker
     \<Rightarrow> (request_output list \<times> llm_engine \<times> 'b worker) result" where
  "async_worker_step env menv now = (\<lambda>(e, w).
     ebind (step_async_begin now e) (\<lambda>(mds, out, e).
     ebind (if outputs_is_empty out then Inr ([], le_kv e, w)
            else worker_execute_model menv (prefix_heap (sch_bm (le_scheduler e))) (step_async_args mds out) (le_kv e, w)) (\<lambda>(output, kv, w).
     ebind (step_async_end env now output out (e\<lparr>le_kv := kv\<rparr>)) (\<lambda>(ros, e). Inr (ros, e, w)))))"

end
