(* ===== verification/Model_Inputs_Props.thy ===== *)
theory Model_Inputs_Props
  imports Model_Inputs Engine_Inv
begin

text \<open>
  The inputs of the model for the groups a step schedules: building them never raises, every sequence
  writes to the slot of its own last token, and the rows that sampling reads are the last positions.
\<close>

section \<open>Lists of results\<close>

lemma list_all2_partner: "list_all2 P xs ys \<Longrightarrow> y \<in> set ys \<Longrightarrow> \<exists>x \<in> set xs. P x y"
  by (induction rule: list_all2_induct) auto

lemma emap_eq_Inr: "emap f xs = Inr ys \<longleftrightarrow> list_all2 (\<lambda>x y. f x = Inr y) xs ys"
  by (induction xs arbitrary: ys) (auto simp: list_all2_Cons1)

lemma emap_map: "(\<And>x. x \<in> set xs \<Longrightarrow> f x = Inr (g x)) \<Longrightarrow> emap f xs = Inr (map g xs)"
  by (induction xs) simp_all

lemma emap_map_comp: "emap f (map g xs) = emap (\<lambda>x. f (g x)) xs"
  by (induction xs) simp_all

lemma py_max_ok:
  assumes "xs \<noteq> []"
  shows "py_max xs = Inr (Max (set xs))"
  using assms by (cases xs) (simp_all add: py_max_def Max.set_eq_fold del: list.set)

lemma pad_to_max_ok: "int (length x) \<le> n \<Longrightarrow> pad_to_max n p x = Inr (x @ py_repeat p (n - int (length x)))"
  by (simp add: pad_to_max_def)

lemma make_tensor_ok:
  "\<forall>x \<in> set xs. int (length x) \<le> n \<Longrightarrow> make_tensor_with_pad xs n p = Inr (map (\<lambda>x. x @ py_repeat p (n - int (length x))) xs)"
  unfolding make_tensor_with_pad_def by (rule emap_map) (simp add: pad_to_max_ok)

section \<open>The metadata of the scheduled groups\<close>

definition md_of :: "bool \<Rightarrow> sequence_group \<Rightarrow> sequence \<Rightarrow> block_table \<Rightarrow> sequence_group_metadata" where
  "md_of p g q t = \<lparr>md_request_id = request_id g, md_is_prompt = p, md_seq_data = [(seq_id q, seq_data q)],
     md_sampling_params = sg_sampling_params g, md_block_tables = [(seq_id q, map blk_number t)],
     md_lora_request = sg_lora_request g, md_prefix = sg_prefix g\<rparr>"

lemma metadata_of_single:
  assumes "single RUNNING g q" and "map_of (block_tables bm) (seq_id q) = Some t"
  shows "metadata_of p bm g = Inr (md_of p g q t)"
  using single_get_seqs [OF assms(1)] assms(2) by (simp add: metadata_of_def get_block_table_def dict_get_def md_of_def)

text \<open>The metadata of a group whose sequence has a block for each of its logical blocks.\<close>

definition describes :: "bool \<Rightarrow> nat \<Rightarrow> block_manager \<Rightarrow> sequence_group \<Rightarrow> sequence_group_metadata \<Rightarrow> bool" where
  "describes p bs bm g m \<longleftrightarrow> (\<exists>q t. m = md_of p g q t \<and> single RUNNING g q \<and> map_of (block_tables bm) (seq_id q) = Some t \<and>
     0 < seq_get_len q \<and> length t = (seq_get_len q + bs - 1) div bs \<and> blk_device (last t) = GPU)"

lemma efold_append_map:
  "efold (\<lambda>g mds. ebind (f g) (\<lambda>m. Inr (mds @ [m]))) gs acc = ebind (emap f gs) (\<lambda>ys. Inr (acc @ ys))"
  by (induction gs arbitrary: acc) (auto simp: ebind_assoc intro!: ebind_cong)

lemma schedule_describes:
  assumes "engine_ok E e" and "sch_schedule now kv (le_scheduler e) = Inr (mds, out, kv', s')"
  shows "list_all2 (describes (prompt_run out) (le_block_size e) (sch_bm s')) (scheduled_seq_groups out) mds"
proof -
  let ?s = "le_scheduler e"
  have inv: "sched_ok E (sch_bm ?s) (waiting ?s) (running ?s)" "swapped ?s = []" "\<not> dynamic_increase_oncard_weights ?s"
    "list_all (plain (le_block_size e) (le_seq_counter e)) (waiting ?s @ running ?s)"
    using assms(1) by (auto simp: engine_ok_def Let_def)
  from schedule_ok [OF inv, of now kv] assms(2) obtain others where sc:
    "sched_ok E (sch_bm s') (waiting s') (running s')"
    "list_all (plain (le_block_size e) (le_seq_counter e)) (waiting s' @ running s' @ ignored_seq_groups out)"
    "mset (running s') = mset (scheduled_seq_groups out @ others)" "\<forall>g \<in> set (scheduled_seq_groups out). covered (sch_bm s') g"
    by auto
  have mds: "emap (metadata_of (prompt_run out) (sch_bm s')) (scheduled_seq_groups out) = Inr mds"
    using assms(2) inv(3) by (auto simp: sch_schedule_def efold_append_map)
  have d: "describes (prompt_run out) (le_block_size e) (sch_bm s') g m"
    if g: "g \<in> set (scheduled_seq_groups out)" "metadata_of (prompt_run out) (sch_bm s') g = Inr m" for g m
  proof -
    obtain q t where q: "single RUNNING g q" "map_of (block_tables (sch_bm s')) (seq_id q) = Some t" "length t = length (logical_token_blocks q)"
      using sc(4) g(1) by (auto simp: covered_def)
    have run: "g \<in> set (running s')" using mset_eq_setD [OF sc(3)] g(1) by auto
    then have "plain (le_block_size e) (le_seq_counter e) g" using sc(2) by (simp add: list_all_iff)
    then have ok: "seq_ok q" "seq_block_size q = le_block_size e" using q(1) by (auto simp: plain_def single_def)
    have "logical_token_blocks q \<noteq> []" using q(1) by (simp add: single_def)
    moreover have "(seq_block_size q - 1) div seq_block_size q = 0" using ok(1) by (simp add: seq_ok_def)
    ultimately have len: "0 < seq_get_len q"
      using seq_ok_length [OF ok(1)] by (cases "seq_get_len q = 0") auto
    obtain q' t' where "single RUNNING g q'" "map_of (block_tables (sch_bm s')) (seq_id q') = Some t'" "blk_device (last t') = GPU"
      using sc(1) run by (auto simp: sched_ok_def queues_ok_def runs_def)
    then have "blk_device (last t) = GPU" using q(1,2) by (auto simp: single_def)
    then show ?thesis
      using metadata_of_single [OF q(1,2), of "prompt_run out"] g(2) q len ok seq_ok_length [OF ok(1)]
      by (auto simp: describes_def)
  qed
  show ?thesis using mds d unfolding emap_eq_Inr by (auto simp: list_all2_conv_all_nth)
qed

section \<open>Slots\<close>

text \<open>The runner after \<open>set_block_size\<close>, without a sliding window.\<close>

definition runner_ok :: "nat \<Rightarrow> model_runner \<Rightarrow> bool" where
  "runner_ok bs r \<longleftrightarrow> 0 < bs \<and> mr_block_size r = bs \<and> mr_sliding_window r = None \<and>
     length (mr_graph_block_tables r) = max_captured_batch \<and>
     (\<forall>row \<in> set (mr_graph_block_tables r). length row = (mr_max_context_len_to_capture r + bs - 1) div bs) \<and>
     (\<not> mr_enforce_eager r \<longrightarrow> (\<forall>n. 0 < n \<and> n \<le> max_captured_batch \<longrightarrow> get_graph_batch_size n \<in> set (mr_graph_runners r)))"

text \<open>A graph is recorded for every batch that the scheduler may form, as far as graphs go.\<close>

lemma graph_batch_captured:
  assumes "0 < n" and "n \<le> max_captured_batch"
  shows "get_graph_batch_size n \<in> set batch_sizes_to_capture"
proof (cases "n \<le> 4")
  case True
  then have "n = 1 \<or> n = 2 \<or> n = 3 \<or> n = 4" using assms(1) by linarith
  then show ?thesis by (auto simp: get_graph_batch_size_def batch_sizes_to_capture_def)
next
  case False
  have "1 \<le> (n + 7) div 8" using False by simp
  moreover have "(n + 7) div 8 < 33" using assms(2) by (simp add: max_captured_batch_def)
  ultimately have "(n + 7) div 8 * 8 \<in> (\<lambda>i. 8 * i) ` set [1..<33]" by (intro image_eqI [of _ _ "(n + 7) div 8"]) auto
  then show ?thesis using False by (simp add: get_graph_batch_size_def batch_sizes_to_capture_def)
qed

lemma graph_batch_mono: "n \<le> k \<Longrightarrow> get_graph_batch_size n \<le> get_graph_batch_size k"
  using div_le_mono [of "n + 7" "k + 7" 8] by (auto simp: get_graph_batch_size_def)

lemma capture_model_covers:
  assumes "capture_model max_seqs r = Inr r'" and "0 < n" and "n \<le> max_captured_batch" and "n \<le> max_seqs"
  shows "get_graph_batch_size n \<in> set (mr_graph_runners r')"
  using assms graph_batch_captured [OF assms(2,3)] graph_batch_mono [OF assms(4)]
  by (auto simp: capture_model_def batch_size_capture_list_def)

lemma start_runner_ok:
  assumes "0 < bs" and "mr_sliding_window r = None" and "max_captured_batch \<le> max_seqs"
  shows "\<exists>r1. set_block_size bs r = Inr r1 \<and> (if mr_enforce_eager r then runner_ok bs r1
    else \<exists>r2. capture_model max_seqs r1 = Inr r2 \<and> runner_ok bs r2)"
proof -
  obtain r1 where r1: "set_block_size bs r = Inr r1" "mr_block_size r1 = bs" "mr_sliding_window r1 = None"
    "mr_enforce_eager r1 = mr_enforce_eager r" "length (mr_graph_block_tables r1) = max_captured_batch"
    "\<forall>row \<in> set (mr_graph_block_tables r1). length row = (mr_max_context_len_to_capture r1 + bs - 1) div bs"
    using assms(1,2) by (auto simp: set_block_size_def Let_def)
  have "\<exists>r2. capture_model max_seqs r1 = Inr r2 \<and> runner_ok bs r2" if eager: "\<not> mr_enforce_eager r"
  proof -
    obtain r2 where r2: "capture_model max_seqs r1 = Inr r2" using eager r1(4) by (simp add: capture_model_def)
    then obtain gr where gr: "r2 = r1\<lparr>mr_graph_runners := gr\<rparr>" by (auto simp: capture_model_def)
    have "get_graph_batch_size n \<in> set gr" if "0 < n" "n \<le> max_captured_batch" for n
      using capture_model_covers [OF r2 that] that(2) assms(3) gr by simp
    then have "runner_ok bs r2" using r1 assms(1) by (simp add: runner_ok_def gr)
    then show ?thesis using r2 by blast
  qed
  moreover have "runner_ok bs r1" if "mr_enforce_eager r" using that r1 assms(1) by (simp add: runner_ok_def)
  ultimately show ?thesis using r1(1) by auto
qed

lemma ceiling_last:
  assumes "0 < bs" and "0 < n"
  shows "(n + bs - 1) div bs = Suc ((n - 1) div (bs :: nat))"
proof -
  have "n + bs - 1 = n - 1 + bs" using assms(2) by simp
  moreover have "(n - 1 + bs) div bs = Suc ((n - 1) div bs)" using assms(1) by (metis div_add_self2 Suc_eq_plus1 less_irrefl)
  ultimately show ?thesis by (simp only:)
qed

lemma slot_of_any:
  assumes "0 < bs" and "i < n" and "length t = (n + bs - 1) div bs"
  shows "slot_of bs (map blk_number t) i = Inr (int (blk_number (t ! (i div bs)) * bs + i mod bs))"
proof -
  have "length t = Suc ((n - 1) div bs)" using ceiling_last [OF assms(1), of n] assms(2,3) by simp
  moreover have "i div bs \<le> (n - 1) div bs" using assms(2) by (intro div_le_mono) simp
  ultimately have "i div bs < length t" by simp
  then show ?thesis using assms(1) by (simp add: slot_of_def py_index_of_nat)
qed

lemma slot_of_last:
  assumes "0 < bs" and "0 < n" and "length t = (n + bs - 1) div bs"
  shows "slot_of bs (map blk_number t) (n - 1) = Inr (int (blk_number (last t) * bs + (n - 1) mod bs))"
proof -
  have "length t = Suc ((n - 1) div bs)" using ceiling_last [OF assms(1,2)] assms(3) by simp
  then have "t ! ((n - 1) div bs) = last t" by (metis diff_Suc_1 last_conv_nth list.size(3) nat.distinct(1))
  then show ?thesis using slot_of_any [OF assms(1) _ assms(3), of "n - 1"] assms(2) by simp
qed

section \<open>Decoding\<close>

text \<open>The row of a running group: its last token, and the slot of that token.\<close>

definition decodes :: "nat \<Rightarrow> block_manager \<Rightarrow> sequence_group \<Rightarrow> decode_inputs \<Rightarrow> bool" where
  "decodes bs bm g d \<longleftrightarrow> (\<exists>q t. single RUNNING g q \<and> map_of (block_tables bm) (seq_id q) = Some t \<and> t \<noteq> [] \<and>
     blk_device (last t) = GPU \<and> dr_token d = last (seq_get_token_ids q) \<and> dr_position d = seq_get_len q - 1 \<and>
     dr_slot d = int (blk_number (last t) * bs + (seq_get_len q - 1) mod bs) \<and>
     dr_context_len d = seq_get_len q \<and> length (dr_block_table d) = (seq_get_len q + bs - 1) div bs)"

lemma decode_rows_of:
  assumes "runner_ok bs r" and "describes False bs bm g m"
  shows "\<exists>d. decode_rows r m = Inr [d] \<and> decodes bs bm g d"
proof -
  obtain q t where m: "m = md_of False g q t" "single RUNNING g q" "map_of (block_tables bm) (seq_id q) = Some t"
    "0 < seq_get_len q" "length t = (seq_get_len q + bs - 1) div bs" "blk_device (last t) = GPU"
    using assms(2) by (auto simp: describes_def)
  have r: "0 < bs" "mr_block_size r = bs" "mr_sliding_window r = None" using assms(1) by (simp_all add: runner_ok_def)
  have ne: "t \<noteq> []" using m(5) ceiling_last [OF r(1) m(4)] by auto
  have len: "data_get_len (seq_data q) = seq_get_len q" by (simp add: seq_get_len_def)
  have "seq_get_token_ids q \<noteq> []" using m(4) by (auto simp: seq_get_len_def data_get_len_eq seq_get_token_ids_def)
  then have "data_get_last_token_id (seq_data q) = Inr (last (seq_get_token_ids q))"
    by (simp add: data_get_last_token_id_eq py_last_def seq_get_token_ids_def)
  then show ?thesis
    using m(2,3,5,6) ne r slot_of_last [OF r(1) m(4,5)] unfolding m(1) decodes_def
    by (simp add: decode_rows_def decode_row_def md_of_def dict_get_def len Let_def) blast
qed

lemma decode_all_rows:
  assumes "runner_ok bs r" and "list_all2 (describes False bs bm) gs mds"
  shows "\<exists>ds. emap (decode_rows r) mds = Inr (map (\<lambda>d. [d]) ds) \<and> list_all2 (decodes bs bm) gs ds"
  using assms(2)
proof (induction rule: list_all2_induct)
  case Nil
  then show ?case by simp
next
  case (Cons g gs m mds)
  obtain d ds where "decode_rows r m = Inr [d]" "decodes bs bm g d" "emap (decode_rows r) mds = Inr (map (\<lambda>d. [d]) ds)"
    "list_all2 (decodes bs bm) gs ds" using decode_rows_of [OF assms(1) Cons.hyps(1)] Cons.IH by blast
  then show ?case by (intro exI [of _ "d # ds"]) simp
qed

lemma write_graph_tables_ok:
  assumes "\<forall>row \<in> set graph. length row = n" and "\<forall>t \<in> set tables. length t \<le> n" and "length tables \<le> length graph"
  shows "\<exists>graph'. write_graph_tables graph tables = Inr graph' \<and> length graph' = length graph \<and> (\<forall>row \<in> set graph'. length row = n)"
proof -
  let ?w = "\<lambda>(row, t). t @ drop (length t) row"
  have fit: "length row = n \<and> length t \<le> n" if "(row, t) \<in> set (zip graph tables)" for row t
    using set_zip_leftD [OF that] set_zip_rightD [OF that] assms(1,2) by blast
  then have "write_row row t = Inr (?w (row, t))" if "(row, t) \<in> set (zip graph tables)" for row t
    using that by (fastforce simp: write_row_def)
  then have "emap (\<lambda>(row, t). write_row row t) (zip graph tables) = Inr (map ?w (zip graph tables))"
    by (intro emap_map) auto
  moreover have "length (?w p) = n" if "p \<in> set (zip graph tables)" for p
    using fit [of "fst p" "snd p"] that by (simp add: case_prod_unfold)
  ultimately show ?thesis
    using assms(1,3) by (intro exI [of _ "map ?w (zip graph tables) @ drop (length tables) graph"])
      (auto simp: write_graph_tables_def dest: in_set_dropD)
qed

lemma graph_batch_bounds: "n \<le> get_graph_batch_size n" "n \<le> max_captured_batch \<Longrightarrow> get_graph_batch_size n \<le> max_captured_batch"
  by (auto simp: get_graph_batch_size_def max_captured_batch_def)

lemma pad_column: "make_tensor_with_pad (map (\<lambda>d. [f d]) ds @ replicate k []) 1 p = Inr (map (\<lambda>d. [f d]) ds @ replicate k [p])"
proof -
  have "make_tensor_with_pad (map (\<lambda>d. [f d]) ds @ replicate k []) 1 p =
      Inr (map (\<lambda>x. x @ py_repeat p (1 - int (length x))) (map (\<lambda>d. [f d]) ds @ replicate k []))"
    by (rule make_tensor_ok) auto
  then show ?thesis by (simp add: py_repeat_def o_def)
qed

lemma prepare_decode_ok:
  assumes "runner_ok bs r" and "list_all2 (describes False bs bm) gs mds" and "gs \<noteq> []"
  shows "\<exists>i r' ds k. prepare_decode r mds = Inr (i, r') \<and> runner_ok bs r' \<and> list_all2 (decodes bs bm) gs ds \<and>
    mi_tokens i = map (\<lambda>d. [dr_token d]) ds @ replicate k [0] \<and> mi_positions i = map (\<lambda>d. [dr_position d]) ds @ replicate k [0] \<and>
    im_slot_mapping (mi_metadata i) = map (\<lambda>d. [dr_slot d]) ds @ replicate k [pad_slot_id] \<and>
    mi_prompt_lens i = [] \<and> mi_subquery_lens i = None \<and>
    (im_use_cuda_graph (mi_metadata i) \<longrightarrow> length (mi_tokens i) \<in> set (mr_graph_runners r'))"
proof -
  obtain ds where ds: "emap (decode_rows r) mds = Inr (map (\<lambda>d. [d]) ds)" "list_all2 (decodes bs bm) gs ds"
    using decode_all_rows [OF assms(1,2)] by blast
  have ne: "mds \<noteq> []" "ds \<noteq> []" using assms(2,3) ds(2) by auto
  have r: "0 < bs" "length (mr_graph_block_tables r) = max_captured_batch"
    "\<forall>row \<in> set (mr_graph_block_tables r). length row = (mr_max_context_len_to_capture r + bs - 1) div bs"
    using assms(1) by (simp_all add: runner_ok_def)
  let ?m = "Max (set (map (\<lambda>d. int (dr_context_len d)) ds))"
  let ?g = "\<not> mr_enforce_eager r \<and> length ds \<le> max_captured_batch \<and> ?m \<le> int (mr_max_context_len_to_capture r)"
  let ?k = "if ?g then get_graph_batch_size (length ds) - length ds else 0"
  let ?tabs = "map dr_block_table ds @ replicate ?k []"
  have max: "py_max (map (\<lambda>d. int (dr_context_len d)) ds) = Inr ?m" by (rule py_max_ok) (use ne in simp)
  have tabs: "\<exists>bt r'. (if ?g then
        ebind (write_graph_tables (mr_graph_block_tables r) ?tabs) (\<lambda>graph.
          Inr (take (length ds + ?k) graph, r\<lparr>mr_graph_block_tables := graph\<rparr>))
      else ebind (py_max (map (\<lambda>t. int (length t)) ?tabs)) (\<lambda>max_table.
        ebind (make_tensor_with_pad ?tabs max_table 0) (\<lambda>t. Inr (t, r)))) = Inr (bt, r') \<and> runner_ok bs r' \<and> mr_graph_runners r' = mr_graph_runners r"
  proof (cases ?g)
    case True
    have "length (dr_block_table d) \<le> (mr_max_context_len_to_capture r + bs - 1) div bs" if "d \<in> set ds" for d
    proof -
      have "int (dr_context_len d) \<le> ?m" using that by (intro Max_ge) auto
      then have "dr_context_len d \<le> mr_max_context_len_to_capture r" using True by linarith
      moreover have "length (dr_block_table d) = (dr_context_len d + bs - 1) div bs"
        using list_all2_partner [OF ds(2) that] by (auto simp: decodes_def)
      ultimately show ?thesis by (simp add: div_le_mono)
    qed
    then have "\<forall>t \<in> set ?tabs. length t \<le> (mr_max_context_len_to_capture r + bs - 1) div bs" by auto
    moreover have "length ?tabs \<le> length (mr_graph_block_tables r)"
      using True r(2) graph_batch_bounds [of "length ds"] by simp
    ultimately obtain graph' where "write_graph_tables (mr_graph_block_tables r) ?tabs = Inr graph'"
      "length graph' = length (mr_graph_block_tables r)" "\<forall>row \<in> set graph'. length row = (mr_max_context_len_to_capture r + bs - 1) div bs"
      using write_graph_tables_ok [OF r(3)] by blast
    then show ?thesis using True assms(1) by (simp add: runner_ok_def)
  next
    case False
    have "?tabs \<noteq> []" using ne by simp
    then have "py_max (map (\<lambda>t. int (length t)) ?tabs) = Inr (Max (set (map (\<lambda>t. int (length t)) ?tabs)))"
      by (intro py_max_ok) simp
    moreover have "\<forall>t \<in> set ?tabs. int (length t) \<le> Max (set (map (\<lambda>t. int (length t)) ?tabs))" by (auto intro: Max_ge)
    ultimately show ?thesis using False assms(1) by (auto simp: make_tensor_ok simp del: set_map map_append)
  qed
  then obtain bt r' where bt: "(if ?g then
        ebind (write_graph_tables (mr_graph_block_tables r) ?tabs) (\<lambda>graph.
          Inr (take (length ds + ?k) graph, r\<lparr>mr_graph_block_tables := graph\<rparr>))
      else ebind (py_max (map (\<lambda>t. int (length t)) ?tabs)) (\<lambda>max_table.
        ebind (make_tensor_with_pad ?tabs max_table 0) (\<lambda>t. Inr (t, r)))) = Inr (bt, r')" "runner_ok bs r'"
    "mr_graph_runners r' = mr_graph_runners r" by blast
  have lora: "emap (pad_to_max 1 0) (map (\<lambda>d. [dr_lora_id d]) ds) = Inr (map (\<lambda>d. [dr_lora_id d]) ds)"
    unfolding emap_map_comp by (rule emap_map) (simp add: pad_to_max_def py_repeat_def)
  have cc: "concat (map (\<lambda>d. [d]) ds) = ds" by (induction ds) simp_all
  have run: "length ds + ?k \<in> set (mr_graph_runners r')" if ?g
  proof -
    have "length ds + ?k = get_graph_batch_size (length ds)" using that graph_batch_bounds(1) [of "length ds"] by simp
    moreover have "get_graph_batch_size (length ds) \<in> set (mr_graph_runners r)"
      using that ne(2) assms(1) unfolding runner_ok_def by simp
    ultimately show ?thesis using bt(3) by simp
  qed
  have "\<exists>i. prepare_decode r mds = Inr (i, r') \<and> mi_tokens i = map (\<lambda>d. [dr_token d]) ds @ replicate ?k [0] \<and>
      mi_positions i = map (\<lambda>d. [dr_position d]) ds @ replicate ?k [0] \<and>
      im_slot_mapping (mi_metadata i) = map (\<lambda>d. [dr_slot d]) ds @ replicate ?k [pad_slot_id] \<and>
      mi_prompt_lens i = [] \<and> mi_subquery_lens i = None \<and>
      (im_use_cuda_graph (mi_metadata i) \<longrightarrow> length (mi_tokens i) \<in> set (mr_graph_runners r'))"
    unfolding prepare_decode_def ds(1) ebind_simps Let_def cc max pad_column bt(1) split_conv lora
    using ne(1) graph_batch_bounds(1) [of "length ds"] run by simp
  then show ?thesis using bt(2) ds(2) by blast
qed

end
