(* ===== verification/Sampler_Props.thy ===== *)
theory Sampler_Props
  imports Sampler Model_Inputs_Props
begin

text \<open>
  Sampling for groups of one sequence that want one token: the sampler never raises, and every group gets one
  token of the vocabulary with its log probability. What is asked of torch is \<open>ops_ok\<close>.
\<close>

section \<open>Choosing one token for each group\<close>

text \<open>What torch guarantees for rows over a vocabulary of \<open>V\<close> tokens: choices within the row, as many as asked for.\<close>

definition ops_ok :: "nat \<Rightarrow> torch_ops \<Rightarrow> bool" where
  "ops_ok V ops \<longleftrightarrow> (\<forall>row. length row = V \<longrightarrow> t_argmax ops row < V) \<and>
     (\<forall>row k. k \<le> length row \<longrightarrow> length (t_topk ops row k) = k \<and> (\<forall>(x, i) \<in> set (t_topk ops row k). i < length row)) \<and>
     (\<forall>rows n. (\<forall>row \<in> set rows. length row = V) \<longrightarrow> length (t_multinomial ops rows n) = length rows \<and>
        (\<forall>r \<in> set (t_multinomial ops rows n). length r = n \<and> (\<forall>t \<in> set r. t < V)))"

lemma ops_multinomial:
  assumes "ops_ok V ops" and "\<forall>row \<in> set rows. length row = V"
  shows "length (t_multinomial ops rows n) = length rows"
    and "\<forall>r \<in> set (t_multinomial ops rows n). length r = n \<and> (\<forall>t \<in> set r. t < V)"
  using assms unfolding ops_ok_def by blast+

lemma ops_topk:
  assumes "ops_ok V ops" and "k \<le> length row"
  shows "length (t_topk ops row k) = k" and "(x, i) \<in> set (t_topk ops row k) \<Longrightarrow> i < length row"
  using assms unfolding ops_ok_def by blast+

definition one_token :: "nat \<Rightarrow> sample_result \<Rightarrow> bool" where
  "one_token V res \<longleftrightarrow> (\<exists>t < V. res = ([int t], [0]))"

lemma greedy_sample_ok:
  assumes "\<forall>g \<in> set groups. length (fst g) = 1" and "length samples = length groups" and "\<forall>t \<in> set samples. t < V"
  shows "\<exists>rs. greedy_sample groups samples = Inr rs \<and> length rs = length groups \<and> list_all (one_token V) rs"
proof -
  let ?f = "\<lambda>(seq_ids, sp) (sample_idx, results).
         ebind (py_assert (length seq_ids = 1)) (\<lambda>_.
         ebind (py_index samples (int sample_idx)) (\<lambda>t. Inr (sample_idx + length seq_ids, results @ [([int t], [0..<length seq_ids])])))"
  have "\<exists>rs. efold ?f groups (k, acc) = Inr (k + length groups, acc @ rs) \<and> length rs = length groups \<and> list_all (one_token V) rs"
    if "k + length groups \<le> length samples" for k acc
    using that assms(1)
  proof (induction groups arbitrary: k acc)
    case Nil
    then show ?case by simp
  next
    case (Cons g groups)
    obtain s sp where g: "g = ([s], sp)" using Cons.prems(2) by (cases g) (auto simp: length_Suc_conv)
    have k: "k < length samples" using Cons.prems(1) by simp
    obtain rs where rs: "efold ?f groups (Suc k, acc @ [([int (samples ! k)], [0])]) = Inr (Suc k + length groups, (acc @ [([int (samples ! k)], [0])]) @ rs)"
      "length rs = length groups" "list_all (one_token V) rs"
      using Cons.IH [of "Suc k" "acc @ [([int (samples ! k)], [0])]"] Cons.prems by auto
    have "one_token V ([int (samples ! k)], [0])" using assms(3) k by (auto simp: one_token_def)
    then show ?case using rs k by (intro exI [of _ "([int (samples ! k)], [0]) # rs"]) (simp add: g py_index_of_nat)
  qed
  from this [of 0 "[]"] show ?thesis using assms(2) by (auto simp: greedy_sample_def)
qed

definition wants_one :: "seq_group_ids \<Rightarrow> bool" where
  "wants_one g \<longleftrightarrow> length (fst g) = 1 \<and> best_of (snd g) = 1 \<and> \<not> use_beam_search (snd g)"

lemma random_sample_ok:
  assumes "\<forall>g \<in> set groups. wants_one (fst g)" and "length samples = length groups"
    and "\<forall>r \<in> set samples. length r = 1 \<and> (\<forall>t \<in> set r. t < V)"
  shows "\<exists>rs. random_sample groups samples = Inr rs \<and> length rs = length groups \<and> list_all (one_token V) rs"
proof -
  let ?f = "\<lambda>((seq_ids, sp), is_prompt) (sample_idx, results).
         let n = length seq_ids in
         if is_prompt then
           ebind (py_index samples (int sample_idx)) (\<lambda>row.
             Inr (sample_idx + n, results @ [(map int (slice_to (best_of sp) row), py_repeat 0 (best_of sp))]))
         else
           ebind (emap (\<lambda>row. py_index row 0) (take n (drop sample_idx samples))) (\<lambda>ts.
             Inr (sample_idx + n, results @ [(map int ts, [0..<n])]))"
  have "\<exists>rs. efold ?f groups (k, acc) = Inr (k + length groups, acc @ rs) \<and> length rs = length groups \<and> list_all (one_token V) rs"
    if "k + length groups \<le> length samples" for k acc
    using that assms(1)
  proof (induction groups arbitrary: k acc)
    case Nil
    then show ?case by simp
  next
    case (Cons g groups)
    obtain s sp p where g: "g = (([s], sp), p)" "best_of sp = 1" using Cons.prems(2) by (cases g) (auto simp: wants_one_def length_Suc_conv)
    have k: "k < length samples" using Cons.prems(1) by simp
    have row: "length (samples ! k) = 1" "\<forall>t \<in> set (samples ! k). t < V" using assms(3) nth_mem [OF k] by auto
    obtain t where t: "samples ! k = [t]" "t < V" using row by (cases "samples ! k") auto
    obtain rs where rs: "efold ?f groups (Suc k, acc @ [([int t], [0])]) = Inr (Suc k + length groups, (acc @ [([int t], [0])]) @ rs)"
      "length rs = length groups" "list_all (one_token V) rs"
      using Cons.IH [of "Suc k" "acc @ [([int t], [0])]"] Cons.prems by auto
    have "take 1 (drop k samples) = [[t]]" using k t(1) by (simp add: take_Suc_conv_app_nth hd_drop_conv_nth take_Suc)
    then have "?f g (k, acc) = Inr (Suc k, acc @ [([int t], [0])])"
      using k t(1) g(2) by (cases p) (simp_all add: g(1) py_index_of_nat slice_to_def py_repeat_def)
    moreover have "one_token V ([int t], [0])" using t(2) by (auto simp: one_token_def)
    ultimately show ?case using rs by (intro exI [of _ "([int t], [0]) # rs"]) (simp only: efold.simps ebind_simps, simp)
  qed
  from this [of 0 "[]"] show ?thesis using assms(2) by (auto simp: random_sample_def)
qed

section \<open>Dictionaries of results\<close>

lemma dict_set_subset: "set (dict_set k v d) \<subseteq> insert (k, v) (set d)"
  by (induction d) auto

lemma dict_update_subset: "set (dict_update d e) \<subseteq> set d \<union> set e"
proof (induction e arbitrary: d)
  case Nil
  then show ?case by (simp add: dict_update_def)
next
  case (Cons x e)
  obtain k v where x: "x = (k, v)" by force
  have "dict_update d (x # e) = dict_update (dict_set k v d) e" by (simp add: dict_update_def x)
  then show ?case using Cons.IH [of "dict_set k v d"] dict_set_subset [of k v d] x by auto
qed

lemma dict_update_keys: "fst ` set (dict_update d e) = fst ` set d \<union> fst ` set e"
proof (induction e arbitrary: d)
  case Nil
  then show ?case by (simp add: dict_update_def)
next
  case (Cons x e)
  obtain k v where x: "x = (k, v)" by force
  have "dict_update d (x # e) = dict_update (dict_set k v d) e" by (simp add: dict_update_def x)
  then show ?case using Cons.IH [of "dict_set k v d"] x by auto
qed

lemma select_rows_ok:
  assumes "\<forall>i \<in> set is. 0 \<le> i \<and> i < int (length rows)"
  shows "select_rows rows is = Inr (map (\<lambda>i. rows ! nat i) is)"
  unfolding select_rows_def by (rule emap_map) (use assms in \<open>auto simp: py_index_def\<close>)

section \<open>Sampling all groups\<close>

text \<open>
  Groups of one sequence that want one token, without beam search; for each sampling type the rows of its groups.
\<close>

definition sm_ok :: "nat \<Rightarrow> sampling_metadata \<Rightarrow> bool" where
  "sm_ok R sm \<longleftrightarrow>
     (\<forall>g \<in> set (sm_seq_groups sm). wants_one g) \<and>
     (\<forall>ty. \<exists>is. map_of (sm_categorized_sample_indices sm) ty = Some is \<and>
        length is = length (groups_of_type sm ty) \<and> (\<forall>i \<in> set is. 0 \<le> i \<and> i < int R))"

lemma max_best_of_one:
  assumes "\<forall>g \<in> set groups. wants_one (fst g)"
  shows "max_best_of groups = 1"
proof -
  have "fold (\<lambda>((_, sp), is_prompt) m. if is_prompt then max m (best_of sp) else m) groups (1 :: int) = 1"
    using assms by (induction groups) (auto simp: wants_one_def)
  then show ?thesis by (simp add: max_best_of_def)
qed

lemma enumerate_member: "(i, x) \<in> set (enumerate 0 xs) \<Longrightarrow> x \<in> set xs"
  by (auto simp: enumerate_eq_zip dest: set_zip_rightD)

lemma groups_of_type_sub:
  assumes "x \<in> set (map snd (groups_of_type sm ty))"
  shows "fst x \<in> set (sm_seq_groups sm)" and "get_sampling_type (snd (fst x)) = ty"
  using assms by (auto simp: groups_of_type_def dest: enumerate_member)

lemma sample_type_ok:
  assumes "ops_ok V ops" and "sm_ok R sm" and "\<forall>row \<in> set probs \<union> set lps. length row = V"
    and "length probs = R" and "length lps = R"
  shows "\<exists>rs. sample_type ops probs lps sm ty results = Inr (dict_update results (zip (map fst (groups_of_type sm ty)) rs)) \<and>
    length rs = length (groups_of_type sm ty) \<and> list_all (one_token V) rs"
proof -
  let ?gs = "groups_of_type sm ty"
  obtain "is" where sel: "map_of (sm_categorized_sample_indices sm) ty = Some is" "length is = length ?gs"
    "\<forall>i \<in> set is. 0 \<le> i \<and> i < int R" using assms(2) unfolding sm_ok_def by blast
  have one: "\<forall>g \<in> set (map snd ?gs). wants_one (fst g)"
    using groups_of_type_sub(1) [of _ sm ty] assms(2) unfolding sm_ok_def by blast
  show ?thesis
  proof (cases "is = []")
    case True
    then show ?thesis using sel by (simp add: sample_type_def dict_get_def dict_update_def)
  next
    case False
    have rows: "select_rows lps is = Inr (map (\<lambda>i. lps ! nat i) is)" "select_rows probs is = Inr (map (\<lambda>i. probs ! nat i) is)"
      using sel(3) assms(4,5) by (simp_all add: select_rows_ok)
    have len: "\<forall>row \<in> set (map (\<lambda>i. lps ! nat i) is). length row = V" "\<forall>row \<in> set (map (\<lambda>i. probs ! nat i) is). length row = V"
      using sel(3) assms(3-5) by (auto simp: nat_less_iff)
    show ?thesis
    proof (cases ty)
      case GREEDY
      have "\<exists>rs. greedy_sample (map fst (map snd ?gs)) (map (t_argmax ops) (map (\<lambda>i. lps ! nat i) is)) = Inr rs \<and>
          length rs = length (map fst (map snd ?gs)) \<and> list_all (one_token V) rs"
        by (rule greedy_sample_ok) (use one sel(2) len(1) assms(1) in \<open>auto simp: ops_ok_def wants_one_def\<close>)
      then show ?thesis using sel(1) False rows(1) unfolding GREEDY by (auto simp: sample_type_def dict_get_def Let_def)
    next
      case RANDOM
      have mb: "max_best_of (map snd ?gs) = 1" by (rule max_best_of_one [OF one])
      have "\<exists>rs. random_sample (map snd ?gs) (t_multinomial ops (map (\<lambda>i. probs ! nat i) is) (nat 1)) = Inr rs \<and>
          length rs = length (map snd ?gs) \<and> list_all (one_token V) rs"
        by (rule random_sample_ok) (use one sel(2) ops_multinomial [OF assms(1) len(2), of "nat 1"] in simp_all)
      then show ?thesis using sel(1) False rows(2) mb unfolding RANDOM by (auto simp: sample_type_def dict_get_def Let_def)
    next
      case BEAM
      have "False" if "x \<in> set (map snd ?gs)" for x
        using one groups_of_type_sub(2) [OF that] that BEAM by (auto simp: wants_one_def get_sampling_type_def split: if_splits)
      then have "set (map snd ?gs) = {}" by (rule equals0I)
      then have "?gs = []" by simp
      then show ?thesis using sel(2) False by simp
    qed
  qed
qed

lemma sample_ok:
  assumes "ops_ok V ops" and "sm_ok R sm" and "\<forall>row \<in> set probs \<union> set lps. length row = V"
    and "length probs = R" and "length lps = R"
  shows "\<exists>rs. sample ops probs lps sm = Inr rs \<and> length rs = length (sm_seq_groups sm) \<and> list_all (one_token V) rs"
proof -
  let ?k = "\<lambda>ty. map fst (groups_of_type sm ty)"
  let ?good = "\<lambda>d. \<forall>(k, r) \<in> set d. one_token V r"
  have step: "\<exists>d'. sample_type ops probs lps sm ty d = Inr d' \<and> ?good d' \<and> fst ` set d' = fst ` set d \<union> set (?k ty)"
    if "?good d" for ty d
  proof -
    obtain rs where rs: "sample_type ops probs lps sm ty d = Inr (dict_update d (zip (?k ty) rs))"
      "length rs = length (?k ty)" "list_all (one_token V) rs" using sample_type_ok [OF assms, of ty d] by auto
    have "?good (dict_update d (zip (?k ty) rs))"
      using that rs(3) dict_update_subset [of d "zip (?k ty) rs"] by (fastforce simp: list_all_iff dest: set_zip_rightD)
    moreover have "fst ` set (zip (?k ty) rs) = set (?k ty)"
      using rs(2) by (metis map_fst_zip set_map)
    ultimately show ?thesis using rs(1) by (simp add: dict_update_keys)
  qed
  obtain d1 where d1: "sample_type ops probs lps sm GREEDY [] = Inr d1" "?good d1" "fst ` set d1 = set (?k GREEDY)"
    using step [of "[]" GREEDY] by auto
  obtain d2 where d2: "sample_type ops probs lps sm RANDOM d1 = Inr d2" "?good d2" "fst ` set d2 = set (?k GREEDY) \<union> set (?k RANDOM)"
    using step [OF d1(2), of RANDOM] d1(3) by auto
  obtain d3 where d3: "sample_type ops probs lps sm BEAM d2 = Inr d3" "?good d3"
    "fst ` set d3 = set (?k GREEDY) \<union> set (?k RANDOM) \<union> set (?k BEAM)" using step [OF d2(2), of BEAM] d2(3) by auto
  have "\<exists>r. dict_get d3 i = Inr r \<and> one_token V r" if "i < length (sm_seq_groups sm)" for i
  proof -
    have "i \<in> set (?k (get_sampling_type (snd (sm_seq_groups sm ! i))))"
      using that by (force simp: groups_of_type_def in_set_enumerate_eq image_iff)
    then have "i \<in> fst ` set d3" unfolding d3(3) by (cases "get_sampling_type (snd (sm_seq_groups sm ! i))") auto
    then obtain r where "map_of d3 i = Some r" by (metis map_of_eq_None_iff option.exhaust)
    then show ?thesis using d3(2) map_of_SomeD by fastforce
  qed
  then obtain f where f: "\<forall>i < length (sm_seq_groups sm). dict_get d3 i = Inr (f i) \<and> one_token V (f i)" by metis
  have "emap (dict_get d3) [0..<length (sm_seq_groups sm)] = Inr (map f [0..<length (sm_seq_groups sm)])"
    by (rule emap_map) (use f in auto)
  then show ?thesis using f d1(1) d2(1) d3(1) by (intro exI [of _ "map f [0..<length (sm_seq_groups sm)]"])
    (simp add: sample_def list_all_iff)
qed

end
