(* ===== verification/Prompt_Props.thy ===== *)
theory Prompt_Props
  imports Model_Inputs_Props
begin

text \<open>
  The inputs of a prompt run, and the positions that sampling reads.
\<close>

section \<open>Prompts\<close>

text \<open>The row of a group whose prompt runs: all its tokens, each with the slot that the block table gives it.\<close>

definition prompts :: "nat \<Rightarrow> block_manager \<Rightarrow> sequence_group \<Rightarrow> prompt_inputs \<Rightarrow> bool" where
  "prompts bs bm g p \<longleftrightarrow> (\<exists>q t. single RUNNING g q \<and> map_of (block_tables bm) (seq_id q) = Some t \<and> 0 < seq_get_len q \<and>
     pr_tokens p = seq_get_token_ids q \<and> pr_positions p = [0..<seq_get_len q] \<and>
     pr_slots p = map (\<lambda>i. int (blk_number (t ! (i div bs)) * bs + i mod bs)) [0..<seq_get_len q] \<and>
     pr_prompt_len p = seq_get_len q \<and> pr_subquery_len p = int (seq_get_len q) \<and> pr_prefix_blocks p = [] \<and>
     length (pr_lora_index p) = seq_get_len q)"

lemma prompt_row_of:
  assumes "runner_ok bs r" and "describes True bs bm g m" and "sg_prefix g = None"
  shows "\<exists>p. prompt_row r heap m = Inr p \<and> prompts bs bm g p"
proof -
  obtain q t where m: "m = md_of True g q t" "single RUNNING g q" "map_of (block_tables bm) (seq_id q) = Some t"
    "0 < seq_get_len q" "length t = (seq_get_len q + bs - 1) div bs" using assms(2) by (auto simp: describes_def)
  have r: "0 < bs" "mr_block_size r = bs" "mr_sliding_window r = None" using assms(1) by (simp_all add: runner_ok_def)
  let ?n = "seq_get_len q"
  have ids: "data_get_token_ids (seq_data q) = seq_get_token_ids q" "length (seq_get_token_ids q) = ?n"
    by (simp_all add: seq_get_token_ids_def seq_get_len_def data_get_len_eq)
  have slots: "prompt_slots r (map blk_number t) 0 ?n = Inr (map (\<lambda>i. int (blk_number (t ! (i div bs)) * bs + i mod bs)) [0..<?n])"
    unfolding prompt_slots_def r(2,3) option.case ebind_simps
    by (rule emap_map) (use slot_of_any [OF r(1) _ m(5)] in auto)
  have cp: "computed_prefix heap m = Inr (0, [])" using assms(3) by (simp add: m(1) md_of_def computed_prefix_def)
  have os: "only_seq m = Inr (seq_id q, seq_data q)" by (simp add: m(1) md_of_def only_seq_def)
  have bt: "dict_get (md_block_tables m) (seq_id q) = Inr (map blk_number t)" "md_is_prompt m"
    by (simp_all add: m(1) md_of_def dict_get_def)
  have "\<exists>p. prompt_row r heap m = Inr p \<and> pr_tokens p = seq_get_token_ids q \<and> pr_positions p = [0..<?n] \<and>
     pr_slots p = map (\<lambda>i. int (blk_number (t ! (i div bs)) * bs + i mod bs)) [0..<?n] \<and>
     pr_prompt_len p = ?n \<and> pr_subquery_len p = int ?n \<and> pr_prefix_blocks p = [] \<and> length (pr_lora_index p) = ?n"
    using bt(2) by (simp add: prompt_row_def cp os bt(1) ids slots Let_def py_repeat_def)
  then show ?thesis using m(2-4) unfolding prompts_def by blast
qed

lemma prompt_all_rows:
  assumes "runner_ok bs r" and "list_all2 (describes True bs bm) gs mds" and "\<forall>g \<in> set gs. sg_prefix g = None"
  shows "\<exists>rows. emap (prompt_row r heap) mds = Inr rows \<and> list_all2 (prompts bs bm) gs rows"
  using assms(2,3)
proof (induction rule: list_all2_induct)
  case Nil
  then show ?case by simp
next
  case (Cons g gs m mds)
  obtain p where p: "prompt_row r heap m = Inr p" "prompts bs bm g p"
    using prompt_row_of [OF assms(1) Cons.hyps(1)] Cons.prems by auto
  obtain rows where "emap (prompt_row r heap) mds = Inr rows" "list_all2 (prompts bs bm) gs rows"
    using Cons.IH Cons.prems by auto
  then show ?case using p by (intro exI [of _ "p # rows"]) simp
qed

text \<open>Padding rows that are no longer than \<open>n\<close>.\<close>

definition padded :: "nat \<Rightarrow> 'a \<Rightarrow> 'a list \<Rightarrow> 'a list" where
  "padded n p x = x @ replicate (n - length x) p"

lemma pad_rows:
  assumes "\<forall>x \<in> set xs. length (f x) \<le> n"
  shows "make_tensor_with_pad (map f xs) (int n) p = Inr (map (\<lambda>x. padded n p (f x)) xs)"
    and "emap (pad_to_max (int n) p) (map f xs) = Inr (map (\<lambda>x. padded n p (f x)) xs)"
proof -
  show "make_tensor_with_pad (map f xs) (int n) p = Inr (map (\<lambda>x. padded n p (f x)) xs)"
    using assms by (subst make_tensor_ok) (auto simp: padded_def py_repeat_def nat_diff_distrib)
  then show "emap (pad_to_max (int n) p) (map f xs) = Inr (map (\<lambda>x. padded n p (f x)) xs)"
    by (simp add: make_tensor_with_pad_def)
qed

lemma length_padded: "length x \<le> n \<Longrightarrow> length (padded n p x) = n"
  by (simp add: padded_def)

lemma prepare_prompt_ok:
  assumes "runner_ok bs r" and "list_all2 (describes True bs bm) gs mds" and "\<forall>g \<in> set gs. sg_prefix g = None" and "gs \<noteq> []"
  shows "\<exists>i rows n. prepare_prompt r heap mds = Inr i \<and> list_all2 (prompts bs bm) gs rows \<and> 0 < n \<and>
    n \<in> pr_prompt_len ` set rows \<and> (\<forall>p \<in> set rows. pr_prompt_len p \<le> n) \<and>
    mi_tokens i = map (\<lambda>p. padded n 0 (pr_tokens p)) rows \<and> mi_positions i = map (\<lambda>p. padded n 0 (pr_positions p)) rows \<and>
    im_slot_mapping (mi_metadata i) = map (\<lambda>p. padded n pad_slot_id (pr_slots p)) rows \<and>
    mi_prompt_lens i = map pr_prompt_len rows \<and> mi_subquery_lens i = Some (map (int \<circ> pr_prompt_len) rows) \<and>
    \<not> im_use_cuda_graph (mi_metadata i)"
proof -
  obtain rows where rows: "emap (prompt_row r heap) mds = Inr rows" "list_all2 (prompts bs bm) gs rows"
    using prompt_all_rows [OF assms(1-3)] by blast
  have ne: "mds \<noteq> []" "rows \<noteq> []" using assms(2,4) rows(2) by auto
  let ?n = "Max (pr_prompt_len ` set rows)"
  have row: "length (pr_tokens p) = pr_prompt_len p \<and> length (pr_positions p) = pr_prompt_len p \<and> length (pr_slots p) = pr_prompt_len p \<and>
      length (pr_lora_index p) = pr_prompt_len p \<and> pr_subquery_len p = int (pr_prompt_len p) \<and> pr_prefix_blocks p = [] \<and> 0 < pr_prompt_len p"
    if "p \<in> set rows" for p
    using list_all2_partner [OF rows(2) that] by (auto simp: prompts_def seq_get_len_def data_get_len_eq seq_get_token_ids_def)
  have le: "pr_prompt_len p \<le> ?n" if "p \<in> set rows" for p using that by simp
  have mem: "?n \<in> pr_prompt_len ` set rows" using ne(2) by (intro Max_in) simp_all
  have pos: "0 < ?n" using mem row by auto
  have sub: "map pr_subquery_len rows = map (int \<circ> pr_prompt_len) rows" using row by simp
  have "set (map pr_subquery_len rows) = int ` (pr_prompt_len ` set rows)" unfolding sub by (simp add: image_comp)
  then have "Max (set (map pr_subquery_len rows)) = int ?n"
    using ne(2) by (simp add: mono_Max_commute [of int] monoI del: set_map)
  then have max: "py_max (map pr_subquery_len rows) = Inr (int ?n)" using py_max_ok [of "map pr_subquery_len rows"] ne(2) by simp
  have pb: "map pr_prefix_blocks rows = map (\<lambda>_. []) rows" "map (\<lambda>p. int (length (pr_prefix_blocks p))) rows = map (\<lambda>_. 0) rows"
    using row by simp_all
  have "py_max (map (\<lambda>_. 0) rows) = Inr (Max (set (map (\<lambda>_. 0) rows)))" using ne(2) by (intro py_max_ok) simp
  then have pmax: "py_max (map (\<lambda>_. 0) rows) = Inr 0" using ne(2) by (simp add: image_constant_conv)
  have tables: "make_tensor_with_pad (map (\<lambda>_. []) rows) 0 0 = Inr (map (\<lambda>_. [] :: nat list) rows)"
    by (subst make_tensor_ok) (simp_all add: py_repeat_def)
  have pads:
    "make_tensor_with_pad (map pr_tokens rows) (int ?n) 0 = Inr (map (\<lambda>p. padded ?n 0 (pr_tokens p)) rows)"
    "make_tensor_with_pad (map pr_positions rows) (int ?n) 0 = Inr (map (\<lambda>p. padded ?n 0 (pr_positions p)) rows)"
    "make_tensor_with_pad (map pr_slots rows) (int ?n) pad_slot_id = Inr (map (\<lambda>p. padded ?n pad_slot_id (pr_slots p)) rows)"
    "emap (pad_to_max (int ?n) 0) (map pr_lora_index rows) = Inr (map (\<lambda>p. padded ?n 0 (pr_lora_index p)) rows)"
    using row le by (intro pad_rows; metis)+
  have "\<exists>i. prepare_prompt r heap mds = Inr i \<and>
    mi_tokens i = map (\<lambda>p. padded ?n 0 (pr_tokens p)) rows \<and> mi_positions i = map (\<lambda>p. padded ?n 0 (pr_positions p)) rows \<and>
    im_slot_mapping (mi_metadata i) = map (\<lambda>p. padded ?n pad_slot_id (pr_slots p)) rows \<and>
    mi_prompt_lens i = map pr_prompt_len rows \<and> mi_subquery_lens i = Some (map (int \<circ> pr_prompt_len) rows) \<and>
    \<not> im_use_cuda_graph (mi_metadata i)"
    using ne(1) pos unfolding prepare_prompt_def rows(1) ebind_simps sub max [unfolded sub] pb pmax tables pads by simp
  then show ?thesis using rows(2) pos mem le by blast
qed

end
