(* ===== verification/Logprob_Props.thy ===== *)
theory Logprob_Props
  imports Sampler_Props Prompt_Props
begin

text \<open>
  The log probabilities that go with the sampled tokens: the queries of all groups are one row of the batch each,
  the indices never leave it, and every sampled token is a key of its dictionary.
\<close>

section \<open>What the groups ask for\<close>

text \<open>
  A group owns \<open>k\<close> consecutive rows of the batch: one for its next token, and with \<^verbatim>\<open>prompt_logprobs\<close> one for each
  token of its prompt.
\<close>

definition query_fits :: "nat \<Rightarrow> sampling_metadata \<Rightarrow> nat \<Rightarrow> seq_group_ids \<Rightarrow> nat \<Rightarrow> bool" where
  "query_fits V sm i g k \<longleftrightarrow> length (fst g) = 1 \<and> (\<forall>n. logprobs (snd g) = Some n \<longrightarrow> n \<le> int V) \<and>
     (case wants_prompt_logprobs sm i (snd g) of
        None \<Rightarrow> k = 1
      | Some n \<Rightarrow> n \<le> int V \<and> py_index (sm_prompt_lens sm) (int i) = Inr k \<and> 0 < k \<and>
          (\<exists>ts. prompt_tokens_of sm (fst g) = Inr ts \<and> length ts = k \<and> (\<forall>t \<in> set ts. 0 \<le> t \<and> t < int V)))"

definition most_wanted :: "sampling_metadata \<Rightarrow> nat \<Rightarrow> sampling_params \<Rightarrow> int" where
  "most_wanted sm i sp = max (case wants_prompt_logprobs sm i sp of None \<Rightarrow> 0 | Some n \<Rightarrow> n) (case logprobs sp of None \<Rightarrow> 0 | Some n \<Rightarrow> n)"

section \<open>Queries\<close>

definition query_ok :: "nat \<Rightarrow> logprob_query \<Rightarrow> bool" where
  "query_ok V q \<longleftrightarrow> length (lq_rows q) = lq_idx q \<and> length (lq_tokens q) = lq_idx q \<and> (\<forall>r \<in> set (lq_rows q). r < lq_idx q) \<and>
     (\<forall>t \<in> set (lq_tokens q). 0 \<le> t \<and> t < int V) \<and> 0 \<le> lq_largest q \<and> lq_largest q \<le> int V"

lemma query_group_ok:
  assumes "query_fits V sm i g k" and "one_token V res" and "query_ok V q"
  shows "\<exists>q'. query_group sm (i, g, res) q = Inr q' \<and> query_ok V q' \<and> lq_idx q' = lq_idx q + k \<and>
    lq_largest q \<le> lq_largest q' \<and> most_wanted sm i (snd g) \<le> lq_largest q'"
proof -
  obtain s sp where g: "g = ([s], sp)" using assms(1) by (cases g) (auto simp: query_fits_def length_Suc_conv)
  obtain t where t: "t < V" "res = ([int t], [0])" using assms(2) by (auto simp: one_token_def)
  have lp: "logprobs sp = Some n \<Longrightarrow> n \<le> int V" for n using assms(1) by (simp add: query_fits_def g)
  show ?thesis
  proof (cases "wants_prompt_logprobs sm i sp")
    case None
    then have "k = 1" using assms(1) by (simp add: query_fits_def g)
    then show ?thesis using None assms(3) t(1) lp
      by (auto simp: query_group_def g t(2) query_ok_def most_wanted_def less_Suc_eq split: option.splits)
  next
    case (Some n)
    obtain ts where ts: "py_index (sm_prompt_lens sm) (int i) = Inr k" "prompt_tokens_of sm [s] = Inr ts" "length ts = k"
      "\<forall>t \<in> set ts. 0 \<le> t \<and> t < int V" "0 < k" "n \<le> int V" using assms(1) Some by (auto simp: query_fits_def g)
    have "0 \<le> t \<and> t < int V" if "t \<in> set (drop 1 ts)" for t using ts(4) in_set_dropD [OF that] by blast
    then show ?thesis using Some assms(3) t(1) lp ts
      by (auto simp: query_group_def g t(2) query_ok_def most_wanted_def split: option.splits)
  qed
qed

text \<open>The groups, numbered from \<open>i\<close>, with their results and the numbers of their rows.\<close>

definition batch :: "nat \<Rightarrow> sampling_metadata \<Rightarrow> nat \<Rightarrow> (seq_group_ids \<times> sample_result) list \<Rightarrow> nat list \<Rightarrow> bool" where
  "batch V sm i grs ks \<longleftrightarrow> length grs = length ks \<and>
     (\<forall>j < length grs. query_fits V sm (i + j) (fst (grs ! j)) (ks ! j) \<and> one_token V (snd (grs ! j)))"

lemma batch_Nil [simp]: "batch V sm i [] ks \<longleftrightarrow> ks = []"
  by (auto simp: batch_def)

lemma batch_Cons:
  "batch V sm i ((g, res) # grs) ks \<longleftrightarrow> (\<exists>k ks'. ks = k # ks' \<and> query_fits V sm i g k \<and> one_token V res \<and> batch V sm (Suc i) grs ks')"
  by (cases ks) (auto simp: batch_def nth_Cons less_Suc_eq_0_disj split: nat.splits)

lemma query_groups_ok:
  assumes "batch V sm i grs ks" and "query_ok V q"
  shows "\<exists>q'. efold (query_group sm) (enumerate i grs) q = Inr q' \<and> query_ok V q' \<and> lq_idx q' = lq_idx q + sum_list ks \<and>
    lq_largest q \<le> lq_largest q' \<and> (\<forall>j < length grs. most_wanted sm (i + j) (snd (fst (grs ! j))) \<le> lq_largest q')"
  using assms
proof (induction grs arbitrary: i ks q)
  case Nil
  then show ?case by simp
next
  case (Cons a grs)
  obtain g res where a: "a = (g, res)" by (rule prod.exhaust)
  obtain k ks' where ks: "ks = k # ks'" "query_fits V sm i g k" "one_token V res" "batch V sm (Suc i) grs ks'"
    using Cons.prems(1) unfolding a batch_Cons by blast
  obtain q1 where q1: "query_group sm (i, g, res) q = Inr q1" "query_ok V q1" "lq_idx q1 = lq_idx q + k"
    "lq_largest q \<le> lq_largest q1" "most_wanted sm i (snd g) \<le> lq_largest q1" using query_group_ok [OF ks(2,3) Cons.prems(2)] by blast
  obtain q2 where q2: "efold (query_group sm) (enumerate (Suc i) grs) q1 = Inr q2" "query_ok V q2" "lq_idx q2 = lq_idx q1 + sum_list ks'"
    "lq_largest q1 \<le> lq_largest q2" "\<forall>j < length grs. most_wanted sm (Suc i + j) (snd (fst (grs ! j))) \<le> lq_largest q2"
    using Cons.IH [OF ks(4) q1(2)] by blast
  have "most_wanted sm (i + j) (snd (fst ((a # grs) ! j))) \<le> lq_largest q2" if "j < length (a # grs)" for j
    using that q1(5) q2(4,5) by (cases j) (auto simp: a)
  then show ?case using q1 q2 ks(1) by (auto simp: a)
qed

lemma query_logprobs_ok:
  assumes "query_ok V q" and "lq_idx q = length lps" and "\<forall>row \<in> set lps. length row = V"
  shows "\<exists>query. query_logprobs lps q = Inr query \<and> length query = length lps"
proof -
  let ?f = "\<lambda>(r, t). ebind (py_index lps (int r)) (\<lambda>row. py_index row t)"
  have "?f (r, t) = Inr (lps ! r ! nat t)" if "(r, t) \<in> set (zip (lq_rows q) (lq_tokens q))" for r t
  proof -
    have rt: "r < length lps" "0 \<le> t" "t < int V"
      using set_zip_leftD [OF that] set_zip_rightD [OF that] assms(1,2) by (auto simp: query_ok_def)
    then have "length (lps ! r) = V" using assms(3) by simp
    then show ?thesis using rt by (simp add: py_index_def)
  qed
  then have "emap ?f (zip (lq_rows q) (lq_tokens q)) = Inr (map (\<lambda>(r, t). lps ! r ! nat t) (zip (lq_rows q) (lq_tokens q)))"
    by (intro emap_map) auto
  then show ?thesis using assms(1,2) by (auto simp: query_logprobs_def index_pairs_def query_ok_def)
qed

section \<open>Dictionaries\<close>

lemma logprobs_dict_ok:
  assumes "0 < n \<Longrightarrow> row < length best"
  shows "\<exists>d. logprobs_dict best row n t lp = Inr d \<and> t \<in> set (dict_keys d)"
  using assms by (auto simp: logprobs_dict_def py_index_of_nat dict_update_keys)

lemma collect_prompt_logprobs_ok:
  assumes "p + length ts \<le> length query" and "0 < n \<Longrightarrow> length best = length query"
  shows "\<exists>ds. collect_prompt_logprobs best query n ts (p, p) = Inr (ds, p + length ts, p + length ts)"
proof -
  let ?f = "\<lambda>token (ds, idx, query_idx).
         ebind (py_index query (int query_idx)) (\<lambda>lp.
         ebind (logprobs_dict best idx n token lp) (\<lambda>d. Inr (ds @ [Some d], idx + 1, query_idx + 1)))"
  have "\<exists>ds. efold ?f ts (acc, p, p) = Inr (ds, p + length ts, p + length ts)" for acc
    using assms(1)
  proof (induction ts arbitrary: acc p)
    case Nil
    then show ?case by simp
  next
    case (Cons t ts)
    have p: "p < length query" using Cons.prems by simp
    obtain d where d: "logprobs_dict best p n t (query ! p) = Inr d"
      using logprobs_dict_ok [of n p best t "query ! p"] assms(2) p by fastforce
    obtain ds where "efold ?f ts (acc @ [Some d], Suc p, Suc p) = Inr (ds, Suc p + length ts, Suc p + length ts)"
      using Cons.IH [of "Suc p" "acc @ [Some d]"] Cons.prems by auto
    then show ?case using p d by (simp add: py_index_of_nat)
  qed
  then show ?thesis by (simp add: collect_prompt_logprobs_def)
qed

lemma collect_one_logprob:
  assumes "p < length query" and "0 < n \<Longrightarrow> length best = length query"
  shows "\<exists>d. collect_sample_logprobs best query n p [(t, 0)] p = Inr ([d], Suc p) \<and> t \<in> set (dict_keys d)"
  using logprobs_dict_ok [of n p best t "query ! p"] assms by (auto simp: collect_sample_logprobs_def py_index_of_nat)

lemma collect_group_ok:
  assumes "query_fits V sm i g k" and "res = ([int t], [0])" and "lr_idx r = p" and "lr_query_idx r = p" and "p + k \<le> length query"
    and "0 < most_wanted sm i (snd g) \<Longrightarrow> length best = length query"
  shows "\<exists>pr d. collect_group sm best query (i, g, res) r = Inr \<lparr>lr_prompt = lr_prompt r @ [pr], lr_sample = lr_sample r @ [[d]],
    lr_idx = p + k, lr_query_idx = p + k\<rparr> \<and> int t \<in> set (dict_keys d)"
proof -
  obtain s sp where g: "g = ([s], sp)" using assms(1) by (cases g) (auto simp: query_fits_def length_Suc_conv)
  let ?n = "case logprobs sp of None \<Rightarrow> 0 | Some n \<Rightarrow> n"
  have n: "0 < ?n \<Longrightarrow> length best = length query" using assms(6) by (simp add: most_wanted_def g)
  show ?thesis
  proof (cases "wants_prompt_logprobs sm i sp")
    case None
    then have k: "k = 1" using assms(1) by (simp add: query_fits_def g)
    obtain d where "collect_sample_logprobs best query ?n p [(int t, 0)] p = Inr ([d], Suc p)" "int t \<in> set (dict_keys d)"
      using collect_one_logprob [OF _ n, of p] assms(5) k by force
    then show ?thesis using None assms(2-4) k by (simp add: collect_group_def g)
  next
    case (Some m)
    obtain ts where ts: "prompt_tokens_of sm [s] = Inr ts" "length ts = k" "0 < k" using assms(1) Some by (auto simp: query_fits_def g)
    have m: "0 < m \<Longrightarrow> length best = length query" using assms(6) Some by (simp add: most_wanted_def g)
    have len: "length (drop 1 ts) = k - 1" "p + (k - 1) \<le> length query" using ts(2,3) assms(5) by simp_all
    then obtain ds where ds: "collect_prompt_logprobs best query m (drop 1 ts) (p, p) = Inr (ds, p + (k - 1), p + (k - 1))"
      using collect_prompt_logprobs_ok [of p "drop 1 ts" query m best] m by metis
    obtain d where "collect_sample_logprobs best query ?n (p + (k - 1)) [(int t, 0)] (p + (k - 1)) = Inr ([d], p + k)" "int t \<in> set (dict_keys d)"
      using collect_one_logprob [OF _ n, of "p + (k - 1)"] assms(5) ts(3) by force
    then show ?thesis using Some ts ds assms(2-4) by (simp add: collect_group_def g)
  qed
qed

definition has_logprob :: "seq_group_ids \<times> sample_result \<Rightarrow> logprob_dict list \<Rightarrow> bool" where
  "has_logprob gr ds \<longleftrightarrow> (\<exists>t d. snd gr = ([int t], [0]) \<and> ds = [d] \<and> int t \<in> set (dict_keys d))"

lemma collect_groups_ok:
  assumes "batch V sm i grs ks" and "lr_idx r = p" and "lr_query_idx r = p" and "p + sum_list ks \<le> length query"
    and "\<forall>j < length grs. 0 < most_wanted sm (i + j) (snd (fst (grs ! j))) \<longrightarrow> length best = length query"
  shows "\<exists>prs ds r'. efold (collect_group sm best query) (enumerate i grs) r = Inr r' \<and> lr_prompt r' = lr_prompt r @ prs \<and>
    lr_sample r' = lr_sample r @ ds \<and> length prs = length grs \<and> list_all2 has_logprob grs ds"
  using assms
proof (induction grs arbitrary: i ks r p)
  case Nil
  then show ?case by simp
next
  case (Cons a grs)
  obtain g res where a: "a = (g, res)" by (rule prod.exhaust)
  obtain k ks' where ks: "ks = k # ks'" "query_fits V sm i g k" "one_token V res" "batch V sm (Suc i) grs ks'"
    using Cons.prems(1) unfolding a batch_Cons by blast
  obtain t where t: "res = ([int t], [0])" using ks(3) by (auto simp: one_token_def)
  have "0 < most_wanted sm i (snd g) \<Longrightarrow> length best = length query" using Cons.prems(5) by (auto simp: a)
  then obtain pr d where d: "collect_group sm best query (i, g, res) r = Inr \<lparr>lr_prompt = lr_prompt r @ [pr], lr_sample = lr_sample r @ [[d]],
      lr_idx = p + k, lr_query_idx = p + k\<rparr>" "int t \<in> set (dict_keys d)"
    using collect_group_ok [OF ks(2) t Cons.prems(2,3), of query best] Cons.prems(4) ks(1) by auto
  let ?r = "\<lparr>lr_prompt = lr_prompt r @ [pr], lr_sample = lr_sample r @ [[d]], lr_idx = p + k, lr_query_idx = p + k\<rparr>"
  have "\<forall>j < length grs. 0 < most_wanted sm (Suc i + j) (snd (fst (grs ! j))) \<longrightarrow> length best = length query"
    using Cons.prems(5) by (auto simp: Suc_less_eq dest: spec [of _ "Suc _"])
  then obtain prs ds r' where r': "efold (collect_group sm best query) (enumerate (Suc i) grs) ?r = Inr r'"
    "lr_prompt r' = lr_prompt ?r @ prs" "lr_sample r' = lr_sample ?r @ ds" "length prs = length grs" "list_all2 has_logprob grs ds"
    using Cons.IH [OF ks(4), of ?r "p + k"] Cons.prems(4) ks(1) by auto
  have "has_logprob a [d]" using d(2) t by (simp add: has_logprob_def a)
  then show ?case using d(1) r' by (intro exI [of _ "pr # prs"] exI [of _ "[d] # ds"] exI [of _ r']) (simp add: a)
qed

end
