(* ===== verification/Runner_Props.thy ===== *)
theory Runner_Props
  imports Logprob_Props
begin

text \<open>
  A step of the model runner, from the metadata of the scheduled groups to one sampled token for each.
\<close>

section \<open>The output of the sampler\<close>

text \<open>One token of the vocabulary for the sequence, with its log probability.\<close>

definition samples_one :: "nat \<Rightarrow> int \<Rightarrow> sequence_group_output \<Rightarrow> bool" where
  "samples_one V s o1 \<longleftrightarrow> (\<exists>so. go_samples o1 = [so] \<and> so_parent_seq_id so = s \<and> so_output_token so \<in> set (dict_keys (so_logprobs so)) \<and>
     0 \<le> so_output_token so \<and> so_output_token so < int V)"

lemma get_logprobs_ok:
  assumes "ops_ok V ops" and "batch V sm 0 (zip (sm_seq_groups sm) results) ks" and "sum_list ks = length lps"
    and "\<forall>row \<in> set lps. length row = V"
  shows "\<exists>prs ds. get_logprobs ops lps sm results = Inr (prs, ds) \<and> length prs = length (zip (sm_seq_groups sm) results) \<and>
    list_all2 has_logprob (zip (sm_seq_groups sm) results) ds"
proof -
  let ?grs = "zip (sm_seq_groups sm) results"
  let ?q0 = "\<lparr>lq_rows = [], lq_tokens = [], lq_largest = 0, lq_idx = 0\<rparr>"
  have "query_ok V ?q0" by (simp add: query_ok_def)
  then obtain q where q: "efold (query_group sm) (enumerate 0 ?grs) ?q0 = Inr q" "query_ok V q" "lq_idx q = length lps"
    "\<forall>j < length ?grs. most_wanted sm (0 + j) (snd (fst (?grs ! j))) \<le> lq_largest q"
    using query_groups_ok [OF assms(2), of ?q0] assms(3) by auto
  obtain query where query: "query_logprobs lps q = Inr query" "length query = length lps"
    using query_logprobs_ok [OF q(2,3) assms(4)] by blast
  have "topk ops row (lq_largest q) = Inr (t_topk ops row (nat (lq_largest q)))" if "row \<in> set lps" for row
    using that assms(4) q(2) by (auto simp: topk_def query_ok_def nat_le_iff)
  then have "emap (\<lambda>row. topk ops row (lq_largest q)) lps = Inr (map (\<lambda>row. t_topk ops row (nat (lq_largest q))) lps)"
    by (rule emap_map)
  then obtain best where best: "(if lq_largest q > 0 then emap (\<lambda>row. topk ops row (lq_largest q)) lps else Inr []) = Inr best"
    "0 < lq_largest q \<Longrightarrow> length best = length query" using query(2) by (cases "0 < lq_largest q") auto
  let ?r0 = "\<lparr>lr_prompt = [], lr_sample = [], lr_idx = 0, lr_query_idx = 0\<rparr>"
  have "\<forall>j < length ?grs. 0 < most_wanted sm (0 + j) (snd (fst (?grs ! j))) \<longrightarrow> length best = length query"
    using q(4) best(2) by (meson less_le_trans)
  then obtain prs ds r where "efold (collect_group sm best query) (enumerate 0 ?grs) ?r0 = Inr r" "lr_prompt r = prs" "lr_sample r = ds"
    "length prs = length ?grs" "list_all2 has_logprob ?grs ds"
    using collect_groups_ok [OF assms(2), of ?r0 0 query best] assms(3) query(2) by auto
  then show ?thesis using q(1,3) query(1) best(1) by (simp add: get_logprobs_def Let_def)
qed

lemma build_sampler_output_ok:
  assumes "list_all2 has_logprob (zip groups results) ds" and "length results = length groups" and "length prs = length groups"
    and "list_all (one_token V) results" and "\<forall>g \<in> set groups. length (fst g) = 1"
  shows "\<exists>outs. emap (\<lambda>((seq_ids, _), res, prompt, lp). build_group_output seq_ids res prompt lp)
       (zip groups (zip results (zip prs ds))) = Inr outs \<and> list_all2 (\<lambda>g. samples_one V (hd (fst g))) groups outs"
  using assms
proof (induction groups arbitrary: results prs ds)
  case Nil
  then show ?case by simp
next
  case (Cons g groups)
  obtain res results' where res: "results = res # results'" using Cons.prems(2) by (cases results) auto
  obtain pr prs' where pr: "prs = pr # prs'" using Cons.prems(3) by (cases prs) auto
  obtain d ds' where d: "ds = d # ds'" "has_logprob (g, res) d" "list_all2 has_logprob (zip groups results') ds'"
    using Cons.prems(1) by (auto simp: res list_all2_Cons1)
  obtain s sp where g: "g = ([s], sp)" using Cons.prems(5) by (cases g) (auto simp: length_Suc_conv)
  obtain t e where t: "res = ([int t], [0])" "d = [e]" "int t \<in> set (dict_keys e)" using d(2) by (auto simp: has_logprob_def)
  have "t < V" using Cons.prems(4) t(1) by (auto simp: res one_token_def)
  then have "\<exists>o1. build_group_output [s] res pr d = Inr o1 \<and> samples_one V s o1"
    using t by (simp add: build_group_output_def samples_one_def)
  moreover obtain outs where "emap (\<lambda>((seq_ids, _), res, prompt, lp). build_group_output seq_ids res prompt lp)
       (zip groups (zip results' (zip prs' ds'))) = Inr outs" "list_all2 (\<lambda>g. samples_one V (hd (fst g))) groups outs"
    using Cons.IH [OF d(3)] Cons.prems by (auto simp: res pr)
  ultimately show ?case by (auto simp: res pr d(1) g)
qed

section \<open>The sampler\<close>

text \<open>
  The model: a hidden state for each position of the batch, a probability for each of \<open>V\<close> tokens, and the
  operations of torch.
\<close>

definition model_env_ok :: "nat \<Rightarrow> ('h, 'c) model_env \<Rightarrow> bool" where
  "model_env_ok V env \<longleftrightarrow> ops_ok V (me_ops env) \<and>
     (\<forall>c tokens positions md. length (fst (me_forward env c tokens positions md)) = length (concat tokens)) \<and>
     (\<forall>h sm. length (me_probs env h sm) = length h \<and> (\<forall>row \<in> set (me_probs env h sm). length row = V)) \<and>
     (\<forall>h sm. length (me_logprobs env h sm) = length h \<and> (\<forall>row \<in> set (me_logprobs env h sm). length row = V))"

lemma sampler_forward_ok:
  assumes "model_env_ok V env" and "sm_ok (length (sm_selected_token_indices sm)) sm"
    and "\<forall>i \<in> set (sm_selected_token_indices sm). 0 \<le> i \<and> i < int (length hidden)"
    and "length ks = length (sm_seq_groups sm)" and "sum_list ks = length (sm_selected_token_indices sm)"
    and "\<forall>j < length ks. query_fits V sm j (sm_seq_groups sm ! j) (ks ! j)"
  shows "\<exists>outs. sampler_forward env hidden sm = Inr outs \<and> list_all2 (\<lambda>g. samples_one V (hd (fst g))) (sm_seq_groups sm) outs"
proof -
  let ?rows = "map (\<lambda>i. hidden ! nat i) (sm_selected_token_indices sm)"
  let ?p = "me_probs env ?rows sm" and ?l = "me_logprobs env ?rows sm"
  have prune: "prune_hidden_states hidden sm = Inr ?rows" using assms(3) by (simp add: prune_hidden_states_def select_rows_ok)
  have env: "ops_ok V (me_ops env)" "\<forall>row \<in> set ?p \<union> set ?l. length row = V" "length ?p = length ?rows" "length ?l = length ?rows"
    using assms(1) unfolding model_env_ok_def by blast+
  obtain results where results: "sample (me_ops env) ?p ?l sm = Inr results" "length results = length (sm_seq_groups sm)"
    "list_all (one_token V) results" using sample_ok [OF env(1) _ env(2)] assms(2) env(3,4) by auto
  have one: "\<forall>g \<in> set (sm_seq_groups sm). length (fst g) = 1" using assms(2) by (auto simp: sm_ok_def wants_one_def)
  have b: "batch V sm 0 (zip (sm_seq_groups sm) results) ks"
    using assms(4,6) results(2,3) by (auto simp: batch_def list_all_length)
  have s: "sum_list ks = length ?l" using env(4) assms(5) by simp
  have l: "\<forall>row \<in> set ?l. length row = V" using env(2) by blast
  obtain prs ds where lps: "get_logprobs (me_ops env) ?l sm results = Inr (prs, ds)"
    "length prs = length (zip (sm_seq_groups sm) results)" "list_all2 has_logprob (zip (sm_seq_groups sm) results) ds"
    using get_logprobs_ok [OF env(1) b s l] by blast
  then show ?thesis
    using build_sampler_output_ok [OF lps(3) results(2) _ results(3) one] results(1,2) prune
    by (simp add: sampler_forward_def build_sampler_output_def Let_def)
qed

section \<open>The rows that sampling reads\<close>

text \<open>The rows of a group that starts at row \<open>s\<close>: with \<^verbatim>\<open>prompt_logprobs\<close> all of its prompt, else the last.\<close>

definition wanted_rows :: "sequence_group_metadata \<Rightarrow> int \<Rightarrow> nat \<Rightarrow> int list" where
  "wanted_rows m s len = (if md_is_prompt m \<and> prompt_logprobs (md_sampling_params m) \<noteq> None then [s..s + int len - 1] else [s + int len - 1])"

fun wanted_blocks :: "int \<Rightarrow> int \<Rightarrow> (sequence_group_metadata \<times> nat) list \<Rightarrow> int list list" where
  "wanted_blocks n s [] = []"
| "wanted_blocks n s ((m, len) # ms) = wanted_rows m s len # wanted_blocks n (s + n) ms"

text \<open>The last row of each block of a batch.\<close>

fun last_rows :: "int \<Rightarrow> int list list \<Rightarrow> int list" where
  "last_rows k [] = []"
| "last_rows k (b # bs) = (k + int (length b) - 1) # last_rows (k + int (length b)) bs"

definition of_type :: "sampling_type \<Rightarrow> (sequence_group_metadata \<times> nat) list \<Rightarrow> int list \<Rightarrow> int list" where
  "of_type ty ms rs = map snd (filter (\<lambda>((m, _), _). get_sampling_type (md_sampling_params m) = ty) (zip ms rs))"

lemma length_wanted_blocks [simp]: "length (wanted_blocks n s ms) = length ms"
  by (induction ms arbitrary: s) auto

lemma length_last_rows [simp]: "length (last_rows k bs) = length bs"
  by (induction bs arbitrary: k) auto

text \<open>A group of the batch: one sequence, and for a prompt the length of its query.\<close>

definition sample_fits :: "int list option \<Rightarrow> int \<Rightarrow> nat \<Rightarrow> sequence_group_metadata \<Rightarrow> nat \<Rightarrow> bool" where
  "sample_fits lens n i m len \<longleftrightarrow> length (md_seq_data m) = 1 \<and> 0 < len \<and>
     (if md_is_prompt m then \<exists>ls. lens = Some ls \<and> py_index ls (int i) = Inr (int len) else n = 1 \<and> len = 1)"

lemma categorize_eq:
  "categorize ty is c = c\<lparr>sc_categorized := map (\<lambda>(t, js). (t, js @ (if t = ty then is else []))) (sc_categorized c)\<rparr>"
  by (auto simp: categorize_def intro!: arg_cong [of _ _ "\<lambda>f. c\<lparr>sc_categorized := f\<rparr>"])

lemma upto_last: "0 < len \<Longrightarrow> [s..s + int len - 2] @ [s + int len - 1] = [s..s + int len - 1]"
  using upto_rec2 [of s "s + int len - 1"] by simp

lemma prepare_sample_group_eq:
  assumes "sample_fits lens n i m len"
  shows "prepare_sample_group lens n (i, m) c = Inr \<lparr>sc_selected = sc_selected c @ wanted_rows m (sc_selected_start c) len,
    sc_selected_start = sc_selected_start c + n,
    sc_categorized = map (\<lambda>(t, js). (t, js @ (if t = get_sampling_type (md_sampling_params m)
       then [sc_categorized_start c + int (length (wanted_rows m (sc_selected_start c) len)) - 1] else []))) (sc_categorized c),
    sc_categorized_start = sc_categorized_start c + int (length (wanted_rows m (sc_selected_start c) len))\<rparr>"
proof (cases "md_is_prompt m")
  case True
  obtain ls where ls: "lens = Some ls" "py_index ls (int i) = Inr (int len)" using assms True by (auto simp: sample_fits_def)
  have one: "length (md_seq_data m) = 1" "0 < len" using assms by (simp_all add: sample_fits_def)
  show ?thesis
    using one ls True upto_last [OF one(2), of "sc_selected_start c"]
    by (cases "prompt_logprobs (md_sampling_params m)") (simp_all add: prepare_sample_group_def Let_def wanted_rows_def categorize_eq algebra_simps cong: if_cong)
next
  case False
  have "length (md_seq_data m) = 1" "n = 1" "len = 1" using assms False by (simp_all add: sample_fits_def)
  then show ?thesis using False
    by (simp add: prepare_sample_group_def Let_def wanted_rows_def categorize_eq cong: if_cong)
qed

lemma prepare_sample_groups_eq:
  assumes "\<forall>j < length ms. sample_fits lens n (i + j) (fst (ms ! j)) (snd (ms ! j))"
  shows "efold (prepare_sample_group lens n) (enumerate i (map fst ms)) c = Inr
    \<lparr>sc_selected = sc_selected c @ concat (wanted_blocks n (sc_selected_start c) ms),
     sc_selected_start = sc_selected_start c + n * int (length ms),
     sc_categorized = map (\<lambda>(t, js). (t, js @ of_type t ms (last_rows (sc_categorized_start c) (wanted_blocks n (sc_selected_start c) ms))))
       (sc_categorized c),
     sc_categorized_start = sc_categorized_start c + int (length (concat (wanted_blocks n (sc_selected_start c) ms)))\<rparr>"
  using assms
proof (induction ms arbitrary: i c)
  case Nil
  then show ?case by (simp add: of_type_def case_prod_beta')
next
  case (Cons a ms)
  obtain m len where a: "a = (m, len)" by (rule prod.exhaust)
  have fits: "sample_fits lens n i m len" "\<forall>j < length ms. sample_fits lens n (Suc i + j) (fst (ms ! j)) (snd (ms ! j))"
    using Cons.prems by (auto simp: a dest: spec [of _ "Suc _"] spec [of _ 0])
  show ?case
    by (simp add: a prepare_sample_group_eq [OF fits(1)] Cons.IH [OF fits(2)] of_type_def algebra_simps case_prod_beta' o_def)
qed

lemma prepare_sample_eq:
  assumes "\<forall>j < length ms. sample_fits lens n j (fst (ms ! j)) (snd (ms ! j))"
    and "(case lens of None \<Rightarrow> Inr 1 | Some [] \<Rightarrow> Inr 1 | Some ls \<Rightarrow> py_max ls) = Inr n"
  shows "prepare_sample (map fst ms) plens lens = Inr
    \<lparr>sm_seq_groups = map (\<lambda>(m, _). (dict_keys (md_seq_data m), md_sampling_params m)) ms,
     sm_seq_data = fold (\<lambda>m d. dict_update d (md_seq_data m)) (map fst ms) [], sm_prompt_lens = plens,
     sm_selected_token_indices = concat (wanted_blocks n 0 ms),
     sm_categorized_sample_indices = map (\<lambda>t. (t, of_type t ms (last_rows 0 (wanted_blocks n 0 ms)))) [GREEDY, RANDOM, BEAM]\<rparr>"
  unfolding prepare_sample_def assms(2) ebind_simps
  using prepare_sample_groups_eq [of ms lens n 0] assms(1) by (simp add: case_prod_beta' o_def)

lemma wanted_rows_last: "0 < len \<Longrightarrow> wanted_rows m s len \<noteq> [] \<and> last (wanted_rows m s len) = s + int len - 1"
  using upto_last [of len s] by (auto simp: wanted_rows_def) (metis append_is_Nil_conv last_snoc not_Cons_self)+

lemma last_rows_bounds: "\<forall>b \<in> set bs. b \<noteq> [] \<Longrightarrow> r \<in> set (last_rows k bs) \<Longrightarrow> k \<le> r \<and> r < k + int (length (concat bs))"
proof (induction bs arbitrary: k)
  case Nil
  then show ?case by simp
next
  case (Cons b bs)
  have b: "0 < length b" using Cons.prems(1) by simp
  show ?case
  proof (cases "r = k + int (length b) - 1")
    case True
    then show ?thesis using b by simp
  next
    case False
    then show ?thesis using Cons.IH [of "k + int (length b)"] Cons.prems by auto
  qed
qed

lemma last_rows_nth:
  assumes "\<forall>b \<in> set bs. b \<noteq> []"
  shows "map (\<lambda>r. (pre @ concat bs) ! nat r) (last_rows (int (length pre)) bs) = map last bs"
  using assms
proof (induction bs arbitrary: pre)
  case Nil
  then show ?case by simp
next
  case (Cons b bs)
  have b: "0 < length b" using Cons.prems by simp
  obtain x b' where x: "b = b' @ [x]" using b by (cases b rule: rev_cases) auto
  have "nat (int (length pre) + int (length b) - 1) = length (pre @ b')" unfolding x by simp
  then have "(pre @ concat (b # bs)) ! nat (int (length pre) + int (length b) - 1) = last b"
    using nth_append_length [of "pre @ b'" x "concat bs"] by (simp add: x)
  then show ?case using Cons.IH [of "pre @ b"] Cons.prems by (simp add: add.commute)
qed

text \<open>The blocks stay within the batch.\<close>

lemma wanted_blocks_bounds:
  assumes "\<forall>(m, len) \<in> set ms. 0 < len \<and> int len \<le> n" and "i \<in> set (concat (wanted_blocks n s ms))"
  shows "s \<le> i \<and> i < s + n * int (length ms)"
  using assms
proof (induction ms arbitrary: s)
  case Nil
  then show ?case by simp
next
  case (Cons a ms)
  obtain m len where a: "a = (m, len)" by (rule prod.exhaust)
  have len: "0 < len" "int len \<le> n" "\<forall>(m, len) \<in> set ms. 0 < len \<and> int len \<le> n" using Cons.prems(1) by (auto simp: a)
  have n: "0 \<le> n * int (length ms)" using len(2) by simp
  show ?case
  proof (cases "i \<in> set (wanted_rows m s len)")
    case True
    then have "s \<le> i \<and> i < s + int len" using len(1) by (auto simp: wanted_rows_def split: if_splits)
    moreover have "n * int (length (a # ms)) = n + n * int (length ms)" by (simp add: algebra_simps)
    ultimately show ?thesis using len(2) n by linarith
  next
    case False
    then show ?thesis using Cons.IH [OF len(3), of "s + n"] Cons.prems(2) len(2) by (auto simp: a algebra_simps)
  qed
qed

lemma wanted_blocks_ne: "\<forall>(m, len) \<in> set ms. 0 < len \<Longrightarrow> \<forall>b \<in> set (wanted_blocks n s ms). b \<noteq> []"
proof (induction ms arbitrary: s)
  case Nil
  then show ?case by simp
next
  case (Cons a ms)
  obtain m len where a: "a = (m, len)" by (rule prod.exhaust)
  then have "0 < len" "\<forall>(m, len) \<in> set ms. 0 < len" using Cons.prems by auto
  then show ?case using Cons.IH [of "s + n"] wanted_rows_last [of len m s] by (simp add: a)
qed

lemma nth_wanted_blocks: "j < length ms \<Longrightarrow> wanted_blocks n s ms ! j = wanted_rows (fst (ms ! j)) (s + n * int j) (snd (ms ! j))"
proof (induction ms arbitrary: s j)
  case Nil
  then show ?case by simp
next
  case (Cons a ms)
  obtain m len where a: "a = (m, len)" by (rule prod.exhaust)
  show ?case using Cons by (cases j) (simp_all add: a algebra_simps)
qed

end
