(* ===== verification/Runner_Step.thy ===== *)
theory Runner_Step
  imports Runner_Props
begin

text \<open>
  The model runner on what the scheduler schedules: from a well-formed engine the inputs can be built, and the
  sampler returns one token for each scheduled sequence.
\<close>

section \<open>The data of the sequences\<close>

lemma dict_update_other: "k \<notin> fst ` set e \<Longrightarrow> map_of (dict_update d e) k = map_of d k"
proof (induction e arbitrary: d)
  case Nil
  then show ?case by (simp add: dict_update_def)
next
  case (Cons a e)
  obtain x v where a: "a = (x, v)" by (rule prod.exhaust)
  have "dict_update d (a # e) = dict_update (dict_set x v d) e" by (simp add: dict_update_def a)
  then show ?case using Cons.IH [of "dict_set x v d"] Cons.prems by (simp add: a update_conv)
qed

lemma dict_update_member: "distinct (map fst e) \<Longrightarrow> (k, v) \<in> set e \<Longrightarrow> map_of (dict_update d e) k = Some v"
proof (induction e arbitrary: d)
  case Nil
  then show ?case by simp
next
  case (Cons a e)
  obtain x w where a: "a = (x, w)" by (rule prod.exhaust)
  have d: "dict_update d (a # e) = dict_update (dict_set x w d) e" by (simp add: dict_update_def a)
  show ?case
  proof (cases "(k, v) \<in> set e")
    case True
    then show ?thesis using Cons.IH [of "dict_set x w d"] Cons.prems(1) by (simp add: d)
  next
    case False
    then have "k = x" "v = w" "k \<notin> fst ` set e" using Cons.prems by (auto simp: a)
    then show ?thesis using dict_update_other [of k e "dict_set x w d"] by (simp add: d update_conv)
  qed
qed

lemma fold_dict_update: "fold (\<lambda>m d. dict_update d (f m)) ms d = dict_update d (concat (map f ms))"
  by (induction ms arbitrary: d) (simp_all add: dict_update_def fold_append)

section \<open>Groups that want one token\<close>

text \<open>
  One sequence and one token; no more log probabilities than tokens in the vocabulary; with \<^verbatim>\<open>prompt_logprobs\<close> the
  prompt must not run again with generated tokens after a preemption.
\<close>

definition samplable :: "nat \<Rightarrow> bool \<Rightarrow> sequence_group \<Rightarrow> bool" where
  "samplable V p g \<longleftrightarrow> (let sp = sg_sampling_params g in
     best_of sp = 1 \<and> \<not> use_beam_search sp \<and> sg_prefix g = None \<and> (\<forall>n. logprobs sp = Some n \<longrightarrow> n \<le> int V) \<and>
     (p \<longrightarrow> (\<forall>n. prompt_logprobs sp = Some n \<longrightarrow> n \<le> int V \<and>
        (\<forall>q \<in> set (get_seqs None g). output_token_ids (seq_data q) = [] \<and> (\<forall>t \<in> set (prompt_token_ids (seq_data q)). 0 \<le> t \<and> t < int V)))))"

text \<open>A scheduled group with its metadata and the length of its query.\<close>

definition in_batch :: "nat \<Rightarrow> bool \<Rightarrow> sequence_group \<Rightarrow> sequence_group_metadata \<Rightarrow> nat \<Rightarrow> bool" where
  "in_batch V p g m len \<longleftrightarrow> samplable V p g \<and> 0 < len \<and> (\<exists>q t. m = md_of p g q t \<and> get_seqs None g = [q] \<and>
     (if p then len = seq_get_len q else len = 1))"

lemma in_batch_sm:
  assumes "in_batch V p g m len"
  shows "wants_one (dict_keys (md_seq_data m), md_sampling_params m)" and "dict_keys (md_seq_data m) = [sid g]"
    and "md_is_prompt m = p" and "0 < len" and "length (md_seq_data m) = 1"
  using assms by (auto simp: in_batch_def samplable_def Let_def md_of_def wants_one_def sid_def)

text \<open>
  The batch of a step: the groups with their metadata, the longest query \<open>n\<close>, and the lengths as \<open>_prepare_sample\<close>
  gets them. For such a batch the result can be written down.
\<close>

definition sample_batch ::
    "nat \<Rightarrow> bool \<Rightarrow> sequence_group list \<Rightarrow> (sequence_group_metadata \<times> nat) list \<Rightarrow> int \<Rightarrow> int list option \<Rightarrow> nat list \<Rightarrow> bool" where
  "sample_batch V p gs ms n lens plens \<longleftrightarrow> list_all2 (\<lambda>g x. in_batch V p g (fst x) (snd x)) gs ms \<and> distinct (map sid gs) \<and>
     (\<forall>x \<in> set ms. int (snd x) \<le> n) \<and>
     (case lens of None \<Rightarrow> Inr 1 | Some [] \<Rightarrow> Inr 1 | Some ls \<Rightarrow> py_max ls) = Inr n \<and>
     (if p then plens = map snd ms \<and> lens = Some (map int plens) else plens = [] \<and> n = 1)"

definition batch_sm :: "int \<Rightarrow> (sequence_group_metadata \<times> nat) list \<Rightarrow> nat list \<Rightarrow> sampling_metadata" where
  "batch_sm n ms plens = \<lparr>sm_seq_groups = map (\<lambda>(m, _). (dict_keys (md_seq_data m), md_sampling_params m)) ms,
     sm_seq_data = fold (\<lambda>m d. dict_update d (md_seq_data m)) (map fst ms) [], sm_prompt_lens = plens,
     sm_selected_token_indices = concat (wanted_blocks n 0 ms),
     sm_categorized_sample_indices = map (\<lambda>t. (t, of_type t ms (last_rows 0 (wanted_blocks n 0 ms)))) [GREEDY, RANDOM, BEAM]\<rparr>"

lemma batch_group:
  assumes "sample_batch V p gs ms n lens plens" and "j < length ms"
  shows "in_batch V p (gs ! j) (fst (ms ! j)) (snd (ms ! j))"
  using assms by (simp add: sample_batch_def list_all2_conv_all_nth)

lemma batch_len_pos:
  assumes "sample_batch V p gs ms n lens plens"
  shows "\<forall>(m, len) \<in> set ms. 0 < len"
proof -
  have "0 < snd x" if "x \<in> set ms" for x
    using that in_batch_sm(4) [OF batch_group [OF assms]] by (auto simp: in_set_conv_nth)
  then show ?thesis by auto
qed

lemma batch_fits:
  assumes "sample_batch V p gs ms n lens plens" and "j < length ms"
  shows "sample_fits lens n j (fst (ms ! j)) (snd (ms ! j))"
proof -
  have g: "in_batch V p (gs ! j) (fst (ms ! j)) (snd (ms ! j))" by (rule batch_group [OF assms])
  then show ?thesis
    using in_batch_sm(3-5) [OF g] assms by (cases p) (auto simp: sample_fits_def sample_batch_def py_index_of_nat in_batch_def)
qed

lemma prepare_batch:
  assumes "sample_batch V p gs ms n lens plens"
  shows "prepare_sample (map fst ms) plens lens = Inr (batch_sm n ms plens)"
  using prepare_sample_eq [of ms lens n plens] batch_fits [OF assms] assms by (simp add: batch_sm_def sample_batch_def)

lemma batch_blocks_ne:
  assumes "sample_batch V p gs ms n lens plens"
  shows "\<forall>b \<in> set (wanted_blocks n 0 ms). b \<noteq> []"
  by (rule wanted_blocks_ne [OF batch_len_pos [OF assms]])

lemma length_filter_enumerate: "length (filter (\<lambda>x. P (snd x)) (enumerate i xs)) = length (filter P xs)"
  by (induction xs arbitrary: i) auto

lemma length_of_type:
  assumes "length rs = length ms"
  shows "length (of_type ty ms rs) = length (groups_of_type (batch_sm n ms plens) ty)"
proof -
  have "length (of_type ty ms rs) = length (filter (\<lambda>x. get_sampling_type (md_sampling_params (fst x)) = ty) ms)"
    using assms unfolding of_type_def by (induction ms rs rule: list_induct2') (auto simp: case_prod_beta')
  then show ?thesis
    by (simp add: groups_of_type_def batch_sm_def length_filter_enumerate [of "\<lambda>g. get_sampling_type (snd g) = ty"]
      filter_map o_def case_prod_beta')
qed

lemma batch_sm_ok:
  assumes "sample_batch V p gs ms n lens plens"
  shows "sm_ok (length (sm_selected_token_indices (batch_sm n ms plens))) (batch_sm n ms plens)"
proof -
  let ?sm = "batch_sm n ms plens" and ?blocks = "wanted_blocks n 0 ms"
  have "wants_one g" if g: "g \<in> set (sm_seq_groups ?sm)" for g
  proof -
    obtain j where "j < length ms" "g = (dict_keys (md_seq_data (fst (ms ! j))), md_sampling_params (fst (ms ! j)))"
      using g by (auto simp: batch_sm_def in_set_conv_nth case_prod_beta')
    then show ?thesis using in_batch_sm(1) [OF batch_group [OF assms]] by blast
  qed
  moreover have "\<exists>is. map_of (sm_categorized_sample_indices ?sm) ty = Some is \<and> length is = length (groups_of_type ?sm ty) \<and>
      (\<forall>i \<in> set is. 0 \<le> i \<and> i < int (length (concat ?blocks)))" for ty
  proof -
    have "set (of_type ty ms (last_rows 0 ?blocks)) \<subseteq> set (last_rows 0 ?blocks)"
      by (auto simp: of_type_def dest: set_zip_rightD)
    then have "\<forall>i \<in> set (of_type ty ms (last_rows 0 ?blocks)). 0 \<le> i \<and> i < int (length (concat ?blocks))"
      using last_rows_bounds [OF batch_blocks_ne [OF assms], of _ 0] by auto
    then show ?thesis using length_of_type [of "last_rows 0 ?blocks" ms ty n plens] by (cases ty) (simp_all add: batch_sm_def)
  qed
  moreover have "sm_selected_token_indices ?sm = concat ?blocks" by (simp add: batch_sm_def)
  ultimately show ?thesis unfolding sm_ok_def by simp
qed

lemma batch_seq_data:
  assumes "sample_batch V p gs ms n lens plens" and "j < length ms" and "md_seq_data (fst (ms ! j)) = [(s, d)]"
  shows "dict_get (sm_seq_data (batch_sm n ms plens)) s = Inr d"
proof -
  have "map fst (md_seq_data (fst (ms ! i))) = [sid (gs ! i)]" if "i < length ms" for i
    by (rule in_batch_sm(2) [OF batch_group [OF assms(1) that]])
  then have "map (\<lambda>x. map fst (md_seq_data (fst x))) ms = map (\<lambda>g. [sid g]) gs"
    using assms(1) by (intro nth_equalityI) (auto simp: sample_batch_def dest: list_all2_lengthD)
  then have "map fst (concat (map md_seq_data (map fst ms))) = concat (map (\<lambda>g. [sid g]) gs)"
    by (simp add: map_concat o_def)
  then have "distinct (map fst (concat (map md_seq_data (map fst ms))))" using assms(1) by (simp add: sample_batch_def)
  moreover have "(s, d) \<in> set (concat (map md_seq_data (map fst ms)))" using assms(3) nth_mem [OF assms(2)] by force
  ultimately show ?thesis unfolding batch_sm_def fold_dict_update by (simp add: dict_update_member)
qed

lemma batch_queries:
  assumes "sample_batch V p gs ms n lens plens" and j: "j < length ms"
  shows "query_fits V (batch_sm n ms plens) j (sm_seq_groups (batch_sm n ms plens) ! j) (length (wanted_blocks n 0 ms ! j))"
proof -
  let ?sm = "batch_sm n ms plens" and ?m = "fst (ms ! j)" and ?len = "snd (ms ! j)"
  have g: "in_batch V p (gs ! j) ?m ?len" by (rule batch_group [OF assms])
  obtain q t where q: "?m = md_of p (gs ! j) q t" "get_seqs None (gs ! j) = [q]" "if p then ?len = seq_get_len q else ?len = 1"
    using g by (auto simp: in_batch_def)
  let ?sp = "sg_sampling_params (gs ! j)"
  have sp: "md_sampling_params ?m = ?sp" "md_is_prompt ?m = p" "md_seq_data ?m = [(seq_id q, seq_data q)]" by (simp_all add: q(1) md_of_def)
  have grp: "sm_seq_groups ?sm ! j = ([seq_id q], ?sp)" using j sp by (simp add: batch_sm_def case_prod_beta')
  have lp: "\<forall>n. logprobs ?sp = Some n \<longrightarrow> n \<le> int V" using g by (simp add: in_batch_def samplable_def Let_def)
  have rows: "wanted_blocks n 0 ms ! j = wanted_rows ?m (n * int j) ?len" using nth_wanted_blocks [OF j, of n 0] by simp
  show ?thesis
  proof (cases "p \<and> prompt_logprobs ?sp \<noteq> None")
    case True
    then obtain w where w: "prompt_logprobs ?sp = Some w" by blast
    have pl: "plens = map snd ms" using assms(1) True by (simp add: sample_batch_def)
    have s: "w \<le> int V" "output_token_ids (seq_data q) = []" "\<forall>t \<in> set (prompt_token_ids (seq_data q)). 0 \<le> t \<and> t < int V"
      using g w True q(2) by (auto simp: in_batch_def samplable_def Let_def)
    have len: "length (prompt_token_ids (seq_data q)) = ?len"
      using q(3) True s(2) by (simp add: seq_get_len_def data_get_len_eq data_get_token_ids_def)
    have blk: "length (wanted_blocks n 0 ms ! j) = ?len" using rows True w sp by (simp add: wanted_rows_def)
    have "wants_prompt_logprobs ?sm j ?sp = Some w" using j w pl by (simp add: wants_prompt_logprobs_def sm_num_prompts_def batch_sm_def)
    moreover have "py_index (sm_prompt_lens ?sm) (int j) = Inr ?len" using j pl by (simp add: batch_sm_def py_index_of_nat)
    moreover have "prompt_tokens_of ?sm [seq_id q] = Inr (prompt_token_ids (seq_data q))"
      using batch_seq_data [OF assms(1) j sp(3)] by (simp add: prompt_tokens_of_def)
    ultimately show ?thesis
      using lp s len in_batch_sm(4) [OF g] unfolding grp query_fits_def blk by simp
  next
    case False
    have "wants_prompt_logprobs ?sm j ?sp = None"
      using False assms by (auto simp: wants_prompt_logprobs_def sm_num_prompts_def batch_sm_def sample_batch_def)
    moreover have "length (wanted_blocks n 0 ms ! j) = 1" using rows False sp by (auto simp: wanted_rows_def)
    ultimately show ?thesis using lp unfolding grp query_fits_def by simp
  qed
qed

lemma sample_batch_ok:
  assumes "sample_batch V p gs ms n lens plens" and "model_env_ok V env" and "n * int (length ms) \<le> int (length hidden)"
  shows "\<exists>outs. sampler_forward env hidden (batch_sm n ms plens) = Inr outs \<and> list_all2 (\<lambda>g. samples_one V (sid g)) gs outs"
proof -
  let ?sm = "batch_sm n ms plens" and ?ks = "map length (wanted_blocks n 0 ms)"
  have len: "\<forall>(m, len) \<in> set ms. 0 < len \<and> int len \<le> n" using batch_len_pos [OF assms(1)] assms(1) by (auto simp: sample_batch_def)
  have sel: "sm_selected_token_indices ?sm = concat (wanted_blocks n 0 ms)" by (simp add: batch_sm_def)
  have r: "\<forall>i \<in> set (sm_selected_token_indices ?sm). 0 \<le> i \<and> i < int (length hidden)"
    using wanted_blocks_bounds [OF len, of _ 0] assms(3) unfolding sel by fastforce
  have ks: "length ?ks = length (sm_seq_groups ?sm)" "sum_list ?ks = length (sm_selected_token_indices ?sm)"
    by (simp_all add: batch_sm_def length_concat)
  have qs: "\<forall>j < length ?ks. query_fits V ?sm j (sm_seq_groups ?sm ! j) (?ks ! j)"
    using batch_queries [OF assms(1)] by simp
  obtain outs where outs: "sampler_forward env hidden ?sm = Inr outs"
    "list_all2 (\<lambda>g. samples_one V (hd (fst g))) (sm_seq_groups ?sm) outs"
    using sampler_forward_ok [OF assms(2) batch_sm_ok [OF assms(1)] r ks qs] by blast
  have "hd (fst (sm_seq_groups ?sm ! j)) = sid (gs ! j)" if "j < length ms" for j
    using in_batch_sm(2) [OF batch_group [OF assms(1) that]] that by (simp add: batch_sm_def case_prod_beta')
  moreover have "length gs = length ms" "length (sm_seq_groups ?sm) = length ms"
    using assms(1) by (auto simp: sample_batch_def batch_sm_def dest: list_all2_lengthD)
  ultimately have "list_all2 (\<lambda>g. samples_one V (sid g)) gs outs"
    using outs(2) by (auto simp: list_all2_conv_all_nth)
  then show ?thesis using outs(1) by blast
qed

section \<open>A step of the runner\<close>

lemma describes_in_batch:
  assumes "describes p bs bm g m" and "samplable V p g" and "single RUNNING g q" and "len = (if p then seq_get_len q else 1)"
  shows "in_batch V p g m len"
  using assms by (auto simp: describes_def in_batch_def single_def)

lemma describes_single: "describes p bs bm g m \<Longrightarrow> \<exists>q. single RUNNING g q \<and> 0 < seq_get_len q"
  by (auto simp: describes_def)

lemma single_same: "single st g q \<Longrightarrow> single st g q' \<Longrightarrow> q = q'"
  by (simp add: single_def)

lemma prompt_batch:
  assumes "list_all2 (describes True bs bm) gs mds" and "\<forall>g \<in> set gs. samplable V True g" and "distinct (map sid gs)"
    and "list_all2 (prompts bs bm) gs rows" and "n \<in> pr_prompt_len ` set rows" and "\<forall>p \<in> set rows. pr_prompt_len p \<le> n"
  shows "sample_batch V True gs (zip mds (map pr_prompt_len rows)) (int n) (Some (map (int \<circ> pr_prompt_len) rows)) (map pr_prompt_len rows)"
proof -
  have len: "length mds = length gs" "length rows = length gs"
    using assms(1,4) by (auto dest: list_all2_lengthD)
  have "in_batch V True (gs ! j) (mds ! j) (pr_prompt_len (rows ! j))" if j: "j < length gs" for j
  proof -
    have "describes True bs bm (gs ! j) (mds ! j)" "prompts bs bm (gs ! j) (rows ! j)"
      using assms(1,4) j by (auto simp: list_all2_conv_all_nth)
    moreover have "samplable V True (gs ! j)" using assms(2) j by simp
    ultimately show ?thesis by (auto simp: prompts_def intro: describes_in_batch)
  qed
  then have "list_all2 (\<lambda>g x. in_batch V True g (fst x) (snd x)) gs (zip mds (map pr_prompt_len rows))"
    using len by (auto simp: list_all2_conv_all_nth)
  moreover have "int (snd x) \<le> int n" if "x \<in> set (zip mds (map pr_prompt_len rows))" for x
  proof -
    have "snd x \<in> set (map pr_prompt_len rows)" using that by (metis set_zip_rightD surjective_pairing)
    then show ?thesis using assms(6) by auto
  qed
  moreover have "py_max (map (int \<circ> pr_prompt_len) rows) = Inr (int n)"
  proof -
    have "Max (set (map (int \<circ> pr_prompt_len) rows)) = int n" using assms(5,6) by (intro Max_eqI) auto
    moreover have "map (int \<circ> pr_prompt_len) rows \<noteq> []" using assms(5) by auto
    ultimately show ?thesis using py_max_ok by metis
  qed
  moreover have "rows \<noteq> []" using assms(5) by auto
  moreover have "map snd (zip mds (map pr_prompt_len rows)) = map pr_prompt_len rows" using len by simp
  ultimately show ?thesis using assms(3) by (cases rows) (auto simp: sample_batch_def o_def)
qed

lemma decode_batch:
  assumes "list_all2 (describes False bs bm) gs mds" and "\<forall>g \<in> set gs. samplable V False g" and "distinct (map sid gs)"
  shows "sample_batch V False gs (zip mds (replicate (length mds) 1)) 1 None []"
proof -
  have len: "length mds = length gs" using assms(1) by (auto dest: list_all2_lengthD)
  have "in_batch V False (gs ! j) (mds ! j) 1" if j: "j < length gs" for j
  proof -
    have "describes False bs bm (gs ! j) (mds ! j)" using assms(1) j by (auto simp: list_all2_conv_all_nth)
    moreover have "samplable V False (gs ! j)" using assms(2) j by simp
    ultimately show ?thesis using describes_single describes_in_batch [where len = 1] by fastforce
  qed
  then have "list_all2 (\<lambda>g x. in_batch V False g (fst x) (snd x)) gs (zip mds (replicate (length mds) 1))"
    using len by (auto simp: list_all2_conv_all_nth)
  moreover have "snd x = 1" if "x \<in> set (zip mds (replicate (length mds) (1 :: nat)))" for x
    using that by (auto simp: set_zip)
  ultimately show ?thesis using assms(3) by (auto simp: sample_batch_def)
qed

lemma length_padded_rows:
  assumes "\<forall>p \<in> set rows. length (f p) \<le> n"
  shows "length (concat (map (\<lambda>p. padded n x (f p)) rows)) = n * length rows"
  using assms by (induction rows) (simp_all add: length_padded)

lemma runner_execute_model_ok:
  assumes "runner_ok bs r" and "list_all2 (describes p bs bm) gs mds" and "gs \<noteq> []" and "distinct (map sid gs)"
    and "\<forall>g \<in> set gs. samplable V p g" and "model_env_ok V env"
  shows "\<exists>outs r' c'. runner_execute_model env heap mds (r, c) = Inr (outs, r', c') \<and> runner_ok bs r' \<and>
    list_all2 (\<lambda>g. samples_one V (sid g)) gs outs"
proof -
  have len: "length mds = length gs" using assms(2) by (auto dest: list_all2_lengthD)
  have ne: "mds \<noteq> []" using assms(3) len by auto
  have "describes p bs bm (gs ! 0) (mds ! 0)" by (rule list_all2_nthD [OF assms(2)]) (use assms(3) in simp)
  then have "md_is_prompt (hd mds) = p" using ne by (auto simp: describes_def md_of_def hd_conv_nth)
  then have hd: "py_index mds 0 = Inr (hd mds)" "md_is_prompt (hd mds) = p" using ne by (simp_all add: py_index_hd)
  have forward: "length (fst (me_forward env c a b d)) = length (concat a)" for a b d using assms(6) by (simp add: model_env_ok_def)
  show ?thesis
  proof (cases p)
    case True
    have t: "list_all2 (describes True bs bm) gs mds" "\<forall>g \<in> set gs. samplable V True g" using assms(2,5) True by simp_all
    have none: "\<forall>g \<in> set gs. sg_prefix g = None" using assms(5) by (simp add: samplable_def Let_def)
    obtain i rows n where i: "prepare_prompt r heap mds = Inr i" "list_all2 (prompts bs bm) gs rows" "n \<in> pr_prompt_len ` set rows"
      "\<forall>p \<in> set rows. pr_prompt_len p \<le> n" "mi_tokens i = map (\<lambda>p. padded n 0 (pr_tokens p)) rows"
      "mi_prompt_lens i = map pr_prompt_len rows" "mi_subquery_lens i = Some (map (int \<circ> pr_prompt_len) rows)"
      "\<not> im_use_cuda_graph (mi_metadata i)"
      using prepare_prompt_ok [OF assms(1) t(1) none assms(3), of heap] by blast
    let ?ms = "zip mds (map pr_prompt_len rows)"
    let ?hidden = "fst (me_forward env c (mi_tokens i) (mi_positions i) (mi_metadata i))"
    have b: "sample_batch V True gs ?ms (int n) (mi_subquery_lens i) (mi_prompt_lens i)"
      using prompt_batch [OF t assms(4) i(2-4)] i(6,7) by simp
    have "length (pr_tokens p) = pr_prompt_len p" if "p \<in> set rows" for p
      using list_all2_partner [OF i(2) that] by (auto simp: prompts_def seq_get_len_def data_get_len_eq seq_get_token_ids_def)
    then have "length ?hidden = n * length rows" unfolding forward i(5) using i(4) by (intro length_padded_rows) simp
    moreover have rows: "length rows = length mds" using i(2) len by (auto dest: list_all2_lengthD)
    ultimately have "int n * int (length ?ms) \<le> int (length ?hidden)" by simp
    then obtain outs where outs: "sampler_forward env ?hidden (batch_sm (int n) ?ms (mi_prompt_lens i)) = Inr outs"
      "list_all2 (\<lambda>g. samples_one V (sid g)) gs outs" using sample_batch_ok [OF b assms(6)] by blast
    have "map fst ?ms = mds" using rows by simp
    then have "prepare_sample mds (mi_prompt_lens i) (mi_subquery_lens i) = Inr (batch_sm (int n) ?ms (mi_prompt_lens i))"
      using prepare_batch [OF b] by simp
    then show ?thesis using outs assms(1) i(1) i(8) hd True
      by (simp add: runner_execute_model_def prepare_input_tensors_def check_graph_def Let_def case_prod_beta')
  next
    case False
    have f: "list_all2 (describes False bs bm) gs mds" "\<forall>g \<in> set gs. samplable V False g" using assms(2,5) False by simp_all
    obtain i r' ds k where i: "prepare_decode r mds = Inr (i, r')" "runner_ok bs r'" "list_all2 (decodes bs bm) gs ds"
      "mi_tokens i = map (\<lambda>d. [dr_token d]) ds @ replicate k [0]" "mi_prompt_lens i = []" "mi_subquery_lens i = None"
      "im_use_cuda_graph (mi_metadata i) \<longrightarrow> length (mi_tokens i) \<in> set (mr_graph_runners r')"
      using prepare_decode_ok [OF assms(1) f(1) assms(3)] by blast
    let ?ms = "zip mds (replicate (length mds) (1 :: nat))"
    let ?hidden = "fst (me_forward env c (mi_tokens i) (mi_positions i) (mi_metadata i))"
    have b: "sample_batch V False gs ?ms 1 (mi_subquery_lens i) (mi_prompt_lens i)"
      using decode_batch [OF f assms(4)] i(5,6) by simp
    have "length (concat (map (\<lambda>d. [dr_token d]) ds)) = length ds" by (induction ds) simp_all
    moreover have "length (concat (replicate k [0 :: int])) = k" by (induction k) simp_all
    ultimately have "length ?hidden = length ds + k" unfolding forward i(4) by simp
    moreover have "length ds = length mds" using i(3) len by (auto dest: list_all2_lengthD)
    ultimately have "1 * int (length ?ms) \<le> int (length ?hidden)" by simp
    then obtain outs where outs: "sampler_forward env ?hidden (batch_sm 1 ?ms (mi_prompt_lens i)) = Inr outs"
      "list_all2 (\<lambda>g. samples_one V (sid g)) gs outs" using sample_batch_ok [OF b assms(6)] by blast
    have "map fst ?ms = mds" by simp
    then have "prepare_sample mds (mi_prompt_lens i) (mi_subquery_lens i) = Inr (batch_sm 1 ?ms (mi_prompt_lens i))"
      using prepare_batch [OF b] by simp
    then show ?thesis using outs i(1,2,7) hd False
      by (simp add: runner_execute_model_def prepare_input_tensors_def check_graph_def Let_def case_prod_beta')
  qed
qed

end
