(* ===== verification/Worker_Step.thy ===== *)
theory Worker_Step
  imports Worker Runner_Step Engine_Runs
begin

text \<open>
  The engine together with its worker: a step never raises and samples one token for each scheduled group, so
  that what the properties of the engine ask of \<open>execute\<close> is what the worker does; and the call of
  \<open>step_async\<close>, which the worker rejects.
\<close>

section \<open>What the worker needs\<close>

text \<open>A request for one sequence and its next token, without beam search, prefix and prompt log probabilities.\<close>

definition simple_request :: "nat \<Rightarrow> sampling_params \<times> prefix_ref option \<Rightarrow> bool" where
  "simple_request V = (\<lambda>(sp, prefix). best_of sp = 1 \<and> \<not> use_beam_search sp \<and> prefix = None \<and>
     prompt_logprobs sp = None \<and> (\<forall>n. logprobs sp = Some n \<longrightarrow> n \<le> int V))"

definition simple_requests :: "nat \<Rightarrow> llm_engine \<Rightarrow> bool" where
  "simple_requests V e \<longleftrightarrow>
     (\<forall>x \<in> (\<lambda>g. (sg_sampling_params g, sg_prefix g)) ` set (waiting (le_scheduler e) @ running (le_scheduler e)). simple_request V x)"

lemma simple_samplable: "simple_request V (sg_sampling_params g, sg_prefix g) \<Longrightarrow> samplable V p g"
  by (auto simp: simple_request_def samplable_def Let_def)

lemma samples_one_sampled:
  assumes "samples_one V (sid g) o1" and "int V \<le> vocab" and "single RUNNING g q"
  shows "sampled vocab g o1"
proof -
  have "sid g = seq_id q" using assms(3) by (simp add: sid_def single_def)
  then show ?thesis
    using assms(1,2) single_get_seqs [OF assms(3)] by (fastforce simp: sampled_def samples_one_def)
qed

section \<open>The worker on a scheduled batch\<close>

lemma worker_execute_model_ok:
  assumes "runner_ok bs (wk_runner w)" and "list_all2 (describes p bs bm) gs mds" and "distinct (map sid gs)"
    and "\<forall>g \<in> set gs. samplable V p g" and "model_env_ok V menv" and "blocks_to_reorganize out = []"
  shows "\<exists>outs kv' w'. worker_execute_model menv heap (step_args kv mds out) (kv, w) = Inr (outs, kv', w') \<and>
    kv' = kv \<and> runner_ok bs (wk_runner w') \<and> list_all2 (\<lambda>g. samples_one V (sid g)) gs outs"
proof -
  let ?io = "out_io out"
  obtain ce where ce: "cache_swap (blocks_to_swap_in ?io) (blocks_to_swap_out ?io) (blocks_to_copy ?io) [] n (wk_cache w) = Inr ce" for n
    by (simp add: cache_swap_def Let_def)
  have kv: "kv\<lparr>load_more_layer_on_card_num := load_more_layer_on_card_num kv\<rparr> = kv" by simp
  show ?thesis
  proof (cases "gs = []")
    case True
    then show ?thesis using assms(1,2) ce
      by (simp add: worker_execute_model_def step_args_def assert_not_none_def assms(6) Let_def)
  next
    case False
    then have ne: "mds \<noteq> []" using assms(2) by auto
    obtain outs r c where "runner_execute_model menv heap mds (wk_runner w, ce) = Inr (outs, r, c)" "runner_ok bs r"
      "list_all2 (\<lambda>g. samples_one V (sid g)) gs outs"
      using runner_execute_model_ok [OF assms(1,2) False assms(3-5)] by blast
    then show ?thesis using ce ne
      by (simp add: worker_execute_model_def step_args_def assert_not_none_def assms(6) Let_def)
  qed
qed

section \<open>The worker as the executor of the engine\<close>

text \<open>A sample for any group, for the batches that the step does not see.\<close>

definition any_sample :: "sequence_group \<Rightarrow> sequence_group_output" where
  "any_sample g = \<lparr>go_samples = [\<lparr>so_parent_seq_id = seq_id (hd (get_seqs (Some RUNNING) g)), so_output_token = 0, so_logprobs = [(0, 0)]\<rparr>],
     go_prompt_logprobs = None\<rparr>"

lemma executor_of:
  assumes "0 < vocab" and "list_all2 (sampled vocab) (scheduled_seq_groups out) outs"
  shows "\<exists>execute. samples_all vocab execute \<and> (\<forall>mds. execute mds out = outs)"
proof -
  let ?execute = "\<lambda>mds out'. if list_all2 (sampled vocab) (scheduled_seq_groups out') outs then outs
    else map any_sample (scheduled_seq_groups out')"
  have "sampled vocab g (any_sample g)" for g using assms(1) by (auto simp: sampled_def any_sample_def)
  then have "samples_all vocab ?execute" by (auto simp: samples_all_def list_all2_conv_all_nth)
  then show ?thesis using assms(2) by (intro exI [of _ ?execute]) simp
qed

lemma vocabulary_not_empty: "model_env_ok V menv \<Longrightarrow> 0 < V"
  unfolding model_env_ok_def ops_ok_def by (metis length_replicate gr_zeroI less_nat_zero_code)

section \<open>A step of the engine with its worker\<close>

lemma engine_worker_step_details:
  assumes "engine_ok E e" and "simple_requests V e" and "runner_ok (le_block_size e) (wk_runner w)"
    and "model_env_ok V menv" and "int V \<le> ee_tokenizer_len env"
  shows "\<exists>ros e' w' execute. engine_worker_step env menv now (e, w) = Inr (ros, e', w') \<and>
    samples_all (ee_tokenizer_len env) execute \<and> engine_step env now execute e = Inr (ros, e') \<and>
    engine_ok E e' \<and> simple_requests V e' \<and> runner_ok (le_block_size e') (wk_runner w')"
proof -
  let ?s = "le_scheduler e" and ?view = "\<lambda>g. (sg_sampling_params g, sg_prefix g)"
  have inv: "sched_ok E (sch_bm ?s) (waiting ?s) (running ?s)" "swapped ?s = []" "\<not> dynamic_increase_oncard_weights ?s"
    "0 < le_block_size e" "list_all (plain (le_block_size e) (le_seq_counter e)) (waiting ?s @ running ?s)"
    using assms(1) by (auto simp: engine_ok_def Let_def)
  from schedule_ok [OF inv(1-3,5), of now "le_kv e"] obtain mds out s1 others where sc:
    "sch_schedule now (le_kv e) ?s = Inr (mds, out, le_kv e, s1)" "sched_ok E (sch_bm s1) (waiting s1) (running s1)"
    "swapped s1 = []" "sch_config s1 = sch_config ?s"
    "list_all (plain (le_block_size e) (le_seq_counter e)) (waiting s1 @ running s1 @ ignored_seq_groups out)"
    "mset (running s1) = mset (scheduled_seq_groups out @ others)"
    "\<exists>it. sch_schedule_iter now ?s = Inr (it, s1) \<and> out = it\<lparr>blocks_to_reorganize := []\<rparr>"
    "\<forall>g \<in> set (scheduled_seq_groups out). covered (sch_bm s1) g" "list_all sg_is_finished (ignored_seq_groups out)"
    by (elim exE conjE) (rule that; (assumption | blast))
  let ?e = "e\<lparr>le_scheduler := s1, le_kv := (le_kv e)\<lparr>load_more_layer_on_card_num := 0\<rparr>\<rparr>" and ?gs = "scheduled_seq_groups out"
  have ok: "engine_ok E ?e" using sc(2-5) inv(3,4) by (auto simp: engine_ok_def Let_def sch_config_def)
  have desc: "list_all2 (describes (prompt_run out) (le_block_size e) (sch_bm s1)) ?gs mds"
    by (rule schedule_describes [OF assms(1) sc(1)])
  have views: "?view ` set (waiting s1 @ running s1) \<subseteq> ?view ` set (waiting ?s @ running ?s)"
    using sc(7) request_kind.iter_views inv(2) by fastforce
  have simple: "simple_request V (?view g)" if "g \<in> set (waiting s1 @ running s1)" for g
    using that views assms(2) unfolding simple_requests_def by blast
  have run: "set ?gs \<subseteq> set (running s1)" using mset_eq_setD [OF sc(6)] by auto
  have smp: "\<forall>g \<in> set ?gs. samplable V (prompt_run out) g"
  proof
    fix g assume "g \<in> set ?gs"
    then have "g \<in> set (waiting s1 @ running s1)" using run by auto
    then show "samplable V (prompt_run out) g" by (rule simple_samplable [OF simple])
  qed
  have "distinct (map sid (running s1))" using sc(2) by (simp add: sched_ok_def queues_ok_def)
  moreover have "mset (map sid (running s1)) = mset (map sid (?gs @ others))" by (simp only: mset_map sc(6))
  ultimately have "distinct (map sid (?gs @ others))" by (rule mset_eq_imp_distinct_iff [THEN iffD1, rotated])
  then have dist: "distinct (map sid ?gs)" by simp
  have reorg: "blocks_to_reorganize out = []" using sc(7) by auto
  obtain outs w' where w: "(if outputs_is_empty out then Inr ([], le_kv e, w)
      else worker_execute_model menv (prefix_heap (sch_bm s1)) (step_args (le_kv e) mds out) (le_kv e, w)) = Inr (outs, le_kv e, w')"
    "runner_ok (le_block_size e) (wk_runner w')" "list_all2 (\<lambda>g. samples_one V (sid g)) ?gs outs"
  proof (cases "outputs_is_empty out")
    case True
    then show ?thesis using that [of "[]" w] assms(3) by (simp add: outputs_is_empty_def)
  next
    case False
    from worker_execute_model_ok [OF assms(3) desc dist smp assms(4) reorg, of "prefix_heap (sch_bm s1)" "le_kv e"]
    show ?thesis using that False by auto
  qed
  have "\<exists>q. single RUNNING g q" if "g \<in> set ?gs" for g using sc(8) that by (auto simp: covered_def)
  then have smpd: "list_all2 (sampled (ee_tokenizer_len env)) ?gs outs"
    using w(3) samples_one_sampled [OF _ assms(5)] by (auto simp: list_all2_conv_all_nth) (metis nth_mem)
  from process_model_outputs_ok [OF ok smpd, of others now] sc(5,6,8) obtain ros e' dn where p:
    "process_model_outputs env now outs out ?e = Inr (ros, e')"
    "processed (ignored_seq_groups out) others ?e dn ros e'" "engine_ok E e'" "map fst dn = ?gs" by auto
  have sub: "?view ` set (waiting (le_scheduler e') @ running (le_scheduler e')) \<subseteq> ?view ` set (waiting s1 @ running s1)"
    using request_kind.processed_views [OF p(2)] sc(6) p(4) by simp
  have "\<forall>x \<in> ?view ` set (waiting s1 @ running s1). simple_request V x" using simple by auto
  then have "simple_requests V e'" unfolding simple_requests_def using subsetD [OF sub] by blast
  moreover have "le_block_size e' = le_block_size e" using p(2) by (simp add: processed_def engine_config_def)
  moreover have "engine_worker_step env menv now (e, w) = Inr (ros, e', w')"
    by (simp only: engine_worker_step_def prod.case sc(1) ebind_simps w(1) Let_def p(1))
  moreover have "\<exists>execute. samples_all (ee_tokenizer_len env) execute \<and> engine_step env now execute e = Inr (ros, e')"
  proof -
    have "0 < ee_tokenizer_len env" using vocabulary_not_empty [OF assms(4)] assms(5) by linarith
    then obtain execute where x: "samples_all (ee_tokenizer_len env) execute" "\<forall>mds. execute mds out = outs"
      using executor_of [OF _ smpd] by blast
    have "outs = []" if "outputs_is_empty out" using w(3) that by (simp add: outputs_is_empty_def)
    then have "engine_step env now execute e = Inr (ros, e')" using p(1) x(2) by (auto simp: engine_step_def sc(1) Let_def)
    then show ?thesis using x(1) by blast
  qed
  ultimately show ?thesis using p(3) w(2) by auto
qed

section \<open>Runs of the engine with its worker\<close>

text \<open>Adding, stepping and aborting as in \<open>engine_run\<close>; a step is now one with the worker.\<close>

inductive worker_run ::
    "engine_env \<Rightarrow> ('h, 'b cache_engine) model_env \<Rightarrow> nat \<Rightarrow> llm_engine \<times> 'b worker \<Rightarrow> req_id multiset \<Rightarrow> req_id multiset \<Rightarrow> req_id multiset
     \<Rightarrow> llm_engine \<Rightarrow> 'b worker \<Rightarrow> bool"
  for env menv V x0 where
  Start: "worker_run env menv V x0 {#} {#} {#} (fst x0) (snd x0)"
| Add: "worker_run env menv V x0 A F X e w \<Longrightarrow> encode_request env prompt token_ids lora = Inr ts \<Longrightarrow> ts \<noteq> [] \<Longrightarrow> single_output sp \<Longrightarrow>
    simple_request V (sp, None) \<Longrightarrow> lora = None \<or> le_lora_enabled e \<Longrightarrow>
    \<forall>g \<in> set (waiting (le_scheduler e) @ running (le_scheduler e)). is_int_id (request_id g) = is_int_id rid \<Longrightarrow>
    add_request env now rid prompt sp token_ids arrival lora None e = Inr e' \<Longrightarrow> worker_run env menv V x0 (add_mset rid A) F X e' w"
| Step: "worker_run env menv V x0 A F X e w \<Longrightarrow> engine_worker_step env menv now (e, w) = Inr (ros, e', w') \<Longrightarrow>
    worker_run env menv V x0 A (F + finished_ids ros) X e' w'"
| Abort: "worker_run env menv V x0 A F X e w \<Longrightarrow> abort_request rs e = Inr e' \<Longrightarrow>
    worker_run env menv V x0 A F (X + (queued (le_scheduler e) - queued (le_scheduler e'))) e' w"

text \<open>The invariant of a run.\<close>

definition system_ok :: "nat \<Rightarrow> llm_engine \<Rightarrow> 'b worker \<Rightarrow> bool" where
  "system_ok V e w \<longleftrightarrow> engine_ok {#} e \<and> simple_requests V e \<and> runner_ok (le_block_size e) (wk_runner w)"

lemma worker_run_inv:
  assumes "worker_run env menv V (e0, w0) A F X e w" and "system_ok V e0 w0"
    and "model_env_ok V menv" and "int V \<le> ee_tokenizer_len env"
  shows "system_ok V e w \<and> engine_run env e0 A F X e"
  using assms(1,2)
proof (induction rule: worker_run.induct)
  case Start
  then show ?case by (simp add: engine_run.Start)
next
  case (Add A F X e w prompt token_ids lora ts sp rid now arrival e')
  have IH: "system_ok V e w" "engine_run env e0 A F X e" using Add.IH Add.prems by simp_all
  from IH(1) have e: "engine_ok {#} e" by (simp add: system_ok_def)
  from add_request_inv [OF e Add.hyps(2-4,6,7), of now arrival] Add.hyps(8) obtain g where
    g: "e' = e\<lparr>le_seq_counter := le_seq_counter e + 1, le_scheduler := add_seq_group g (le_scheduler e)\<rparr>"
    "sg_sampling_params g = sp" "sg_prefix g = None" "engine_ok {#} e'" by auto
  have "simple_requests V e'" using IH(1) Add.hyps(5) g(2,3) by (simp add: simple_requests_def system_ok_def g(1) add_seq_group_def)
  moreover have "le_block_size e' = le_block_size e" by (simp add: g(1))
  moreover have "engine_run env e0 (add_mset rid A) F X e'" by (rule engine_run.Add [OF IH(2) Add.hyps(2-4,6-8)])
  ultimately show ?case using g(4) IH(1) by (simp add: system_ok_def)
next
  case (Step A F X e w now ros e' w')
  have IH: "engine_ok {#} e" "simple_requests V e" "runner_ok (le_block_size e) (wk_runner w)" "engine_run env e0 A F X e"
    using Step.IH Step.prems by (simp_all add: system_ok_def)
  obtain execute where x: "samples_all (ee_tokenizer_len env) execute" "engine_step env now execute e = Inr (ros, e')"
    "engine_ok {#} e'" "simple_requests V e'" "runner_ok (le_block_size e') (wk_runner w')"
    using engine_worker_step_details [OF IH(1-3) assms(3,4), of now] Step.hyps(2) by auto
  then show ?case using engine_run.Step [OF IH(4) x(1,2)] by (simp add: system_ok_def)
next
  case (Abort A F X e w rs e')
  have IH: "system_ok V e w" "engine_run env e0 A F X e" using Abort.IH Abort.prems by simp_all
  then have ok: "engine_ok {#} e" by (simp add: system_ok_def)
  obtain aw ar where a: "engine_ok {#} e'" "mset (waiting (le_scheduler e)) = mset (aw @ waiting (le_scheduler e'))"
    "mset (running (le_scheduler e)) = mset (ar @ running (le_scheduler e'))"
    using abort_request_ok [OF ok, of rs] Abort.hyps(2) by auto
  have bs: "le_block_size e' = le_block_size e" using Abort.hyps(2) by (auto simp: abort_request_def)
  have "set (waiting (le_scheduler e')) \<subseteq> set (waiting (le_scheduler e))" "set (running (le_scheduler e')) \<subseteq> set (running (le_scheduler e))"
    using mset_eq_setD [OF a(2)] mset_eq_setD [OF a(3)] by auto
  then have "simple_requests V e'" using IH(1) unfolding simple_requests_def system_ok_def by fastforce
  then show ?case using a(1) bs IH engine_run.Abort [OF IH(2) Abort.hyps(2)] by (simp add: system_ok_def)
qed

text \<open>C3: The engine with its worker refines the engine with an executor that samples one token for each
  scheduled group, the assumption under which the properties of the engine are stated: every run of adding,
  stepping and aborting is a run of that engine with the same requests added, finished and aborted, and in each
  state the next step returns. The model runner finds all slots and block tables, the sampler a token for each
  group. The requests want one sequence, no beam search, no prefix and no prompt log probabilities; the model
  is any function with the right shapes.\<close>

theorem worker_refines_executor:
  assumes "worker_run env menv V (e0, w0) A F X e w" and "system_ok V e0 w0"
    and "model_env_ok V menv" and "int V \<le> ee_tokenizer_len env"
  shows "engine_run env e0 A F X e \<and> (\<exists>ros e' w'. engine_worker_step env menv now (e, w) = Inr (ros, e', w') \<and> engine_ok {#} e')"
proof -
  have ok: "engine_ok {#} e" "simple_requests V e" "runner_ok (le_block_size e) (wk_runner w)"
    using worker_run_inv [OF assms] by (simp_all add: system_ok_def)
  show ?thesis using worker_run_inv [OF assms] engine_worker_step_details [OF ok assms(3,4), of now] by blast
qed

section \<open>The step of the asynchronous engine\<close>

lemma step_async_args_rejected: "worker_execute_model menv heap (step_async_args mds out) x = Inl AssertionError"
  by (cases x) (simp add: worker_execute_model_def step_async_args_def no_args_def assert_not_none_def)

text \<open>C17: \<open>step_async\<close> leaves out \<^verbatim>\<open>blocks_to_reorganize\<close>, which the driver worker asserts to be there: every turn of the
  asynchronous engine that schedules, swaps or copies anything raises an \<^verbatim>\<open>AssertionError\<close>, whatever the model.\<close>

theorem async_worker_step_raises:
  assumes "sch_schedule now (le_kv e) (le_scheduler e) = Inr (mds, out, kv, s)" and "\<not> outputs_is_empty out"
  shows "async_worker_step env menv now (e, w) = Inl AssertionError"
  using assms(2) by (simp add: async_worker_step_def step_async_begin_def assms(1) step_async_args_rejected)

end
