(* ===== verification/Cache_Props.thy ===== *)
theory Cache_Props
  imports Worker Weight_Loading Runner_Step
begin

text \<open>
  What the copies of the cache engine do to the contents of the KV cache: swapping and reorganising move the
  contents together with the block tables, so each sequence finds its keys and values again.
\<close>

section \<open>Chains of copies\<close>

text \<open>One chain, copied from its end.\<close>

fun chain_copy :: "int list \<Rightarrow> 'b memory \<Rightarrow> 'b memory" where
  "chain_copy (x # y # xs) m = (let m' = chain_copy (y # xs) m in m'(y := m' x))"
| "chain_copy _ m = m"

lemma chain_copy_outside: "z \<notin> set (tl p) \<Longrightarrow> chain_copy p m z = m z"
  by (induction p m rule: chain_copy.induct) (auto simp: Let_def)

lemma chain_copy_moves:
  assumes "one_origin mp" and "chain_ok mp p" and "distinct p" and "k \<in> set p" and "map_of mp k = Some v"
  shows "v \<in> set p \<and> chain_copy p m v = m k"
  using assms
proof (induction mp p rule: chain_ok.induct)
  case (3 mp x y xs)
  have x: "x \<notin> set (y # xs)" "distinct (y # xs)" using 3(4) by simp_all
  show ?case
  proof (cases "k = x")
    case True
    then have "v = y" using 3(3,6) by simp
    then show ?thesis using True x chain_copy_outside [of x "y # xs" m] by (simp add: Let_def)
  next
    case False
    then have IH: "v \<in> set (y # xs)" "chain_copy (y # xs) m v = m k" using 3 by simp_all
    have "v \<noteq> y" using False 3(2,3,6) by (auto simp: one_origin_def)
    then show ?thesis using IH by (simp add: Let_def)
  qed
qed simp_all

lemma chains_copy_outside: "z \<notin> set (concat qs) \<Longrightarrow> fold chain_copy qs m z = m z"
proof (induction qs arbitrary: m)
  case Nil
  then show ?case by simp
next
  case (Cons q qs)
  have "z \<notin> set (tl q)" using Cons.prems by (cases q) auto
  then show ?case using Cons by (simp add: chain_copy_outside)
qed

lemma chains_copy_moves:
  assumes "one_origin mp" and "\<forall>q \<in> set qs. chain_ok mp q" and "distinct (concat qs)" and "k \<in> set (concat qs)" and "map_of mp k = Some v"
  shows "fold chain_copy qs m v = m k"
  using assms(2-4)
proof (induction qs arbitrary: m)
  case Nil
  then show ?case by simp
next
  case (Cons q qs)
  have d: "distinct q" "distinct (concat qs)" "set q \<inter> set (concat qs) = {}" using Cons.prems(2) by (auto simp: distinct_append)
  show ?case
  proof (cases "k \<in> set q")
    case True
    then have "v \<in> set q" "chain_copy q m v = m k" using chain_copy_moves [OF assms(1) _ d(1) True assms(5)] Cons.prems(1) by auto
    then show ?thesis using d(3) chains_copy_outside [of v qs "chain_copy q m"] by auto
  next
    case False
    then have "k \<in> set (concat qs)" using Cons.prems(3) by simp
    then have "fold chain_copy qs (chain_copy q m) v = chain_copy q m k" using Cons.IH d(2) Cons.prems(1) by simp
    moreover have "k \<notin> set (tl q)" using False by (cases q) auto
    ultimately show ?thesis by (simp add: chain_copy_outside)
  qed
qed

text \<open>What stays in place is in no chain.\<close>

lemma chain_no_fixed: "chain_ok mp p \<Longrightarrow> map_of mp k = Some k \<Longrightarrow> k \<notin> set p"
proof (induction mp p rule: chain_ok.induct)
  case (3 mp x y xs)
  then show ?case using chain_no_loop [of mp x "y # xs"] by auto
qed auto

text \<open>The kernel works on the flat arrays of the chains and their offsets.\<close>

lemma kernel_chain_eq:
  assumes "n = length pre" and "h = length pre + length p"
  shows "kernel_chain (pre @ p @ post) n h m = chain_copy p m"
  using assms
proof (induction p m arbitrary: pre n rule: chain_copy.induct)
  case (1 x y xs m)
  let ?cs = "pre @ (x # y # xs) @ post"
  have IH: "kernel_chain ?cs (Suc n) h m = chain_copy (y # xs) m"
    using "1.IH" [of "Suc n" "pre @ [x]"] "1.prems" by simp
  have "[Suc n..<h] = Suc n # [Suc (Suc n)..<h]" using "1.prems" by (intro upt_conv_Cons) simp
  then have "kernel_chain ?cs n h m = (kernel_chain ?cs (Suc n) h m)(?cs ! Suc n := kernel_chain ?cs (Suc n) h m (?cs ! n))"
    by (simp add: kernel_chain_def)
  moreover have "?cs ! n = x" "?cs ! Suc n = y" using "1.prems"(1) by (simp_all add: nth_append)
  ultimately show ?case unfolding IH by (simp add: Let_def)
qed (simp_all add: kernel_chain_def)

lemma reorganize_kernel_eq: "reorganize_kernel (concat qs) (0 # offsets 0 qs) m = fold chain_copy qs m"
proof -
  have "fold (\<lambda>(lo, hi). kernel_chain (pre @ concat qs) (nat lo) (nat hi))
      (zip (int (length pre) # offsets (int (length pre)) qs) (offsets (int (length pre)) qs)) m = fold chain_copy qs m" for pre
  proof (induction qs arbitrary: pre m)
    case Nil
    then show ?case by simp
  next
    case (Cons q qs)
    have "kernel_chain (pre @ q @ concat qs) (length pre) (length pre + length q) m = chain_copy q m" by (rule kernel_chain_eq) simp_all
    moreover have "nat (int (length pre) + int (length q)) = length pre + length q" by simp
    ultimately show ?case using Cons.IH [of "pre @ q" "chain_copy q m"] by simp
  qed
  from this [of "[]"] show ?thesis by (simp add: reorganize_kernel_def)
qed

section \<open>Reorganising for layer weights\<close>

lemma layer_mapping_SomeI:
  assumes "moves_down cur ori d" and "map_of d k = Some v" and "0 \<le> i" and "i < 2 * layers"
  shows "map_of (layer_mapping layers ori cur d) (k + ori * i) = Some (v + cur * i)"
proof -
  let ?row = "\<lambda>i. map (\<lambda>(k, v). (k + ori * i, v + cur * i)) d" and ?x = "k + ori * i"
  have d: "dict_ok d" "\<And>k v. map_of d k = Some v \<Longrightarrow> 0 \<le> k \<and> k < ori" using assms(1) unfolding moves_down_def by blast+
  have mem: "(k, v) \<in> set d" using assms(2) by (rule map_of_SomeD)
  have row: "distinct (map fst (?row i))" "(?x, v + cur * i) \<in> set (?row i)"
    using d(1) mem by (auto simp: distinct_map inj_on_def o_def case_prod_beta' intro!: image_eqI [of _ _ "(k, v)"])
  have other: "?x \<notin> fst ` set (?row j)" if "j \<noteq> i" for j
  proof
    assume "?x \<in> fst ` set (?row j)"
    then obtain k' v' where "(k', v') \<in> set d" "?x = k' + ori * j" by auto
    then show False using div_unique_pair [of k ori i k' j] d assms(2) that map_of_is_SomeI [OF d(1)] by blast
  qed
  have keep: "map_of (fold (\<lambda>i m. dict_update m (?row i)) js m) ?x = map_of m ?x" if "i \<notin> set js" for js m
    using that
  proof (induction js arbitrary: m)
    case (Cons j js)
    then show ?case using other [of j] by (simp add: dict_update_other del: set_map)
  qed simp
  show ?thesis
  proof (cases "i = 0")
    case True
    then show ?thesis using keep [of "[1..2 * layers - 1]" d] assms(2) by (simp add: layer_mapping_def)
  next
    case False
    then have "i \<in> set [1..2 * layers - 1]" using assms(3,4) by simp
    then obtain as bs where js: "[1..2 * layers - 1] = as @ i # bs" by (meson split_list)
    have "distinct [1..2 * layers - 1]" by simp
    then have "i \<notin> set bs" unfolding js by simp
    then show ?thesis using keep [of bs] dict_update_member [OF row]
      unfolding layer_mapping_def js by simp
  qed
qed

text \<open>The contents of a block in a plane move to where the new view has the block's new number.\<close>

lemma reorganized_contents:
  assumes "moves_down (actual_gpu_blk_rng_end s)
      (actual_gpu_blk_rng_end s + load_more_layer_on_card_num kv * blk_num_per_layer kv) d"
    and "get_dependent_blk_moving_chains d kv s = Inr (cs, chain_lens)"
    and "map_of d k = Some v" and "int p < 2 * layer_num kv"
  shows "reorganize_kernel cs chain_lens m (cache_unit (actual_gpu_blk_rng_end s) p v) =
    m (cache_unit (actual_gpu_blk_rng_end s + load_more_layer_on_card_num kv * blk_num_per_layer kv) p k)"
proof -
  let ?cur = "actual_gpu_blk_rng_end s" and ?ori = "actual_gpu_blk_rng_end s + load_more_layer_on_card_num kv * blk_num_per_layer kv"
  let ?m = "layer_mapping (layer_num kv) ?ori ?cur d"
  obtain qs where qs: "cs = concat qs" "chain_lens = 0 # offsets 0 qs" "\<forall>q \<in> set qs. chain_ok ?m q" "distinct (concat qs)"
    "\<forall>k v. map_of ?m k = Some v \<and> v \<noteq> k \<longrightarrow> k \<in> set (concat qs)"
    using chains_ok [OF assms(1)] assms(2) by auto
  have one: "one_origin ?m" by (rule layer_mapping_one_origin [OF assms(1)])
  have mv: "map_of ?m (cache_unit ?ori p k) = Some (cache_unit ?cur p v)"
    using layer_mapping_SomeI [OF assms(1,3), of "int p"] assms(4) by (simp add: cache_unit_def algebra_simps)
  show ?thesis
  proof (cases "cache_unit ?ori p k = cache_unit ?cur p v")
    case True
    then have "cache_unit ?ori p k \<notin> set (concat qs)" using mv qs(3) chain_no_fixed by fastforce
    then show ?thesis using True chains_copy_outside by (metis qs(1,2) reorganize_kernel_eq)
  next
    case False
    then have "cache_unit ?ori p k \<in> set (concat qs)" using mv qs(5) by metis
    then show ?thesis using chains_copy_moves [OF one qs(3,4) _ mv] unfolding qs(1,2) reorganize_kernel_eq by blast
  qed
qed

text \<open>The keys and values of a sequence: for each plane of the cache the contents of the blocks of its table.\<close>

definition kv_of :: "'b cache_engine \<Rightarrow> block_id list \<Rightarrow> 'b list list" where
  "kv_of ce t = map (\<lambda>p. map (\<lambda>b. ce_gpu ce (cache_unit (ce_num_gpu_blocks ce) p (int (blk_number b)))) t) [0..<2 * ce_num_layers ce]"

text \<open>C4: When layer weights take over blocks of the KV cache, no sequence loses its keys and values: what
  \<open>increase_layer_weight_on_comp_gpu\<close> decides, the worker carries out without an error, its view then has the
  blocks that the block manager still counts, and through the renumbered block table each sequence reads in
  every plane of every layer what it read before through the old table in the old, wider view.\<close>

theorem kv_survives_reorganisation:
  assumes "weights_ok E (sch_bm s)" and "0 \<le> actual_gpu_blk_rng_end (sch_bm s)" and "0 \<le> blk_num_per_layer kv"
    and "0 \<le> cached_layer_num kv" and "layer_num kv = int (ce_num_layers ce)"
    and "ce_continuous ce" and "ce_num_gpu_blocks ce = actual_gpu_blk_rng_end (sch_bm s)"
  shows "\<exists>d kv' bm' ce'. increase_layer_weight_on_comp_gpu kv s = Inr (d, kv', s\<lparr>sch_bm := bm'\<rparr>) \<and>
    cache_swap [] [] [] d (blk_num_per_layer kv' * load_more_layer_on_card_num kv') ce = Inr ce' \<and>
    ce_num_gpu_blocks ce' = actual_gpu_blk_rng_end bm' \<and>
    (\<forall>k t. map_of (block_tables (sch_bm s)) k = Some t \<and> (\<forall>b \<in> set t. int (blk_number b) < actual_gpu_blk_rng_end (sch_bm s)) \<longrightarrow>
       (\<exists>t'. map_of (block_tables bm') k = Some t' \<and> kv_of ce' t' = kv_of ce t))"
proof (cases rule: increase_layer_details [OF assms(1-4), case_names Idle Load])
  case Idle
  then show ?thesis using assms(7)
    by (intro exI [of _ "[]"] exI [of _ kv] exI [of _ "sch_bm s"] exI [of _ ce]) (simp add: cache_swap_def)
next
  case (Load n ret u mv cs chain_lens kv' hi lo)
  let ?ce = "ce\<lparr>ce_num_gpu_blocks := lo, ce_gpu := reorganize_kernel cs chain_lens (ce_gpu ce)\<rparr>"
  have hi: "lo + load_more_layer_on_card_num kv' * blk_num_per_layer kv' = hi" using Load(2,3) by simp
  have layers: "layer_num kv' = int (ce_num_layers ce)" using Load(3) assms(5) by simp
  have mv: "moves_down (actual_gpu_blk_rng_end u) (actual_gpu_blk_rng_end u + load_more_layer_on_card_num kv' * blk_num_per_layer kv') ret"
    using Load(9) by (simp only: hi Load(8))
  have view: "ce_num_gpu_blocks ce - blk_num_per_layer kv' * load_more_layer_on_card_num kv' = lo" using Load(1-3) assms(7) by simp
  have run: "cache_swap [] [] [] [(0, cs), (1, chain_lens)] (blk_num_per_layer kv' * load_more_layer_on_card_num kv') ce = Inr ?ce"
    using assms(6) Load(7) by (simp add: cache_swap_def cache_reorganize_def update_KV_cache_organization_def view Let_def dict_get_def)
  have tabs: "\<exists>t'. map_of (block_tables u) k = Some t' \<and> kv_of ?ce t' = kv_of ce t"
    if t: "map_of (block_tables (sch_bm s)) k = Some t" and below: "\<forall>b \<in> set t. int (blk_number b) < actual_gpu_blk_rng_end (sch_bm s)" for k t
  proof -
    have "reorganize_kernel cs chain_lens (ce_gpu ce) (cache_unit lo p (int (blk_number (mv b)))) =
        ce_gpu ce (cache_unit (ce_num_gpu_blocks ce) p (int (blk_number b)))" if "b \<in> set t" "p < 2 * ce_num_layers ce" for b p
    proof -
      have "map_of ret (int (blk_number b)) = Some (int (blk_number (mv b)))"
        using Load(1,12) below table_refs_lookup_mem [OF t] that(1) by simp
      from reorganized_contents [OF mv Load(5) this, of p "ce_gpu ce"] that(2) layers
      show ?thesis by (simp only: hi Load(8) assms(7) Load(1))
    qed
    then have "kv_of ?ce (map mv t) = kv_of ce t" by (simp add: kv_of_def)
    moreover have "map_of (block_tables u) k = Some (map mv t)" using t by (simp add: Load(10) map_of_map)
    ultimately show ?thesis by blast
  qed
  show ?thesis using Load(4,8) run tabs by (intro exI [of _ "[(0, cs), (1, chain_lens)]"] exI [of _ kv'] exI [of _ u] exI [of _ ?ce]) simp
qed

end
