(* ===== verification/Worker_Examples.thy ===== *)
theory Worker_Examples
  imports Worker_Step Cache_Props Engine_Examples Sched_Runs
begin

text \<open>
  Concrete models for the properties of the worker: a vocabulary of ten tokens, hidden states without content,
  a sampler that always takes the first token; and the order of the copies in a step that also reorganises.
\<close>

definition ex_ops :: torch_ops where
  "ex_ops = \<lparr>t_argmax = (\<lambda>_. 0), t_topk = (\<lambda>row k. map (\<lambda>i. (row ! i, i)) [0..<k]),
     t_multinomial = (\<lambda>rows n. map (\<lambda>_. replicate n 0) rows), t_add = (+)\<rparr>"

definition ex_model :: "(unit, 'c) model_env" where
  "ex_model = \<lparr>me_forward = (\<lambda>c tokens _ _. (replicate (length (concat tokens)) (), c)),
     me_probs = (\<lambda>h _. map (\<lambda>_. replicate 10 0) h), me_logprobs = (\<lambda>h _. map (\<lambda>_. replicate 10 0) h), me_ops = ex_ops\<rparr>"

lemma ex_model_ok: "model_env_ok 10 ex_model"
  by (auto simp: model_env_ok_def ops_ok_def ex_model_def ex_ops_def)

definition ex_runner :: model_runner where
  "ex_runner = \<lparr>mr_block_size = 2, mr_sliding_window = None, mr_enforce_eager = True, mr_max_context_len_to_capture = 4,
     mr_kv_cache_dtype = ''auto'', mr_lora_enabled = False, mr_graph_block_tables = replicate max_captured_batch [0, 0],
     mr_graph_runners = []\<rparr>"

lemma ex_runner_ok: "runner_ok 2 ex_runner"
  by (simp add: runner_ok_def ex_runner_def)

definition ex_gpu_worker :: "int worker" where
  "ex_gpu_worker = \<lparr>wk_runner = ex_runner, wk_cache = \<lparr>ce_num_layers = 2, ce_num_gpu_blocks = 4, ce_num_cpu_blocks = 4,
     ce_continuous = True, ce_gpu = id, ce_cpu = id\<rparr>\<rparr>"

lemma ex_system_ok: "system_ok 10 ex_idle ex_gpu_worker"
  using ex_idle_ok(1) ex_runner_ok
  by (simp add: system_ok_def simple_requests_def) (simp add: ex_idle_def ex_engine_def ex_sched_def ex_gpu_worker_def)

section \<open>A run with the worker\<close>

lemma ex_simple: "simple_request 10 (ex_sp, None)"
  by (simp add: simple_request_def ex_sp_def default_sampling_args_def)

lemma ex_worker_run_add:
  "\<exists>e. worker_run ex_env ex_model 10 (ex_idle, ex_gpu_worker) {#IntId 7#} {#} {#} e ex_gpu_worker"
proof -
  have idle: "waiting (le_scheduler ex_idle) = []" "running (le_scheduler ex_idle) = []"
    by (simp_all add: ex_idle_def ex_engine_def ex_sched_def)
  have enc: "encode_request ex_env None (Some [5]) None = Inr [5]" by (simp add: encode_request_def)
  obtain e where e: "add_request ex_env 0 (IntId 7) None ex_sp (Some [5]) None None None ex_idle = Inr e"
    using add_request_inv [OF ex_idle_ok(1) enc _ ex_single_output, where rid = "IntId 7" and now = 0 and arrival = None] idle by auto
  have start: "worker_run ex_env ex_model 10 (ex_idle, ex_gpu_worker) {#} {#} {#} ex_idle ex_gpu_worker"
    using worker_run.Start [of ex_env ex_model 10 "(ex_idle, ex_gpu_worker)"] by simp
  have "worker_run ex_env ex_model 10 (ex_idle, ex_gpu_worker) {#IntId 7#} {#} {#} e ex_gpu_worker"
    by (rule worker_run.Add [OF start enc _ ex_single_output ex_simple _ _ e]) (simp_all add: idle)
  then show ?thesis by blast
qed

theorem worker_refines_executor_witness:
  "\<exists>ros e e' w'. worker_run ex_env ex_model 10 (ex_idle, ex_gpu_worker) {#IntId 7#} {#} {#} e ex_gpu_worker \<and>
     engine_run ex_env ex_idle {#IntId 7#} {#} {#} e \<and> engine_worker_step ex_env ex_model 3 (e, ex_gpu_worker) = Inr (ros, e', w')"
proof -
  obtain e where e: "worker_run ex_env ex_model 10 (ex_idle, ex_gpu_worker) {#IntId 7#} {#} {#} e ex_gpu_worker"
    using ex_worker_run_add by blast
  have "int 10 \<le> ee_tokenizer_len ex_env" by (simp add: ex_env_def)
  from worker_refines_executor [OF e ex_system_ok ex_model_ok this, of 3] e show ?thesis by blast
qed

theorem async_worker_step_raises_witness:
  "async_worker_step ex_env ex_model 0 (ex_engine\<lparr>le_scheduler := ex_sched\<rparr>, ex_gpu_worker) = Inl AssertionError"
proof -
  obtain t where t: "get_block_table (ex_seq RUNNING 1) ex_bm1 = Inr t"
    by (rule ex_bm1_ok) (auto simp: get_block_table_def dict_get_def ex_seq_def split: option.splits)
  have "increase_layer_weight_on_comp_gpu kv ex_sched = Inr ([], kv, ex_sched)" for kv
    by (simp add: increase_layer_weight_on_comp_gpu_def)
  then have "\<exists>mds. sch_schedule 0 (le_kv e) ex_sched = Inr (mds, ex_out\<lparr>blocks_to_reorganize := []\<rparr>, le_kv e, ex_sched1)" for e
    using t by (simp add: sch_schedule_def ex_prompt_run Let_def ex_out_def ex_sched1_def metadata_of_def get_seqs_def ex_group_def)
  then obtain mds where "sch_schedule 0 (le_kv (ex_engine\<lparr>le_scheduler := ex_sched\<rparr>)) (le_scheduler (ex_engine\<lparr>le_scheduler := ex_sched\<rparr>)) =
      Inr (mds, ex_out\<lparr>blocks_to_reorganize := []\<rparr>, le_kv (ex_engine\<lparr>le_scheduler := ex_sched\<rparr>), ex_sched1)" by auto
  then show ?thesis by (rule async_worker_step_raises) (simp add: outputs_is_empty_def ex_out_def)
qed

section \<open>Reorganising\<close>

theorem kv_survives_reorganisation_witness:
  "\<exists>d kv' bm' ce'. increase_layer_weight_on_comp_gpu ex_kv ex_sched_full = Inr (d, kv', ex_sched_full\<lparr>sch_bm := bm'\<rparr>) \<and>
     (\<exists>t'. map_of (block_tables bm') 1 = Some t' \<and> kv_of ce' t' = kv_of (wk_cache ex_gpu_worker) [(GPU, 3), (GPU, 2)])"
proof -
  let ?ce = "wk_cache ex_gpu_worker"
  have bm: "sch_bm ex_sched_full = ex_full" by (simp add: ex_sched_full_def)
  have w: "weights_ok {#} ex_full" by (rule ex_full_weights)
  have hyps: "0 \<le> actual_gpu_blk_rng_end ex_full" "0 \<le> blk_num_per_layer ex_kv" "0 \<le> cached_layer_num ex_kv"
    "layer_num ex_kv = int (ce_num_layers ?ce)" "ce_continuous ?ce" "ce_num_gpu_blocks ?ce = actual_gpu_blk_rng_end ex_full"
    by (simp_all add: ex_full_def ex_kv_def ex_gpu_worker_def)
  obtain d kv' bm' ce' where r: "increase_layer_weight_on_comp_gpu ex_kv ex_sched_full = Inr (d, kv', ex_sched_full\<lparr>sch_bm := bm'\<rparr>)"
    "\<forall>k t. map_of (block_tables ex_full) k = Some t \<and> (\<forall>b \<in> set t. int (blk_number b) < actual_gpu_blk_rng_end ex_full) \<longrightarrow>
       (\<exists>t'. map_of (block_tables bm') k = Some t' \<and> kv_of ce' t' = kv_of ?ce t)"
    using kv_survives_reorganisation [of "{#}" ex_sched_full ex_kv ?ce, unfolded bm, OF w hyps] by blast
  have "map_of (block_tables ex_full) 1 = Some [(GPU, 3), (GPU, 2)]"
    "\<forall>b \<in> set [(GPU, 3), (GPU, 2)]. int (blk_number b) < actual_gpu_blk_rng_end ex_full" by (simp_all add: ex_full_def)
  then show ?thesis using r by blast
qed

text \<open>A cache with one layer whose fourth block is to be given up, as \<open>reorganize_gpu_blocks\<close> leaves the manager.\<close>

definition ex_one_layer :: "'b memory \<Rightarrow> 'b cache_engine" where
  "ex_one_layer m = \<lparr>ce_num_layers = 1, ce_num_gpu_blocks = 4, ce_num_cpu_blocks = 0, ce_continuous = True, ce_gpu = m, ce_cpu = m\<rparr>"

definition ex_kv_loading :: kv_per_layer_weight where
  "ex_kv_loading = ex_kv\<lparr>layer_num := 1, load_more_layer_on_card_num := 1\<rparr>"


end
