(* ===== verification/Fake_Schedule.thy ===== *)
theory Fake_Schedule
  imports Float64
begin

text \<open>
  \<^verbatim>\<open>benchmarks/fake_scheduling.py\<close>: the simulated scheduler of the planner. It predicts from the input and output
  lengths of the requests in which iterations each of them takes part, and from this what an execution plan
  costs. Modelled is the simulation of a model whose requests are all there at the start, and what the planner
  reads from it. A state of the arrays \<^verbatim>\<open>running_seqs[:, :running_seqs_num]\<close> is a list of columns, and of
  \<^verbatim>\<open>seq_ids\<close>, \<^verbatim>\<open>inp_lens\<close> and \<^verbatim>\<open>out_lens\<close> only what stands behind \<^verbatim>\<open>pointer\<close> is kept, the requests that wait:
  the code never reads what is before it. Left out are the latencies, which come from a cost table.
\<close>

section \<open>Ranges of iterations\<close>

text \<open>
  The progress of a request is a flat list \<^verbatim>\<open>[start1, end1, start2, end2, ...]\<close> of the iterations in which
  it takes part, both ends included.
\<close>

definition add_one_infer_rng :: "int list \<Rightarrow> int \<Rightarrow> int \<Rightarrow> int list" where
  "add_one_infer_rng rngs start stop =
     (if rngs = [] then [start, stop]
      else if last rngs + 1 = start then butlast rngs @ [stop]
      else rngs @ [start, stop])"

definition store_infer_state :: "int \<Rightarrow> int \<Rightarrow> nat list \<Rightarrow> int list list \<Rightarrow> int list list" where
  "store_infer_state start stop seq_ids progress =
     fold (\<lambda>i p. p[i := add_one_infer_rng (p ! i) start stop]) seq_ids progress"

section \<open>Blocks\<close>

record sim_args =
  sa_max_seq_num :: nat
  sa_max_block_num :: int
  sa_max_num_batched_tokens :: int
  sa_block_size :: int

definition blocks_of :: "int \<Rightarrow> int \<Rightarrow> int" where
  "blocks_of bs n = (n + bs - 1) div bs"

definition has_enough_cache :: "sim_args \<Rightarrow> int \<Rightarrow> int \<Rightarrow> bool \<Rightarrow> bool result" where
  "has_enough_cache a block_num_used new_token_num consider_watermark =
     (if sa_block_size a = 0 then Inl ZeroDivisionError
      else let new_block_num = blocks_of (sa_block_size a) new_token_num; m = sa_max_block_num a in
        Inr (if consider_watermark then f64_mul f64_hundredth (of_int m) \<le> of_int (m - block_num_used - new_block_num)
             else block_num_used + new_block_num \<le> m))"

text \<open>A request is its number, its length and the tokens it still has to generate.\<close>

type_synonym sim_seq = "nat \<times> int \<times> int"

definition used_blocks :: "int \<Rightarrow> sim_seq list \<Rightarrow> int" where
  "used_blocks bs run = sum_list (map (\<lambda>(_, l, _). blocks_of bs (l - 1)) run)"

fun cumsum :: "int \<Rightarrow> int list \<Rightarrow> int list" where
  "cumsum acc [] = []"
| "cumsum acc (x # xs) = (acc + x) # cumsum (acc + x) xs"

text \<open>
  \<open>get_max_iter_num\<close>: how many iterations all running requests can make with the blocks that are left. Without
  running requests the indexing raises.
\<close>

definition first_above :: "int \<Rightarrow> int list \<Rightarrow> nat result" where
  "first_above left xs =
     (let k = length (takeWhile (\<lambda>x. \<not> left < x) xs) in if k < length xs then Inr k else Inl IndexError)"

definition get_max_iter_num :: "sim_args \<Rightarrow> int \<Rightarrow> sim_seq list \<Rightarrow> int result" where
  "get_max_iter_num a block_num_used run =
     (if run = [] then Inl IndexError
      else let bs = sa_block_size a; n = int (length run);
               iter_num = (sa_max_block_num a - block_num_used) div n * bs;
               extras = map (\<lambda>(_, l, _). (- l + 1) mod bs + 1) run;
               extra_iter_nums = sort (remdups extras);
               counts = map (\<lambda>e. int (count_list extras e)) extra_iter_nums;
               block_num_left = (sa_max_block_num a - block_num_used) mod n
           in ebind (first_above block_num_left (cumsum 0 counts)) (\<lambda>k.
                Inr (min (Min (set (map (\<lambda>(_, _, r). r) run))) (iter_num + (extra_iter_nums ! k - 1)))))"

definition remove_finished_seqs :: "int \<Rightarrow> sim_seq list \<Rightarrow> int \<Rightarrow> sim_seq list \<times> int \<times> int" where
  "remove_finished_seqs bs run unfinished =
     (let run' = filter (\<lambda>(_, _, r). r \<noteq> 0) run
      in (run', unfinished - (int (length run) - int (length run')), used_blocks bs run'))"

text \<open>The killed requests go back to the front of the waiting ones.\<close>

definition py_maximum :: "int list \<Rightarrow> int result" where
  "py_maximum xs = (if xs = [] then Inl (ValueError ''max() arg is an empty sequence'') else Inr (Max (set xs)))"

definition kill_seqs_for_more_cache_space :: "sim_args \<Rightarrow> sim_seq list \<Rightarrow> sim_seq list \<Rightarrow> (int \<times> sim_seq list \<times> sim_seq list) result" where
  "kill_seqs_for_more_cache_space a run waiting =
     (let bs = sa_block_size a;
          new_block_nums = map (\<lambda>(_, l, _). blocks_of bs l) run;
          approx = map2 (+) (map (\<lambda>(_, l, _). blocks_of bs (l - 1) + 1) run) (0 # cumsum 0 new_block_nums)
      in ebind (py_maximum approx) (\<lambda>m.
         let k = (if m > sa_max_block_num a then length (takeWhile (\<lambda>x. \<not> x > sa_max_block_num a) approx) else length run)
         in Inr (used_blocks bs (take k run), take k run, drop k run @ waiting)))"

section \<open>Prefill steps\<close>

text \<open>
  An entry of the log of a prefill step: the number of requests, their tokens, the sum for the attention and the
  longest one; and for the floating point operations the requests and tokens, where a request that has not run
  before counts one by one. The sum that is halved is even.
\<close>

type_synonym prefill_log = "int \<times> int \<times> int \<times> int"

definition get_prefill_step :: "int list list \<Rightarrow> (nat \<times> int) list \<Rightarrow> (prefill_log \<times> int \<times> int) result" where
  "get_prefill_step progress ps =
     ebind (py_maximum (map snd ps)) (\<lambda>max_seqlen.
     let n = int (length ps); tot = sum_list (map snd ps);
         fresh = map snd (filter (\<lambda>(i, _). progress ! i = []) ps)
     in Inr ((n, tot, sum_list (map (\<lambda>l. (1 + l) * l) (map snd ps)), max_seqlen),
             n + sum_list (map (\<lambda>l. l - 1) fresh), tot + sum_list (map (\<lambda>l. l * (l - 1)) fresh) div 2))"

record sim_logs =
  sl_prefill :: "prefill_log list"
  sl_valid_prefill :: "(int \<times> int) list"
  sl_decode :: "prefill_log list"
  sl_progress :: "int list list"
  sl_is_prefill :: "bool list"
  sl_iter :: int

definition record_prefill :: "(nat \<times> int) list \<Rightarrow> sim_logs \<Rightarrow> sim_logs result" where
  "record_prefill ps l =
     ebind (get_prefill_step (sl_progress l) ps) (\<lambda>(log, valid).
       Inr (l\<lparr>sl_prefill := sl_prefill l @ [log], sl_valid_prefill := sl_valid_prefill l @ [valid],
              sl_progress := store_infer_state (sl_iter l) (sl_iter l) (map fst ps) (sl_progress l), sl_iter := sl_iter l + 1\<rparr>))"

fun prefill_batches :: "int \<Rightarrow> (nat \<times> int) list \<Rightarrow> (nat \<times> int) list \<Rightarrow> sim_logs \<Rightarrow> sim_logs result" where
  "prefill_batches max_tokens batch [] l = record_prefill batch l"
| "prefill_batches max_tokens batch (p # ps) l =
     (if Max (set (map snd (batch @ [p]))) * int (length batch + 1) \<le> max_tokens
      then prefill_batches max_tokens (batch @ [p]) ps l
      else ebind (record_prefill batch l) (prefill_batches max_tokens [p] ps))"

definition update_prefill_logs :: "sim_args \<Rightarrow> (nat \<times> int) list \<Rightarrow> sim_logs \<Rightarrow> sim_logs result" where
  "update_prefill_logs a prompts l =
     (if prompts = [] then Inr l else prefill_batches (sa_max_num_batched_tokens a) [] prompts l)"

section \<open>The simulation\<close>

record sim_state =
  ss_waiting :: "sim_seq list"
  ss_running :: "sim_seq list"
  ss_used :: int
  ss_unfinished :: int
  ss_logs :: sim_logs

text \<open>The loop that admits requests: it changes the four values and collects the new prompts.\<close>

fun sim_admit :: "sim_args \<Rightarrow> sim_seq list \<Rightarrow> sim_seq list \<Rightarrow> int \<Rightarrow> int \<Rightarrow> (nat \<times> int) list
    \<Rightarrow> (sim_seq list \<times> sim_seq list \<times> int \<times> int \<times> (nat \<times> int) list) result" where
  "sim_admit a [] run used unfinished prompts = Inr ([], run, used, unfinished, prompts)"
| "sim_admit a ((i, inp, out) # ws) run used unfinished prompts =
     ebind (has_enough_cache a used 1 True) (\<lambda>room.
     if \<not> (room \<and> length run < sa_max_seq_num a) then Inr ((i, inp, out) # ws, run, used, unfinished, prompts)
     else ebind (has_enough_cache a used inp True) (\<lambda>fits.
       if \<not> fits then Inr ((i, inp, out) # ws, run, used, unfinished, prompts)
       else if out - 1 = 0 then sim_admit a ws run used (unfinished - 1) (prompts @ [(i, inp)])
       else sim_admit a ws (run @ [(i, inp + 1, out - 1)]) (used + blocks_of (sa_block_size a) inp) unfinished (prompts @ [(i, inp)])))"

definition decode_logs :: "sim_seq list \<Rightarrow> int \<Rightarrow> prefill_log list" where
  "decode_logs run iter_num =
     (let n = int (length run); tot = sum_list (map (\<lambda>(_, l, _). l) run); m = Max (set (map (\<lambda>(_, l, _). l) run))
      in map (\<lambda>i. (n, tot + n * i, tot + n * i, m + i)) [0..iter_num - 1])"

definition sim_decode :: "sim_args \<Rightarrow> sim_state \<Rightarrow> sim_state result" where
  "sim_decode a s =
     ebind (kill_seqs_for_more_cache_space a (ss_running s) (ss_waiting s)) (\<lambda>(used, run, waiting).
     ebind (get_max_iter_num a used run) (\<lambda>iter_num.
     let l = ss_logs s;
         l = l\<lparr>sl_decode := sl_decode l @ decode_logs run iter_num,
               sl_progress := store_infer_state (sl_iter l) (sl_iter l + iter_num - 1) (map fst run) (sl_progress l),
               sl_is_prefill := sl_is_prefill l @ replicate (nat iter_num) False, sl_iter := sl_iter l + iter_num\<rparr>;
         run = map (\<lambda>(i, len, r). (i, len + iter_num, r - iter_num)) run;
         (run, unfinished, used) = remove_finished_seqs (sa_block_size a) run (ss_unfinished s)
     in Inr \<lparr>ss_waiting = waiting, ss_running = run, ss_used = used, ss_unfinished = unfinished, ss_logs = l\<rparr>))"

text \<open>One turn of the outer loop; the truth value says that it is left.\<close>

definition sim_turn :: "sim_args \<Rightarrow> sim_state \<Rightarrow> (bool \<times> sim_state) result" where
  "sim_turn a s =
     ebind (sim_admit a (ss_waiting s) (ss_running s) (ss_used s) (ss_unfinished s) []) (\<lambda>(waiting, run, used, unfinished, prompts).
     ebind (update_prefill_logs a prompts (ss_logs s)) (\<lambda>l.
     let l = l\<lparr>sl_is_prefill := sl_is_prefill l @ replicate (nat (sl_iter l - int (length (sl_is_prefill l)))) True\<rparr>;
         s = \<lparr>ss_waiting = waiting, ss_running = run, ss_used = used, ss_unfinished = unfinished, ss_logs = l\<rparr>
     in if unfinished = 0 then ebind (py_assert (run = [])) (\<lambda>_. Inr (True, s))
        else ebind (sim_decode a s) (\<lambda>s. Inr (False, s))))"

partial_function (option) sim_loop :: "sim_args \<Rightarrow> sim_state \<Rightarrow> sim_state result option" where
  [code]: "sim_loop a s =
     (if ss_unfinished s = 0 then Some (Inr s)
      else case sim_turn a s of
          Inl e \<Rightarrow> Some (Inl e)
        | Inr (leave, s') \<Rightarrow> if leave then Some (Inr s') else sim_loop a s')"

definition sim_start :: "int list \<Rightarrow> int list \<Rightarrow> sim_state" where
  "sim_start inp_lens out_lens =
     \<lparr>ss_waiting = zip [0..<length inp_lens] (zip inp_lens out_lens), ss_running = [], ss_used = 0,
      ss_unfinished = int (length inp_lens),
      ss_logs = \<lparr>sl_prefill = [], sl_valid_prefill = [], sl_decode = [], sl_progress = replicate (length inp_lens) [],
        sl_is_prefill = [], sl_iter = 0\<rparr>\<rparr>"

text \<open>\<open>_fake_FCFS_schedule_NO_continuous_model_level_pipeline\<close>; the two lists have the same length.\<close>

definition fake_FCFS_schedule :: "sim_args \<Rightarrow> int list \<Rightarrow> int list \<Rightarrow> sim_logs result option" where
  "fake_FCFS_schedule a inp_lens out_lens =
     map_option (\<lambda>res. ebind res (\<lambda>s. let l = ss_logs s in
         ebind (py_assert (sl_iter l = int (length (sl_decode l) + length (sl_prefill l)))) (\<lambda>_. Inr l)))
       (sim_loop a (sim_start inp_lens out_lens))"

section \<open>What the planner reads from a simulation\<close>

text \<open>\<open>_get_inferRng_info\<close>: where the ranges of each request begin in the arrays of all starts and ends.\<close>

fun range_starts :: "int list \<Rightarrow> int list" where
  "range_starts (s # e # r) = s # range_starts r"
| "range_starts _ = []"

fun range_ends :: "int list \<Rightarrow> int list" where
  "range_ends (s # e # r) = e # range_ends r"
| "range_ends _ = []"

definition get_inferRng_info :: "int list list \<Rightarrow> (int list \<times> int list \<times> int list) result" where
  "get_inferRng_info progress =
     (if progress = [] then Inl (ValueError ''need at least one array to concatenate'')
      else if odd (length (concat progress)) then Inl (ValueError ''cannot reshape array'')
      else Inr (cumsum 0 (0 # map (\<lambda>rngs. int (length rngs div 2)) progress),
                range_starts (concat progress), range_ends (concat progress)))"

text \<open>\<open>get_info_at_stop_time\<close>: how many tokens each request has at the end of an iteration.\<close>

definition get_info_at_stop_time :: "int list \<Rightarrow> int list \<Rightarrow> int list \<Rightarrow> int \<Rightarrow> int list" where
  "get_info_at_stop_time cum_rng_nums rng_starts rng_ends stop_iter_i =
     (let lens = map2 (\<lambda>s e. if s \<le> stop_iter_i then min stop_iter_i e - s + 1 else 0) rng_starts rng_ends;
          c = cumsum 0 (0 # lens)
      in map2 (\<lambda>hi lo. c ! nat hi - c ! nat lo) (tl cum_rng_nums) (butlast cum_rng_nums))"

text \<open>\<open>get_finish_times\<close>: the cumulative latency of the last iteration of each request.\<close>

definition get_finish_iters :: "int list list \<Rightarrow> int list result" where
  "get_finish_iters progress = efold (\<lambda>rngs ts. ebind (py_last rngs) (\<lambda>t. Inr (ts @ [t]))) progress []"

end
