(* ===== verification/Fake_Iter.thy ===== *)
theory Fake_Iter
  imports Fake_Schedule
begin

text \<open>
  The closed form with which the simulation jumps over decode iterations: it is the largest number of
  iterations for which the blocks of all running requests fit.
\<close>

section \<open>Cumulative counts\<close>

lemma length_cumsum [simp]: "length (cumsum a xs) = length xs"
  by (induction a xs rule: cumsum.induct) simp_all

lemma cumsum_nth: "k < length xs \<Longrightarrow> cumsum a xs ! k = a + sum_list (take (Suc k) xs)"
proof (induction a xs arbitrary: k rule: cumsum.induct)
  case (2 acc x xs)
  then show ?case by (cases k) simp_all
qed simp

lemma sum_count_list:
  assumes "finite A"
  shows "(\<Sum>u \<in> A. count_list xs u) = length (filter (\<lambda>x. x \<in> A) xs)"
proof (induction xs)
  case Nil
  then show ?case by simp
next
  case (Cons x xs)
  have "(\<Sum>u \<in> A. count_list (x # xs) u) = (\<Sum>u \<in> A. count_list xs u + (if x = u then 1 else 0))" by (rule sum.cong) auto
  also have "\<dots> = (\<Sum>u \<in> A. count_list xs u) + (if x \<in> A then 1 else 0)" using assms by (simp add: sum.distrib sum.delta')
  finally show ?case using Cons.IH by simp
qed

lemma strict_sorted_nth_less:
  fixes us :: "'a :: linorder list"
  assumes "sorted_wrt (<) us" and "i < length us" and "j < length us"
  shows "us ! i < us ! j \<longleftrightarrow> i < j"
proof (cases "i < j")
  case True
  then show ?thesis using sorted_wrt_nth_less [OF assms(1) True assms(3)] by simp
next
  case False
  then have "us ! j \<le> us ! i" using sorted_wrt_nth_less [OF assms(1) _ assms(2), of j] by (cases "i = j") auto
  then show ?thesis using False by simp
qed

lemma nth_of_member: "x \<in> set xs \<Longrightarrow> \<exists>i. i < length xs \<and> x = xs ! i"
  by (auto simp: in_set_conv_nth)

lemma strict_sorted_take_set:
  fixes us :: "'a :: linorder list"
  assumes "sorted_wrt (<) us" and "k < length us"
  shows "set (take (Suc k) us) = {u \<in> set us. u \<le> us ! k}"
proof -
  have "us ! i \<le> us ! k \<longleftrightarrow> i \<le> k" if "i < length us" for i
    using strict_sorted_nth_less [OF assms(1) assms(2) that] by (simp add: not_less [symmetric])
  moreover have "set (take (Suc k) us) = (!) us ` {0..<Suc k}" "set us = (!) us ` {0..<length us}"
    using assms(2) nth_image [of "Suc k" us] nth_image [of "length us" us] by simp_all
  ultimately show ?thesis using assms(2) by auto
qed

lemma int_sum_list: "int (sum_list (map f xs)) = sum_list (map (\<lambda>x. int (f x)) xs)"
  by (induction xs) simp_all

lemma cumsum_counts:
  assumes "us = sort (remdups xs)" and "k < length us"
  shows "cumsum 0 (map (\<lambda>e. int (count_list xs e)) us) ! k = int (length (filter (\<lambda>x. x \<le> us ! k) xs))"
proof -
  have us: "sorted_wrt (<) us" "set us = set xs" using assms(1) by (simp_all add: strict_sorted_iff)
  have d: "distinct (take (Suc k) us)" using assms(1) by simp
  have "cumsum 0 (map (\<lambda>e. int (count_list xs e)) us) ! k = int (sum_list (map (count_list xs) (take (Suc k) us)))"
    using assms(2) by (simp add: cumsum_nth take_map int_sum_list)
  also have "sum_list (map (count_list xs) (take (Suc k) us)) = (\<Sum>u \<in> {u \<in> set us. u \<le> us ! k}. count_list xs u)"
    using d by (simp add: sum_list_distinct_conv_sum_set strict_sorted_take_set [OF us(1) assms(2)] del: take_Suc)
  also have "\<dots> = length (filter (\<lambda>x. x \<in> {u \<in> set us. u \<le> us ! k}) xs)" by (rule sum_count_list) simp
  also have "filter (\<lambda>x. x \<in> {u \<in> set us. u \<le> us ! k}) xs = filter (\<lambda>x. x \<le> us ! k) xs" using us(2) by (intro filter_cong) auto
  finally show ?thesis .
qed

section \<open>Blocks after some iterations\<close>

lemma blocks_of_alt: "blocks_of bs n = (n + (bs - 1)) div bs"
  by (simp add: blocks_of_def algebra_simps)

lemma blocks_of_shift:
  assumes "0 < bs" and "0 \<le> r" and "r \<le> bs"
  shows "blocks_of bs (l - 1 + (q * bs + r)) = blocks_of bs (l - 1) + q + (if (- l + 1) mod bs < r then 1 else 0)"
proof -
  let ?e = "(- l + 1) mod bs" and ?d = "(- l + 1) div bs"
  have e: "0 \<le> ?e" "?e < bs" using assms(1) by simp_all
  have l: "l - 1 = - (?d * bs) - ?e" using div_mult_mod_eq [of "- l + 1" bs] by linarith
  have c: "(c * bs - ?e + x + (bs - 1)) div bs = c + (x + (bs - 1) - ?e) div bs" for c x
    using assms(1) div_mult_self1 [of bs "x + (bs - 1) - ?e" c] by (simp add: algebra_simps)
  have n: "(bs - 1 - ?e) div bs = 0" using e by (intro div_pos_pos_trivial) linarith+
  have r: "(r + (bs - 1) - ?e) div bs = (if ?e < r then 1 else 0)"
  proof (cases "?e < r")
    case True
    then have "(r + (bs - 1) - ?e) div bs = 1 + (r - 1 - ?e) div bs"
      using assms(1) div_add_self2 [of bs "r - 1 - ?e"] by (simp add: algebra_simps)
    moreover have "(r - 1 - ?e) div bs = 0" using True e assms(3) by (intro div_pos_pos_trivial) linarith+
    ultimately show ?thesis using True by simp
  next
    case False
    then have "(r + (bs - 1) - ?e) div bs = 0" using e assms(2) by (intro div_pos_pos_trivial) linarith+
    then show ?thesis using False by simp
  qed
  have "blocks_of bs (l - 1) = - ?d + (bs - 1 - ?e) div bs" unfolding blocks_of_alt l using c [of "- ?d" 0] by simp
  moreover have "blocks_of bs (l - 1 + (q * bs + r)) = (- ?d + q) + (r + (bs - 1) - ?e) div bs"
    unfolding blocks_of_alt l using c [of "- ?d + q" r] by (simp add: algebra_simps)
  ultimately show ?thesis using n r by simp
qed

lemma blocks_of_mono: "0 < bs \<Longrightarrow> m \<le> n \<Longrightarrow> blocks_of bs m \<le> blocks_of bs n"
  by (simp add: blocks_of_def zdiv_mono1)

text \<open>The blocks of all running requests after \<open>n\<close> more iterations.\<close>

definition blocks_after :: "int \<Rightarrow> sim_seq list \<Rightarrow> int \<Rightarrow> int" where
  "blocks_after bs run n = sum_list (map (\<lambda>(_, l, _). blocks_of bs (l - 1 + n)) run)"

lemma blocks_after_mono: "0 < bs \<Longrightarrow> m \<le> n \<Longrightarrow> blocks_after bs run m \<le> blocks_after bs run n"
  unfolding blocks_after_def by (rule sum_list_mono) (auto intro: blocks_of_mono)

lemma blocks_after_shift:
  assumes "0 < bs" and "0 \<le> r" and "r \<le> bs"
  shows "blocks_after bs run (q * bs + r) =
    used_blocks bs run + int (length run) * q + int (length (filter (\<lambda>x. x \<le> r) (map (\<lambda>(_, l, _). (- l + 1) mod bs + 1) run)))"
proof (induction run)
  case Nil
  then show ?case by (simp add: blocks_after_def used_blocks_def)
next
  case (Cons x run)
  obtain i l t where x: "x = (i, l, t)" by (cases x)
  show ?case using Cons.IH blocks_of_shift [OF assms, of l q]
    by (simp add: x blocks_after_def used_blocks_def algebra_simps)
qed

section \<open>The number of iterations\<close>

lemma first_above_ok:
  assumes "xs \<noteq> []" and "left < last xs"
  obtains k where "first_above left xs = Inr k" "k < length xs" "left < xs ! k" "\<And>j. j < k \<Longrightarrow> xs ! j \<le> left"
proof -
  let ?k = "length (takeWhile (\<lambda>x. \<not> left < x) xs)"
  have "takeWhile (\<lambda>x. \<not> left < x) xs \<noteq> xs" using assms by (metis last_in_set takeWhile_eq_all_conv)
  then have k: "?k < length xs" by (metis le_neq_implies_less length_takeWhile_le takeWhile_eq_take take_all_iff order_refl)
  moreover have "left < xs ! ?k" using nth_length_takeWhile [OF k] by simp
  moreover have "xs ! j \<le> left" if "j < ?k" for j
    using that by (metis linorder_not_le nth_mem set_takeWhileD takeWhile_nth)
  ultimately show ?thesis using that [of ?k] by (simp add: first_above_def)
qed

text \<open>C8: \<open>get_max_iter_num\<close>, a closed form over the free slots of the last blocks, is the number of iterations
  that a loop would find by trying: all running requests can make \<open>n\<close> more iterations without taking more
  blocks than there are if and only if \<open>n\<close> is at most this number, except that it stops when the first
  request is finished.\<close>

theorem get_max_iter_num_exact:
  assumes "0 < sa_block_size a" and "run \<noteq> []" and "used_blocks (sa_block_size a) run \<le> sa_max_block_num a"
  shows "\<exists>n0 \<ge> 0. get_max_iter_num a (used_blocks (sa_block_size a) run) run = Inr (min (Min ((\<lambda>(_, _, r). r) ` set run)) n0) \<and>
    (\<forall>n \<ge> 0. blocks_after (sa_block_size a) run n \<le> sa_max_block_num a \<longleftrightarrow> n \<le> n0)"
proof -
  let ?bs = "sa_block_size a" and ?used = "used_blocks (sa_block_size a) run" and ?m = "sa_max_block_num a"
  define xs where "xs = map (\<lambda>(_, l, _). (- l + 1) mod ?bs + 1) run"
  define us where "us = sort (remdups xs)"
  define q where "q = (?m - ?used) div int (length run)"
  define left where "left = (?m - ?used) mod int (length run)"
  define cum where "cum = cumsum 0 (map (\<lambda>e. int (count_list xs e)) us)"
  have R: "0 < int (length run)" using assms(2) by simp
  have free: "?m = ?used + int (length run) * q + left" unfolding q_def left_def by (simp add: mult.commute)
  have left: "0 \<le> left" "left < int (length run)" using R by (simp_all add: left_def)
  have q: "0 \<le> q" using R assms(3) by (simp add: q_def pos_imp_zdiv_nonneg_iff)
  have us: "sorted_wrt (<) us" "set us = set xs" by (simp_all add: us_def strict_sorted_iff)
  have ne: "us \<noteq> []" using us(2) assms(2) by (auto simp: xs_def)
  have xb: "1 \<le> x \<and> x \<le> ?bs" if "x \<in> set xs" for x
  proof -
    have "\<exists>y. x = y mod ?bs + 1" using that by (force simp: xs_def)
    then obtain y where "x = y mod ?bs + 1" by blast
    then show ?thesis using assms(1) pos_mod_sign [of ?bs y] pos_mod_bound [of ?bs y] by linarith
  qed
  have cumk: "cum ! k = int (length (filter (\<lambda>x. x \<le> us ! k) xs))" if "k < length us" for k
    unfolding cum_def by (rule cumsum_counts [OF us_def that])
  have len: "length cum = length us" by (simp add: cum_def)
  then have cum_ne: "cum \<noteq> []" using ne by auto
  have "last cum = int (length run)"
  proof -
    let ?k = "length us - 1"
    have k: "?k < length us" using ne by simp
    have "x \<le> us ! ?k" if mem: "x \<in> set xs" for x
    proof -
      obtain i where "i < length us" "x = us ! i" using nth_of_member [of x us] mem us(2) by auto
      then show ?thesis using strict_sorted_nth_less [OF us(1) k, of i] by (simp flip: not_less)
    qed
    then have "filter (\<lambda>x. x \<le> us ! ?k) xs = xs" by simp
    then have "cum ! ?k = int (length xs)" using cumk [OF k] by simp
    moreover have "last cum = cum ! ?k" using last_conv_nth [OF cum_ne] len by simp
    ultimately show ?thesis by (simp add: xs_def)
  qed
  then obtain k where k: "first_above left cum = Inr k" "k < length us" "left < cum ! k" "\<And>j. j < k \<Longrightarrow> cum ! j \<le> left"
    using first_above_ok [OF cum_ne, of left] left(2) len by auto
  define r where "r = us ! k - 1"
  have r: "0 \<le> r" "r + 1 \<le> ?bs" using xb [of "us ! k"] us(2) nth_mem [OF k(2)] by (simp_all add: r_def)
  note mono = strict_sorted_nth_less [OF us(1)]
  have member: "\<exists>i. i < length us \<and> x = us ! i" if "x \<in> set xs" for x
    using nth_of_member [of x us] that us(2) by simp
  have below: "int (length (filter (\<lambda>x. x \<le> r) xs)) \<le> left"
  proof (cases k)
    case 0
    have "\<not> x \<le> r" if mem: "x \<in> set xs" for x
    proof -
      obtain i where i: "i < length us" "x = us ! i" using member [OF mem] by blast
      have "\<not> us ! i < us ! k" unfolding mono [OF i(1) k(2)] using 0 by simp
      then show ?thesis unfolding i(2) r_def by linarith
    qed
    then have "filter (\<lambda>x. x \<le> r) xs = []" by simp
    then show ?thesis using left(1) by simp
  next
    case (Suc j)
    have "x \<le> r \<longleftrightarrow> x \<le> us ! j" if mem: "x \<in> set xs" for x
    proof -
      obtain i where i: "i < length us" "x = us ! i" using member [OF mem] by blast
      have j: "j < length us" using k(2) Suc by simp
      have "x \<le> r \<longleftrightarrow> us ! i < us ! k" unfolding r_def i(2) by linarith
      also have "\<dots> \<longleftrightarrow> \<not> us ! j < us ! i" unfolding mono [OF i(1) k(2)] mono [OF j i(1)] using Suc by linarith
      finally show ?thesis unfolding i(2) by linarith
    qed
    then have "filter (\<lambda>x. x \<le> r) xs = filter (\<lambda>x. x \<le> us ! j) xs" by (intro filter_cong) auto
    then show ?thesis using k(2) k(4) [of j] Suc cumk [of j] by simp
  qed
  have above: "left < int (length (filter (\<lambda>x. x \<le> r + 1) xs))" using k(3) cumk [OF k(2)] by (simp add: r_def)
  let ?n0 = "q * ?bs + r"
  have fits: "blocks_after ?bs run ?n0 \<le> ?m"
    using blocks_after_shift [OF assms(1) r(1), where q = q and run = run] r(2) below free by (simp add: xs_def)
  have full: "?m < blocks_after ?bs run (?n0 + 1)"
    using blocks_after_shift [OF assms(1) _ r(2), where q = q and run = run] r(1) above free by (simp add: xs_def add.assoc)
  have "blocks_after ?bs run n \<le> ?m \<longleftrightarrow> n \<le> ?n0" for n
    using fits full blocks_after_mono [OF assms(1), of n ?n0 run] blocks_after_mono [OF assms(1), of "?n0 + 1" n run] by linarith
  moreover have "get_max_iter_num a ?used run = Inr (min (Min ((\<lambda>(_, _, r). r) ` set run)) ?n0)"
    unfolding get_max_iter_num_def Let_def xs_def [symmetric] us_def [symmetric] left_def [symmetric] cum_def [symmetric] q_def [symmetric]
    using k(1) assms(2) by (simp add: r_def)
  moreover have "0 \<le> ?n0" using q r(1) assms(1) by simp
  ultimately show ?thesis by blast
qed

end
