(* ===== verification/Fake_Runs.thy ===== *)
theory Fake_Runs
  imports Fake_Iter
begin

text \<open>
  The simulation as a whole: it ends, and every request takes part in exactly as many iterations as it has
  tokens to generate, whatever was preempted on the way.
\<close>

section \<open>Iterations of a request\<close>

fun steps_of :: "int list \<Rightarrow> int list" where
  "steps_of (s # e # r) = [s..e] @ steps_of r"
| "steps_of _ = []"

fun ranges_ok :: "int list \<Rightarrow> bool" where
  "ranges_ok (s # e # r) \<longleftrightarrow> s \<le> e \<and> ranges_ok r"
| "ranges_ok [x] \<longleftrightarrow> False"
| "ranges_ok [] \<longleftrightarrow> True"

definition progress_ok :: "int \<Rightarrow> int list \<Rightarrow> bool" where
  "progress_ok t rngs \<longleftrightarrow> ranges_ok rngs \<and> sorted_wrt (<) (steps_of rngs) \<and> (\<forall>x \<in> set (steps_of rngs). 0 \<le> x \<and> x < t)"

lemma upto_split: "s \<le> e + 1 \<Longrightarrow> e \<le> f \<Longrightarrow> [s..f] = [s..e] @ [e + 1..f]"
  using upto_split2 [of s e f] by (cases "s \<le> e") (auto intro!: arg_cong [of _ _ "\<lambda>x. [x..f]"])

lemma add_range:
  assumes "ranges_ok rngs" and "s \<le> e"
  shows "steps_of (add_one_infer_rng rngs s e) = steps_of rngs @ [s..e] \<and> ranges_ok (add_one_infer_rng rngs s e)"
  using assms
proof (induction rngs rule: ranges_ok.induct)
  case (1 a b r)
  show ?case
  proof (cases r)
    case Nil
    have "[a..e] = [a..b] @ [b + 1..e]" if "b + 1 = s" using 1(2,3) that upto_split [of a b e] by simp
    then show ?thesis using 1(2,3) Nil by (auto simp: add_one_infer_rng_def)
  next
    case (Cons c r')
    then have "add_one_infer_rng (a # b # r) s e = a # b # add_one_infer_rng r s e" by (auto simp: add_one_infer_rng_def)
    then show ?thesis using 1 by simp
  qed
qed (simp_all add: add_one_infer_rng_def)

lemma progress_add:
  assumes "progress_ok t rngs" and "t \<le> s" and "s \<le> e" and "0 \<le> s" and "e < u"
  shows "progress_ok u (add_one_infer_rng rngs s e)"
    and "int (length (steps_of (add_one_infer_rng rngs s e))) = int (length (steps_of rngs)) + (e - s + 1)"
proof -
  have r: "ranges_ok rngs" "sorted_wrt (<) (steps_of rngs)" "\<forall>x \<in> set (steps_of rngs). 0 \<le> x \<and> x < t"
    using assms(1) by (simp_all add: progress_ok_def)
  note add = add_range [OF r(1) assms(3)]
  have "sorted_wrt (<) (steps_of rngs @ [s..e])" using r(2,3) assms(2) by (fastforce simp: sorted_wrt_append)
  then show "progress_ok u (add_one_infer_rng rngs s e)" using add r(3) assms by (fastforce simp: progress_ok_def)
  show "int (length (steps_of (add_one_infer_rng rngs s e))) = int (length (steps_of rngs)) + (e - s + 1)" using add assms(3) by simp
qed

lemma progress_mono: "progress_ok t rngs \<Longrightarrow> t \<le> u \<Longrightarrow> progress_ok u rngs"
  by (fastforce simp: progress_ok_def)

lemma store_infer_state_nth:
  assumes "distinct ids" and "\<forall>i \<in> set ids. i < length p"
  shows "length (store_infer_state s e ids p) = length p \<and> (\<forall>i < length p. store_infer_state s e ids p ! i =
    (if i \<in> set ids then add_one_infer_rng (p ! i) s e else p ! i))"
  using assms
proof (induction ids arbitrary: p)
  case Nil
  then show ?case by (simp add: store_infer_state_def)
next
  case (Cons j ids)
  let ?p = "p[j := add_one_infer_rng (p ! j) s e]"
  have "store_infer_state s e (j # ids) p = store_infer_state s e ids ?p" by (simp add: store_infer_state_def)
  then show ?case using Cons.IH [of ?p] Cons.prems by (auto simp: nth_list_update)
qed

section \<open>Prefill steps\<close>

text \<open>The given requests take part in one prefill step each, and the steps are logged one by one.\<close>

definition prefilled :: "int \<Rightarrow> nat set \<Rightarrow> sim_logs \<Rightarrow> sim_logs \<Rightarrow> bool" where
  "prefilled max_tokens ids l l' \<longleftrightarrow> sl_decode l' = sl_decode l \<and> sl_is_prefill l' = sl_is_prefill l \<and>
     length (sl_progress l') = length (sl_progress l) \<and> sl_iter l \<le> sl_iter l' \<and>
     (\<exists>new. sl_prefill l' = sl_prefill l @ new \<and> sl_iter l' = sl_iter l + int (length new) \<and> (\<forall>(n, _, _, m) \<in> set new. n * m \<le> max_tokens)) \<and>
     (\<forall>i < length (sl_progress l). if i \<in> ids
        then \<exists>t \<ge> sl_iter l. t < sl_iter l' \<and> sl_progress l' ! i = add_one_infer_rng (sl_progress l ! i) t t
        else sl_progress l' ! i = sl_progress l ! i)"

lemma prefilled_refl: "prefilled m {} l l"
  by (simp add: prefilled_def)

lemma prefilled_trans:
  assumes "prefilled m A l1 l2" and "prefilled m B l2 l3" and "A \<inter> B = {}"
  shows "prefilled m (A \<union> B) l1 l3"
proof -
  obtain new1 where n1: "sl_prefill l2 = sl_prefill l1 @ new1" "sl_iter l2 = sl_iter l1 + int (length new1)"
    "\<forall>(n, _, _, x) \<in> set new1. n * x \<le> m" using assms(1) unfolding prefilled_def by blast
  obtain new2 where n2: "sl_prefill l3 = sl_prefill l2 @ new2" "sl_iter l3 = sl_iter l2 + int (length new2)"
    "\<forall>(n, _, _, x) \<in> set new2. n * x \<le> m" using assms(2) unfolding prefilled_def by blast
  have len: "length (sl_progress l2) = length (sl_progress l1)" "length (sl_progress l3) = length (sl_progress l2)"
    using assms(1,2) by (simp_all add: prefilled_def)
  have "if i \<in> A \<union> B then \<exists>t \<ge> sl_iter l1. t < sl_iter l3 \<and> sl_progress l3 ! i = add_one_infer_rng (sl_progress l1 ! i) t t
      else sl_progress l3 ! i = sl_progress l1 ! i" if i: "i < length (sl_progress l1)" for i
  proof -
    have 1: "if i \<in> A then \<exists>t \<ge> sl_iter l1. t < sl_iter l2 \<and> sl_progress l2 ! i = add_one_infer_rng (sl_progress l1 ! i) t t
      else sl_progress l2 ! i = sl_progress l1 ! i" using assms(1) i unfolding prefilled_def by blast
    have 2: "if i \<in> B then \<exists>t \<ge> sl_iter l2. t < sl_iter l3 \<and> sl_progress l3 ! i = add_one_infer_rng (sl_progress l2 ! i) t t
      else sl_progress l3 ! i = sl_progress l2 ! i" using assms(2) i len unfolding prefilled_def by force
    show ?thesis
    proof (cases "i \<in> A")
      case True
      then obtain t where "sl_iter l1 \<le> t" "t < sl_iter l2" "sl_progress l2 ! i = add_one_infer_rng (sl_progress l1 ! i) t t" using 1 by auto
      moreover have "i \<notin> B" using True assms(3) by blast
      then have "sl_progress l3 ! i = sl_progress l2 ! i" using 2 by simp
      ultimately show ?thesis using True n2(2) by (intro if_P [THEN iffD2]) auto
    next
      case False
      then have eq: "sl_progress l2 ! i = sl_progress l1 ! i" using 1 by simp
      show ?thesis
      proof (cases "i \<in> B")
        case True
        then obtain t where "sl_iter l2 \<le> t" "t < sl_iter l3" "sl_progress l3 ! i = add_one_infer_rng (sl_progress l1 ! i) t t"
          using 2 unfolding eq by auto
        moreover then have "sl_iter l1 \<le> t" using n1(2) by simp
        ultimately show ?thesis using True by auto
      next
        case False
        then show ?thesis using \<open>i \<notin> A\<close> 2 eq by simp
      qed
    qed
  qed
  moreover have "\<exists>new. sl_prefill l3 = sl_prefill l1 @ new \<and> sl_iter l3 = sl_iter l1 + int (length new) \<and> (\<forall>(n, _, _, x) \<in> set new. n * x \<le> m)"
    using n1 n2 by (intro exI [of _ "new1 @ new2"]) auto
  moreover have "sl_decode l3 = sl_decode l1" "sl_is_prefill l3 = sl_is_prefill l1" using assms(1,2) by (simp_all add: prefilled_def)
  moreover have "length (sl_progress l3) = length (sl_progress l1)" "sl_iter l1 \<le> sl_iter l3" using len n1(2) n2(2) by simp_all
  ultimately show ?thesis unfolding prefilled_def by blast
qed

lemma record_prefill_ok:
  assumes "ps \<noteq> []" and "distinct (map fst ps)" and "\<forall>i \<in> set (map fst ps). i < length (sl_progress l)"
    and "Max (set (map snd ps)) * int (length ps) \<le> m"
  shows "\<exists>l'. record_prefill ps l = Inr l' \<and> prefilled m (set (map fst ps)) l l'"
proof -
  have mx: "py_maximum (map snd ps) = Inr (Max (set (map snd ps)))" using assms(1) by (simp add: py_maximum_def)
  have "\<exists>log valid. get_prefill_step (sl_progress l) ps = Inr (log, valid) \<and> fst log = int (length ps) \<and> snd (snd (snd log)) = Max (set (map snd ps))"
    by (simp add: get_prefill_step_def mx Let_def)
  then obtain log valid where g: "get_prefill_step (sl_progress l) ps = Inr (log, valid)" "fst log = int (length ps)"
    "snd (snd (snd log)) = Max (set (map snd ps))" by blast
  let ?l = "l\<lparr>sl_prefill := sl_prefill l @ [log], sl_valid_prefill := sl_valid_prefill l @ [valid],
      sl_progress := store_infer_state (sl_iter l) (sl_iter l) (map fst ps) (sl_progress l), sl_iter := sl_iter l + 1\<rparr>"
  have "record_prefill ps l = Inr ?l" by (simp add: record_prefill_def g(1))
  moreover have "prefilled m (set (map fst ps)) l ?l"
    using store_infer_state_nth [OF assms(2,3), of "sl_iter l" "sl_iter l"] assms(4) g(2,3)
    by (auto simp: prefilled_def case_prod_beta' mult.commute)
  ultimately show ?thesis by blast
qed

lemma prefill_batches_ok:
  assumes "batch \<noteq> [] \<or> ps \<noteq> []" and "distinct (map fst (batch @ ps))" and "\<forall>i \<in> set (map fst (batch @ ps)). i < length (sl_progress l)"
    and "\<forall>(_, n) \<in> set ps. n \<le> m" and "batch \<noteq> [] \<Longrightarrow> Max (set (map snd batch)) * int (length batch) \<le> m"
  shows "\<exists>l'. prefill_batches m batch ps l = Inr l' \<and> prefilled m (set (map fst (batch @ ps))) l l'"
  using assms
proof (induction ps arbitrary: batch l)
  case Nil
  then show ?case using record_prefill_ok [of batch l m] by simp
next
  case (Cons p ps)
  show ?case
  proof (cases "Max (set (map snd (batch @ [p]))) * int (length batch + 1) \<le> m")
    case True
    have "\<exists>l'. prefill_batches m (batch @ [p]) ps l = Inr l' \<and> prefilled m (set (map fst ((batch @ [p]) @ ps))) l l'"
      by (rule Cons.IH) (use Cons.prems True in auto)
    then show ?thesis using True by simp
  next
    case False
    have p: "snd p \<le> m" using Cons.prems(4) by (cases p) auto
    then have ne: "batch \<noteq> []" using False by auto
    obtain l1 where l1: "record_prefill batch l = Inr l1" "prefilled m (set (map fst batch)) l l1"
      using record_prefill_ok [OF ne _ _ Cons.prems(5) [OF ne], of l] Cons.prems(2,3) by auto
    have "length (sl_progress l1) = length (sl_progress l)" using l1(2) by (simp add: prefilled_def)
    then have "\<exists>l2. prefill_batches m [p] ps l1 = Inr l2 \<and> prefilled m (set (map fst ([p] @ ps))) l1 l2"
      by (intro Cons.IH) (use Cons.prems p in auto)
    then obtain l2 where l2: "prefill_batches m [p] ps l1 = Inr l2" "prefilled m (set (map fst ([p] @ ps))) l1 l2" by blast
    have "set (map fst batch) \<inter> set (map fst ([p] @ ps)) = {}" using Cons.prems(2) by auto
    from prefilled_trans [OF l1(2) l2(2) this] show ?thesis using False l1(1) l2(1) by (simp add: Un_insert_right image_Un)
  qed
qed

lemma update_prefill_logs_ok:
  assumes "distinct (map fst ps)" and "\<forall>i \<in> set (map fst ps). i < length (sl_progress l)"
    and "\<forall>(_, n) \<in> set ps. n \<le> sa_max_num_batched_tokens a"
  shows "\<exists>l'. update_prefill_logs a ps l = Inr l' \<and> prefilled (sa_max_num_batched_tokens a) (set (map fst ps)) l l'"
  using prefill_batches_ok [of "[]" ps l "sa_max_num_batched_tokens a"] assms prefilled_refl
  by (cases "ps = []") (auto simp: update_prefill_logs_def)

section \<open>Admitting requests\<close>

definition roomy :: "sim_args \<Rightarrow> int \<Rightarrow> bool" where
  "roomy a b \<longleftrightarrow> f64_mul f64_hundredth (of_int (sa_max_block_num a)) \<le> of_int (sa_max_block_num a - b)"

lemma has_enough_roomy: "0 < sa_block_size a \<Longrightarrow> has_enough_cache a used n True = Inr (roomy a (used + blocks_of (sa_block_size a) n))"
  by (simp add: has_enough_cache_def roomy_def Let_def diff_diff_eq)

lemma roomy_mono: "roomy a b \<Longrightarrow> c \<le> b \<Longrightarrow> roomy a c"
  unfolding roomy_def by (erule order_trans) simp

lemma roomy_less:
  assumes "roomy a b" and "0 < sa_max_block_num a"
  shows "b < sa_max_block_num a"
proof -
  have "(0 :: rat) < f64_hundredth * of_int (sa_max_block_num a)" using assms(2) by (simp add: f64_hundredth_def)
  from round_f64_binade [OF this] have "0 < f64_mul f64_hundredth (of_int (sa_max_block_num a))"
    unfolding f64_mul_def using pow2_pos by (meson less_le_trans)
  then have "(0 :: rat) < of_int (sa_max_block_num a - b)" using assms(1) unfolding roomy_def by linarith
  then show ?thesis by simp
qed

definition admitted :: "sim_seq list \<Rightarrow> sim_seq list" where
  "admitted taken = map (\<lambda>(i, l, r). (i, l + 1, r - 1)) (filter (\<lambda>(_, _, r). r - 1 \<noteq> 0) taken)"

lemma used_blocks_simps [simp]:
  "used_blocks bs [] = 0"
  "used_blocks bs ((i, l, r) # run) = blocks_of bs (l - 1) + used_blocks bs run"
  by (simp_all add: used_blocks_def)

lemma sim_admit_ok:
  assumes "0 < sa_block_size a"
  shows "\<exists>taken rest. ws = taken @ rest \<and>
    sim_admit a ws run used unfinished prompts = Inr (rest, run @ admitted taken, used + used_blocks (sa_block_size a) (admitted taken),
      unfinished - (int (length taken) - int (length (admitted taken))), prompts @ map (\<lambda>(i, l, _). (i, l)) taken) \<and>
    (length run \<le> sa_max_seq_num a \<longrightarrow> length (run @ admitted taken) \<le> sa_max_seq_num a) \<and>
    (run = [] \<and> used = 0 \<and> 0 < sa_max_seq_num a \<and> (\<forall>(_, l, _) \<in> set ws. roomy a (blocks_of (sa_block_size a) l)) \<and>
       roomy a (blocks_of (sa_block_size a) 1) \<longrightarrow> rest = [] \<or> run @ admitted taken \<noteq> [])"
proof (induction ws arbitrary: run used unfinished prompts)
  case Nil
  then show ?case by (simp add: admitted_def used_blocks_def)
next
  case (Cons w ws)
  obtain i l r where w: "w = (i, l, r)" by (cases w)
  let ?bs = "sa_block_size a"
  show ?case
  proof (cases "roomy a (used + blocks_of ?bs 1) \<and> length run < sa_max_seq_num a \<and> roomy a (used + blocks_of ?bs l)")
    case False
    have "sim_admit a (w # ws) run used unfinished prompts = Inr (w # ws, run, used, unfinished, prompts)"
      using False by (auto simp: w has_enough_roomy [OF assms])
    then show ?thesis using False by (intro exI [of _ "[]"] exI [of _ "w # ws"]) (auto simp: w admitted_def used_blocks_def)
  next
    case True
    then have step: "sim_admit a (w # ws) run used unfinished prompts =
        (if r - 1 = 0 then sim_admit a ws run used (unfinished - 1) (prompts @ [(i, l)])
         else sim_admit a ws (run @ [(i, l + 1, r - 1)]) (used + blocks_of ?bs l) unfinished (prompts @ [(i, l)]))"
      by (simp add: w has_enough_roomy [OF assms])
    show ?thesis
    proof (cases "r - 1 = 0")
      case r: True
      obtain taken rest where t: "ws = taken @ rest"
        "sim_admit a ws run used (unfinished - 1) (prompts @ [(i, l)]) = Inr (rest, run @ admitted taken, used + used_blocks ?bs (admitted taken),
           unfinished - 1 - (int (length taken) - int (length (admitted taken))), (prompts @ [(i, l)]) @ map (\<lambda>(i, l, _). (i, l)) taken)"
        "length run \<le> sa_max_seq_num a \<longrightarrow> length (run @ admitted taken) \<le> sa_max_seq_num a"
        "run = [] \<and> used = 0 \<and> 0 < sa_max_seq_num a \<and> (\<forall>(_, l, _) \<in> set ws. roomy a (blocks_of ?bs l)) \<and> roomy a (blocks_of ?bs 1) \<longrightarrow>
           rest = [] \<or> run @ admitted taken \<noteq> []"
        using Cons.IH [of run used "unfinished - 1" "prompts @ [(i, l)]"] by (elim exE conjE)
      have adm: "admitted (w # taken) = admitted taken" using r by (simp add: w admitted_def)
      show ?thesis
      proof (intro exI conjI)
        show "w # ws = (w # taken) @ rest" using t(1) by simp
        show "sim_admit a (w # ws) run used unfinished prompts = Inr (rest, run @ admitted (w # taken), used + used_blocks ?bs (admitted (w # taken)),
            unfinished - (int (length (w # taken)) - int (length (admitted (w # taken)))), prompts @ map (\<lambda>(i, l, _). (i, l)) (w # taken))"
          using step r t(2) by (simp add: adm) (simp add: w)
      qed (use t(3,4) adm in simp_all)
    next
      case r: False
      let ?run = "run @ [(i, l + 1, r - 1)]"
      obtain taken rest where t: "ws = taken @ rest"
        "sim_admit a ws ?run (used + blocks_of ?bs l) unfinished (prompts @ [(i, l)]) =
           Inr (rest, ?run @ admitted taken, used + blocks_of ?bs l + used_blocks ?bs (admitted taken),
           unfinished - (int (length taken) - int (length (admitted taken))), (prompts @ [(i, l)]) @ map (\<lambda>(i, l, _). (i, l)) taken)"
        "length ?run \<le> sa_max_seq_num a \<longrightarrow> length (?run @ admitted taken) \<le> sa_max_seq_num a"
        using Cons.IH [of ?run "used + blocks_of ?bs l" unfinished "prompts @ [(i, l)]"] by (elim exE conjE)
      have adm: "admitted (w # taken) = (i, l + 1, r - 1) # admitted taken" using r by (simp add: w admitted_def)
      show ?thesis
      proof (intro exI conjI)
        show "w # ws = (w # taken) @ rest" using t(1) by simp
        show "sim_admit a (w # ws) run used unfinished prompts = Inr (rest, run @ admitted (w # taken), used + used_blocks ?bs (admitted (w # taken)),
            unfinished - (int (length (w # taken)) - int (length (admitted (w # taken)))), prompts @ map (\<lambda>(i, l, _). (i, l)) (w # taken))"
          using step r t(2) by (simp add: adm) (simp add: w)
      qed (use t(3) adm True in simp_all)
    qed
  qed
qed

section \<open>Preempting requests\<close>

lemma blocks_of_Suc:
  assumes "0 < bs"
  shows "blocks_of bs (n + 1) \<le> blocks_of bs n + 1"
proof -
  have "(n + 1 + (bs - 1)) div bs \<le> (n + (bs - 1) + bs) div bs" using assms by (intro zdiv_mono1) simp_all
  also have "\<dots> = (n + (bs - 1)) div bs + 1" using assms by (intro div_add_self2) simp
  finally show ?thesis unfolding blocks_of_alt .
qed

text \<open>What is kept can make one more iteration.\<close>

lemma kill_seqs_ok:
  assumes "0 < sa_block_size a" and "run = (i, l, r) # run'" and "blocks_of (sa_block_size a) (l - 1) + 1 \<le> sa_max_block_num a"
  shows "\<exists>k. kill_seqs_for_more_cache_space a run waiting = Inr (used_blocks (sa_block_size a) (take k run), take k run, drop k run @ waiting) \<and>
    0 < k \<and> k \<le> length run \<and> blocks_after (sa_block_size a) (take k run) 1 \<le> sa_max_block_num a"
proof -
  let ?bs = "sa_block_size a" and ?m = "sa_max_block_num a"
  define ns where "ns = map (\<lambda>(_, l, _). blocks_of ?bs l) run"
  define approx where "approx = map2 (+) (map (\<lambda>(_, l, _). blocks_of ?bs (l - 1) + 1) run) (0 # cumsum 0 ns)"
  define k where "k = length (takeWhile (\<lambda>x. \<not> x > ?m) approx)"
  have len: "length approx = length run" by (simp add: approx_def ns_def)
  have ne: "approx \<noteq> []" using len assms(2) by auto
  have "approx ! 0 = blocks_of ?bs (l - 1) + 1" by (simp add: approx_def assms(2))
  then have "\<not> approx ! 0 > ?m" using assms(3) by simp
  then have k0: "0 < k" using ne by (cases approx) (simp_all add: k_def)
  have kl: "k \<le> length run" using length_takeWhile_le [of _ approx] by (simp add: k_def flip: len)
  have nth: "approx ! j = (case run ! j of (_, l, _) \<Rightarrow> blocks_of ?bs (l - 1)) + 1 + sum_list (take j ns)" if "j < length run" for j
  proof -
    have "(0 # cumsum 0 ns) ! j = sum_list (take j ns)"
      using that cumsum_nth [of "j - 1" ns 0] by (cases j) (simp_all add: ns_def)
    then show ?thesis using that by (simp add: approx_def ns_def case_prod_beta')
  qed
  have "approx ! (k - 1) \<le> ?m"
  proof -
    have "k - 1 < length (takeWhile (\<lambda>x. \<not> x > ?m) approx)" using k0 by (simp add: k_def)
    then show ?thesis using set_takeWhileD [OF nth_mem] takeWhile_nth by fastforce
  qed
  moreover have "blocks_after ?bs (take k run) 1 \<le> approx ! (k - 1)"
  proof -
    obtain j where j: "k = Suc j" using k0 by (cases k) auto
    have jl: "j < length run" using kl j by simp
    have "blocks_after ?bs (take j run) 1 = sum_list (take j ns)"
      by (simp add: blocks_after_def ns_def take_map case_prod_beta')
    moreover have "blocks_after ?bs (take k run) 1 = blocks_after ?bs (take j run) 1 + (case run ! j of (_, l, _) \<Rightarrow> blocks_of ?bs (l - 1 + 1))"
      using jl by (simp add: j take_Suc_conv_app_nth blocks_after_def)
    moreover have "(case run ! j of (_, l, _) \<Rightarrow> blocks_of ?bs (l - 1 + 1)) \<le> (case run ! j of (_, l, _) \<Rightarrow> blocks_of ?bs (l - 1)) + 1"
    proof -
      obtain x y z where "run ! j = (x, y, z)" by (cases "run ! j")
      then show ?thesis using blocks_of_Suc [OF assms(1), of "y - 1"] by simp
    qed
    ultimately show ?thesis using nth [OF jl] j by simp
  qed
  ultimately have "blocks_after ?bs (take k run) 1 \<le> ?m" by simp
  moreover have keep: "(if Max (set approx) > ?m then k else length run) = k"
  proof (cases "Max (set approx) > ?m")
    case False
    then have "\<forall>x \<in> set approx. \<not> x > ?m" using ne by (simp add: not_less)
    then show ?thesis using False len by (simp add: k_def takeWhile_eq_all_conv [THEN iffD2])
  qed simp
  moreover have "kill_seqs_for_more_cache_space a run waiting = Inr (used_blocks ?bs (take k run), take k run, drop k run @ waiting)"
    unfolding kill_seqs_for_more_cache_space_def Let_def ns_def [symmetric] approx_def [symmetric] k_def [symmetric]
    using ne by (simp only: py_maximum_def if_False ebind_simps keep)
  ultimately show ?thesis using k0 kl by blast
qed

end
