(* ===== verification/Fake_Props.thy ===== *)
theory Fake_Props
  imports Fake_Runs
begin

text \<open>
  The invariant of the simulation, its termination and what its result says; then what the planner reads from it.
\<close>

section \<open>The invariant\<close>

definition logs_ok :: "sim_args \<Rightarrow> nat \<Rightarrow> sim_logs \<Rightarrow> bool" where
  "logs_ok a n l \<longleftrightarrow> length (sl_progress l) = n \<and> 0 \<le> sl_iter l \<and> (\<forall>i < n. progress_ok (sl_iter l) (sl_progress l ! i)) \<and>
     sl_iter l = int (length (sl_decode l) + length (sl_prefill l)) \<and>
     (\<forall>(k, _, _, m) \<in> set (sl_prefill l). k * m \<le> sa_max_num_batched_tokens a) \<and>
     (\<forall>(k, _) \<in> set (sl_decode l). 1 \<le> k \<and> k \<le> int (sa_max_seq_num a))"

lemma logs_ok_flags [simp]: "logs_ok a n (l\<lparr>sl_is_prefill := f\<rparr>) = logs_ok a n l"
  by (simp add: logs_ok_def)

text \<open>A request that is not finished: its length grows by the tokens that it has, one for each of its iterations.\<close>

definition owed :: "int list \<Rightarrow> int list \<Rightarrow> int list list \<Rightarrow> sim_seq \<Rightarrow> bool" where
  "owed inps outs progress = (\<lambda>(i, l, r). i < length outs \<and> 1 \<le> l \<and> 1 \<le> r \<and> l + r = inps ! i + outs ! i \<and>
     int (length (steps_of (progress ! i))) + r = outs ! i)"

definition account :: "int list \<Rightarrow> int list \<Rightarrow> int list list \<Rightarrow> sim_seq list \<Rightarrow> bool" where
  "account inps outs progress xs \<longleftrightarrow> distinct (map fst xs) \<and> (\<forall>x \<in> set xs. owed inps outs progress x) \<and>
     (\<forall>i < length outs. i \<notin> fst ` set xs \<longrightarrow> int (length (steps_of (progress ! i))) = outs ! i)"

definition sim_ok :: "sim_args \<Rightarrow> int list \<Rightarrow> int list \<Rightarrow> sim_state \<Rightarrow> bool" where
  "sim_ok a inps outs s \<longleftrightarrow> logs_ok a (length outs) (ss_logs s) \<and> sl_iter (ss_logs s) = int (length (sl_is_prefill (ss_logs s))) \<and>
     account inps outs (sl_progress (ss_logs s)) (ss_waiting s @ ss_running s) \<and>
     ss_unfinished s = int (length (ss_waiting s @ ss_running s)) \<and>
     ss_used s = used_blocks (sa_block_size a) (ss_running s) \<and> length (ss_running s) \<le> sa_max_seq_num a"

text \<open>
  The requests that the simulation can serve: each fits into one prefill step and, with all its tokens and the
  watermark, alone into the cache.
\<close>

definition sim_fits :: "sim_args \<Rightarrow> int list \<Rightarrow> int list \<Rightarrow> bool" where
  "sim_fits a inps outs \<longleftrightarrow> 0 < sa_block_size a \<and> 0 < sa_max_seq_num a \<and> 0 < sa_max_block_num a \<and> length inps = length outs \<and>
     (\<forall>i < length outs. 1 \<le> inps ! i \<and> 1 \<le> outs ! i \<and> inps ! i + outs ! i - 1 \<le> sa_max_num_batched_tokens a \<and>
        roomy a (blocks_of (sa_block_size a) (inps ! i + outs ! i - 1)))"

definition todo :: "sim_seq list \<Rightarrow> int" where
  "todo xs = sum_list (map (\<lambda>(_, _, r). r) xs)"

lemma todo_simps [simp]: "todo [] = 0" "todo ((i, l, r) # xs) = r + todo xs" "todo (xs @ ys) = todo xs + todo ys"
  by (simp_all add: todo_def)

lemma used_blocks_append [simp]: "used_blocks bs (xs @ ys) = used_blocks bs xs + used_blocks bs ys"
  by (simp add: used_blocks_def)

lemma todo_nonneg: "\<forall>x \<in> set xs. owed inps outs p x \<Longrightarrow> 0 \<le> todo xs"
  by (induction xs) (auto simp: owed_def)

lemma owed_bounds:
  assumes "sim_fits a inps outs" and "owed inps outs p (i, l, r)"
  shows "l \<le> sa_max_num_batched_tokens a" and "roomy a (blocks_of (sa_block_size a) l)"
    and "blocks_of (sa_block_size a) (l - 1) + 1 \<le> sa_max_block_num a"
proof -
  have o: "i < length outs" "1 \<le> r" "l + r = inps ! i + outs ! i" using assms(2) by (simp_all add: owed_def)
  have f: "0 < sa_block_size a" "0 < sa_max_block_num a" "inps ! i + outs ! i - 1 \<le> sa_max_num_batched_tokens a"
    "roomy a (blocks_of (sa_block_size a) (inps ! i + outs ! i - 1))" using assms(1) o(1) by (simp_all add: sim_fits_def)
  have l: "l \<le> inps ! i + outs ! i - 1" using o by linarith
  then show "l \<le> sa_max_num_batched_tokens a" using f(3) by linarith
  show r: "roomy a (blocks_of (sa_block_size a) l)" by (rule roomy_mono [OF f(4) blocks_of_mono [OF f(1) l]])
  have "blocks_of (sa_block_size a) (l - 1) \<le> blocks_of (sa_block_size a) l" by (rule blocks_of_mono [OF f(1)]) simp
  then show "blocks_of (sa_block_size a) (l - 1) + 1 \<le> sa_max_block_num a" using roomy_less [OF r f(2)] by linarith
qed

text \<open>
  The common step of both phases: requests \<open>xs\<close> make \<open>n\<close> iterations, the others stand still, and those that are then
  finished leave.
\<close>

definition progressed :: "int \<Rightarrow> nat set \<Rightarrow> int \<Rightarrow> int \<Rightarrow> int list list \<Rightarrow> int list list \<Rightarrow> bool" where
  "progressed n ids t u p q \<longleftrightarrow> length q = length p \<and> t \<le> u \<and> 1 \<le> n \<and> (\<forall>i < length p. if i \<in> ids
     then \<exists>s \<ge> t. s + n - 1 < u \<and> q ! i = add_one_infer_rng (p ! i) s (s + n - 1) else q ! i = p ! i)"

lemma progressed_ok:
  assumes "progressed n ids t u p q" and "\<forall>i < length p. progress_ok t (p ! i)" and "0 \<le> t" and "i < length p"
  shows "progress_ok u (q ! i)"
    and "int (length (steps_of (q ! i))) = int (length (steps_of (p ! i))) + (if i \<in> ids then n else 0)"
proof -
  have p: "progress_ok t (p ! i)" "t \<le> u" "1 \<le> n" using assms by (simp_all add: progressed_def)
  have step: "if i \<in> ids then \<exists>s \<ge> t. s + n - 1 < u \<and> q ! i = add_one_infer_rng (p ! i) s (s + n - 1) else q ! i = p ! i"
    using assms(1,4) unfolding progressed_def by blast
  have "progress_ok u (q ! i) \<and> int (length (steps_of (q ! i))) = int (length (steps_of (p ! i))) + (if i \<in> ids then n else 0)"
  proof (cases "i \<in> ids")
    case True
    then obtain s where s: "t \<le> s" "s + n - 1 < u" "q ! i = add_one_infer_rng (p ! i) s (s + n - 1)"
      using step by auto
    have "s \<le> s + n - 1" "0 \<le> s" using p(3) s(1) assms(3) by linarith+
    from progress_add [OF p(1) s(1) this s(2)] s(3) True show ?thesis by simp
  next
    case False
    then have "q ! i = p ! i" using assms(1,4) by (simp add: progressed_def)
    then show ?thesis using False progress_mono [OF p(1,2)] by simp
  qed
  then show "progress_ok u (q ! i)"
    and "int (length (steps_of (q ! i))) = int (length (steps_of (p ! i))) + (if i \<in> ids then n else 0)" by auto
qed

definition stepped :: "int \<Rightarrow> sim_seq list \<Rightarrow> sim_seq list" where
  "stepped n xs = filter (\<lambda>(_, _, r). r \<noteq> 0) (map (\<lambda>(i, l, r). (i, l + n, r - n)) xs)"

lemma account_step:
  assumes "account inps outs p (xs @ ys)" and "progressed n (fst ` set xs) t u p q" and "\<forall>i < length p. progress_ok t (p ! i)"
    and "0 \<le> t" and "length p = length outs" and "\<forall>(_, _, r) \<in> set xs. n \<le> r"
  shows "account inps outs q (ys @ stepped n xs)"
proof -
  have d: "distinct (map fst (xs @ ys))" "\<forall>x \<in> set (xs @ ys). owed inps outs p x" using assms(1) by (simp_all add: account_def)
  have fin: "int (length (steps_of (p ! i))) = outs ! i" if "i < length outs" "i \<notin> fst ` set (xs @ ys)" for i
    using assms(1) that unfolding account_def by blast
  note len = progressed_ok(2) [OF assms(2-4), unfolded assms(5)]
  have n: "1 \<le> n" using assms(2) by (simp add: progressed_def)
  have ids: "fst ` set (stepped n xs) \<subseteq> fst ` set xs" by (force simp: stepped_def)
  have "distinct (map fst (map (\<lambda>(i, l, r). (i, l + n, r - n)) xs))" using d(1) by (simp add: o_def case_prod_beta')
  then have "distinct (map fst (stepped n xs))" unfolding stepped_def by (rule distinct_map_filter)
  then have "distinct (map fst (ys @ stepped n xs))" using d(1) ids by auto
  moreover have "owed inps outs q x" if x: "x \<in> set (ys @ stepped n xs)" for x
  proof (cases "x \<in> set ys")
    case True
    obtain i l r where e: "x = (i, l, r)" by (cases x)
    have "owed inps outs p (i, l, r)" using d(2) True by (simp add: e)
    moreover have "i \<in> fst ` set ys" using True e by force
    then have "i \<notin> fst ` set xs" using d(1) by auto
    ultimately show ?thesis using len [of i] by (simp add: e owed_def)
  next
    case False
    then obtain i l r where e: "(i, l, r) \<in> set xs" "x = (i, l + n, r - n)" "r - n \<noteq> 0" using x by (auto simp: stepped_def)
    have o: "owed inps outs p (i, l, r)" using d(2) e(1) by simp
    have "n \<le> r" using assms(6) e(1) by blast
    moreover have "i \<in> fst ` set xs" using e(1) by force
    ultimately show ?thesis using o len [of i] e(3) n by (simp add: e(2) owed_def)
  qed
  moreover have "int (length (steps_of (q ! i))) = outs ! i" if i: "i < length outs" "i \<notin> fst ` set (ys @ stepped n xs)" for i
  proof (cases "i \<in> fst ` set xs")
    case True
    then obtain l r where e: "(i, l, r) \<in> set xs" by auto
    have "(i, l + n, r - n) \<notin> set (stepped n xs)" using i(2) by force
    then have "r = n" using e by (force simp: stepped_def)
    moreover have "owed inps outs p (i, l, r)" using d(2) e by simp
    ultimately show ?thesis using len [OF i(1)] True by (simp add: owed_def)
  next
    case False
    then have "i \<notin> fst ` set (xs @ ys)" using i(2) by auto
    then show ?thesis using fin [OF i(1)] len [OF i(1)] False by simp
  qed
  ultimately show ?thesis by (auto simp: account_def)
qed

lemma length_stepped: "length (stepped n xs) \<le> length xs"
  unfolding stepped_def by (rule order_trans [OF length_filter_le]) simp

lemma todo_stepped: "0 \<le> n \<Longrightarrow> todo (stepped n xs) = todo xs - n * int (length xs)"
  by (induction xs) (auto simp: stepped_def algebra_simps)

lemma account_perm: "account inps outs p xs \<Longrightarrow> mset ys = mset xs \<Longrightarrow> account inps outs p ys"
  unfolding account_def by (metis mset_eq_imp_distinct_iff mset_eq_setD mset_map)

section \<open>The two phases of a turn\<close>

lemma admitted_stepped: "admitted xs = stepped 1 xs"
  by (induction xs) (auto simp: admitted_def stepped_def)

lemma prefilled_progressed:
  "prefilled m ids l l' \<Longrightarrow> progressed 1 ids (sl_iter l) (sl_iter l') (sl_progress l) (sl_progress l')"
  unfolding prefilled_def progressed_def by simp

lemma prefilled_logs_ok:
  assumes "prefilled (sa_max_num_batched_tokens a) ids l l'" and "logs_ok a n l"
  shows "logs_ok a n l'"
proof -
  have p: "length (sl_progress l) = n" "\<forall>i < length (sl_progress l). progress_ok (sl_iter l) (sl_progress l ! i)" "0 \<le> sl_iter l"
    using assms(2) unfolding logs_ok_def by blast+
  have "\<forall>i < n. progress_ok (sl_iter l') (sl_progress l' ! i)"
    using progressed_ok(1) [OF prefilled_progressed [OF assms(1)] p(2,3)] p(1) by simp
  moreover obtain new where "sl_prefill l' = sl_prefill l @ new" "sl_iter l' = sl_iter l + int (length new)"
    "\<forall>(k, _, _, m) \<in> set new. k * m \<le> sa_max_num_batched_tokens a" using assms(1) unfolding prefilled_def by blast
  moreover have "sl_decode l' = sl_decode l" "length (sl_progress l') = n" using assms(1) p(1) by (simp_all add: prefilled_def)
  ultimately show ?thesis using assms(2) by (auto simp: logs_ok_def)
qed

lemma admit_phase:
  assumes "sim_ok a inps outs s" and "sim_fits a inps outs"
  shows "\<exists>waiting run used unfinished prompts l s1. sim_admit a (ss_waiting s) (ss_running s) (ss_used s) (ss_unfinished s) [] =
      Inr (waiting, run, used, unfinished, prompts) \<and>
    update_prefill_logs a prompts (ss_logs s) = Inr l \<and>
    s1 = \<lparr>ss_waiting = waiting, ss_running = run, ss_used = used, ss_unfinished = unfinished, ss_logs =
      l\<lparr>sl_is_prefill := sl_is_prefill l @ replicate (nat (sl_iter l - int (length (sl_is_prefill l)))) True\<rparr>\<rparr> \<and>
    sim_ok a inps outs s1 \<and> (waiting = [] \<or> run \<noteq> []) \<and>
    todo (waiting @ run) \<le> todo (ss_waiting s @ ss_running s)"
proof -
  let ?bs = "sa_block_size a" and ?l = "ss_logs s"
  have bs: "0 < ?bs" and seqs: "0 < sa_max_seq_num a" using assms(2) by (simp_all add: sim_fits_def)
  have ok: "logs_ok a (length outs) ?l" "account inps outs (sl_progress ?l) (ss_waiting s @ ss_running s)"
    "ss_unfinished s = int (length (ss_waiting s @ ss_running s))" "ss_used s = used_blocks ?bs (ss_running s)"
    "length (ss_running s) \<le> sa_max_seq_num a" "sl_iter ?l = int (length (sl_is_prefill ?l))"
    using assms(1) by (simp_all add: sim_ok_def)
  have len: "length (sl_progress ?l) = length outs" "0 \<le> sl_iter ?l" "\<forall>i < length outs. progress_ok (sl_iter ?l) (sl_progress ?l ! i)"
    using ok(1) unfolding logs_ok_def by blast+
  have owed: "owed inps outs (sl_progress ?l) x" if "x \<in> set (ss_waiting s @ ss_running s)" for x
    using ok(2) that by (simp add: account_def)
  have room: "roomy a (blocks_of ?bs l)" if "(i, l, r) \<in> set (ss_waiting s)" for i l r
    using owed_bounds(2) [OF assms(2) owed [of "(i, l, r)"]] that by simp
  obtain taken rest where t: "ss_waiting s = taken @ rest"
    "sim_admit a (ss_waiting s) (ss_running s) (ss_used s) (ss_unfinished s) [] = Inr (rest, ss_running s @ admitted taken,
       ss_used s + used_blocks ?bs (admitted taken), ss_unfinished s - (int (length taken) - int (length (admitted taken))),
       [] @ map (\<lambda>(i, l, _). (i, l)) taken)"
    "length (ss_running s) \<le> sa_max_seq_num a \<longrightarrow> length (ss_running s @ admitted taken) \<le> sa_max_seq_num a"
    "ss_running s = [] \<and> ss_used s = 0 \<and> 0 < sa_max_seq_num a \<and> (\<forall>(_, l, _) \<in> set (ss_waiting s). roomy a (blocks_of ?bs l)) \<and>
       roomy a (blocks_of ?bs 1) \<longrightarrow> rest = [] \<or> ss_running s @ admitted taken \<noteq> []"
    using sim_admit_ok [OF bs, of "ss_waiting s" "ss_running s" "ss_used s" "ss_unfinished s" "[]"] by (elim exE conjE)
  let ?ps = "map (\<lambda>(i, l, _). (i, l)) taken"
  have fst: "map fst ?ps = map fst taken" by (simp add: case_prod_beta')
  have ps: "distinct (map fst ?ps)" "\<forall>i \<in> set (map fst ?ps). i < length (sl_progress ?l)"
    "\<forall>(_, n) \<in> set ?ps. n \<le> sa_max_num_batched_tokens a"
  proof -
    show "distinct (map fst ?ps)" unfolding fst using ok(2) by (simp add: account_def t(1))
    show "\<forall>i \<in> set (map fst ?ps). i < length (sl_progress ?l)"
      unfolding fst using owed t(1) ok(1) by (fastforce simp: owed_def logs_ok_def)
    show "\<forall>(_, n) \<in> set ?ps. n \<le> sa_max_num_batched_tokens a"
      using owed_bounds(1) [OF assms(2) owed] t(1) by fastforce
  qed
  obtain l' where l: "update_prefill_logs a ?ps ?l = Inr l'" "prefilled (sa_max_num_batched_tokens a) (set (map fst ?ps)) ?l l'"
    using update_prefill_logs_ok [OF ps] by blast
  have old: "sl_is_prefill l' = sl_is_prefill ?l" "sl_iter ?l \<le> sl_iter l'" using l(2) by (simp_all add: prefilled_def)
  let ?l' = "l'\<lparr>sl_is_prefill := sl_is_prefill l' @ replicate (nat (sl_iter l' - int (length (sl_is_prefill l')))) True\<rparr>"
  let ?s = "\<lparr>ss_waiting = rest, ss_running = ss_running s @ admitted taken, ss_used = ss_used s + used_blocks ?bs (admitted taken),
    ss_unfinished = ss_unfinished s - (int (length taken) - int (length (admitted taken))), ss_logs = ?l'\<rparr>"
  have "account inps outs (sl_progress l') ((rest @ ss_running s) @ stepped 1 taken)"
  proof (rule account_step)
    show "account inps outs (sl_progress ?l) (taken @ rest @ ss_running s)" using ok(2) by (simp add: t(1))
    show "progressed 1 (fst ` set taken) (sl_iter ?l) (sl_iter l') (sl_progress ?l) (sl_progress l')"
      using prefilled_progressed [OF l(2)] unfolding fst by simp
    show "\<forall>(_, _, r) \<in> set taken. 1 \<le> r" using owed t(1) by (fastforce simp: owed_def)
  qed (use len in simp_all)
  moreover have "logs_ok a (length outs) ?l'" using prefilled_logs_ok [OF l(2) ok(1)] by simp
  ultimately have "sim_ok a inps outs ?s" using ok(3-6) old t(1,3) by (simp add: sim_ok_def admitted_stepped)
  moreover have "rest = [] \<or> ss_running s @ admitted taken \<noteq> []"
  proof (cases "ss_running s = [] \<and> rest \<noteq> []")
    case True
    then obtain i l r where x: "(i, l, r) \<in> set (ss_waiting s)" using t(1) by (cases rest) auto
    have "1 \<le> l" using owed [of "(i, l, r)"] x by (simp add: owed_def)
    then have "roomy a (blocks_of ?bs 1)" using roomy_mono [OF room [OF x] blocks_of_mono [OF bs]] by simp
    then show ?thesis using t(4) True ok(4) seqs room by fastforce
  qed auto
  moreover have "todo (rest @ ss_running s @ admitted taken) \<le> todo (ss_waiting s @ ss_running s)"
    by (simp add: admitted_stepped todo_stepped t(1))
  ultimately show ?thesis using t(2) l(1)
    by (intro exI [of _ rest] exI [of _ "ss_running s @ admitted taken"] exI [of _ "ss_used s + used_blocks ?bs (admitted taken)"]
      exI [of _ "ss_unfinished s - (int (length taken) - int (length (admitted taken)))"] exI [of _ ?ps] exI [of _ l'] exI [of _ ?s]) simp
qed

lemma decode_phase:
  assumes "sim_ok a inps outs s" and "sim_fits a inps outs" and "ss_running s \<noteq> []"
  shows "\<exists>s'. sim_decode a s = Inr s' \<and> sim_ok a inps outs s' \<and> todo (ss_waiting s' @ ss_running s') < todo (ss_waiting s @ ss_running s)"
proof -
  let ?bs = "sa_block_size a" and ?l = "ss_logs s" and ?m = "sa_max_block_num a"
  have bs: "0 < ?bs" using assms(2) by (simp add: sim_fits_def)
  have ok: "logs_ok a (length outs) ?l" "account inps outs (sl_progress ?l) (ss_waiting s @ ss_running s)"
    "ss_unfinished s = int (length (ss_waiting s @ ss_running s))" "ss_used s = used_blocks ?bs (ss_running s)"
    "length (ss_running s) \<le> sa_max_seq_num a" "sl_iter ?l = int (length (sl_is_prefill ?l))"
    using assms(1) by (simp_all add: sim_ok_def)
  have owed: "owed inps outs (sl_progress ?l) x" if "x \<in> set (ss_waiting s @ ss_running s)" for x
    using ok(2) that by (simp add: account_def)
  obtain i l r run' where run: "ss_running s = (i, l, r) # run'" using assms(3) by (cases "ss_running s") auto
  have "blocks_of ?bs (l - 1) + 1 \<le> ?m" using owed_bounds(3) [OF assms(2) owed [of "(i, l, r)"]] run by simp
  from kill_seqs_ok [OF bs run this, of "ss_waiting s"] obtain k where
    k: "kill_seqs_for_more_cache_space a (ss_running s) (ss_waiting s) =
      Inr (used_blocks ?bs (take k (ss_running s)), take k (ss_running s), drop k (ss_running s) @ ss_waiting s)"
    "0 < k" "k \<le> length (ss_running s)" "blocks_after ?bs (take k (ss_running s)) 1 \<le> ?m" by blast
  let ?keep = "take k (ss_running s)" and ?wait = "drop k (ss_running s) @ ss_waiting s"
  have keep: "?keep \<noteq> []" using k(2) assms(3) by simp
  have "used_blocks ?bs ?keep = blocks_after ?bs ?keep 0" by (simp add: used_blocks_def blocks_after_def)
  also have "\<dots> \<le> ?m" using blocks_after_mono [OF bs, of 0 1 ?keep] k(4) by simp
  finally obtain n0 where n0: "get_max_iter_num a (used_blocks ?bs ?keep) ?keep = Inr (min (Min ((\<lambda>(_, _, r). r) ` set ?keep)) n0)"
    "\<forall>n \<ge> 0. blocks_after ?bs ?keep n \<le> ?m \<longleftrightarrow> n \<le> n0" using get_max_iter_num_exact [OF bs keep] by blast
  define n where "n = min (Min ((\<lambda>(_, _, r). r) ` set ?keep)) n0"
  have mem: "x \<in> set (ss_waiting s @ ss_running s)" if "x \<in> set ?keep" for x using that by (auto dest: in_set_takeD)
  have n: "1 \<le> n"
  proof -
    have "1 \<le> r" if "(i, l, r) \<in> set ?keep" for i l r using owed [OF mem [OF that]] by (simp add: owed_def)
    then have "1 \<le> Min ((\<lambda>(_, _, r). r) ` set ?keep)" using keep by (subst Min_ge_iff) auto
    moreover have "1 \<le> n0" using n0(2) k(4) by simp
    ultimately show ?thesis by (simp add: n_def)
  qed
  have nr: "\<forall>(_, _, r) \<in> set ?keep. n \<le> r"
  proof
    fix x assume x: "x \<in> set ?keep"
    have "Min ((\<lambda>(_, _, r). r) ` set ?keep) \<le> (case x of (_, _, r) \<Rightarrow> r)" using x by (intro Min_le) auto
    then show "case x of (_, _, r) \<Rightarrow> n \<le> r" by (auto simp: n_def split: prod.splits)
  qed
  let ?stop = "sl_iter ?l + n - 1" and ?ids = "map fst ?keep"
  let ?p = "store_infer_state (sl_iter ?l) ?stop ?ids (sl_progress ?l)"
  let ?l' = "?l\<lparr>sl_decode := sl_decode ?l @ decode_logs ?keep n, sl_progress := ?p,
      sl_is_prefill := sl_is_prefill ?l @ replicate (nat n) False, sl_iter := sl_iter ?l + n\<rparr>"
  let ?s = "\<lparr>ss_waiting = ?wait, ss_running = stepped n ?keep, ss_used = used_blocks ?bs (stepped n ?keep),
      ss_unfinished = ss_unfinished s - (int (length ?keep) - int (length (stepped n ?keep))), ss_logs = ?l'\<rparr>"
  have run_eq: "sim_decode a s = Inr ?s"
    using k(1) n0(1) by (simp add: sim_decode_def remove_finished_seqs_def Let_def stepped_def flip: n_def)
  have len: "length (sl_progress ?l) = length outs" "0 \<le> sl_iter ?l" "\<forall>i < length outs. progress_ok (sl_iter ?l) (sl_progress ?l ! i)"
    using ok(1) unfolding logs_ok_def by blast+
  have perm: "mset (?keep @ ?wait) = mset (ss_waiting s @ ss_running s)"
  proof -
    have "?keep @ ?wait = ss_running s @ ss_waiting s" by (simp flip: append_assoc)
    then show ?thesis by (simp only: mset_append add.commute)
  qed
  have acc: "account inps outs (sl_progress ?l) (?keep @ ?wait)" by (rule account_perm [OF ok(2) perm])
  have ids: "distinct ?ids" "\<forall>i \<in> set ?ids. i < length (sl_progress ?l)"
    using acc len(1) by (fastforce simp: account_def owed_def)+
  have prog: "progressed n (fst ` set ?keep) (sl_iter ?l) (sl_iter ?l + n) (sl_progress ?l) ?p"
    using store_infer_state_nth [OF ids, of "sl_iter ?l" ?stop] n by (auto simp: progressed_def)
  have acc': "account inps outs ?p (?wait @ stepped n ?keep)"
    by (rule account_step [OF acc prog _ len(2,1) nr]) (use len in simp)
  have "length (decode_logs ?keep n) = nat n" by (simp add: decode_logs_def Let_def)
  moreover have "\<forall>(x, _) \<in> set (decode_logs ?keep n). x = int (length ?keep)" by (auto simp: decode_logs_def Let_def)
  moreover have "\<forall>i < length outs. progress_ok (sl_iter ?l + n) (?p ! i)" using progressed_ok(1) [OF prog] len by simp
  moreover have "length ?p = length outs" using prog len(1) by (simp add: progressed_def)
  ultimately have "logs_ok a (length outs) ?l'" using ok(1,5) k(2,3) n by (fastforce simp: logs_ok_def)
  moreover have "length (stepped n ?keep) \<le> length ?keep" by (rule length_stepped)
  ultimately have "sim_ok a inps outs ?s" using acc' ok(3-6) k(3) n by (simp add: sim_ok_def)
  moreover have "todo (?wait @ stepped n ?keep) < todo (ss_waiting s @ ss_running s)"
  proof -
    have "todo (ss_running s) = todo ?keep + todo (drop k (ss_running s))" by (simp flip: todo_simps(3))
    moreover have "0 < n * int (length ?keep)" using n keep by simp
    ultimately show ?thesis using n by (simp add: todo_stepped del: length_take)
  qed
  ultimately show ?thesis using run_eq by auto
qed

section \<open>The simulation ends\<close>

lemma sim_turn_ok:
  assumes "sim_ok a inps outs s" and "sim_fits a inps outs" and "ss_unfinished s \<noteq> 0"
  shows "\<exists>leave s'. sim_turn a s = Inr (leave, s') \<and> sim_ok a inps outs s' \<and>
    (if leave then ss_unfinished s' = 0 else todo (ss_waiting s' @ ss_running s') < todo (ss_waiting s @ ss_running s))"
proof -
  from admit_phase [OF assms(1,2)] obtain waiting run used unfinished prompts l s1 where p:
    "sim_admit a (ss_waiting s) (ss_running s) (ss_used s) (ss_unfinished s) [] = Inr (waiting, run, used, unfinished, prompts)"
    "update_prefill_logs a prompts (ss_logs s) = Inr l"
    "s1 = \<lparr>ss_waiting = waiting, ss_running = run, ss_used = used, ss_unfinished = unfinished, ss_logs =
      l\<lparr>sl_is_prefill := sl_is_prefill l @ replicate (nat (sl_iter l - int (length (sl_is_prefill l)))) True\<rparr>\<rparr>"
    "sim_ok a inps outs s1" "waiting = [] \<or> run \<noteq> []" "todo (waiting @ run) \<le> todo (ss_waiting s @ ss_running s)" by blast
  have u: "unfinished = int (length (waiting @ run))" using p(4) by (simp add: sim_ok_def p(3))
  show ?thesis
  proof (cases "unfinished = 0")
    case True
    then have "length (waiting @ run) = 0" using u by linarith
    then have "sim_turn a s = Inr (True, s1)" using True p(1,2) by (simp add: sim_turn_def Let_def p(3))
    then show ?thesis using p(3,4) True by auto
  next
    case False
    then have "ss_running s1 \<noteq> []" using u p(3,5) by auto
    from decode_phase [OF p(4) assms(2) this] obtain s' where d: "sim_decode a s1 = Inr s'" "sim_ok a inps outs s'"
      "todo (ss_waiting s' @ ss_running s') < todo (ss_waiting s1 @ ss_running s1)" by blast
    have "sim_turn a s = Inr (False, s')" using False d(1) p(1,2) by (simp add: sim_turn_def Let_def flip: p(3))
    moreover have "todo (ss_waiting s1 @ ss_running s1) \<le> todo (ss_waiting s @ ss_running s)" using p(3,6) by simp
    ultimately show ?thesis using d(2,3) by fastforce
  qed
qed

lemma sim_loop_ok:
  assumes "sim_ok a inps outs s" and "sim_fits a inps outs"
  shows "\<exists>s'. sim_loop a s = Some (Inr s') \<and> sim_ok a inps outs s' \<and> ss_unfinished s' = 0"
  using assms(1)
proof (induction "nat (todo (ss_waiting s @ ss_running s))" arbitrary: s rule: less_induct)
  case less
  show ?case
  proof (cases "ss_unfinished s = 0")
    case True
    then show ?thesis using less.prems by (subst sim_loop.simps) simp
  next
    case False
    from sim_turn_ok [OF less.prems assms(2) False] obtain leave s' where t: "sim_turn a s = Inr (leave, s')" "sim_ok a inps outs s'"
      "if leave then ss_unfinished s' = 0 else todo (ss_waiting s' @ ss_running s') < todo (ss_waiting s @ ss_running s)" by blast
    show ?thesis
    proof (cases leave)
      case True
      then show ?thesis using t False by (subst sim_loop.simps) simp
    next
      case stay: False
      have "0 \<le> todo (ss_waiting s' @ ss_running s')" using t(2) by (intro todo_nonneg) (auto simp: sim_ok_def account_def)
      then have "nat (todo (ss_waiting s' @ ss_running s')) < nat (todo (ss_waiting s @ ss_running s))" using t(3) stay by simp
      from less.hyps [OF this t(2)] show ?thesis using False t(1) stay by (subst sim_loop.simps) simp
    qed
  qed
qed

lemma sim_start_ok:
  assumes "sim_fits a inps outs"
  shows "sim_ok a inps outs (sim_start inps outs)"
proof -
  let ?xs = "zip [0..<length inps] (zip inps outs)"
  have len: "length inps = length outs" using assms by (simp add: sim_fits_def)
  have nth: "?xs ! i = (i, inps ! i, outs ! i)" if "i < length outs" for i using that len by simp
  have fst: "map fst ?xs = [0..<length outs]" using len by (simp add: map_fst_zip)
  have "owed inps outs (replicate (length inps) []) x" if x: "x \<in> set ?xs" for x
  proof -
    obtain i where i: "i < length outs" "x = ?xs ! i" using x len by (auto simp: in_set_conv_nth)
    show ?thesis using assms i(1) len unfolding i(2) nth [OF i(1)] by (simp add: owed_def sim_fits_def)
  qed
  moreover have "fst ` set ?xs = {..<length outs}" using fst by (metis atLeast_upt list.set_map)
  ultimately have "account inps outs (replicate (length inps) []) ?xs" using fst by (simp add: account_def)
  then show ?thesis using len by (simp add: sim_ok_def sim_start_def logs_ok_def progress_ok_def)
qed

text \<open>C7: The simulation of the planner ends without an error, and no request gets lost in it: every request takes
  part in as many different iterations as it has tokens to generate, one for each token, however often it is
  preempted and started again. The iterations are those of the logs, every prefill step is within the token
  limit and every decode step within the limit on the sequences.\<close>

theorem fake_schedule_generates_all:
  assumes "sim_fits a inps outs"
  shows "\<exists>l. fake_FCFS_schedule a inps outs = Some (Inr l) \<and> length (sl_progress l) = length outs \<and>
    length (sl_is_prefill l) = length (sl_decode l) + length (sl_prefill l) \<and>
    (\<forall>i < length outs. ranges_ok (sl_progress l ! i) \<and> sorted_wrt (<) (steps_of (sl_progress l ! i)) \<and>
       set (steps_of (sl_progress l ! i)) \<subseteq> {0..<int (length (sl_is_prefill l))} \<and> int (length (steps_of (sl_progress l ! i))) = outs ! i) \<and>
    (\<forall>(k, _, _, m) \<in> set (sl_prefill l). k * m \<le> sa_max_num_batched_tokens a) \<and>
    (\<forall>(k, _) \<in> set (sl_decode l). 1 \<le> k \<and> k \<le> int (sa_max_seq_num a))"
proof -
  obtain s where s: "sim_loop a (sim_start inps outs) = Some (Inr s)" "sim_ok a inps outs s" "ss_unfinished s = 0"
    using sim_loop_ok [OF sim_start_ok [OF assms] assms] by blast
  let ?l = "ss_logs s"
  have l: "length (sl_progress ?l) = length outs" "\<forall>i < length outs. progress_ok (sl_iter ?l) (sl_progress ?l ! i)"
    "sl_iter ?l = int (length (sl_decode ?l) + length (sl_prefill ?l))"
    "\<forall>(k, _, _, m) \<in> set (sl_prefill ?l). k * m \<le> sa_max_num_batched_tokens a"
    "\<forall>(k, _) \<in> set (sl_decode ?l). 1 \<le> k \<and> k \<le> int (sa_max_seq_num a)"
    using s(2) unfolding sim_ok_def logs_ok_def by blast+
  have flags: "sl_iter ?l = int (length (sl_is_prefill ?l))" using s(2) by (simp add: sim_ok_def)
  have "length (ss_waiting s @ ss_running s) = 0" using s(2,3) unfolding sim_ok_def by linarith
  then have "ss_waiting s @ ss_running s = []" by simp
  moreover have "account inps outs (sl_progress ?l) (ss_waiting s @ ss_running s)" using s(2) by (simp add: sim_ok_def)
  ultimately have "int (length (steps_of (sl_progress ?l ! i))) = outs ! i" if "i < length outs" for i
    using that unfolding account_def by simp
  moreover have "set (steps_of (sl_progress ?l ! i)) \<subseteq> {0..<int (length (sl_is_prefill ?l))}" if "i < length outs" for i
    using l(2) that flags unfolding progress_ok_def by fastforce
  moreover have "fake_FCFS_schedule a inps outs = Some (Inr ?l)" using s(1) l(3) by (simp add: fake_FCFS_schedule_def)
  ultimately show ?thesis using l flags by (intro exI [of _ ?l]) (simp add: progress_ok_def)
qed

section \<open>The state at a stop time\<close>

lemma ranges_even: "ranges_ok rngs \<Longrightarrow> length rngs = 2 * length (range_starts rngs) \<and> length (range_ends rngs) = length (range_starts rngs)"
  by (induction rngs rule: ranges_ok.induct) simp_all

lemma range_starts_append: "ranges_ok r \<Longrightarrow> range_starts (r @ r') = range_starts r @ range_starts r'"
  by (induction r rule: ranges_ok.induct) simp_all

lemma range_ends_append: "ranges_ok r \<Longrightarrow> range_ends (r @ r') = range_ends r @ range_ends r'"
  by (induction r rule: ranges_ok.induct) simp_all

definition stop_lens :: "int \<Rightarrow> int list \<Rightarrow> int list \<Rightarrow> int list" where
  "stop_lens stop starts ends = map2 (\<lambda>s e. if s \<le> stop then min stop e - s + 1 else 0) starts ends"

lemma stop_lens_concat:
  assumes "\<forall>r \<in> set p. ranges_ok r"
  shows "stop_lens t (range_starts (concat p)) (range_ends (concat p)) = concat (map (\<lambda>r. stop_lens t (range_starts r) (range_ends r)) p)"
  using assms
proof (induction p)
  case Nil
  then show ?case by (simp add: stop_lens_def)
next
  case (Cons r p)
  then show ?case using ranges_even [of r] by (simp add: stop_lens_def range_starts_append range_ends_append)
qed

lemma filter_upto_le: "s \<le> e \<Longrightarrow> int (length (filter (\<lambda>x. x \<le> t) [s..e])) = (if s \<le> t then min t e - s + 1 else 0)"
proof -
  assume e: "s \<le> e"
  have "set (filter (\<lambda>x. x \<le> t) [s..e]) = {s..min t e}" by auto
  then have "length (filter (\<lambda>x. x \<le> t) [s..e]) = card {s..min t e}" using distinct_card [of "filter (\<lambda>x. x \<le> t) [s..e]"] by simp
  then show ?thesis using e by auto
qed

lemma stop_lens_count:
  "ranges_ok r \<Longrightarrow> sum_list (stop_lens t (range_starts r) (range_ends r)) = int (length (filter (\<lambda>x. x \<le> t) (steps_of r)))"
proof (induction r rule: ranges_ok.induct)
  case (1 s e r)
  then show ?case using filter_upto_le [of s e t] by (simp add: stop_lens_def)
qed (simp_all add: stop_lens_def)

lemma take_concat: "take (sum_list (map length (take i xss))) (concat xss) = concat (take i xss)"
proof (induction xss arbitrary: i)
  case (Cons xs xss)
  then show ?case by (cases i) simp_all
qed simp

lemma sum_list_concat_map: "sum_list (concat xss) = sum_list (map sum_list xss :: int list)"
  by (induction xss) simp_all

lemma cumsum_eq_Nil [simp]: "cumsum a xs = [] \<longleftrightarrow> xs = []"
  by (cases xs) simp_all

lemma cumsum_start: "k \<le> length xs \<Longrightarrow> cumsum 0 (0 # xs) ! k = sum_list (take k xs)"
  using cumsum_nth [of "k - 1" xs 0] by (cases k) simp_all

text \<open>C34: \<open>get_info_at_stop_time\<close>, which takes differences in a cumulative sum over the ranges of all requests, gives
  for each request the number of its iterations up to the given one, which is the number of its tokens.\<close>

theorem stop_time_counts_steps:
  assumes "progress \<noteq> []" and "\<forall>r \<in> set progress. ranges_ok r"
  shows "\<exists>cum starts ends. get_inferRng_info progress = Inr (cum, starts, ends) \<and>
    get_info_at_stop_time cum starts ends t = map (\<lambda>r. int (length (filter (\<lambda>x. x \<le> t) (steps_of r)))) progress"
proof -
  let ?f = "\<lambda>r. stop_lens t (range_starts r) (range_ends r)" and ?nums = "map (\<lambda>r. int (length r div 2)) progress"
  let ?cum = "cumsum 0 (0 # ?nums)" and ?lens = "concat (map ?f progress)" and ?n = "length progress"
  have even: "length r div 2 = length (?f r)" "even (length r)" if "r \<in> set progress" for r
    using ranges_even [of r] assms(2) that by (simp_all add: stop_lens_def)
  have "even (length (concat progress))" using even(2) by (induction progress) auto
  then have info: "get_inferRng_info progress = Inr (?cum, range_starts (concat progress), range_ends (concat progress))"
    using assms(1) by (simp add: get_inferRng_info_def)
  have cum: "?cum ! i = int (sum_list (map length (take i (map ?f progress))))" if "i \<le> ?n" for i
  proof -
    have "?cum ! i = sum_list (take i ?nums)" by (rule cumsum_start) (use that in simp)
    also have "take i ?nums = map (\<lambda>r. int (length (?f r))) (take i progress)"
      using even(1) by (auto simp: take_map dest: in_set_takeD)
    finally show ?thesis by (simp add: take_map int_sum_list o_def)
  qed
  have at: "cumsum 0 (0 # ?lens) ! nat (?cum ! i) = sum_list (map sum_list (take i (map ?f progress)))" if "i \<le> ?n" for i
  proof -
    let ?k = "sum_list (map length (take i (map ?f progress)))"
    have "concat (map ?f progress) = concat (take i (map ?f progress)) @ concat (drop i (map ?f progress))"
      by (simp flip: concat_append)
    then have "?k \<le> length ?lens" by (simp add: length_concat)
    then have "cumsum 0 (0 # ?lens) ! ?k = sum_list (concat (take i (map ?f progress)))" by (simp only: cumsum_start take_concat)
    then show ?thesis unfolding cum [OF that] by (simp add: sum_list_concat_map)
  qed
  have len: "length ?cum = Suc ?n" by simp
  have "get_info_at_stop_time ?cum (range_starts (concat progress)) (range_ends (concat progress)) t = map (sum_list \<circ> ?f) progress"
  proof (rule nth_equalityI)
    show "length (get_info_at_stop_time ?cum (range_starts (concat progress)) (range_ends (concat progress)) t) = length (map (sum_list \<circ> ?f) progress)"
      by (simp add: get_info_at_stop_time_def Let_def)
    fix i assume "i < length (get_info_at_stop_time ?cum (range_starts (concat progress)) (range_ends (concat progress)) t)"
    then have i: "i < ?n" by (simp add: get_info_at_stop_time_def Let_def)
    have "get_info_at_stop_time ?cum (range_starts (concat progress)) (range_ends (concat progress)) t ! i =
        cumsum 0 (0 # ?lens) ! nat (?cum ! Suc i) - cumsum 0 (0 # ?lens) ! nat (?cum ! i)"
      unfolding stop_lens_concat [OF assms(2), symmetric] using i len
      by (simp add: get_info_at_stop_time_def stop_lens_def Let_def nth_tl nth_butlast del: cumsum.simps)
    also have "\<dots> = sum_list (?f (progress ! i))" using at [of "Suc i"] at [of i] i by (simp add: take_Suc_conv_app_nth)
    finally show "get_info_at_stop_time ?cum (range_starts (concat progress)) (range_ends (concat progress)) t ! i =
        map (sum_list \<circ> ?f) progress ! i" using i by simp
  qed
  also have "\<dots> = map (\<lambda>r. int (length (filter (\<lambda>x. x \<le> t) (steps_of r)))) progress" using stop_lens_count assms(2) by simp
  finally show ?thesis using info by blast
qed

end
