(* ===== verification/Fake_Examples.thy ===== *)
theory Fake_Examples
  imports Fake_Props
begin

text \<open>Three requests on a cache of a hundred blocks of four tokens, for the properties of the simulation.\<close>

definition ex_sim :: sim_args where
  "ex_sim = \<lparr>sa_max_seq_num = 2, sa_max_block_num = 100, sa_max_num_batched_tokens = 16, sa_block_size = 4\<rparr>"

lemma ex_sim_roomy: "0 \<le> b \<Longrightarrow> b \<le> 99 \<Longrightarrow> roomy ex_sim b"
  using f64_hundredth_le [of 100 "100 - b"] by (simp add: roomy_def ex_sim_def)

lemma ex_sim_fits: "sim_fits ex_sim [3, 5, 2] [4, 1, 6]"
proof -
  have "roomy ex_sim (blocks_of 4 n)" if "1 \<le> n" "n \<le> 16" for n
  proof (rule ex_sim_roomy)
    show "0 \<le> blocks_of 4 n" using that(1) by (simp add: blocks_of_def)
    show "blocks_of 4 n \<le> 99" using that(2) zdiv_mono1 [of "n + 3" 19 4] by (simp add: blocks_of_def)
  qed
  moreover have "\<forall>i < length [4, 1, 6 :: int]. 1 \<le> [3, 5, 2 :: int] ! i \<and> 1 \<le> [4, 1, 6 :: int] ! i \<and> [3, 5, 2] ! i + [4, 1, 6] ! i - 1 \<le> (16 :: int)"
    by (auto simp: less_Suc_eq numeral_eq_Suc)
  ultimately show ?thesis by (auto simp: sim_fits_def ex_sim_def less_Suc_eq numeral_3_eq_3)
qed

theorem fake_schedule_generates_all_witness:
  "\<exists>l. fake_FCFS_schedule ex_sim [3, 5, 2] [4, 1, 6] = Some (Inr l) \<and> length (steps_of (sl_progress l ! 2)) = 6"
proof -
  obtain l where l: "fake_FCFS_schedule ex_sim [3, 5, 2] [4, 1, 6] = Some (Inr l)"
    "\<forall>i < length [4, 1, 6 :: int]. int (length (steps_of (sl_progress l ! i))) = [4, 1, 6] ! i"
    using fake_schedule_generates_all [OF ex_sim_fits] by blast
  have "int (length (steps_of (sl_progress l ! 2))) = 6" using spec [OF l(2), of 2] by simp
  then show ?thesis using l(1) by (intro exI [of _ l]) simp
qed

theorem get_max_iter_num_exact_witness:
  "\<exists>n0. get_max_iter_num ex_sim 3 [(0, 4, 30), (1, 6, 40)] = Inr (min 30 n0) \<and>
     (\<forall>n \<ge> 0. blocks_after 4 [(0, 4, 30), (1, 6, 40)] n \<le> 100 \<longleftrightarrow> n \<le> n0)"
proof -
  let ?run = "[(0, 4, 30), (1, 6, 40)] :: sim_seq list"
  have u: "sa_block_size ex_sim = 4" "used_blocks 4 ?run = 3" "sa_max_block_num ex_sim = 100"
    by (simp_all add: ex_sim_def blocks_of_def)
  have m: "Min ((\<lambda>(_, _, r). r) ` set ?run) = 30" by simp
  have "0 < sa_block_size ex_sim" "?run \<noteq> []" "used_blocks (sa_block_size ex_sim) ?run \<le> sa_max_block_num ex_sim"
    unfolding u by simp_all
  from get_max_iter_num_exact [OF this] show ?thesis unfolding u m by blast
qed

theorem stop_time_counts_steps_witness:
  "\<exists>cum starts ends. get_inferRng_info [[0, 2, 5, 6], [1, 1]] = Inr (cum, starts, ends) \<and>
     get_info_at_stop_time cum starts ends 5 = [4, 1]"
  using stop_time_counts_steps [of "[[0, 2, 5, 6], [1, 1]]" 5] by (simp add: upto_rec1)

end
