(* ===== verification/Spec2Isabelle.thy ===== *)
theory Spec2Isabelle
  imports Sched_Runs Comm_Props Serve_Examples Async_Examples Worker_Examples Fake_Examples
begin

text \<open>
  Mil runs applications of several language models on a few GPUs. It is a fork of vLLM: each model is served by
  an \<open>LLM\<close> object with an engine (\<^verbatim>\<open>vllm/\<close>), the models exchange requests and outputs through a communicator,
  and a planner decides from simulated schedules which models run when (\<^verbatim>\<open>benchmarks/\<close>). This development models
  the path of a request through the serving code, from the communicator to the KV cache of the worker, and the
  simulation of the planner, as functions of HOL that follow the Python code statement by statement.

  \<^bold>\<open>How the code is modelled.\<close> A class is a record, a method a function from the old to the new state. A step that
  can raise returns \<open>py_error + 'a\<close>, sequenced by \<open>ebind\<close>; a failed assertion and an index out of range are such
  errors (\<open>Mil_Prelude\<close>). Python integers are \<open>int\<close>, dictionaries are association lists in insertion order,
  strings are lists of characters (\<open>Py_Strings\<close>), floats are rationals that are rounded to 53 bits after each
  operation (\<open>Float64\<close>). Where objects are shared and changed in place, identity is explicit: a physical block
  carries its device and number and its reference count stands in a map of the block manager, a prefix is an
  index of its pool, a stream an index of a store, a KV cache a memory with addresses.

  \<^bold>\<open>The parts.\<close>
  \<^item> \<open>Token_Blocks\<close>, \<open>Sequences\<close>, \<open>Prefix_Pool\<close>, \<open>Sampling_Params\<close>: the data of a request, \<^verbatim>\<open>vllm/block.py\<close>,
    \<^verbatim>\<open>sequence.py\<close>, \<^verbatim>\<open>prefix.py\<close>, \<^verbatim>\<open>sampling_params.py\<close>. The tokens of a sequence are those of its logical blocks; a
    constructed object satisfies its documented ranges.
  \<^item> \<open>Block_Pool\<close>, \<open>Block_Space\<close>, \<open>Block_Reorg\<close>: \<^verbatim>\<open>vllm/core/block_manager.py\<close>. The invariant (\<open>Block_Refs\<close>) says that
    the reference count of a block is the number of tables it is in, and that a block is free iff the count is
    0. \<open>Block_Alloc\<close> and \<open>Block_Swap\<close> show that the operations keep it and succeed under the guards that the
    scheduler checks; the two directions of swapping are instances of one locale. \<open>reorganize_gpu_blocks\<close>, which
    gives blocks up to layer weights, is shown to rename blocks and to order the copies.
  \<^item> \<open>Sched_Policy\<close>, \<open>Req_Scheduler\<close>, \<open>Weight_Loading\<close>: \<^verbatim>\<open>vllm/core/policy.py\<close> and \<^verbatim>\<open>scheduler.py\<close>. \<open>Sched_Props\<close>: no
    request is lost between the queues, and the limits of a batch. \<open>Sched_Inv\<close>: a step never raises for requests
    of one sequence. \<open>Sched_Groups\<close>, \<open>Sched_Pool\<close>: what a step leaves alone.
  \<^item> \<open>Detokenize\<close>, \<open>Engine\<close>: \<^verbatim>\<open>transformers_utils/tokenizer.py\<close>, \<^verbatim>\<open>engine/llm_engine.py\<close> and \<^verbatim>\<open>outputs.py\<close>, beam
    search and stop conditions included. \<open>Engine_Group\<close>, \<open>Engine_Inv\<close>: a step keeps the invariant. \<open>Engine_Runs\<close>:
    the runs of adding, stepping and aborting as an inductive relation, and what becomes of each request.
    \<open>Engine_Live\<close>: the engine drains.
  \<^item> \<open>Model_Inputs\<close>, \<open>Sampler\<close>, \<open>Worker\<close>: \<^verbatim>\<open>worker/model_runner.py\<close>, \<^verbatim>\<open>model_executor/layers/sampler.py\<close>, \<^verbatim>\<open>worker/worker.py\<close>,
    \<^verbatim>\<open>worker/cache_engine.py\<close> and the copy kernels. \<open>Model_Inputs_Props\<close> to \<open>Runner_Step\<close>: on what the scheduler
    schedules the inputs can be built, and each group gets a token. \<open>Worker_Step\<close>: the engine with this worker is
    an instance of the engine with any executor that samples, so the properties of the engine hold for it.
    \<open>Cache_Props\<close>: the keys and values of a sequence survive a reorganisation.
  \<^item> \<open>Async_Engine\<close>: \<^verbatim>\<open>engine/async_llm_engine.py\<close> without Ray. A turn of the loop is two definitions, before and after the
    model, since clients act in between; \<open>async_run\<close> interleaves them with clients in any order. \<open>Async_Tracker\<close>:
    the protocol of streams and tracker. \<open>Async_Props\<close>: the runs.
  \<^item> \<open>Communicator\<close>, \<open>Shared_Context\<close>: \<^verbatim>\<open>core/multimodel_scheduler.py\<close>. A method runs under its lock and is one step of
    \<open>comm_run\<close>. \<open>Dealing\<close>, \<open>Comm_Delivery\<close>: each request is handed out once, whatever the order in which workers ask
    and models restart. \<open>Comm_Join\<close>: joining of parts and of sources.
  \<^item> \<open>Serve\<close>: \<^verbatim>\<open>entrypoints/llm.py\<close>, the loop in which a model of a system of models fetches inputs, steps, hands outputs
    over and stops. \<open>Serve_Props\<close>, \<open>Serve_Runs\<close>, \<open>Serve_Generate\<close>: accounting, stopping, restarting, and \<open>generate\<close> from
    prompts to outputs.
  \<^item> \<open>Fake_Schedule\<close>: the simulation in \<^verbatim>\<open>benchmarks/fake_scheduling.py\<close> for requests that are all there at the start.
    \<open>Fake_Iter\<close>: its closed form for the iterations to jump over is exact. \<open>Fake_Runs\<close>, \<open>Fake_Props\<close>: it ends, and
    each request gets as many iterations as it has tokens.
  \<^item> The theories \<open>*_Examples\<close>, \<open>Examples\<close> and \<open>Sched_Runs\<close> hold concrete states for the witnesses, evaluated by the
    simplifier.

  \<^bold>\<open>Interfaces.\<close> The locales state what one part relies on in another: \<open>ref_store\<close> and \<open>ref_pool\<close> (a device of
  blocks with reference counts), \<open>migration\<close> and \<open>table_migration\<close> (moving tables between two devices),
  \<open>priority_policy\<close> (an order of the queues), \<open>status_free\<close>, \<open>status_view\<close>, \<open>kept_view\<close>, \<open>answered_view\<close> and
  \<open>pool_kept\<close> (properties of groups and of the block manager that a scheduling step or an engine step keeps). Each
  is interpreted on the definitions of the code.

  \<^bold>\<open>Loops.\<close> A \<open>for\<close> loop is \<open>efold\<close> or a structural recursion. The \<open>while\<close> loops of the scheduler run over a queue
  that gets shorter. Three loops may run for ever, \<open>run_engine_loop\<close>, \<open>fetch_loop\<close> with \<open>serve_loop\<close>, and \<open>sim_loop\<close>:
  they are \<open>partial_function (option)\<close>, \<open>None\<close> is a run that does not end, and that they end is a theorem
  (\<open>run_engine_drains\<close>, \<open>serve_stops\<close>, \<open>fake_schedule_generates_all\<close>). No definition uses fuel.

  \<^bold>\<open>What is assumed.\<close> Code outside the repository is an argument. \<open>engine_env\<close> holds the tokenizer, \<open>**\<close> on floats and
  \<open>hash\<close>. \<open>model_env\<close> holds the model and the operations of torch (\<open>argmax\<close>, \<open>topk\<close>, \<open>multinomial\<close>); \<open>model_env_ok\<close> and
  \<open>ops_ok\<close> say that their results have the documented shapes and ranges. \<open>samples_all\<close> says that an executor
  samples one token for each scheduled group, and \<open>worker_refines_executor\<close> shows it of the worker. \<open>se_world\<close> is
  what other processes do to shared memory between two looks of this one; it is arbitrary but for what a
  theorem says. The properties of whole steps are for requests of one sequence without beam search and for pools
  without sliding window, which is how the drivers of the repository use the engine; the operations of the block
  manager are also shown for groups of several sequences.

  \<^bold>\<open>What is not modelled.\<close> The numbers inside the models and CUDA kernels other than the copies; CUDA graphs, devices
  and streams; the other tensor-parallel workers and Ray; LoRA layers; HTTP servers, command lines, logging and
  metrics; overflow of floats and of the 32-bit arrays of the simulation; the cost table, the search for plans on
  top of it and the simulations with arrival times; the scripts of the artifact.
\<close>

end
